(* ===== verification/Prelude.thy ===== *)
theory Prelude
  imports Main "HOL-Library.Word" "HOL-Library.Signed_Division"
begin

text \<open>
  Shared vocabulary of the development: bytes and byte buffers, the fixed-width C integers
  that are read from and written to them (little endian, as on the Xtensa and RISC-V targets),
  and the lemmas on lists and buffers that the component theories share.

  C integers.  An \<open>int\<close>, \<open>int32_t\<close> or \<open>int64_t\<close> variable is an \<open>int\<close>; where a value is
  converted to a width that may not hold it, the conversion is written out with \<open>i16\<close>, \<open>i32\<close>
  or \<open>i64\<close> (two's complement wrap).  \<open>uint64_t\<close> and bit maps are \<open>64 word\<close>, bytes are
  \<open>8 word\<close>.  C's division and remainder on signed values truncate: they are \<open>sdiv\<close> and
  \<open>smod\<close> of the library.

  Buffers.  A message is the list of bytes from the start of the message to the end of the
  buffer that holds it; the received length is passed separately, as in the code.
  \<open>field off k b\<close> reads \<open>k\<close> bytes at offset \<open>off\<close>; \<open>put off xs b\<close> is a \<open>memcpy\<close> of \<open>xs\<close>
  to offset \<open>off\<close>: when it writes past the end of the buffer the list grows, so that a buffer
  overflow of the code is visible as a buffer that no longer has its declared size.
\<close>

unbundle bit_operations_syntax

named_theorems wire_simps \<open>reading back the fields of a message after writes to its buffer\<close>
named_theorems inv_intros \<open>preservation of component invariants\<close>
named_theorems reject_simps \<open>operations on inputs that their guards refuse\<close>

type_synonym u8 = "8 word"
type_synonym u64 = "64 word"
type_synonym bytes = "u8 list"

section \<open>C integer conversions\<close>

definition i16 :: "int \<Rightarrow> int" where
  "i16 x = signed_take_bit 15 x"

definition i32 :: "int \<Rightarrow> int" where
  "i32 x = signed_take_bit 31 x"

definition i64 :: "int \<Rightarrow> int" where
  "i64 x = signed_take_bit 63 x"

definition INT32_MAX :: int where
  "INT32_MAX = 2147483647"

definition INT16_MAX :: int where
  "INT16_MAX = 32767"

lemma i16_id: "- 32768 \<le> x \<Longrightarrow> x < 32768 \<Longrightarrow> i16 x = x"
  unfolding i16_def by (rule signed_take_bit_int_eq_self) simp_all

lemma i32_id: "- 2147483648 \<le> x \<Longrightarrow> x < 2147483648 \<Longrightarrow> i32 x = x"
  unfolding i32_def by (rule signed_take_bit_int_eq_self) simp_all

lemma i64_id: "- 9223372036854775808 \<le> x \<Longrightarrow> x < 9223372036854775808 \<Longrightarrow> i64 x = x"
  unfolding i64_def by (rule signed_take_bit_int_eq_self) simp_all

lemma i32_range: "- 2147483648 \<le> i32 x \<and> i32 x < 2147483648"
  using signed_take_bit_int_greater_eq_minus_exp [of 31 x] signed_take_bit_int_less_exp [of 31 x]
  by (simp add: i32_def)

section \<open>Byte buffers\<close>

definition byte_at :: "bytes \<Rightarrow> nat \<Rightarrow> u8" where
  "byte_at b i = (if i < length b then b ! i else 0)"

definition field :: "nat \<Rightarrow> nat \<Rightarrow> bytes \<Rightarrow> bytes" where
  "field off k b = map (byte_at b) [off ..< off + k]"

definition put :: "nat \<Rightarrow> bytes \<Rightarrow> bytes \<Rightarrow> bytes" where
  "put off xs b = take off b @ xs @ drop (off + length xs) b"

lemma length_field [simp]: "length (field off k b) = k"
  by (simp add: field_def)

lemma field_nth: "i < k \<Longrightarrow> field off k b ! i = byte_at b (off + i)"
  by (simp add: field_def)

lemma field_eq_take_drop: "off + k \<le> length b \<Longrightarrow> field off k b = take k (drop off b)"
  by (rule nth_equalityI) (auto simp: field_nth byte_at_def)

lemma length_put: "off \<le> length b \<Longrightarrow> length (put off xs b) = max (length b) (off + length xs)"
  by (simp add: put_def)

lemma length_put_in [simp]:
  "off + length xs \<le> length b \<Longrightarrow> length (put off xs b) = length b"
  by (simp add: put_def)

lemma byte_at_put:
  assumes "off \<le> length b"
  shows "byte_at (put off xs b) i =
    (if off \<le> i \<and> i < off + length xs then xs ! (i - off) else byte_at b i)"
  using assms by (auto simp: byte_at_def put_def nth_append min_def)

lemma field_put_same [wire_simps]:
  "off \<le> length b \<Longrightarrow> length xs = k \<Longrightarrow> field off k (put off xs b) = xs"
  by (rule nth_equalityI) (auto simp: field_nth byte_at_put)

lemma field_put_other [wire_simps]:
  "off \<le> length b \<Longrightarrow> o' + k \<le> off \<or> off + length xs \<le> o' \<Longrightarrow>
   field o' k (put off xs b) = field o' k b"
  by (rule nth_equalityI) (auto simp: field_nth byte_at_put)

lemma field_append_left: "off + k \<le> length a \<Longrightarrow> field off k (a @ b) = field off k a"
  by (rule nth_equalityI) (auto simp: field_nth byte_at_def nth_append)

lemma field_take: "off + k \<le> n \<Longrightarrow> field off k (take n b) = field off k b"
  by (rule nth_equalityI) (auto simp: field_nth byte_at_def)

lemma field_put_prefix:
  assumes "off + k \<le> n" "n \<le> length m"
  shows "field off k (put 0 (take n m) b) = field off k m"
proof (rule nth_equalityI)
  fix i assume "i < length (field off k (put 0 (take n m) b))"
  with assms have "byte_at (put 0 (take n m) b) (off + i) = byte_at m (off + i)"
    by (simp add: byte_at_put) (simp add: byte_at_def)
  with \<open>i < _\<close> show "field off k (put 0 (take n m) b) ! i = field off k m ! i"
    by (simp add: field_nth)
qed simp

section \<open>Little-endian integers\<close>

fun le_val :: "bytes \<Rightarrow> int" where
  "le_val [] = 0"
| "le_val (b # bs) = uint b + 256 * le_val bs"

fun le_bytes :: "nat \<Rightarrow> int \<Rightarrow> bytes" where
  "le_bytes 0 v = []"
| "le_bytes (Suc n) v = word_of_int v # le_bytes n (v div 256)"

lemma length_le_bytes [simp]: "length (le_bytes n v) = n"
  by (induction n arbitrary: v) auto

lemma le_val_bounds: "0 \<le> le_val bs \<and> le_val bs < 256 ^ length bs"
proof (induction bs)
  case Nil
  then show ?case by simp
next
  case (Cons b bs)
  have "uint b < 256" using uint_lt2p [of b] by simp
  with Cons.IH show ?case by auto
qed

lemma le_val_le_bytes: "le_val (le_bytes n v) = v mod 256 ^ n"
proof (induction n arbitrary: v)
  case 0
  then show ?case by simp
next
  case (Suc n)
  have "v mod (256 * 256 ^ n) = 256 * (v div 256 mod 256 ^ n) + v mod 256"
    by (rule zmod_zmult2_eq) simp
  with Suc.IH show ?case by (simp add: uint_word_of_int take_bit_eq_mod)
qed

lemma word_eqI_uint: "uint a = uint (b :: u8) \<Longrightarrow> a = b"
  by (simp add: word_uint_eq_iff)

lemma le_bytes_le_val: "le_bytes (length bs) (le_val bs) = bs"
proof (induction bs)
  case Nil
  then show ?case by simp
next
  case (Cons b bs)
  have "(uint b + 256 * le_val bs) div 256 = le_val bs"
    using uint_lt2p [of b] by simp
  moreover have "word_of_int (uint b + 256 * le_val bs) = b"
  proof -
    have z: "(256 :: u8) = 0" by (rule word_eqI_uint) simp
    have "word_of_int (uint b + 256 * le_val bs) = b + 256 * word_of_int (le_val bs)" by simp
    then show ?thesis by (simp only: z mult_zero_left add_0_right)
  qed
  ultimately show ?case using Cons.IH by simp
qed

definition rd_i16 :: "nat \<Rightarrow> bytes \<Rightarrow> int" where
  "rd_i16 off b = i16 (le_val (field off 2 b))"

definition rd_i32 :: "nat \<Rightarrow> bytes \<Rightarrow> int" where
  "rd_i32 off b = i32 (le_val (field off 4 b))"

definition rd_i64 :: "nat \<Rightarrow> bytes \<Rightarrow> int" where
  "rd_i64 off b = i64 (le_val (field off 8 b))"

definition rd_u64 :: "nat \<Rightarrow> bytes \<Rightarrow> u64" where
  "rd_u64 off b = word_of_int (le_val (field off 8 b))"

definition wr_i16 :: "nat \<Rightarrow> int \<Rightarrow> bytes \<Rightarrow> bytes" where
  "wr_i16 off v b = put off (le_bytes 2 v) b"

definition wr_i32 :: "nat \<Rightarrow> int \<Rightarrow> bytes \<Rightarrow> bytes" where
  "wr_i32 off v b = put off (le_bytes 4 v) b"

definition wr_i64 :: "nat \<Rightarrow> int \<Rightarrow> bytes \<Rightarrow> bytes" where
  "wr_i64 off v b = put off (le_bytes 8 v) b"

definition wr_u64 :: "nat \<Rightarrow> u64 \<Rightarrow> bytes \<Rightarrow> bytes" where
  "wr_u64 off v b = put off (le_bytes 8 (uint v)) b"

lemma i16_le_val: "i16 (le_val (le_bytes 2 v)) = i16 v"
  using signed_take_bit_take_bit [of 15 16 v]
  by (simp add: le_val_le_bytes i16_def take_bit_eq_mod)

lemma i32_le_val: "i32 (le_val (le_bytes 4 v)) = i32 v"
  using signed_take_bit_take_bit [of 31 32 v]
  by (simp add: le_val_le_bytes i32_def take_bit_eq_mod)

lemma i64_le_val: "i64 (le_val (le_bytes 8 v)) = i64 v"
  using signed_take_bit_take_bit [of 63 64 v]
  by (simp add: le_val_le_bytes i64_def take_bit_eq_mod)

lemma u64_le_val: "word_of_int (le_val (le_bytes 8 (uint w))) = (w :: u64)"
  using uint_lt2p [of w] by (simp add: le_val_le_bytes)

lemma length_wr [simp]:
  "off + 2 \<le> length b \<Longrightarrow> length (wr_i16 off v b) = length b"
  "off + 4 \<le> length b \<Longrightarrow> length (wr_i32 off v b) = length b"
  "off + 8 \<le> length b \<Longrightarrow> length (wr_i64 off v b) = length b"
  "off + 8 \<le> length b \<Longrightarrow> length (wr_u64 off w b) = length b"
  by (simp_all add: wr_i16_def wr_i32_def wr_i64_def wr_u64_def)

lemma rd_wr_same [wire_simps]:
  "off \<le> length b \<Longrightarrow> rd_i16 off (wr_i16 off v b) = i16 v"
  "off \<le> length b \<Longrightarrow> rd_i32 off (wr_i32 off v b) = i32 v"
  "off \<le> length b \<Longrightarrow> rd_i64 off (wr_i64 off v b) = i64 v"
  "off \<le> length b \<Longrightarrow> rd_u64 off (wr_u64 off w b) = w"
  by (simp_all add: rd_i16_def rd_i32_def rd_i64_def rd_u64_def wr_i16_def wr_i32_def wr_i64_def
      wr_u64_def field_put_same i16_le_val i32_le_val i64_le_val u64_le_val)

lemma field_wr_other [wire_simps]:
  "off \<le> length b \<Longrightarrow> o' + k \<le> off \<or> off + 2 \<le> o' \<Longrightarrow> field o' k (wr_i16 off v b) = field o' k b"
  "off \<le> length b \<Longrightarrow> o' + k \<le> off \<or> off + 4 \<le> o' \<Longrightarrow> field o' k (wr_i32 off v b) = field o' k b"
  "off \<le> length b \<Longrightarrow> o' + k \<le> off \<or> off + 8 \<le> o' \<Longrightarrow> field o' k (wr_i64 off v b) = field o' k b"
  "off \<le> length b \<Longrightarrow> o' + k \<le> off \<or> off + 8 \<le> o' \<Longrightarrow> field o' k (wr_u64 off w b) = field o' k b"
  by (simp_all add: wr_i16_def wr_i32_def wr_i64_def wr_u64_def field_put_other)

lemma rd_field_cong:
  "field off 2 a = field off 2 b \<Longrightarrow> rd_i16 off a = rd_i16 off b"
  "field off 4 a = field off 4 b \<Longrightarrow> rd_i32 off a = rd_i32 off b"
  "field off 8 a = field off 8 b \<Longrightarrow> rd_i64 off a = rd_i64 off b"
  "field off 8 a = field off 8 b \<Longrightarrow> rd_u64 off a = rd_u64 off b"
  by (simp_all add: rd_i16_def rd_i32_def rd_i64_def rd_u64_def)

lemmas rd_defs = rd_i16_def rd_i32_def rd_i64_def rd_u64_def

text \<open>Reading a field that a write does not touch.\<close>

lemma rd_put_other [wire_simps]:
  "off \<le> length b \<Longrightarrow> o' + 2 \<le> off \<or> off + length xs \<le> o' \<Longrightarrow> rd_i16 o' (put off xs b) = rd_i16 o' b"
  "off \<le> length b \<Longrightarrow> o' + 4 \<le> off \<or> off + length xs \<le> o' \<Longrightarrow> rd_i32 o' (put off xs b) = rd_i32 o' b"
  "off \<le> length b \<Longrightarrow> o' + 8 \<le> off \<or> off + length xs \<le> o' \<Longrightarrow> rd_i64 o' (put off xs b) = rd_i64 o' b"
  "off \<le> length b \<Longrightarrow> o' + 8 \<le> off \<or> off + length xs \<le> o' \<Longrightarrow> rd_u64 o' (put off xs b) = rd_u64 o' b"
  by (simp_all add: rd_defs field_put_other)

lemma rd_i16_wr_other [wire_simps]:
  "off \<le> length b \<Longrightarrow> o' + 2 \<le> off \<or> off + 2 \<le> o' \<Longrightarrow> rd_i16 o' (wr_i16 off v b) = rd_i16 o' b"
  "off \<le> length b \<Longrightarrow> o' + 2 \<le> off \<or> off + 4 \<le> o' \<Longrightarrow> rd_i16 o' (wr_i32 off v b) = rd_i16 o' b"
  "off \<le> length b \<Longrightarrow> o' + 2 \<le> off \<or> off + 8 \<le> o' \<Longrightarrow> rd_i16 o' (wr_i64 off v b) = rd_i16 o' b"
  "off \<le> length b \<Longrightarrow> o' + 2 \<le> off \<or> off + 8 \<le> o' \<Longrightarrow> rd_i16 o' (wr_u64 off w b) = rd_i16 o' b"
  by (simp_all add: rd_defs field_wr_other)

lemma rd_i32_wr_other [wire_simps]:
  "off \<le> length b \<Longrightarrow> o' + 4 \<le> off \<or> off + 2 \<le> o' \<Longrightarrow> rd_i32 o' (wr_i16 off v b) = rd_i32 o' b"
  "off \<le> length b \<Longrightarrow> o' + 4 \<le> off \<or> off + 4 \<le> o' \<Longrightarrow> rd_i32 o' (wr_i32 off v b) = rd_i32 o' b"
  "off \<le> length b \<Longrightarrow> o' + 4 \<le> off \<or> off + 8 \<le> o' \<Longrightarrow> rd_i32 o' (wr_i64 off v b) = rd_i32 o' b"
  "off \<le> length b \<Longrightarrow> o' + 4 \<le> off \<or> off + 8 \<le> o' \<Longrightarrow> rd_i32 o' (wr_u64 off w b) = rd_i32 o' b"
  by (simp_all add: rd_defs field_wr_other)

lemma rd_i64_wr_other [wire_simps]:
  "off \<le> length b \<Longrightarrow> o' + 8 \<le> off \<or> off + 2 \<le> o' \<Longrightarrow> rd_i64 o' (wr_i16 off v b) = rd_i64 o' b"
  "off \<le> length b \<Longrightarrow> o' + 8 \<le> off \<or> off + 4 \<le> o' \<Longrightarrow> rd_i64 o' (wr_i32 off v b) = rd_i64 o' b"
  "off \<le> length b \<Longrightarrow> o' + 8 \<le> off \<or> off + 8 \<le> o' \<Longrightarrow> rd_i64 o' (wr_i64 off v b) = rd_i64 o' b"
  "off \<le> length b \<Longrightarrow> o' + 8 \<le> off \<or> off + 8 \<le> o' \<Longrightarrow> rd_i64 o' (wr_u64 off w b) = rd_i64 o' b"
  by (simp_all add: rd_defs field_wr_other)

lemma rd_u64_wr_other [wire_simps]:
  "off \<le> length b \<Longrightarrow> o' + 8 \<le> off \<or> off + 2 \<le> o' \<Longrightarrow> rd_u64 o' (wr_i16 off v b) = rd_u64 o' b"
  "off \<le> length b \<Longrightarrow> o' + 8 \<le> off \<or> off + 4 \<le> o' \<Longrightarrow> rd_u64 o' (wr_i32 off v b) = rd_u64 o' b"
  "off \<le> length b \<Longrightarrow> o' + 8 \<le> off \<or> off + 8 \<le> o' \<Longrightarrow> rd_u64 o' (wr_i64 off v b) = rd_u64 o' b"
  "off \<le> length b \<Longrightarrow> o' + 8 \<le> off \<or> off + 8 \<le> o' \<Longrightarrow> rd_u64 o' (wr_u64 off w b) = rd_u64 o' b"
  by (simp_all add: rd_defs field_wr_other)

text \<open>A zeroed buffer.\<close>

lemma field_zeros [simp]: "field off k (replicate n 0) = replicate k 0"
  by (rule nth_equalityI) (auto simp: field_nth byte_at_def)

lemma le_val_zeros [simp]: "le_val (replicate k 0) = 0"
  by (induction k) auto

lemma rd_zeros [simp]:
  "rd_i16 off (replicate n 0) = 0" "rd_i32 off (replicate n 0) = 0"
  "rd_i64 off (replicate n 0) = 0" "rd_u64 off (replicate n 0) = 0"
  by (simp_all add: rd_defs i16_def i32_def i64_def)

lemma take_eq_field:
  assumes "take n a = take n b" "off + k \<le> n"
  shows "field off k a = field off k b"
proof (rule nth_equalityI)
  fix i assume "i < length (field off k a)"
  then have i: "i < k" by simp
  have "byte_at (take n a) (off + i) = byte_at (take n b) (off + i)" using assms(1) by simp
  then show "field off k a ! i = field off k b ! i"
    using i assms(2) by (simp add: field_nth byte_at_def split: if_splits)
qed simp

section \<open>Lists\<close>

lemma nth_list_update_eq_if:
  "i < length xs \<Longrightarrow> xs[i := x] ! j = (if i = j then x else xs ! j)"
  by simp

lemma sum_list_update_Suc:
  "i < length xs \<Longrightarrow> sum_list (xs[i := Suc (xs ! i)]) = Suc (sum_list xs)"
  by (induction xs arbitrary: i) (auto split: nat.splits)

lemma and_mask_mod: "(x :: int) AND (2 ^ k - 1) = x mod 2 ^ k"
  by (simp add: take_bit_eq_mask [symmetric] mask_eq_exp_minus_1 [symmetric] take_bit_eq_mod)

lemma list_all_update: "list_all P xs \<Longrightarrow> P y \<Longrightarrow> list_all P (xs[i := y])"
  using set_update_subset_insert [of xs i y] by (auto simp: list_all_iff)

end
