(* ===== verification/Config.thy ===== *)
theory Config
  imports Prelude
begin

text \<open>
  The compile-time parameters of \<open>src/tbft_config.h\<close>.  The values come from Kconfig (a file
  the build generates), so they are a record that the model takes as a parameter \<open>c\<close>; the
  derived sizes are its functions and the static assertions of \<open>tbft_config.h\<close> and
  \<open>tbft_message.h\<close> are the predicate \<open>cfg_ok\<close>, a hypothesis of the theorems that need it.
  \<open>default_config\<close> holds the defaults of \<open>Kconfig.projbuild\<close>; it satisfies \<open>cfg_ok\<close>.
\<close>

record config =
  TBFT_MAX_MESSAGE_SIZE :: nat
  TBFT_MAX_REPLY_SIZE :: nat
  TBFT_BLOCK_SIZE :: nat
  TBFT_MAX_NUM_REPLICAS :: nat
  TBFT_WINDOW_SIZE :: nat
  TBFT_CHECKPOINT_INTERVAL :: nat
  TBFT_MAX_NUM_CLIENTS :: nat
  TBFT_MAX_STATE_BLOCKS :: nat
  TBFT_RQUEUE_MAX :: nat
  TBFT_NDET_BUF_SIZE :: nat
  TBFT_P_LEVELS :: nat
  TBFT_VIEW_CHANGE_TIMEOUT_US :: int
  TBFT_STATUS_TIMEOUT_US :: int
  TBFT_RECOVERY_TIMEOUT_US :: int
  TBFT_CLIENT_REPLY_TIMEOUT_MS :: int

section \<open>Derived constants\<close>

definition TBFT_DIGEST_SIZE :: nat where
  "TBFT_DIGEST_SIZE = 32"

definition TBFT_HMAC_SIZE :: nat where
  "TBFT_HMAC_SIZE = 32"

definition TBFT_HMAC_KEY_SIZE :: nat where
  "TBFT_HMAC_KEY_SIZE = 32"

definition TBFT_SIG_SIZE :: nat where
  "TBFT_SIG_SIZE = 2048 div 8"

definition TBFT_AUTH_SIZE :: "config \<Rightarrow> nat" where
  "TBFT_AUTH_SIZE c = TBFT_HMAC_SIZE * (TBFT_MAX_NUM_REPLICAS c - 1)"

definition TBFT_NUM_CKPT_SLOTS :: "config \<Rightarrow> nat" where
  "TBFT_NUM_CKPT_SLOTS c = TBFT_WINDOW_SIZE c div TBFT_CHECKPOINT_INTERVAL c + 2"

definition TBFT_MAX_FAULTY :: "config \<Rightarrow> nat" where
  "TBFT_MAX_FAULTY c = (TBFT_MAX_NUM_REPLICAS c - 1) div 3"

definition TBFT_CERT_MAX_VALS :: "config \<Rightarrow> nat" where
  "TBFT_CERT_MAX_VALS c = TBFT_MAX_FAULTY c + 1"

definition TBFT_P_CHILDREN :: "config \<Rightarrow> nat" where
  "TBFT_P_CHILDREN c = (TBFT_MAX_MESSAGE_SIZE c - 40) div (TBFT_DIGEST_SIZE + 4)"

lemmas size_consts [simp] =
  TBFT_DIGEST_SIZE_def TBFT_HMAC_SIZE_def TBFT_HMAC_KEY_SIZE_def TBFT_SIG_SIZE_def

section \<open>Static assertions\<close>

definition pow2_assert :: "nat \<Rightarrow> bool" where
  "pow2_assert x \<longleftrightarrow> 0 < x \<and> x AND (x - 1) = 0"

definition cfg_ok :: "config \<Rightarrow> bool" where
  "cfg_ok c \<longleftrightarrow>
     pow2_assert (TBFT_BLOCK_SIZE c) \<and>
     TBFT_CHECKPOINT_INTERVAL c < TBFT_WINDOW_SIZE c \<and>
     pow2_assert (TBFT_WINDOW_SIZE c) \<and>
     4 \<le> TBFT_MAX_NUM_REPLICAS c \<and>
     TBFT_MAX_NUM_REPLICAS c \<le> 64 \<and>
     1 \<le> TBFT_CHECKPOINT_INTERVAL c \<and>
     TBFT_MAX_REPLY_SIZE c < TBFT_MAX_MESSAGE_SIZE c \<and>
     TBFT_MAX_MESSAGE_SIZE c mod 8 = 0 \<and>
     0 < TBFT_P_CHILDREN c \<and>
     2 \<le> TBFT_P_LEVELS c \<and>
     48 + TBFT_MAX_REPLY_SIZE c + TBFT_SIG_SIZE \<le> TBFT_MAX_MESSAGE_SIZE c"

definition default_config :: config where
  "default_config = \<lparr>
     TBFT_MAX_MESSAGE_SIZE = 1440, TBFT_MAX_REPLY_SIZE = 1136, TBFT_BLOCK_SIZE = 1024,
     TBFT_MAX_NUM_REPLICAS = 4, TBFT_WINDOW_SIZE = 16, TBFT_CHECKPOINT_INTERVAL = 8,
     TBFT_MAX_NUM_CLIENTS = 1, TBFT_MAX_STATE_BLOCKS = 256, TBFT_RQUEUE_MAX = 8,
     TBFT_NDET_BUF_SIZE = 256, TBFT_P_LEVELS = 4,
     TBFT_VIEW_CHANGE_TIMEOUT_US = 5000000, TBFT_STATUS_TIMEOUT_US = 1000000,
     TBFT_RECOVERY_TIMEOUT_US = 2500000, TBFT_CLIENT_REPLY_TIMEOUT_MS = 10000 \<rparr>"

lemma default_config_ok: "cfg_ok default_config"
  by (simp add: cfg_ok_def default_config_def pow2_assert_def TBFT_P_CHILDREN_def)

lemma default_config_simps [simp]:
  "TBFT_MAX_MESSAGE_SIZE default_config = 1440"
  "TBFT_MAX_REPLY_SIZE default_config = 1136"
  "TBFT_BLOCK_SIZE default_config = 1024"
  "TBFT_MAX_NUM_REPLICAS default_config = 4"
  "TBFT_WINDOW_SIZE default_config = 16"
  "TBFT_CHECKPOINT_INTERVAL default_config = 8"
  "TBFT_MAX_NUM_CLIENTS default_config = 1"
  "TBFT_MAX_STATE_BLOCKS default_config = 256"
  "TBFT_RQUEUE_MAX default_config = 8"
  "TBFT_NDET_BUF_SIZE default_config = 256"
  "TBFT_P_LEVELS default_config = 4"
  "TBFT_AUTH_SIZE default_config = 96"
  "TBFT_NUM_CKPT_SLOTS default_config = 4"
  "TBFT_CERT_MAX_VALS default_config = 2"
  "TBFT_P_CHILDREN default_config = 38"
  by (simp_all add: default_config_def TBFT_AUTH_SIZE_def TBFT_NUM_CKPT_SLOTS_def
      TBFT_CERT_MAX_VALS_def TBFT_MAX_FAULTY_def TBFT_P_CHILDREN_def)

text \<open>The bit trick of the static assertions does characterise the powers of two.\<close>

lemma pow2_assert_exp: "pow2_assert x \<Longrightarrow> \<exists>k. x = 2 ^ k"
proof (induction x rule: less_induct)
  case (less x)
  show ?case
  proof (cases "even x")
    case True
    then obtain y where x: "x = 2 * y" by blast
    with less.prems have y: "0 < y" by (simp add: pow2_assert_def)
    then have "x AND (x - 1) = 2 * (y AND (y - 1))"
    proof -
      from y have "(2 * y - Suc 0) div 2 = y - Suc 0" by arith
      then show ?thesis by (simp add: x and_nat_rec [of "2 * y"])
    qed
    with less.prems x y have "pow2_assert y" by (simp add: pow2_assert_def)
    with less.IH [of y] x y obtain k where "y = 2 ^ k" by auto
    with x have "x = 2 ^ Suc k" by simp
    then show ?thesis by blast
  next
    case False
    then obtain y where x: "x = 2 * y + 1" by (blast elim: oddE)
    have "x AND (x - 1) = 2 * y" by (simp add: x and_nat_rec [of "Suc (2 * y)"])
    with less.prems x have "x = 2 ^ 0" by (simp add: pow2_assert_def)
    then show ?thesis by blast
  qed
qed

lemma cfg_ok_simps:
  assumes "cfg_ok c"
  shows "0 < TBFT_WINDOW_SIZE c" "1 \<le> TBFT_CHECKPOINT_INTERVAL c"
    "TBFT_CHECKPOINT_INTERVAL c < TBFT_WINDOW_SIZE c"
    "4 \<le> TBFT_MAX_NUM_REPLICAS c" "TBFT_MAX_NUM_REPLICAS c \<le> 64"
    "304 \<le> TBFT_MAX_MESSAGE_SIZE c" "0 < TBFT_BLOCK_SIZE c" "2 \<le> TBFT_P_LEVELS c"
  using assms by (auto simp: cfg_ok_def pow2_assert_def)

lemma window_mask_mod:
  assumes "cfg_ok c"
  shows "(x :: int) AND (int (TBFT_WINDOW_SIZE c) - 1) = x mod int (TBFT_WINDOW_SIZE c)"
proof -
  from assms obtain k where "TBFT_WINDOW_SIZE c = 2 ^ k"
    using pow2_assert_exp by (auto simp: cfg_ok_def)
  then show ?thesis by (simp add: and_mask_mod)
qed

end
