(* ===== verification/Types.thy ===== *)
theory Types
  imports Config
begin

text \<open>
  The scalar types and the sender bitmap of \<open>src/tbft_types.h\<close>.  A bitmap is a 64-bit word;
  the operations ignore indices outside \<open>[0, 64)\<close>, as the code does.  \<open>members\<close> is the set a
  bitmap stands for; the lemmas state each operation on it.
\<close>

type_synonym digest = bytes
type_synonym bitmap = u64

definition TBFT_ALL_REPLICAS :: int where
  "TBFT_ALL_REPLICAS = - 1"

definition tbft_bitmap_set :: "bitmap \<Rightarrow> int \<Rightarrow> bitmap" where
  "tbft_bitmap_set bm i = (if 0 \<le> i \<and> i < 64 then bm OR push_bit (nat i) 1 else bm)"

definition tbft_bitmap_clear :: "bitmap \<Rightarrow> int \<Rightarrow> bitmap" where
  "tbft_bitmap_clear bm i = (if 0 \<le> i \<and> i < 64 then bm AND NOT (push_bit (nat i) 1) else bm)"

definition tbft_bitmap_test :: "bitmap \<Rightarrow> int \<Rightarrow> bool" where
  "tbft_bitmap_test bm i =
     (if i < 0 \<or> 64 \<le> i then False else drop_bit (nat i) bm AND 1 \<noteq> 0)"

definition tbft_bitmap_zero :: bitmap where
  "tbft_bitmap_zero = 0"

function tbft_bitmap_count :: "bitmap \<Rightarrow> nat" where
  "tbft_bitmap_count bm =
     (if bm = 0 then 0 else unat (bm AND 1) + tbft_bitmap_count (drop_bit 1 bm))"
  by pat_completeness auto
termination
proof (relation "measure unat")
  fix bm :: bitmap
  assume "bm \<noteq> 0"
  then have "0 < unat bm" by (simp add: unat_gt_0)
  then show "(drop_bit 1 bm, bm) \<in> measure unat"
    by (simp add: unat_drop_bit_eq drop_bit_eq_div unat_div)
qed simp

declare tbft_bitmap_count.simps [simp del]

definition members :: "bitmap \<Rightarrow> int set" where
  "members bm = {i. 0 \<le> i \<and> i < 64 \<and> bit bm (nat i)}"

lemma tbft_bitmap_test_iff: "tbft_bitmap_test bm i \<longleftrightarrow> i \<in> members bm"
  by (auto simp: tbft_bitmap_test_def members_def and_one_eq bit_iff_odd_drop_bit odd_iff_mod_2_eq_one)

lemma members_zero [simp]: "members 0 = {}"
  by (simp add: members_def)

lemma members_set:
  "members (tbft_bitmap_set bm i) = (if 0 \<le> i \<and> i < 64 then insert i (members bm) else members bm)"
  by (auto simp: members_def tbft_bitmap_set_def bit_or_iff bit_exp_iff possible_bit_word)

lemma members_clear: "members (tbft_bitmap_clear bm i) = members bm - {i}"
  by (auto simp: members_def tbft_bitmap_clear_def bit_and_iff bit_not_iff bit_exp_iff possible_bit_word)

lemma finite_members [simp]: "finite (members bm)"
  by (rule finite_subset [of _ "{0 ..< 64}"]) (auto simp: members_def)

lemma test_set_same: "0 \<le> i \<Longrightarrow> i < 64 \<Longrightarrow> tbft_bitmap_test (tbft_bitmap_set bm i) i"
  by (simp add: tbft_bitmap_test_iff members_set)

lemma card_bits_count: "tbft_bitmap_count bm = card {k. bit bm k}"
proof (induction bm rule: tbft_bitmap_count.induct)
  case (1 bm)
  show ?case
  proof (cases "bm = 0")
    case True
    then show ?thesis by (simp add: tbft_bitmap_count.simps)
  next
    case False
    have fin: "finite {k. bit (drop_bit 1 bm) k}"
      by (rule finite_subset [of _ "{..< 64}"]) (auto dest: bit_imp_le_length)
    have split: "{k. bit bm k} = (if bit bm 0 then {0} else {}) \<union> Suc ` {k. bit (drop_bit 1 bm) k}"
    proof (rule set_eqI)
      fix k show "k \<in> {k. bit bm k} \<longleftrightarrow>
        k \<in> (if bit bm 0 then {0} else {}) \<union> Suc ` {k. bit (drop_bit 1 bm) k}"
        by (cases k) (auto simp: bit_drop_bit_eq)
    qed
    have "card {k. bit bm k} = (if bit bm 0 then 1 else 0) + card {k. bit (drop_bit 1 bm) k}"
      using fin by (subst split) (auto simp: card_image)
    moreover have "unat (bm AND 1) = (if bit bm 0 then 1 else 0)"
      by (simp add: and_one_eq bit_0 odd_iff_mod_2_eq_one)
    ultimately show ?thesis using "1.IH" False by (simp add: tbft_bitmap_count.simps [of bm])
  qed
qed

lemma bitmap_count_members: "tbft_bitmap_count bm = card (members bm)"
proof -
  have "bij_betw int {k. bit bm k} (members bm)"
    by (rule bij_betw_byWitness [where f' = nat]) (auto simp: members_def dest: bit_imp_le_length)
  from bij_betw_same_card [OF this] show ?thesis by (simp add: card_bits_count)
qed

end
