(* ===== verification/Message.thy ===== *)
theory Message
  imports Types
begin

text \<open>
  The wire format of \<open>src/tbft_message.h\<close> and the helpers of \<open>tbft_message.c\<close>.  Every message is
  a packed struct at the start of its buffer; a field of the struct is the accessor named after
  it, which reads the buffer at the field's offset, and \<open>sizeof\<close> of the struct is the constant
  \<open>sz_...\<close>.  The hash is PSA Crypto's SHA-256, a parameter: \<open>H data\<close> is the digest, or \<open>None\<close>
  when \<open>psa_hash_compute\<close> fails.
\<close>

section \<open>Tags\<close>

datatype tbft_msg_tag =
    TBFT_MSG_REQUEST | TBFT_MSG_REPLY | TBFT_MSG_PRE_PREPARE | TBFT_MSG_PREPARE
  | TBFT_MSG_COMMIT | TBFT_MSG_CHECKPOINT | TBFT_MSG_STATUS | TBFT_MSG_VIEW_CHANGE
  | TBFT_MSG_NEW_VIEW | TBFT_MSG_VIEW_CHANGE_ACK | TBFT_MSG_NEW_KEY | TBFT_MSG_META_DATA
  | TBFT_MSG_META_DATA_D | TBFT_MSG_DATA | TBFT_MSG_FETCH | TBFT_MSG_QUERY_STABLE
  | TBFT_MSG_REPLY_STABLE | TBFT_MSG_FILL_REQUEST

fun tag_val :: "tbft_msg_tag \<Rightarrow> int" where
  "tag_val TBFT_MSG_REQUEST = 1"
| "tag_val TBFT_MSG_REPLY = 2"
| "tag_val TBFT_MSG_PRE_PREPARE = 3"
| "tag_val TBFT_MSG_PREPARE = 4"
| "tag_val TBFT_MSG_COMMIT = 5"
| "tag_val TBFT_MSG_CHECKPOINT = 6"
| "tag_val TBFT_MSG_STATUS = 7"
| "tag_val TBFT_MSG_VIEW_CHANGE = 8"
| "tag_val TBFT_MSG_NEW_VIEW = 9"
| "tag_val TBFT_MSG_VIEW_CHANGE_ACK = 10"
| "tag_val TBFT_MSG_NEW_KEY = 11"
| "tag_val TBFT_MSG_META_DATA = 12"
| "tag_val TBFT_MSG_META_DATA_D = 13"
| "tag_val TBFT_MSG_DATA = 14"
| "tag_val TBFT_MSG_FETCH = 15"
| "tag_val TBFT_MSG_QUERY_STABLE = 16"
| "tag_val TBFT_MSG_REPLY_STABLE = 17"
| "tag_val TBFT_MSG_FILL_REQUEST = 18"

lemma tag_val_range: "1 \<le> tag_val t \<and> tag_val t \<le> 18"
  by (cases t) simp_all

lemma tag_val_inject [simp]: "tag_val t = tag_val u \<longleftrightarrow> t = u"
  by (cases t; cases u) simp_all

lemma i16_tag_val [simp]: "i16 (tag_val t) = tag_val t"
  using tag_val_range [of t] by (intro i16_id) auto

section \<open>Struct layouts\<close>

definition sz_hdr :: nat where "sz_hdr = 16"
definition hdr_tag :: "bytes \<Rightarrow> int" where "hdr_tag b = rd_i16 0 b"
definition hdr_extra :: "bytes \<Rightarrow> int" where "hdr_extra b = rd_i16 2 b"
definition hdr_size :: "bytes \<Rightarrow> int" where "hdr_size b = rd_i32 4 b"
definition hdr_timestamp_us :: "bytes \<Rightarrow> int" where "hdr_timestamp_us b = rd_i64 8 b"

definition sz_request :: nat where "sz_request = 68"
definition req_od :: "bytes \<Rightarrow> digest" where "req_od b = field 16 32 b"
definition req_cid :: "bytes \<Rightarrow> int" where "req_cid b = rd_i32 48 b"
definition req_rid :: "bytes \<Rightarrow> u64" where "req_rid b = rd_u64 52 b"
definition req_replier :: "bytes \<Rightarrow> int" where "req_replier b = rd_i32 60 b"
definition req_command_size :: "bytes \<Rightarrow> int" where "req_command_size b = rd_i32 64 b"

definition sz_reply :: nat where "sz_reply = 48"
definition rep_view :: "bytes \<Rightarrow> int" where "rep_view b = rd_i64 16 b"
definition rep_seqno :: "bytes \<Rightarrow> int" where "rep_seqno b = rd_i64 24 b"
definition rep_cid :: "bytes \<Rightarrow> int" where "rep_cid b = rd_i32 32 b"
definition rep_rid :: "bytes \<Rightarrow> u64" where "rep_rid b = rd_u64 36 b"
definition rep_reply_size :: "bytes \<Rightarrow> int" where "rep_reply_size b = rd_i32 44 b"

definition sz_pre_prepare :: nat where "sz_pre_prepare = 72"
definition pp_view :: "bytes \<Rightarrow> int" where "pp_view b = rd_i64 16 b"
definition pp_seqno :: "bytes \<Rightarrow> int" where "pp_seqno b = rd_i64 24 b"
definition pp_digest :: "bytes \<Rightarrow> digest" where "pp_digest b = field 32 32 b"
definition pp_rset_size :: "bytes \<Rightarrow> int" where "pp_rset_size b = rd_i32 64 b"
definition pp_non_det_size :: "bytes \<Rightarrow> int" where "pp_non_det_size b = rd_i16 68 b"

text \<open>Prepare and Commit have the same layout.\<close>

definition sz_prepare :: nat where "sz_prepare = 72"
definition prep_view :: "bytes \<Rightarrow> int" where "prep_view b = rd_i64 16 b"
definition prep_seqno :: "bytes \<Rightarrow> int" where "prep_seqno b = rd_i64 24 b"
definition prep_digest :: "bytes \<Rightarrow> digest" where "prep_digest b = field 32 32 b"
definition prep_id :: "bytes \<Rightarrow> int" where "prep_id b = rd_i32 64 b"

definition sz_commit :: nat where "sz_commit = 72"
definition cm_view :: "bytes \<Rightarrow> int" where "cm_view b = rd_i64 16 b"
definition cm_seqno :: "bytes \<Rightarrow> int" where "cm_seqno b = rd_i64 24 b"
definition cm_digest :: "bytes \<Rightarrow> digest" where "cm_digest b = field 32 32 b"
definition cm_id :: "bytes \<Rightarrow> int" where "cm_id b = rd_i32 64 b"

definition sz_checkpoint :: nat where "sz_checkpoint = 64"
definition ckpt_seqno :: "bytes \<Rightarrow> int" where "ckpt_seqno b = rd_i64 16 b"
definition ckpt_digest :: "bytes \<Rightarrow> digest" where "ckpt_digest b = field 24 32 b"
definition ckpt_id :: "bytes \<Rightarrow> int" where "ckpt_id b = rd_i32 56 b"

definition sz_status :: nat where "sz_status = 56"
definition st_view :: "bytes \<Rightarrow> int" where "st_view b = rd_i64 16 b"
definition st_last_stable :: "bytes \<Rightarrow> int" where "st_last_stable b = rd_i64 24 b"
definition st_last_prepared :: "bytes \<Rightarrow> int" where "st_last_prepared b = rd_i64 32 b"
definition st_last_executed :: "bytes \<Rightarrow> int" where "st_last_executed b = rd_i64 40 b"
definition st_id :: "bytes \<Rightarrow> int" where "st_id b = rd_i32 48 b"

text \<open>Entries embedded in View_change and New_view: offset \<open>o\<close> is where the entry starts.\<close>

definition sz_vc_ckpt :: nat where "sz_vc_ckpt = 40"
definition sz_vc_req_info :: nat where "sz_vc_req_info = 48"
definition vcr_seqno :: "nat \<Rightarrow> bytes \<Rightarrow> int" where "vcr_seqno off b = rd_i64 off b"
definition vcr_last_view :: "nat \<Rightarrow> bytes \<Rightarrow> int" where "vcr_last_view off b = rd_i64 (off + 8) b"
definition vcr_digest :: "nat \<Rightarrow> bytes \<Rightarrow> digest" where "vcr_digest off b = field (off + 16) 32 b"

definition sz_view_change :: nat where "sz_view_change = 48"
definition vc_v :: "bytes \<Rightarrow> int" where "vc_v b = rd_i64 16 b"
definition vc_ls :: "bytes \<Rightarrow> int" where "vc_ls b = rd_i64 24 b"
definition vc_n_ckpts :: "bytes \<Rightarrow> int" where "vc_n_ckpts b = rd_i32 32 b"
definition vc_n_reqs :: "bytes \<Rightarrow> int" where "vc_n_reqs b = rd_i32 36 b"
definition vc_id :: "bytes \<Rightarrow> int" where "vc_id b = rd_i32 40 b"

definition sz_new_view :: nat where "sz_new_view = 48"
definition nv_v :: "bytes \<Rightarrow> int" where "nv_v b = rd_i64 16 b"
definition nv_min :: "bytes \<Rightarrow> int" where "nv_min b = rd_i64 24 b"
definition nv_max :: "bytes \<Rightarrow> int" where "nv_max b = rd_i64 32 b"
definition nv_n_prep :: "bytes \<Rightarrow> int" where "nv_n_prep b = rd_i32 40 b"
definition nv_has_sig :: "bytes \<Rightarrow> int" where "nv_has_sig b = rd_i32 44 b"

definition sz_vc_ack :: nat where "sz_vc_ack = 32"

definition sz_new_key :: nat where "sz_new_key = 24"
definition nk_id :: "bytes \<Rightarrow> int" where "nk_id b = rd_i32 16 b"
definition nk_n_keys :: "bytes \<Rightarrow> int" where "nk_n_keys b = rd_i32 20 b"
definition sz_new_key_slot :: nat where "sz_new_key_slot = 4 + 256"
definition nks_recipient_id :: "nat \<Rightarrow> bytes \<Rightarrow> int" where "nks_recipient_id off b = rd_i32 off b"
definition nks_ciphertext :: "nat \<Rightarrow> bytes \<Rightarrow> bytes" where "nks_ciphertext off b = field (off + 4) 256 b"

definition sz_part_info :: nat where "sz_part_info = 36"
definition pi_digest :: "nat \<Rightarrow> bytes \<Rightarrow> digest" where "pi_digest off b = field off 32 b"
definition pi_version :: "nat \<Rightarrow> bytes \<Rightarrow> int" where "pi_version off b = rd_i32 (off + 32) b"

definition sz_meta_data :: nat where "sz_meta_data = 40"
definition md_seqno :: "bytes \<Rightarrow> int" where "md_seqno b = rd_i64 16 b"
definition md_level :: "bytes \<Rightarrow> int" where "md_level b = rd_i32 24 b"
definition md_index :: "bytes \<Rightarrow> int" where "md_index b = rd_i32 28 b"
definition md_n_parts :: "bytes \<Rightarrow> int" where "md_n_parts b = rd_i32 32 b"

definition sz_data :: nat where "sz_data = 64"
definition data_seqno :: "bytes \<Rightarrow> int" where "data_seqno b = rd_i64 16 b"
definition data_block_index :: "bytes \<Rightarrow> int" where "data_block_index b = rd_i32 24 b"
definition data_digest :: "bytes \<Rightarrow> digest" where "data_digest b = field 32 32 b"

definition sz_fetch :: nat where "sz_fetch = 48"
definition fetch_last_stable :: "bytes \<Rightarrow> int" where "fetch_last_stable b = rd_i64 16 b"
definition fetch_c :: "bytes \<Rightarrow> int" where "fetch_c b = rd_i64 24 b"
definition fetch_level :: "bytes \<Rightarrow> int" where "fetch_level b = rd_i32 32 b"
definition fetch_index :: "bytes \<Rightarrow> int" where "fetch_index b = rd_i32 36 b"
definition fetch_id :: "bytes \<Rightarrow> int" where "fetch_id b = rd_i32 40 b"

definition sz_fill_request :: nat where "sz_fill_request = 72"
definition fill_view :: "bytes \<Rightarrow> int" where "fill_view b = rd_i64 16 b"
definition fill_seqno :: "bytes \<Rightarrow> int" where "fill_seqno b = rd_i64 24 b"
definition fill_id :: "bytes \<Rightarrow> int" where "fill_id b = rd_i32 32 b"
definition fill_mac :: "bytes \<Rightarrow> bytes" where "fill_mac b = field 40 32 b"

lemmas sz_simps [simp] = sz_hdr_def sz_request_def sz_reply_def sz_pre_prepare_def sz_prepare_def
  sz_commit_def sz_checkpoint_def sz_status_def sz_vc_ckpt_def sz_vc_req_info_def
  sz_view_change_def sz_new_view_def sz_vc_ack_def sz_new_key_def sz_new_key_slot_def
  sz_part_info_def sz_meta_data_def sz_data_def sz_fetch_def sz_fill_request_def

lemmas hdr_defs = hdr_tag_def hdr_extra_def hdr_size_def hdr_timestamp_us_def
lemmas req_defs = req_od_def req_cid_def req_rid_def req_replier_def req_command_size_def
lemmas rep_defs = rep_view_def rep_seqno_def rep_cid_def rep_rid_def rep_reply_size_def
lemmas pp_defs = pp_view_def pp_seqno_def pp_digest_def pp_rset_size_def pp_non_det_size_def
lemmas prep_defs = prep_view_def prep_seqno_def prep_digest_def prep_id_def
lemmas cm_defs = cm_view_def cm_seqno_def cm_digest_def cm_id_def
lemmas ckpt_defs = ckpt_seqno_def ckpt_digest_def ckpt_id_def
lemmas vc_defs = vc_v_def vc_ls_def vc_n_ckpts_def vc_n_reqs_def vc_id_def
lemmas nv_defs = nv_v_def nv_min_def nv_max_def nv_n_prep_def nv_has_sig_def
lemmas vcr_defs = vcr_seqno_def vcr_last_view_def vcr_digest_def
lemmas digest_field_defs =
  pp_digest_def prep_digest_def cm_digest_def ckpt_digest_def vcr_digest_def pi_digest_def
  data_digest_def req_od_def

lemma length_digest_fields [simp]:
  "length (pp_digest b) = 32" "length (prep_digest b) = 32" "length (cm_digest b) = 32"
  "length (ckpt_digest b) = 32" "length (vcr_digest off b) = 32" "length (pi_digest off b) = 32"
  "length (data_digest b) = 32" "length (req_od b) = 32" "length (fill_mac b) = 32"
  by (simp_all add: digest_field_defs fill_mac_def)

section \<open>Header helpers\<close>

definition tbft_msg_set_hdr :: "tbft_msg_tag \<Rightarrow> int \<Rightarrow> int \<Rightarrow> bytes \<Rightarrow> bytes" where
  "tbft_msg_set_hdr tag extra sz b = wr_i32 4 sz (wr_i16 2 extra (wr_i16 0 (tag_val tag) b))"

definition tbft_msg_align :: "int \<Rightarrow> int" where
  "tbft_msg_align sz =
     (if sz < 0 then - 1
      else if INT32_MAX - 7 < sz then - 1
      else (sz + 7) AND NOT 7)"

lemma set_hdr_fields:
  assumes "16 \<le> length b"
  shows "hdr_tag (tbft_msg_set_hdr t e s b) = tag_val t"
    "hdr_extra (tbft_msg_set_hdr t e s b) = i16 e"
    "hdr_size (tbft_msg_set_hdr t e s b) = i32 s"
    "hdr_timestamp_us (tbft_msg_set_hdr t e s b) = hdr_timestamp_us b"
  using assms by (simp_all add: tbft_msg_set_hdr_def hdr_defs wire_simps)

lemma and_not7: "(x :: int) AND NOT 7 = 8 * (x div 8)"
proof -
  have "x AND NOT (mask 3) = push_bit 3 (drop_bit 3 x)"
    by (rule bit_eqI) (auto simp: bit_simps)
  then show ?thesis by (simp add: mask_eq_exp_minus_1 push_bit_eq_mult drop_bit_eq_div mult.commute)
qed

lemmas and_minus8 = and_not7 [simplified]

lemma msg_align_eq:
  "0 \<le> s \<Longrightarrow> s \<le> 2147483640 \<Longrightarrow> tbft_msg_align s = 8 * ((s + 7) div 8)"
  by (simp add: tbft_msg_align_def INT32_MAX_def and_minus8)

lemma msg_align_spec:
  assumes "0 \<le> s" "s \<le> 2147483640"
  shows "tbft_msg_align s mod 8 = 0" "s \<le> tbft_msg_align s" "tbft_msg_align s < s + 8"
    "tbft_msg_align s \<le> INT32_MAX"
  using assms by (simp_all add: msg_align_eq INT32_MAX_def)

section \<open>Digests\<close>

definition tbft_digest_equal :: "digest \<Rightarrow> digest \<Rightarrow> bool" where
  "tbft_digest_equal a b \<longleftrightarrow>
     fold (\<lambda>i diff. diff OR (byte_at a i XOR byte_at b i)) [0 ..< TBFT_DIGEST_SIZE] 0 = (0 :: u8)"

definition tbft_digest_zero :: digest where
  "tbft_digest_zero = replicate 32 0"

definition tbft_msg_digest :: "(bytes \<Rightarrow> bytes option) \<Rightarrow> bytes \<Rightarrow> digest" where
  "tbft_msg_digest H data = (case H data of Some d \<Rightarrow> d | None \<Rightarrow> replicate TBFT_DIGEST_SIZE 255)"

text \<open>Documented behaviour of \<open>psa_hash_compute\<close> with SHA-256: a digest has 32 bytes.\<close>

definition hash_len_ok :: "(bytes \<Rightarrow> bytes option) \<Rightarrow> bool" where
  "hash_len_ok H \<longleftrightarrow> (\<forall>x d. H x = Some d \<longrightarrow> length d = 32)"

lemma length_msg_digest [simp]: "hash_len_ok H \<Longrightarrow> length (tbft_msg_digest H x) = 32"
  by (auto simp: tbft_msg_digest_def hash_len_ok_def split: option.splits)

lemma or_eq_0_word: "(a OR b = (0 :: u8)) \<longleftrightarrow> a = 0 \<and> b = 0"
  by (fact or_eq_0_iff)

lemma xor_eq_0_word: "(a XOR b = (0 :: u8)) \<longleftrightarrow> a = b"
  by (metis xor.assoc xor.right_neutral xor_self_eq)

lemma fold_or_eq_0:
  "fold (\<lambda>i diff. diff OR f i) xs (z :: u8) = 0 \<longleftrightarrow> z = 0 \<and> (\<forall>i \<in> set xs. f i = 0)"
  by (induction xs arbitrary: z) (auto simp: or_eq_0_word)

lemma digest_equal_iff_bytes: "tbft_digest_equal a b \<longleftrightarrow> (\<forall>i < 32. byte_at a i = byte_at b i)"
  by (auto simp: tbft_digest_equal_def fold_or_eq_0 xor_eq_0_word)

lemma digest_equal_iff [simp]:
  "length a = 32 \<Longrightarrow> length b = 32 \<Longrightarrow> tbft_digest_equal a b \<longleftrightarrow> a = b"
  by (auto simp: digest_equal_iff_bytes byte_at_def list_eq_iff_nth_eq)

lemma digest_equal_refl [simp]: "tbft_digest_equal a a"
  by (simp add: digest_equal_iff_bytes)

lemma digest_equal_sym: "tbft_digest_equal a b = tbft_digest_equal b a"
  by (auto simp: digest_equal_iff_bytes)

lemma digest_equal_trans:
  "tbft_digest_equal a b \<Longrightarrow> tbft_digest_equal b d \<Longrightarrow> tbft_digest_equal a d"
  by (simp add: digest_equal_iff_bytes)

end
