(* ===== verification/Partition.thy ===== *)
theory Partition
  imports Message
begin

text \<open>
  The partition tree, \<open>src/tbft_partition.h\<close> and \<open>tbft_partition.c\<close>: a Merkle tree over the
  state blocks.  A level is the list of its nodes; the arrays are sliced out of one allocation in
  the code, and the second tree \<open>stree\<close> is allocated there but never read or written.  The
  multi-part hash is PSA Crypto's: hashing in parts is hashing the concatenation, so it is the
  parameter \<open>H\<close>; \<open>None\<close> stands for a failure of any of its steps.  \<open>alloc_ok\<close> is the result of
  \<open>calloc\<close>.  \<open>long\<close> has 32 bits on the targets.
\<close>

section \<open>State and operations\<close>

record part =
  part_digest :: digest
  part_version :: int

record ptree =
  pt_levels :: nat
  pt_children :: nat
  pt_num_blocks :: int
  pt_nodes :: "part list list"
  pt_total_nodes :: int

definition part_zero :: part where
  "part_zero = \<lparr> part_digest = tbft_digest_zero, part_version = 0 \<rparr>"

function ptree_levels_loop :: "nat \<Rightarrow> int \<Rightarrow> int \<Rightarrow> int \<Rightarrow> nat \<Rightarrow> nat" where
  "ptree_levels_loop maxl num_blocks p_children nodes level =
     (if nodes < num_blocks
      then if maxl < level + 1 then level + 1
           else ptree_levels_loop maxl num_blocks p_children (i32 (nodes * p_children)) (level + 1)
      else level)"
  by pat_completeness auto
termination
  by (relation "measure (\<lambda>(maxl, _, _, _, level). maxl - level)") auto

declare ptree_levels_loop.simps [simp del]

definition ptree_compute_levels :: "config \<Rightarrow> int \<Rightarrow> int \<Rightarrow> nat" where
  "ptree_compute_levels c num_blocks p_children =
     (if p_children < 2 then TBFT_P_LEVELS c + 1
      else ptree_levels_loop (TBFT_P_LEVELS c) num_blocks p_children 1 0 + 1)"

fun ptree_nodes_loop :: "nat \<Rightarrow> int \<Rightarrow> int \<Rightarrow> int" where
  "ptree_nodes_loop 0 n p_children = n"
| "ptree_nodes_loop (Suc level) n p_children =
     (let n = i32 (n * p_children)
      in if 1000000 < n then 1000001 else ptree_nodes_loop level n p_children)"

definition ptree_nodes_at_level :: "nat \<Rightarrow> int \<Rightarrow> int" where
  "ptree_nodes_at_level level p_children = ptree_nodes_loop level 1 p_children"

definition ptree_parent :: "nat \<Rightarrow> nat \<Rightarrow> nat" where
  "ptree_parent index p_children = index div p_children"

definition ptree_first_child :: "nat \<Rightarrow> nat \<Rightarrow> nat" where
  "ptree_first_child index p_children = index * p_children"

definition ptree_init :: "config \<Rightarrow> bool \<Rightarrow> int \<Rightarrow> nat \<Rightarrow> ptree option" where
  "ptree_init c alloc_ok num_blocks p_children =
     (let levels = ptree_compute_levels c num_blocks (int p_children);
          sizes = map (\<lambda>l. ptree_nodes_at_level l (int p_children)) [0 ..< levels]
      in if TBFT_P_LEVELS c < levels then None
         else if \<exists>n \<in> set sizes. 1000000 < n then None
         else if \<not> alloc_ok then None
         else Some \<lparr> pt_levels = levels, pt_children = p_children, pt_num_blocks = num_blocks,
                     pt_nodes = map (\<lambda>n. replicate (nat n) part_zero) sizes,
                     pt_total_nodes = sum_list sizes \<rparr>)"

definition ptree_node :: "ptree \<Rightarrow> nat \<Rightarrow> nat \<Rightarrow> part" where
  "ptree_node tree level index = pt_nodes tree ! level ! index"

definition ptree_set_node :: "ptree \<Rightarrow> nat \<Rightarrow> nat \<Rightarrow> digest \<Rightarrow> int \<Rightarrow> ptree" where
  "ptree_set_node tree level index d version = tree\<lparr> pt_nodes := (pt_nodes tree)
     [level := (pt_nodes tree ! level)[index := \<lparr> part_digest = d, part_version = version \<rparr>]] \<rparr>"

text \<open>What the loop of one round feeds to the hash: the digests of the children of \<open>parent_idx\<close>.\<close>

definition ptree_child_digests :: "ptree \<Rightarrow> nat \<Rightarrow> nat \<Rightarrow> bytes" where
  "ptree_child_digests tree l parent_idx =
     (let first = ptree_first_child parent_idx (pt_children tree)
      in concat (map (\<lambda>ch. part_digest (ptree_node tree l ch))
           (takeWhile (\<lambda>ch. int ch < ptree_nodes_at_level l (int (pt_children tree)))
              [first ..< first + pt_children tree])))"

fun ptree_propagate :: "(bytes \<Rightarrow> bytes option) \<Rightarrow> int \<Rightarrow> nat \<Rightarrow> nat \<Rightarrow> ptree \<Rightarrow> bool \<times> ptree" where
  "ptree_propagate H version 0 idx tree = (True, tree)"
| "ptree_propagate H version (Suc l) idx tree =
     (let parent_idx = ptree_parent idx (pt_children tree)
      in case H (ptree_child_digests tree (Suc l) parent_idx) of
           None \<Rightarrow> (False, tree)
         | Some d \<Rightarrow> ptree_propagate H version l parent_idx (ptree_set_node tree l parent_idx d version))"

text \<open>\<open>True\<close> is the return value 0, \<open>False\<close> the return value -1.\<close>

definition ptree_update_leaf ::
  "config \<Rightarrow> (bytes \<Rightarrow> bytes option) \<Rightarrow> ptree \<Rightarrow> int \<Rightarrow> digest \<Rightarrow> int \<Rightarrow> bool \<times> ptree" where
  "ptree_update_leaf c H tree block_idx d version =
     (let leaf_level = int (pt_levels tree) - 1
      in if block_idx < 0 \<or> pt_num_blocks tree \<le> block_idx then (False, tree)
         else if leaf_level < 0 \<or> int (TBFT_P_LEVELS c) \<le> leaf_level then (False, tree)
         else ptree_propagate H version (nat leaf_level) (nat block_idx)
                (ptree_set_node tree (nat leaf_level) (nat block_idx) d version))"

definition ptree_root_digest :: "ptree \<Rightarrow> digest" where
  "ptree_root_digest tree = part_digest (ptree_node tree 0 0)"

section \<open>Dimensions\<close>

lemma nodes_loop_pow:
  assumes "0 \<le> p" "p \<le> 2147" "1 \<le> n" "n * p ^ level \<le> 1000000"
  shows "ptree_nodes_loop level n p = n * p ^ level"
  using assms(3,4)
proof (induction level arbitrary: n)
  case 0
  then show ?case by simp
next
  case (Suc level)
  show ?case
  proof (cases "p = 0")
    case True
    have "ptree_nodes_loop k 0 0 = 0" for k by (induction k) (auto simp: i32_def)
    with True show ?thesis by (simp add: i32_def)
  next
    case False
    with assms(1) have p: "1 \<le> p" by simp
    have pos: "0 < n * p" using Suc.prems(1) p by simp
    moreover have "1 \<le> p ^ level" using p by simp
    ultimately have "n * p * 1 \<le> n * p * p ^ level" by (intro mult_left_mono) auto
    moreover have "n * p ^ Suc level = n * p * p ^ level" by simp
    ultimately have np: "n * p \<le> 1000000" "1 \<le> n * p"
      using Suc.prems(2) pos by linarith+
    then have "i32 (n * p) = n * p" by (intro i32_id) auto
    then show ?thesis using Suc.IH [of "n * p"] np Suc.prems by (simp add: Let_def mult.assoc)
  qed
qed

lemma nodes_loop_small:
  "1 \<le> n \<Longrightarrow> n \<le> 1000000 \<Longrightarrow> 1 \<le> p \<Longrightarrow> p \<le> 2147 \<Longrightarrow> ptree_nodes_loop level n p \<le> 1000000 \<Longrightarrow>
   n * p ^ level \<le> 1000000"
proof (induction level arbitrary: n)
  case 0
  then show ?case by simp
next
  case (Suc level)
  have pos: "0 < n * p" using Suc.prems by simp
  have "n * p \<le> 1000000 * 2147" using Suc.prems by (intro mult_mono) auto
  then have i: "i32 (n * p) = n * p" using pos by (intro i32_id) auto
  have "n * p \<le> 1000000"
    using Suc.prems(5) by (simp add: i Let_def split: if_splits)
  moreover have "1 \<le> n * p" using pos by simp
  ultimately have "n * p * p ^ level \<le> 1000000"
    using Suc.prems by (intro Suc.IH) (auto simp: i Let_def)
  then show ?case by (simp add: mult.assoc)
qed

lemma nodes_at_level_pow:
  assumes "1 \<le> p" "p \<le> 2147" "ptree_nodes_at_level l p \<le> 1000000"
  shows "ptree_nodes_at_level l p = p ^ l"
  using nodes_loop_small [of 1 p l] nodes_loop_pow [of p 1 l] assms
  by (simp add: ptree_nodes_at_level_def)

lemma levels_loop_spec:
  assumes "2 \<le> p" "num * p \<le> INT32_MAX" "nodes = p ^ level" "level \<le> maxl"
    and "ptree_levels_loop maxl num p nodes level = r" "r \<le> maxl"
  shows "num \<le> p ^ r \<and> level \<le> r \<and> (level < r \<longrightarrow> p ^ (r - 1) < num)"
  using assms
proof (induction maxl num p nodes level arbitrary: r rule: ptree_levels_loop.induct)
  case (1 maxl num p nodes level)
  show ?case
  proof (cases "nodes < num")
    case False
    with "1.prems" show ?thesis by (simp add: ptree_levels_loop.simps)
  next
    case True
    have le: "\<not> maxl < level + 1"
      using "1.prems"(5,6) True by (auto simp: ptree_levels_loop.simps [of maxl])
    have "0 < nodes" using "1.prems"(1,3) by simp
    then have "0 < nodes * p" "nodes * p \<le> num * p"
      using True "1.prems"(1) by (simp_all add: mult_right_mono)
    then have i: "i32 (nodes * p) = p ^ (level + 1)"
      using "1.prems"(2,3) by (subst i32_id) (auto simp: INT32_MAX_def mult.commute)
    have "ptree_levels_loop maxl num p (i32 (nodes * p)) (level + 1) = r"
      using True le "1.prems"(5) by (simp add: ptree_levels_loop.simps [of maxl num p nodes level])
    from "1.IH" [OF True le "1.prems"(1,2) i _ this "1.prems"(6)] le
    have "num \<le> p ^ r \<and> level + 1 \<le> r \<and> (level + 1 < r \<longrightarrow> p ^ (r - 1) < num)" by simp
    with True "1.prems"(3) show ?thesis by (cases "level + 1 = r") auto
  qed
qed

section \<open>Well-formed trees\<close>

definition ptree_wf :: "ptree \<Rightarrow> bool" where
  "ptree_wf t \<longleftrightarrow> 1 \<le> pt_levels t \<and> 1 \<le> pt_children t \<and> length (pt_nodes t) = pt_levels t \<and>
     pt_num_blocks t \<le> int (pt_children t) ^ (pt_levels t - 1) \<and>
     (\<forall>l < pt_levels t. length (pt_nodes t ! l) = pt_children t ^ l \<and>
        ptree_nodes_at_level l (int (pt_children t)) = int (pt_children t) ^ l)"

abbreviation node_digest :: "ptree \<Rightarrow> nat \<Rightarrow> nat \<Rightarrow> digest" where
  "node_digest t l j \<equiv> part_digest (ptree_node t l j)"

lemma ptree_init_wf:
  assumes "ptree_init c a num p = Some t" "2 \<le> p" "p \<le> 2147" "num * int p \<le> INT32_MAX"
  shows "ptree_wf t" "pt_levels t \<le> TBFT_P_LEVELS c" "pt_children t = p" "pt_num_blocks t = num"
    "\<forall>l < pt_levels t. \<forall>j < p ^ l. ptree_node t l j = part_zero"
proof -
  let ?L = "ptree_compute_levels c num (int p)"
  from assms(1) have L: "?L \<le> TBFT_P_LEVELS c"
    and sizes: "\<forall>l < ?L. ptree_nodes_at_level l (int p) \<le> 1000000"
    and t: "t = \<lparr> pt_levels = ?L, pt_children = p, pt_num_blocks = num,
      pt_nodes = map (\<lambda>n. replicate (nat n) part_zero) (map (\<lambda>l. ptree_nodes_at_level l (int p)) [0 ..< ?L]),
      pt_total_nodes = sum_list (map (\<lambda>l. ptree_nodes_at_level l (int p)) [0 ..< ?L]) \<rparr>"
    by (auto simp: ptree_init_def Let_def not_less split: if_splits)
  let ?r = "ptree_levels_loop (TBFT_P_LEVELS c) num (int p) 1 0"
  have Lr: "?L = ?r + 1" using assms(2) by (simp add: ptree_compute_levels_def)
  have cover: "num \<le> int p ^ ?r"
    using levels_loop_spec [of "int p" num 1 0 "TBFT_P_LEVELS c" ?r] assms(2,4) L Lr by simp
  have pow: "ptree_nodes_at_level l (int p) = int p ^ l" if "l < ?L" for l
    using nodes_at_level_pow [of "int p" l] sizes that assms(2,3) by simp
  have len: "length (pt_nodes t ! l) = p ^ l" if "l < ?L" for l
    using that pow by (simp add: t nat_power_eq)
  show "ptree_wf t"
    using assms(2) pow len cover by (simp add: ptree_wf_def t Lr)
  show "pt_levels t \<le> TBFT_P_LEVELS c" "pt_children t = p" "pt_num_blocks t = num" using L by (simp_all add: t)
  show "\<forall>l < pt_levels t. \<forall>j < p ^ l. ptree_node t l j = part_zero"
    using pow by (simp add: t ptree_node_def nat_power_eq)
qed

lemma set_node_simps [simp]:
  "pt_levels (ptree_set_node t l i d v) = pt_levels t"
  "pt_children (ptree_set_node t l i d v) = pt_children t"
  "pt_num_blocks (ptree_set_node t l i d v) = pt_num_blocks t"
  by (simp_all add: ptree_set_node_def)

lemma set_node_wf [inv_intros]: "ptree_wf t \<Longrightarrow> ptree_wf (ptree_set_node t l i d v)"
  by (cases "l < pt_levels t") (auto simp: ptree_wf_def ptree_set_node_def nth_list_update)

lemma child_parent: "1 \<le> p \<Longrightarrow> j * p \<le> ch \<Longrightarrow> ch < j * p + p \<Longrightarrow> ch div p = (j :: nat)"
  by (intro div_nat_eqI) (auto simp: mult.commute)

lemma set_node_digest:
  assumes "ptree_wf t" "l < pt_levels t" "i < pt_children t ^ l"
  shows "node_digest (ptree_set_node t l i d v) k j = (if k = l \<and> j = i then d else node_digest t k j)"
  using assms by (auto simp: ptree_wf_def ptree_node_def ptree_set_node_def nth_list_update)

lemma parent_less: "i < p ^ Suc l \<Longrightarrow> i div p < (p :: nat) ^ l"
  by (simp add: less_mult_imp_div_less mult.commute)

lemma child_digests_eq:
  assumes "ptree_wf t" "Suc l < pt_levels t" "j < pt_children t ^ l"
  shows "ptree_child_digests t (Suc l) j =
    concat (map (node_digest t (Suc l)) [j * pt_children t ..< j * pt_children t + pt_children t])"
proof -
  have "j * pt_children t + pt_children t \<le> pt_children t ^ Suc l"
    using mult_le_mono1 [of "Suc j" "pt_children t ^ l" "pt_children t"] assms(3) by (simp add: mult.commute)
  moreover have "ptree_nodes_at_level (Suc l) (int (pt_children t)) = int (pt_children t ^ Suc l)"
    using assms(1,2) by (simp add: ptree_wf_def)
  ultimately have "takeWhile (\<lambda>ch. int ch < ptree_nodes_at_level (Suc l) (int (pt_children t)))
      [j * pt_children t ..< j * pt_children t + pt_children t] = [j * pt_children t ..< j * pt_children t + pt_children t]"
    by (subst takeWhile_eq_all_conv) (simp only: of_nat_less_iff set_upt atLeastLessThan_iff Ball_def, linarith)
  then show ?thesis unfolding ptree_child_digests_def ptree_first_child_def Let_def by (simp only:)
qed

lemma child_digests_set_other:
  assumes "ptree_wf t" "Suc k < pt_levels t" "j < pt_children t ^ k" "l < pt_levels t" "i < pt_children t ^ l"
    and "l \<noteq> Suc k \<or> i div pt_children t \<noteq> j"
  shows "ptree_child_digests (ptree_set_node t l i d v) (Suc k) j = ptree_child_digests t (Suc k) j"
proof -
  have p: "1 \<le> pt_children t" using assms(1) by (simp add: ptree_wf_def)
  have "ch \<noteq> i" if "l = Suc k" "j * pt_children t \<le> ch" "ch < j * pt_children t + pt_children t" for ch
  proof -
    have "ch div pt_children t = j" using that(2,3) p by (intro child_parent)
    with assms(6) that(1) show ?thesis by auto
  qed
  then have eq: "map (node_digest (ptree_set_node t l i d v) (Suc k)) [j * pt_children t ..< j * pt_children t + pt_children t] =
      map (node_digest t (Suc k)) [j * pt_children t ..< j * pt_children t + pt_children t]"
    by (auto simp: set_node_digest [OF assms(1,4,5)])
  have "ptree_child_digests (ptree_set_node t l i d v) (Suc k) j =
      concat (map (node_digest (ptree_set_node t l i d v) (Suc k)) [j * pt_children t ..< j * pt_children t + pt_children t])"
    using child_digests_eq [OF set_node_wf [OF assms(1)], of k l i d v j] assms(2,3) by (simp only: set_node_simps)
  then show ?thesis by (simp only: eq child_digests_eq [OF assms(1-3)])
qed

text \<open>The Merkle invariant: an inner node holds the hash of its children's digests, or nothing
  below it was ever written.\<close>

definition node_ok :: "(bytes \<Rightarrow> bytes option) \<Rightarrow> ptree \<Rightarrow> nat \<Rightarrow> nat \<Rightarrow> bool" where
  "node_ok H t k j \<longleftrightarrow>
     H (ptree_child_digests t (Suc k) j) = Some (node_digest t k j) \<or>
     node_digest t k j = tbft_digest_zero \<and>
     (\<forall>ch. j * pt_children t \<le> ch \<longrightarrow> ch < j * pt_children t + pt_children t \<longrightarrow> node_digest t (Suc k) ch = tbft_digest_zero)"

definition ptree_ok :: "(bytes \<Rightarrow> bytes option) \<Rightarrow> ptree \<Rightarrow> bool" where
  "ptree_ok H t \<longleftrightarrow> ptree_wf t \<and>
     (\<forall>k j. Suc k < pt_levels t \<longrightarrow> j < pt_children t ^ k \<longrightarrow> node_ok H t k j)"

lemma ptree_init_ok:
  assumes "ptree_init c a num p = Some t" "2 \<le> p" "p \<le> 2147" "num * int p \<le> INT32_MAX"
  shows "ptree_ok H t"
proof -
  note i = ptree_init_wf [OF assms]
  have "node_ok H t k j" if k: "Suc k < pt_levels t" and j: "j < p ^ k" for k j
  proof -
    have "ch < p ^ Suc k" if "ch < j * p + p" for ch
      using mult_le_mono1 [of "Suc j" "p ^ k" p] j that by (simp add: mult.commute)
    with i k j show ?thesis by (auto simp: node_ok_def part_zero_def)
  qed
  with i show ?thesis by (simp add: ptree_ok_def)
qed

lemma node_ok_set_other:
  assumes "ptree_wf t" "Suc k < pt_levels t" "j < pt_children t ^ k" "l < pt_levels t" "i < pt_children t ^ l"
    and "l \<noteq> Suc k \<or> i div pt_children t \<noteq> j" "(k, j) \<noteq> (l, i)" "node_ok H t k j"
  shows "node_ok H (ptree_set_node t l i d v) k j"
proof -
  have p: "1 \<le> pt_children t" using assms(1) by (simp add: ptree_wf_def)
  have "\<not> (l = Suc k \<and> ch = i)" if "j * pt_children t \<le> ch" "ch < j * pt_children t + pt_children t" for ch
  proof -
    have "ch div pt_children t = j" using that p by (intro child_parent)
    with assms(6) show ?thesis by auto
  qed
  then show ?thesis
    using assms(7,8) child_digests_set_other [OF assms(1-6)]
    by (auto simp: node_ok_def set_node_digest [OF assms(1,4,5)])
qed

lemma propagate_ok:
  assumes "ptree_wf t" "l < pt_levels t" "idx < pt_children t ^ l"
    and "\<forall>k j. Suc k < pt_levels t \<longrightarrow> j < pt_children t ^ k \<longrightarrow>
      Suc k \<noteq> l \<or> j \<noteq> idx div pt_children t \<longrightarrow> node_ok H t k j"
    and "ptree_propagate H v l idx t = (True, t')"
  shows "ptree_ok H t' \<and> pt_levels t' = pt_levels t \<and> pt_children t' = pt_children t \<and>
    pt_num_blocks t' = pt_num_blocks t \<and> (\<forall>k j. l \<le> k \<longrightarrow> node_digest t' k j = node_digest t k j)"
  using assms
proof (induction H v l idx t rule: ptree_propagate.induct)
  case (1 H v idx t)
  then show ?case by (simp add: ptree_ok_def)
next
  case (2 H v l idx t)
  let ?p = "pt_children t" and ?par = "ptree_parent idx (pt_children t)"
  from "2.prems"(5) obtain d where d: "H (ptree_child_digests t (Suc l) ?par) = Some d"
    "ptree_propagate H v l ?par (ptree_set_node t l ?par d v) = (True, t')"
    by (auto simp: Let_def split: option.splits)
  have par: "?par < ?p ^ l" using "2.prems"(3) parent_less by (simp add: ptree_parent_def)
  have l: "l < pt_levels t" using "2.prems"(2) by simp
  let ?t = "ptree_set_node t l ?par d v"
  have wf: "ptree_wf ?t" using "2.prems"(1) by (rule set_node_wf)
  have ok: "node_ok H ?t k j" if kj: "Suc k < pt_levels t" "j < ?p ^ k" "Suc k \<noteq> l \<or> j \<noteq> ?par div ?p" for k j
  proof (cases "(k, j) = (l, ?par)")
    case True
    then have "ptree_child_digests ?t (Suc l) ?par = ptree_child_digests t (Suc l) ?par"
      using kj par l "2.prems"(1) by (intro child_digests_set_other) auto
    with True d show ?thesis by (simp add: node_ok_def set_node_digest [OF "2.prems"(1) l par])
  next
    case False
    then have "node_ok H t k j" using "2.prems"(4) kj by (auto simp: ptree_parent_def)
    with False kj show ?thesis
      by (intro node_ok_set_other [OF "2.prems"(1) kj(1,2) l par]) auto
  qed
  have "ptree_ok H t' \<and> pt_levels t' = pt_levels ?t \<and> pt_children t' = pt_children ?t \<and>
    pt_num_blocks t' = pt_num_blocks ?t \<and> (\<forall>k j. l \<le> k \<longrightarrow> node_digest t' k j = node_digest ?t k j)"
    using ok d(2) l par by (intro "2.IH" [OF refl d(1) wf]) auto
  then show ?case by (auto simp: set_node_digest [OF "2.prems"(1) l par])
qed

lemma update_leaf_ok:
  assumes ok: "ptree_ok H t" and r: "ptree_update_leaf c H t b d v = (True, t')"
  shows "ptree_ok H t'" "pt_levels t' = pt_levels t" "pt_children t' = pt_children t"
    "pt_num_blocks t' = pt_num_blocks t" "0 \<le> b" "b < pt_num_blocks t"
    "node_digest t' (pt_levels t - 1) j = (if int j = b then d else node_digest t (pt_levels t - 1) j)"
proof -
  let ?l = "pt_levels t - 1" and ?i = "nat b"
  have wf: "ptree_wf t" using ok by (simp add: ptree_ok_def)
  have L: "1 \<le> pt_levels t" using wf by (simp add: ptree_wf_def)
  have nl: "nat (int (pt_levels t) - 1) = ?l" using L by simp
  from r show b: "0 \<le> b" "b < pt_num_blocks t"
    by (auto simp: ptree_update_leaf_def Let_def split: if_splits)
  from r have r': "ptree_propagate H v ?l ?i (ptree_set_node t ?l ?i d v) = (True, t')"
    by (auto simp: ptree_update_leaf_def Let_def nl split: if_splits)
  have "b < int (pt_children t ^ ?l)" using b wf by (simp add: ptree_wf_def)
  then have i: "?i < pt_children t ^ ?l" using b(1) by (simp add: nat_less_iff)
  have l: "?l < pt_levels t" using L by simp
  have "ptree_ok H t' \<and> pt_levels t' = pt_levels (ptree_set_node t ?l ?i d v) \<and>
      pt_children t' = pt_children (ptree_set_node t ?l ?i d v) \<and>
      pt_num_blocks t' = pt_num_blocks (ptree_set_node t ?l ?i d v) \<and>
      (\<forall>k j. ?l \<le> k \<longrightarrow> node_digest t' k j = node_digest (ptree_set_node t ?l ?i d v) k j)"
  proof (rule propagate_ok [OF set_node_wf [OF wf] _ _ _ r'])
    have "node_ok H (ptree_set_node t ?l ?i d v) k j"
      if "Suc k < pt_levels t" "j < pt_children t ^ k" "Suc k \<noteq> ?l \<or> j \<noteq> ?i div pt_children t" for k j
      using ok that by (intro node_ok_set_other [OF wf that(1,2) l i]) (auto simp: ptree_ok_def)
    then show "\<forall>k j. Suc k < pt_levels (ptree_set_node t ?l ?i d v) \<longrightarrow> j < pt_children (ptree_set_node t ?l ?i d v) ^ k \<longrightarrow>
      Suc k \<noteq> ?l \<or> j \<noteq> ?i div pt_children (ptree_set_node t ?l ?i d v) \<longrightarrow> node_ok H (ptree_set_node t ?l ?i d v) k j"
      by simp
  qed (use l i in simp_all)
  moreover have "node_digest (ptree_set_node t ?l ?i d v) ?l j = (if int j = b then d else node_digest t ?l j)"
    using b(1) by (subst set_node_digest [OF wf l i]) auto
  ultimately show "ptree_ok H t'" "pt_levels t' = pt_levels t" "pt_children t' = pt_children t"
    "pt_num_blocks t' = pt_num_blocks t"
    "node_digest t' ?l j = (if int j = b then d else node_digest t ?l j)"
    by simp_all
qed

section \<open>The root binds the leaves\<close>

text \<open>All digests stored in a tree have 32 bytes.\<close>

definition ptree_digests_ok :: "ptree \<Rightarrow> bool" where
  "ptree_digests_ok t \<longleftrightarrow> (\<forall>l < pt_levels t. \<forall>j < pt_children t ^ l. length (node_digest t l j) = 32)"

lemma concat_digests_inj:
  assumes "concat (map f [a ..< a + n]) = concat (map g [a ..< a + n])"
    and "\<forall>i. a \<le> i \<longrightarrow> i < a + n \<longrightarrow> length (f i) = 32 \<and> length (g i) = 32" "a \<le> i" "i < a + n"
  shows "f i = g i"
  using assms
proof (induction n)
  case 0
  then show ?case by simp
next
  case (Suc n)
  have "length (concat (map f [a ..< a + n])) = length (concat (map g [a ..< a + n]))"
  proof -
    have "map (length \<circ> f) [a ..< a + n] = map (length \<circ> g) [a ..< a + n]"
      using Suc.prems(2) by auto
    then show ?thesis by (simp only: length_concat map_map)
  qed
  with Suc.prems(1) have "concat (map f [a ..< a + n]) = concat (map g [a ..< a + n])" "f (a + n) = g (a + n)"
    by auto
  with Suc show ?case by (cases "i = a + n") auto
qed

text \<open>No hash collision between corresponding inner nodes of two trees, and no inner node of
  either hashes to the zero digest.\<close>

definition no_collision :: "(bytes \<Rightarrow> bytes option) \<Rightarrow> ptree \<Rightarrow> ptree \<Rightarrow> bool" where
  "no_collision H t u \<longleftrightarrow>
     (\<forall>k j. Suc k < pt_levels t \<longrightarrow> j < pt_children t ^ k \<longrightarrow>
        (H (ptree_child_digests t (Suc k) j) = H (ptree_child_digests u (Suc k) j) \<longrightarrow>
           H (ptree_child_digests t (Suc k) j) \<noteq> None \<longrightarrow>
           ptree_child_digests t (Suc k) j = ptree_child_digests u (Suc k) j) \<and>
        H (ptree_child_digests t (Suc k) j) \<noteq> Some tbft_digest_zero \<and>
        H (ptree_child_digests u (Suc k) j) \<noteq> Some tbft_digest_zero)"

lemma node_binds_children:
  assumes t: "ptree_ok H t" "ptree_digests_ok t" and u: "ptree_ok H u" "ptree_digests_ok u"
    and dims: "pt_levels u = pt_levels t" "pt_children u = pt_children t"
    and nc: "no_collision H t u" and k: "Suc k < pt_levels t" "j < pt_children t ^ k"
    and eq: "node_digest t k j = node_digest u k j"
    and ch: "j * pt_children t \<le> ch" "ch < j * pt_children t + pt_children t"
  shows "node_digest t (Suc k) ch = node_digest u (Suc k) ch"
proof -
  have wf: "ptree_wf t" "ptree_wf u" using t u by (simp_all add: ptree_ok_def)
  have okt: "node_ok H t k j" and oku: "node_ok H u k j" using t(1) u(1) k dims by (simp_all add: ptree_ok_def)
  have n: "H (ptree_child_digests t (Suc k) j) = H (ptree_child_digests u (Suc k) j) \<Longrightarrow>
      H (ptree_child_digests t (Suc k) j) \<noteq> None \<Longrightarrow>
      ptree_child_digests t (Suc k) j = ptree_child_digests u (Suc k) j"
    "H (ptree_child_digests t (Suc k) j) \<noteq> Some tbft_digest_zero"
    "H (ptree_child_digests u (Suc k) j) \<noteq> Some tbft_digest_zero"
    using nc k by (auto simp: no_collision_def)
  show ?thesis
  proof (cases "H (ptree_child_digests t (Suc k) j) = Some (node_digest t k j)")
    case True
    with n(2) have nz: "node_digest t k j \<noteq> tbft_digest_zero" by auto
    then have "H (ptree_child_digests u (Suc k) j) = Some (node_digest u k j)"
      using oku eq by (auto simp: node_ok_def)
    with True eq n(1) have same: "ptree_child_digests t (Suc k) j = ptree_child_digests u (Suc k) j" by simp
    have "pt_children t ^ Suc k \<ge> j * pt_children t + pt_children t"
      using mult_le_mono1 [of "Suc j" "pt_children t ^ k" "pt_children t"] k(2) by (simp add: mult.commute)
    then have len: "\<forall>i. j * pt_children t \<le> i \<longrightarrow> i < j * pt_children t + pt_children t \<longrightarrow>
        length (node_digest t (Suc k) i) = 32 \<and> length (node_digest u (Suc k) i) = 32"
      using t(2) u(2) k(1) dims unfolding ptree_digests_ok_def by (metis order_less_le_trans)
    have same': "concat (map (node_digest t (Suc k)) [j * pt_children t ..< j * pt_children t + pt_children t]) =
        concat (map (node_digest u (Suc k)) [j * pt_children t ..< j * pt_children t + pt_children t])"
      using same child_digests_eq [OF wf(1) k] child_digests_eq [OF wf(2), of k j] k by (simp only: dims)
    from concat_digests_inj [OF same' len ch] show ?thesis .
  next
    case False
    then have z: "node_digest t k j = tbft_digest_zero" "node_digest t (Suc k) ch = tbft_digest_zero"
      using okt ch by (auto simp: node_ok_def)
    then have "node_digest u (Suc k) ch = tbft_digest_zero"
      using oku n(3) eq ch dims by (auto simp: node_ok_def)
    with z show ?thesis by simp
  qed
qed

lemma equal_level:
  assumes t: "ptree_ok H t" "ptree_digests_ok t" and u: "ptree_ok H u" "ptree_digests_ok u"
    and dims: "pt_levels u = pt_levels t" "pt_children u = pt_children t"
    and nc: "no_collision H t u" and root: "ptree_root_digest t = ptree_root_digest u"
  shows "l < pt_levels t \<Longrightarrow> j < pt_children t ^ l \<Longrightarrow> node_digest t l j = node_digest u l j"
proof (induction l arbitrary: j)
  case 0
  with root show ?case by (simp add: ptree_root_digest_def)
next
  case (Suc l)
  have p: "1 \<le> pt_children t" using t(1) by (simp add: ptree_ok_def ptree_wf_def)
  let ?par = "j div pt_children t"
  have par: "?par < pt_children t ^ l" using parent_less [OF Suc.prems(2)] .
  have "node_digest t l ?par = node_digest u l ?par" using Suc.IH [OF _ par] Suc.prems(1) by simp
  moreover have "?par * pt_children t \<le> j" "j < ?par * pt_children t + pt_children t"
    using p div_mult_mod_eq [of j "pt_children t"] mod_less_divisor [of "pt_children t" j] by linarith+
  ultimately show ?case by (intro node_binds_children [OF t u dims nc Suc.prems(1) par])
qed

lemma set_node_digests:
  assumes "ptree_wf t" "ptree_digests_ok t" "l < pt_levels t" "i < pt_children t ^ l" "length d = 32"
  shows "ptree_digests_ok (ptree_set_node t l i d v)"
  using assms(2,5) by (simp add: ptree_digests_ok_def set_node_digest [OF assms(1,3,4)])

lemma propagate_digests:
  assumes "hash_len_ok H" "ptree_wf t" "ptree_digests_ok t" "l < pt_levels t" "idx < pt_children t ^ l"
    and "ptree_propagate H v l idx t = (ok, t')"
  shows "ptree_digests_ok t'"
  using assms
proof (induction H v l idx t rule: ptree_propagate.induct)
  case (1 H v idx t)
  then show ?case by simp
next
  case (2 H v l idx t)
  let ?par = "ptree_parent idx (pt_children t)"
  have par: "?par < pt_children t ^ l" using "2.prems"(5) parent_less by (simp add: ptree_parent_def)
  have l: "l < pt_levels t" using "2.prems"(4) by simp
  show ?case
  proof (cases "H (ptree_child_digests t (Suc l) ?par)")
    case None
    with "2.prems" show ?thesis by (simp add: Let_def)
  next
    case (Some d)
    then have d: "length d = 32" using "2.prems"(1) by (auto simp: hash_len_ok_def)
    have "ptree_propagate H v l ?par (ptree_set_node t l ?par d v) = (ok, t')"
      using "2.prems"(6) Some by (simp add: Let_def)
    then show ?thesis
      using "2.IH" [OF refl Some "2.prems"(1) set_node_wf [OF "2.prems"(2)]
          set_node_digests [OF "2.prems"(2,3) l par d]] l par by simp
  qed
qed

lemma update_leaf_digests:
  assumes "hash_len_ok H" "ptree_wf t" "ptree_digests_ok t" "length d = 32"
    and "ptree_update_leaf c H t b d v = (ok, t')"
  shows "ptree_digests_ok t'"
proof (cases "ptree_update_leaf c H t b d v = (False, t)")
  case True
  with assms show ?thesis by simp
next
  case False
  let ?l = "pt_levels t - 1"
  have L: "1 \<le> pt_levels t" using assms(2) by (simp add: ptree_wf_def)
  then have nl: "nat (int (pt_levels t) - 1) = ?l" by simp
  from False have b: "0 \<le> b" "b < pt_num_blocks t"
    and u: "ptree_update_leaf c H t b d v = ptree_propagate H v ?l (nat b) (ptree_set_node t ?l (nat b) d v)"
    by (auto simp: ptree_update_leaf_def Let_def nl split: if_splits)
  have "b < int (pt_children t ^ ?l)" using b assms(2) by (simp add: ptree_wf_def)
  then have i: "nat b < pt_children t ^ ?l" using b(1) by (simp add: nat_less_iff)
  have l: "?l < pt_levels t" using L by simp
  show ?thesis
    using propagate_digests [OF assms(1) set_node_wf [OF assms(2)] set_node_digests [OF assms(2,3) l i assms(4)]] l i assms(5) u
    by simp
qed

text \<open>A sequence of leaf updates \<open>(block, digest, version)\<close>; the result is \<open>None\<close> when one of them
  returns -1.\<close>

fun ptree_updates ::
  "config \<Rightarrow> (bytes \<Rightarrow> bytes option) \<Rightarrow> (int \<times> digest \<times> int) list \<Rightarrow> ptree \<Rightarrow> ptree option" where
  "ptree_updates c H [] t = Some t"
| "ptree_updates c H ((b, d, v) # us) t =
     (case ptree_update_leaf c H t b d v of (ok, t') \<Rightarrow> if ok then ptree_updates c H us t' else None)"

lemma updates_ok:
  assumes "hash_len_ok H" "ptree_ok H t" "ptree_digests_ok t" "\<forall>(b, d, v) \<in> set us. length d = 32"
    and "ptree_updates c H us t = Some t'"
  shows "ptree_ok H t' \<and> ptree_digests_ok t' \<and> pt_levels t' = pt_levels t \<and> pt_children t' = pt_children t \<and>
    pt_num_blocks t' = pt_num_blocks t"
  using assms(2-5)
proof (induction us arbitrary: t)
  case Nil
  then show ?case by simp
next
  case (Cons x us)
  obtain b d v where x: "x = (b, d, v)" by (metis prod_cases3)
  from Cons.prems(4) x obtain t1 where r: "ptree_update_leaf c H t b d v = (True, t1)"
    "ptree_updates c H us t1 = Some t'" by (auto split: prod.splits if_splits)
  have "length d = 32" using Cons.prems(3) x by simp
  note dig = update_leaf_digests [OF assms(1) _ Cons.prems(2) this r(1)]
  show ?case
    using Cons.IH [OF update_leaf_ok(1) [OF Cons.prems(1) r(1)] dig _ r(2)] update_leaf_ok(2-4) [OF Cons.prems(1) r(1)]
      Cons.prems(1,3) by (auto simp: ptree_ok_def)
qed

lemma init_digests_ok:
  assumes "ptree_init c a num p = Some t" "2 \<le> p" "p \<le> 2147" "num * int p \<le> INT32_MAX"
  shows "ptree_digests_ok t"
  using ptree_init_wf [OF assms] by (simp add: ptree_digests_ok_def part_zero_def tbft_digest_zero_def)

section \<open>Properties\<close>

text \<open>The root digest binds the whole state.  If two replicas start from an empty tree of the
  same dimensions, apply any sequences of leaf updates, and end with the same root digest, then
  all their leaf digests are equal, unless SHA-256 collides on two corresponding inner nodes or
  maps one of them to zero.\<close>

lemma ptree_root_binds_leaves:
  assumes "ptree_init c a num p = Some t0" "2 \<le> p" "p \<le> 2147" "num * int p \<le> INT32_MAX"
    and "hash_len_ok H" "\<forall>(b, d, v) \<in> set us \<union> set vs. length d = 32"
    and "ptree_updates c H us t0 = Some t" "ptree_updates c H vs t0 = Some u"
    and "no_collision H t u" "ptree_root_digest t = ptree_root_digest u"
    and "0 \<le> b" "b < num"
  shows "part_digest (ptree_node t (pt_levels t - 1) (nat b)) = part_digest (ptree_node u (pt_levels u - 1) (nat b))"
proof -
  note i = ptree_init_wf [OF assms(1-4)]
  have t: "ptree_ok H t \<and> ptree_digests_ok t \<and> pt_levels t = pt_levels t0 \<and> pt_children t = pt_children t0 \<and>
      pt_num_blocks t = pt_num_blocks t0"
    by (rule updates_ok [OF assms(5) ptree_init_ok [OF assms(1-4)] init_digests_ok [OF assms(1-4)] _ assms(7)])
      (use assms(6) in auto)
  have u: "ptree_ok H u \<and> ptree_digests_ok u \<and> pt_levels u = pt_levels t0 \<and> pt_children u = pt_children t0 \<and>
      pt_num_blocks u = pt_num_blocks t0"
    by (rule updates_ok [OF assms(5) ptree_init_ok [OF assms(1-4)] init_digests_ok [OF assms(1-4)] _ assms(8)])
      (use assms(6) in auto)
  have L: "1 \<le> pt_levels t" using t by (simp add: ptree_ok_def ptree_wf_def)
  have "num \<le> int (pt_children t ^ (pt_levels t - 1))"
    using t i by (simp add: ptree_ok_def ptree_wf_def)
  then have j: "nat b < pt_children t ^ (pt_levels t - 1)" using assms(11,12) by (simp add: nat_less_iff)
  have "node_digest t (pt_levels t - 1) (nat b) = node_digest u (pt_levels t - 1) (nat b)"
    by (rule equal_level [of H t u]) (use t u assms(9,10) L j in auto)
  with t u show ?thesis by simp
qed

text \<open>A hash function for the witness: constant, so that two trees with the same leaves have
  the same inner nodes.\<close>

definition sample_hash :: "bytes \<Rightarrow> bytes option" where
  "sample_hash x = Some (replicate 32 9)"

lemma ptree_root_binds_leaves_witness:
  "\<exists>t0 t u. ptree_init default_config True 2 2 = Some t0 \<and>
     ptree_updates default_config sample_hash [(0, replicate 32 1, 8), (1, replicate 32 2, 8)] t0 = Some t \<and>
     ptree_updates default_config sample_hash [(1, replicate 32 2, 8), (0, replicate 32 1, 8)] t0 = Some u \<and>
     part_digest (ptree_node t (pt_levels t - 1) 1) = part_digest (ptree_node u (pt_levels u - 1) 1)"
proof -
  let ?c = default_config
  let ?us = "[(0 :: int, replicate 32 1 :: digest, 8 :: int), (1, replicate 32 2, 8)]"
  let ?vs = "[(1 :: int, replicate 32 2 :: digest, 8 :: int), (0, replicate 32 1, 8)]"
  let ?z = "part_zero"
  let ?e = "\<lparr> pt_levels = 2, pt_children = 2, pt_num_blocks = 2, pt_nodes = [[?z], [?z, ?z]], pt_total_nodes = 3 \<rparr>"
  let ?t = "\<lparr> pt_levels = 2, pt_children = 2, pt_num_blocks = 2,
    pt_nodes = [[\<lparr> part_digest = replicate 32 9, part_version = 8 \<rparr>],
      [\<lparr> part_digest = replicate 32 1, part_version = 8 \<rparr>, \<lparr> part_digest = replicate 32 2, part_version = 8 \<rparr>]],
    pt_total_nodes = 3 \<rparr>"
  have t0: "ptree_init ?c True 2 2 = Some ?e"
    by (simp add: ptree_init_def ptree_compute_levels_def ptree_levels_loop.simps ptree_nodes_at_level_def
        i32_id Let_def upt_rec numeral_2_eq_2)
  have t: "ptree_updates ?c sample_hash ?us ?e = Some ?t"
    by (simp add: ptree_update_leaf_def sample_hash_def ptree_set_node_def ptree_parent_def Let_def)
  have u: "ptree_updates ?c sample_hash ?vs ?e = Some ?t"
    by (simp add: ptree_update_leaf_def sample_hash_def ptree_set_node_def ptree_parent_def Let_def)
  have hl: "hash_len_ok sample_hash" by (simp add: hash_len_ok_def sample_hash_def)
  have nc: "no_collision sample_hash ?t ?t"
    by (simp add: no_collision_def sample_hash_def tbft_digest_zero_def)
  have "part_digest (ptree_node ?t (pt_levels ?t - 1) (nat 1)) = part_digest (ptree_node ?t (pt_levels ?t - 1) (nat 1))"
    by (rule ptree_root_binds_leaves [OF t0 _ _ _ hl _ t u nc]) (simp_all add: INT32_MAX_def)
  with t0 t u show ?thesis by auto
qed

end
