(* ===== verification/App_State.thy ===== *)
theory App_State
  imports Partition
begin

text \<open>
  The replica's application state, \<open>src/tbft_state.h\<close> and \<open>tbft_state.c\<close>: a flat memory of fixed
  size blocks with copy-on-write snapshots, checkpoint records, the partition tree and the fetch
  protocol that recovers blocks from another replica.

  \<open>as_mem\<close> is the memory behind the pointer \<open>mem\<close>, so \<open>mem_size\<close> is its length.  A snapshot array
  is \<open>None\<close> when its pointer is NULL, and otherwise the list of its first \<open>num_old_blocks\<close> entries;
  \<open>as_fetch_queue\<close> is the list of the first \<open>fetch_queue_len\<close> entries.  \<open>H\<close> is SHA-256, \<open>now\<close> is
  \<open>esp_timer_get_time()\<close>, \<open>base\<close> is the address of the memory (addresses have 32 bits), and
  \<open>alloc\<close> says which of the calls of \<open>calloc\<close> succeed.
\<close>

section \<open>State\<close>

record cow_entry =
  cow_block_idx :: int
  cow_data :: bytes

record ckpt_record =
  ckr_seqno :: int
  ckr_root_digest :: digest
  ckr_old_blocks :: "cow_entry list option"
  ckr_valid :: bool

record fetch_req =
  fr_level :: int
  fr_index :: int
  fr_done :: bool

record app_state =
  as_mem :: bytes
  as_num_blocks :: int
  as_cowb :: "u64 list"
  as_ptree :: ptree
  as_block_digests :: "digest list"
  as_ckpt_records :: "ckpt_record list"
  as_in_fetch :: bool
  as_fetch_seqno :: int
  as_fetch_queue :: "fetch_req list"
  as_n_data_pending :: int
  as_fetch_timeout_us :: int
  as_fetch_start_time_us :: int
  as_fetch_replier :: int
  as_fetch_received :: "u64 list"
  as_last_stable :: int

section \<open>Bitmaps over several words\<close>

text \<open>Reading past the end of the array is undefined in C; the model then reads a zero.\<close>

definition words_set :: "u64 list \<Rightarrow> int \<Rightarrow> u64 list" where
  "words_set ws i = (let w = nat (i div 64) in ws[w := (ws ! w) OR push_bit (nat (i mod 64)) 1])"

definition words_test :: "u64 list \<Rightarrow> int \<Rightarrow> bool" where
  "words_test ws i = (let w = nat (i div 64) in
     if w < length ws then drop_bit (nat (i mod 64)) (ws ! w) AND 1 \<noteq> 0 else False)"

definition words_zero :: "u64 list \<Rightarrow> u64 list" where
  "words_zero ws = replicate (length ws) 0"

definition cow_set :: "app_state \<Rightarrow> int \<Rightarrow> app_state" where
  "cow_set st i = st\<lparr> as_cowb := words_set (as_cowb st) i \<rparr>"

definition cow_test :: "app_state \<Rightarrow> int \<Rightarrow> bool" where
  "cow_test st i = words_test (as_cowb st) i"

definition cow_zero :: "app_state \<Rightarrow> app_state" where
  "cow_zero st = st\<lparr> as_cowb := words_zero (as_cowb st) \<rparr>"

definition fetch_received_set :: "app_state \<Rightarrow> int \<Rightarrow> app_state" where
  "fetch_received_set st i = st\<lparr> as_fetch_received := words_set (as_fetch_received st) i \<rparr>"

definition fetch_received_test :: "app_state \<Rightarrow> int \<Rightarrow> bool" where
  "fetch_received_test st i = words_test (as_fetch_received st) i"

definition fetch_received_zero :: "app_state \<Rightarrow> app_state" where
  "fetch_received_zero st = st\<lparr> as_fetch_received := words_zero (as_fetch_received st) \<rparr>"

section \<open>Checkpoint records and lifecycle\<close>

definition ckpt_slot_for :: "config \<Rightarrow> int \<Rightarrow> nat" where
  "ckpt_slot_for c seqno =
     nat ((seqno sdiv int (TBFT_CHECKPOINT_INTERVAL c)) smod int (TBFT_NUM_CKPT_SLOTS c))"

definition ckpt_record_zero :: ckpt_record where
  "ckpt_record_zero = \<lparr> ckr_seqno = 0, ckr_root_digest = tbft_digest_zero, ckr_old_blocks = None, ckr_valid = False \<rparr>"

text \<open>\<open>None\<close> is the return value -1.  \<open>alloc 0\<close> is the allocation of the tree, \<open>alloc (Suc i)\<close> the
  allocation of the snapshot array of record \<open>i\<close>.\<close>

definition tbft_state_init :: "config \<Rightarrow> (nat \<Rightarrow> bool) \<Rightarrow> bytes \<Rightarrow> app_state option" where
  "tbft_state_init c alloc mem =
     (let num = int (length mem div TBFT_BLOCK_SIZE c)
      in if mem = [] \<or> length mem mod TBFT_BLOCK_SIZE c \<noteq> 0 then None
         else if int (TBFT_MAX_STATE_BLOCKS c) < num then None
         else case ptree_init c (alloc 0) num (TBFT_P_CHILDREN c) of
           None \<Rightarrow> None
         | Some tree \<Rightarrow>
             if \<not> list_all (\<lambda>i. alloc (Suc i)) [0 ..< TBFT_NUM_CKPT_SLOTS c] then None
             else Some \<lparr> as_mem = mem, as_num_blocks = num,
               as_cowb = replicate (TBFT_MAX_STATE_BLOCKS c div 64 + 1) 0,
               as_ptree = tree,
               as_block_digests = replicate (TBFT_MAX_STATE_BLOCKS c) tbft_digest_zero,
               as_ckpt_records = replicate (TBFT_NUM_CKPT_SLOTS c) (ckpt_record_zero\<lparr> ckr_old_blocks := Some [] \<rparr>),
               as_in_fetch = False, as_fetch_seqno = 0, as_fetch_queue = [], as_n_data_pending = 0,
               as_fetch_timeout_us = TBFT_RECOVERY_TIMEOUT_US c, as_fetch_start_time_us = 0,
               as_fetch_replier = 0,
               as_fetch_received = replicate ((TBFT_MAX_STATE_BLOCKS c + 63) div 64) 0,
               as_last_stable = 0 \<rparr>)"

section \<open>Copy-on-write\<close>

definition state_block :: "config \<Rightarrow> app_state \<Rightarrow> int \<Rightarrow> bytes" where
  "state_block c st i = take (TBFT_BLOCK_SIZE c) (drop (nat i * TBFT_BLOCK_SIZE c) (as_mem st))"

definition tbft_state_cow_single :: "config \<Rightarrow> app_state \<Rightarrow> int \<Rightarrow> app_state" where
  "tbft_state_cow_single c st bindex =
     (let slot = ckpt_slot_for c (as_last_stable st); rec = as_ckpt_records st ! slot
      in if bindex < 0 \<or> as_num_blocks st \<le> bindex then st
         else if cow_test st bindex then st
         else case ckr_old_blocks rec of
           None \<Rightarrow> st
         | Some old \<Rightarrow>
             if as_num_blocks st \<le> int (length old) then st
             else cow_set (st\<lparr> as_ckpt_records := (as_ckpt_records st)[slot := rec\<lparr> ckr_old_blocks :=
               Some (old @ [\<lparr> cow_block_idx = bindex, cow_data = state_block c st bindex \<rparr>]) \<rparr>] \<rparr>) bindex)"

definition tbft_state_cow :: "config \<Rightarrow> int \<Rightarrow> app_state \<Rightarrow> int \<Rightarrow> int \<Rightarrow> app_state" where
  "tbft_state_cow c base st start sz =
     (if sz = 0 then st
      else let end' = (start + sz) mod 2 ^ 32
        in if start < base \<or> (base + int (length (as_mem st))) mod 2 ^ 32 < end' then st
           else let first_block = (start - base) div int (TBFT_BLOCK_SIZE c);
                    last_block = (end' - base - 1) mod 2 ^ 32 div int (TBFT_BLOCK_SIZE c)
             in fold (\<lambda>i st. tbft_state_cow_single c st i) [first_block .. last_block] st)"

section \<open>Checkpointing\<close>

definition ckpt_block :: "config \<Rightarrow> (bytes \<Rightarrow> bytes option) \<Rightarrow> int \<Rightarrow> int \<Rightarrow> app_state \<Rightarrow> app_state" where
  "ckpt_block c H version i st =
     (let d = tbft_msg_digest H (state_block c st i)
      in st\<lparr> as_block_digests := (as_block_digests st)[nat i := d],
             as_ptree := snd (ptree_update_leaf c H (as_ptree st) i d version) \<rparr>)"

definition tbft_state_checkpoint :: "config \<Rightarrow> (bytes \<Rightarrow> bytes option) \<Rightarrow> app_state \<Rightarrow> int \<Rightarrow> app_state" where
  "tbft_state_checkpoint c H st seqno =
     (let st = fold (\<lambda>i st. if \<not> cow_test st i then st else ckpt_block c H seqno i st)
                 [0 .. as_num_blocks st - 1] st;
          slot = ckpt_slot_for c seqno; rec = as_ckpt_records st ! slot
      in cow_zero (st\<lparr> as_ckpt_records := (as_ckpt_records st)[slot := rec\<lparr> ckr_seqno := seqno,
           ckr_root_digest := ptree_root_digest (as_ptree st), ckr_valid := True \<rparr>] \<rparr>))"

definition tbft_state_root_digest :: "app_state \<Rightarrow> digest" where
  "tbft_state_root_digest st = ptree_root_digest (as_ptree st)"

definition restore_block :: "config \<Rightarrow> (bytes \<Rightarrow> bytes option) \<Rightarrow> int \<Rightarrow> cow_entry \<Rightarrow> app_state \<Rightarrow> app_state" where
  "restore_block c H version e st =
     ckpt_block c H version (cow_block_idx e)
       (st\<lparr> as_mem := put (nat (cow_block_idx e) * TBFT_BLOCK_SIZE c) (cow_data e) (as_mem st) \<rparr>)"

definition tbft_state_rollback :: "config \<Rightarrow> (bytes \<Rightarrow> bytes option) \<Rightarrow> app_state \<Rightarrow> int \<times> app_state" where
  "tbft_state_rollback c H st =
     (let rec = as_ckpt_records st ! ckpt_slot_for c (as_last_stable st)
      in if \<not> ckr_valid rec then (0, st)
         else (ckr_seqno rec, cow_zero (fold (restore_block c H (ckr_seqno rec))
                (case ckr_old_blocks rec of None \<Rightarrow> [] | Some old \<Rightarrow> old) st)))"

definition tbft_state_mark_stable :: "config \<Rightarrow> app_state \<Rightarrow> int \<Rightarrow> app_state" where
  "tbft_state_mark_stable c st stable_seqno =
     (if stable_seqno \<le> as_last_stable st then st
      else let slot = ckpt_slot_for c stable_seqno; rec = as_ckpt_records st ! slot
        in st\<lparr> as_ckpt_records := (as_ckpt_records st)[slot := rec\<lparr> ckr_old_blocks :=
               (case ckr_old_blocks rec of None \<Rightarrow> None | Some _ \<Rightarrow> Some []) \<rparr>],
               as_last_stable := stable_seqno \<rparr>)"

definition tbft_state_get_checkpoint_digest :: "config \<Rightarrow> app_state \<Rightarrow> int \<Rightarrow> digest option" where
  "tbft_state_get_checkpoint_digest c st seqno =
     (let rec = as_ckpt_records st ! ckpt_slot_for c seqno
      in if ckr_valid rec \<and> ckr_seqno rec = seqno then Some (ckr_root_digest rec) else None)"

section \<open>Fetch protocol\<close>

definition FETCH_QUEUE_CAP :: "config \<Rightarrow> nat" where
  "FETCH_QUEUE_CAP c = TBFT_MAX_STATE_BLOCKS c * 2"

definition fetch_enqueue :: "config \<Rightarrow> int \<Rightarrow> int \<Rightarrow> app_state \<Rightarrow> app_state" where
  "fetch_enqueue c level index st =
     (if length (as_fetch_queue st) < FETCH_QUEUE_CAP c
      then st\<lparr> as_fetch_queue := as_fetch_queue st @ [\<lparr> fr_level = level, fr_index = index, fr_done = False \<rparr>] \<rparr>
      else st)"

definition tbft_state_start_fetch :: "config \<Rightarrow> int \<Rightarrow> app_state \<Rightarrow> int \<Rightarrow> int \<Rightarrow> app_state" where
  "tbft_state_start_fetch c now st seqno replier =
     (let st = fetch_received_zero (st\<lparr> as_in_fetch := True, as_fetch_seqno := seqno,
                 as_fetch_replier := replier, as_fetch_queue := [], as_n_data_pending := 0,
                 as_fetch_timeout_us := (if as_fetch_timeout_us st \<le> 0 then TBFT_RECOVERY_TIMEOUT_US c
                                         else as_fetch_timeout_us st),
                 as_fetch_start_time_us := now \<rparr>)
      in if pt_levels (as_ptree st) = 1
         then fold (fetch_enqueue c 0) [0 .. as_num_blocks st - 1] st
         else st\<lparr> as_fetch_queue := [\<lparr> fr_level = 0, fr_index = 0, fr_done = False \<rparr>] \<rparr>)"

definition meta_data_child :: "config \<Rightarrow> bytes \<Rightarrow> int \<Rightarrow> int \<Rightarrow> int \<Rightarrow> app_state \<Rightarrow> app_state" where
  "meta_data_child c parts child_level index i st =
     (let pchildren = int (pt_children (as_ptree st)); child_idx = i32 (index * pchildren + i)
      in if child_idx < 0 \<or> ptree_nodes_at_level (nat child_level) pchildren \<le> child_idx then st
         else if \<not> tbft_digest_equal (part_digest (ptree_node (as_ptree st) (nat child_level) (nat child_idx)))
                     (pi_digest (nat i * sz_part_info) parts)
         then fetch_enqueue c child_level child_idx st
         else st)"

definition tbft_state_handle_meta_data :: "config \<Rightarrow> app_state \<Rightarrow> bytes \<Rightarrow> bytes \<Rightarrow> int \<Rightarrow> app_state" where
  "tbft_state_handle_meta_data c st rep parts n_parts =
     (let level = md_level rep; index = md_index rep;
          pchildren = int (pt_children (as_ptree st)); p_levels = int (pt_levels (as_ptree st))
      in if \<not> as_in_fetch st then st
         else if md_seqno rep \<noteq> as_fetch_seqno st then st
         else if level < 0 \<or> p_levels - 1 \<le> level then st
         else if index < 0 \<or> ptree_nodes_at_level (nat level) pchildren \<le> index then st
         else if n_parts < 0 \<or> pchildren < n_parts then st
         else fold (meta_data_child c parts (level + 1) index) [0 .. n_parts - 1] st)"

definition tbft_state_in_fetch :: "app_state \<Rightarrow> bool" where
  "tbft_state_in_fetch st = as_in_fetch st"

definition tbft_state_fetch_timedout :: "int \<Rightarrow> app_state \<Rightarrow> bool" where
  "tbft_state_fetch_timedout now st \<longleftrightarrow>
     as_in_fetch st \<and> as_fetch_timeout_us st < now - as_fetch_start_time_us st"

definition tbft_state_fetch_complete :: "app_state \<Rightarrow> app_state" where
  "tbft_state_fetch_complete st =
     fetch_received_zero (st\<lparr> as_in_fetch := False, as_fetch_queue := [], as_n_data_pending := 0 \<rparr>)"

definition data_write :: "config \<Rightarrow> (bytes \<Rightarrow> bytes option) \<Rightarrow> app_state \<Rightarrow> bytes \<Rightarrow> bytes \<Rightarrow> app_state" where
  "data_write c H st rep block_data =
     (let bidx = data_block_index rep; computed = tbft_msg_digest H block_data;
          st = st\<lparr> as_mem := put (nat bidx * TBFT_BLOCK_SIZE c) block_data (as_mem st),
                  as_block_digests := (as_block_digests st)[nat bidx := computed],
                  as_ptree := snd (ptree_update_leaf c H (as_ptree st) bidx computed (data_seqno rep)) \<rparr>;
          st = fetch_received_set st bidx
      in if 0 < as_n_data_pending st then st\<lparr> as_n_data_pending := as_n_data_pending st - 1 \<rparr> else st)"

text \<open>\<open>block\<close> is the buffer from the block on; the code reads \<open>TBFT_BLOCK_SIZE\<close> bytes of it.\<close>

definition tbft_state_handle_data :: "config \<Rightarrow> (bytes \<Rightarrow> bytes option) \<Rightarrow> app_state \<Rightarrow> bytes \<Rightarrow> bytes \<Rightarrow> app_state" where
  "tbft_state_handle_data c H st rep block =
     (let bidx = data_block_index rep; block_data = field 0 (TBFT_BLOCK_SIZE c) block
      in if \<not> as_in_fetch st then st
         else if data_seqno rep \<noteq> as_fetch_seqno st then st
         else if bidx < 0 \<or> as_num_blocks st \<le> bidx then st
         else if fetch_received_test st bidx then st
         else if \<not> tbft_digest_equal (tbft_msg_digest H block_data) (data_digest rep) then st
         else let st = data_write c H st rep block_data
           in if as_n_data_pending st = 0 \<and> list_all fr_done (as_fetch_queue st)
              then tbft_state_fetch_complete st else st)"

fun fetch_queue_next :: "fetch_req list \<Rightarrow> nat \<Rightarrow> nat option" where
  "fetch_queue_next [] i = None"
| "fetch_queue_next (r # rs) i = (if \<not> fr_done r then Some i else fetch_queue_next rs (Suc i))"

definition tbft_state_next_fetch_req :: "app_state \<Rightarrow> (int \<times> int) option \<times> app_state" where
  "tbft_state_next_fetch_req st =
     (case fetch_queue_next (as_fetch_queue st) 0 of
        None \<Rightarrow> (None, st)
      | Some i \<Rightarrow>
          (let r = as_fetch_queue st ! i;
               st = st\<lparr> as_fetch_queue := (as_fetch_queue st)[i := r\<lparr> fr_done := True \<rparr>] \<rparr>;
               st = (if fr_level r = int (pt_levels (as_ptree st)) - 1 \<and> \<not> fetch_received_test st (fr_index r)
                     then st\<lparr> as_n_data_pending := as_n_data_pending st + 1 \<rparr> else st)
           in (Some (fr_level r, fr_index r), st)))"

section \<open>Bitmap laws\<close>

lemma length_words_set [simp]: "length (words_set ws i) = length ws"
  by (simp add: words_set_def Let_def)

lemma length_words_zero [simp]: "length (words_zero ws) = length ws"
  by (simp add: words_zero_def)

lemma words_test_zero [simp]: "\<not> words_test (words_zero ws) i" "\<not> words_test (replicate n 0) i"
  by (simp_all add: words_test_def words_zero_def Let_def)

lemma words_test_set:
  assumes "0 \<le> i" "i < 64 * int (length ws)" "0 \<le> j"
  shows "words_test (words_set ws i) j \<longleftrightarrow> i = j \<or> words_test ws j"
proof -
  have w: "nat (i div 64) < length ws" using assms(1,2) by (simp add: nat_less_iff)
  have b: "nat (i mod 64) < 64" by (simp add: nat_less_iff)
  have same: "i = j \<longleftrightarrow> nat (i div 64) = nat (j div 64) \<and> nat (i mod 64) = nat (j mod 64)"
    using assms by (auto simp: eq_nat_nat_iff) (metis div_mult_mod_eq)
  have bit: "drop_bit n (x :: u64) AND 1 \<noteq> 0 \<longleftrightarrow> bit x n" for n x
    by (auto simp: and_one_eq bit_iff_odd_drop_bit odd_iff_mod_2_eq_one)
  show ?thesis
    using w b by (auto simp: words_test_def words_set_def Let_def same bit nth_list_update bit_or_iff bit_exp_iff possible_bit_word)
qed

section \<open>Blocks of the memory\<close>

definition block_at :: "config \<Rightarrow> bytes \<Rightarrow> nat \<Rightarrow> bytes" where
  "block_at c mem i = take (TBFT_BLOCK_SIZE c) (drop (i * TBFT_BLOCK_SIZE c) mem)"

lemma state_block_at: "state_block c st i = block_at c (as_mem st) (nat i)"
  by (simp add: state_block_def block_at_def)

lemma block_fits: "i < n \<Longrightarrow> i * B + B \<le> n * (B :: nat)"
  using mult_le_mono1 [of "Suc i" n B] by simp

lemma length_block_at: "length mem = n * TBFT_BLOCK_SIZE c \<Longrightarrow> i < n \<Longrightarrow> length (block_at c mem i) = TBFT_BLOCK_SIZE c"
  using block_fits [of i n "TBFT_BLOCK_SIZE c"] by (simp add: block_at_def)

lemma block_at_put_other:
  assumes "off + length xs \<le> length mem" "i * TBFT_BLOCK_SIZE c + TBFT_BLOCK_SIZE c \<le> length mem"
    and "i * TBFT_BLOCK_SIZE c + TBFT_BLOCK_SIZE c \<le> off \<or> off + length xs \<le> i * TBFT_BLOCK_SIZE c"
  shows "block_at c (put off xs mem) i = block_at c mem i"
proof -
  let ?B = "TBFT_BLOCK_SIZE c"
  have "field (i * ?B) ?B (put off xs mem) = field (i * ?B) ?B mem"
    using assms by (intro field_put_other) auto
  then show ?thesis
    using assms(1,2) by (simp add: block_at_def field_eq_take_drop)
qed

lemma block_at_put_same:
  assumes "i * TBFT_BLOCK_SIZE c + TBFT_BLOCK_SIZE c \<le> length mem" "length xs = TBFT_BLOCK_SIZE c"
  shows "block_at c (put (i * TBFT_BLOCK_SIZE c) xs mem) i = xs"
proof -
  let ?B = "TBFT_BLOCK_SIZE c"
  have "field (i * ?B) ?B (put (i * ?B) xs mem) = xs"
    using assms by (intro field_put_same) auto
  then show ?thesis using assms by (simp add: block_at_def field_eq_take_drop)
qed

lemma block_at_put_block:
  assumes "length mem = n * TBFT_BLOCK_SIZE c" "i < n" "j < n" "length xs = TBFT_BLOCK_SIZE c"
  shows "block_at c (put (j * TBFT_BLOCK_SIZE c) xs mem) i = (if i = j then xs else block_at c mem i)"
proof (cases "i = j")
  case True
  with assms block_fits [of j n "TBFT_BLOCK_SIZE c"] show ?thesis by (simp add: block_at_put_same)
next
  case False
  then have "i * TBFT_BLOCK_SIZE c + TBFT_BLOCK_SIZE c \<le> j * TBFT_BLOCK_SIZE c \<or>
      j * TBFT_BLOCK_SIZE c + TBFT_BLOCK_SIZE c \<le> i * TBFT_BLOCK_SIZE c"
    using block_fits [of i j "TBFT_BLOCK_SIZE c"] block_fits [of j i "TBFT_BLOCK_SIZE c"] by linarith
  with False assms block_fits [of j n "TBFT_BLOCK_SIZE c"] block_fits [of i n "TBFT_BLOCK_SIZE c"] show ?thesis
    by (simp add: block_at_put_other)
qed

lemma mem_eq_blocks:
  assumes "length m = n * TBFT_BLOCK_SIZE c" "length m' = n * TBFT_BLOCK_SIZE c" "0 < TBFT_BLOCK_SIZE c"
    and "\<And>i. i < n \<Longrightarrow> block_at c m i = block_at c m' i"
  shows "m = m'"
proof (rule nth_equalityI)
  show "length m = length m'" using assms by simp
  fix k assume k: "k < length m"
  let ?B = "TBFT_BLOCK_SIZE c"
  let ?i = "k div ?B" and ?r = "k mod ?B"
  have i: "?i < n" using k assms(1) by (simp add: less_mult_imp_div_less)
  have r: "?r < ?B" using assms(3) by simp
  have nth: "x ! k = block_at c x ?i ! ?r" if "length x = n * ?B" for x :: bytes
  proof -
    have "?i * ?B + ?B \<le> length x" using block_fits [OF i, of ?B] that by simp
    with r show ?thesis by (simp add: block_at_def)
  qed
  show "m ! k = m' ! k" by (simp only: nth [OF assms(1)] nth [OF assms(2)] assms(4) [OF i])
qed

section \<open>Shape of the state\<close>

definition as_shape :: "config \<Rightarrow> app_state \<Rightarrow> bool" where
  "as_shape c st \<longleftrightarrow> 0 < TBFT_BLOCK_SIZE c \<and> 1 \<le> TBFT_CHECKPOINT_INTERVAL c \<and>
     0 \<le> as_num_blocks st \<and> as_num_blocks st \<le> int (TBFT_MAX_STATE_BLOCKS c) \<and>
     length (as_mem st) = nat (as_num_blocks st) * TBFT_BLOCK_SIZE c \<and>
     length (as_cowb st) = TBFT_MAX_STATE_BLOCKS c div 64 + 1 \<and>
     length (as_block_digests st) = TBFT_MAX_STATE_BLOCKS c \<and>
     length (as_fetch_received st) = (TBFT_MAX_STATE_BLOCKS c + 63) div 64 \<and>
     length (as_ckpt_records st) = TBFT_NUM_CKPT_SLOTS c \<and>
     list_all (\<lambda>r. ckr_old_blocks r \<noteq> None) (as_ckpt_records st) \<and>
     0 \<le> as_last_stable st"

lemma sdiv_nonneg: "0 \<le> (a :: int) \<Longrightarrow> 0 \<le> b \<Longrightarrow> a sdiv b = a div b"
  by (auto simp: signed_divide_int_def sgn_if)

lemma smod_nonneg: "0 \<le> (a :: int) \<Longrightarrow> 0 \<le> b \<Longrightarrow> a smod b = a mod b"
  by (auto simp: signed_modulo_int_def sgn_if)

lemma ckpt_slot_eq:
  "0 \<le> s \<Longrightarrow> ckpt_slot_for c s = nat ((s div int (TBFT_CHECKPOINT_INTERVAL c)) mod int (TBFT_NUM_CKPT_SLOTS c))"
  by (simp add: ckpt_slot_for_def sdiv_nonneg smod_nonneg div_int_pos_iff)

lemma num_slots_pos [simp]: "0 < TBFT_NUM_CKPT_SLOTS c"
  by (simp add: TBFT_NUM_CKPT_SLOTS_def)

lemma ckpt_slot_less: "0 \<le> s \<Longrightarrow> ckpt_slot_for c s < TBFT_NUM_CKPT_SLOTS c"
  by (simp add: ckpt_slot_eq nat_less_iff)

definition dirty :: "app_state \<Rightarrow> int set" where
  "dirty st = {i. 0 \<le> i \<and> i < as_num_blocks st \<and> cow_test st i}"

lemma cow_test_set:
  assumes "as_shape c st" "0 \<le> i" "i < as_num_blocks st" "0 \<le> j"
  shows "cow_test (cow_set st i) j \<longleftrightarrow> i = j \<or> cow_test st j"
proof -
  have "int (TBFT_MAX_STATE_BLOCKS c) < 64 * (int (TBFT_MAX_STATE_BLOCKS c div 64) + 1)" by (simp add: zdiv_int)
  then have "i < 64 * int (length (as_cowb st))" using assms by (simp add: as_shape_def)
  with assms show ?thesis by (simp add: cow_test_def cow_set_def words_test_set)
qed

lemma cow_test_cow_zero [simp]: "\<not> cow_test (cow_zero st) i"
  by (simp add: cow_test_def cow_zero_def)

definition snapshots :: "config \<Rightarrow> app_state \<Rightarrow> cow_entry list" where
  "snapshots c st = the (ckr_old_blocks (as_ckpt_records st ! ckpt_slot_for c (as_last_stable st)))"

text \<open>What copy-on-write maintains between two stable checkpoints: the snapshots of the active
  record are, for exactly the marked blocks and once each, their contents in \<open>smem\<close>, the memory
  at the last stable checkpoint, and the other blocks still have those contents.\<close>

definition cow_inv :: "config \<Rightarrow> bytes \<Rightarrow> app_state \<Rightarrow> bool" where
  "cow_inv c smem st \<longleftrightarrow> as_shape c st \<and> length smem = length (as_mem st) \<and>
     distinct (map cow_block_idx (snapshots c st)) \<and>
     cow_block_idx ` set (snapshots c st) = dirty st \<and>
     (\<forall>e \<in> set (snapshots c st). cow_data e = block_at c smem (nat (cow_block_idx e))) \<and>
     (\<forall>i. 0 \<le> i \<and> i < as_num_blocks st \<and> i \<notin> dirty st \<longrightarrow>
        block_at c (as_mem st) (nat i) = block_at c smem (nat i))"

definition cow_frame :: "app_state \<Rightarrow> app_state \<Rightarrow> bool" where
  "cow_frame st st' \<longleftrightarrow> as_mem st' = as_mem st \<and> as_num_blocks st' = as_num_blocks st \<and>
     as_ptree st' = as_ptree st \<and> as_block_digests st' = as_block_digests st \<and>
     as_last_stable st' = as_last_stable st \<and> as_in_fetch st' = as_in_fetch st"

lemma cow_frame_refl [simp]: "cow_frame st st"
  by (simp add: cow_frame_def)

lemma cow_frame_trans: "cow_frame a b \<Longrightarrow> cow_frame b d \<Longrightarrow> cow_frame a d"
  by (simp add: cow_frame_def)

lemma cow_single_frame: "cow_frame st (tbft_state_cow_single c st b)"
  by (simp add: cow_frame_def tbft_state_cow_single_def cow_set_def Let_def split: option.splits)

lemma cow_single_inv:
  assumes inv: "cow_inv c smem st"
  shows "cow_inv c smem (tbft_state_cow_single c st b)" (is "cow_inv c smem ?st'")
    and "dirty (tbft_state_cow_single c st b) = (if 0 \<le> b \<and> b < as_num_blocks st then insert b (dirty st) else dirty st)"
proof -
  have sh: "as_shape c st" using inv by (simp add: cow_inv_def)
  let ?slot = "ckpt_slot_for c (as_last_stable st)"
  let ?old = "snapshots c st"
  have slot: "?slot < length (as_ckpt_records st)" using sh ckpt_slot_less by (simp add: as_shape_def)
  then have "ckr_old_blocks (as_ckpt_records st ! ?slot) \<noteq> None"
    using sh by (simp add: as_shape_def list_all_length del: not_None_eq)
  then have old: "ckr_old_blocks (as_ckpt_records st ! ?slot) = Some ?old"
    by (auto simp: snapshots_def)
  have "cow_inv c smem ?st' \<and> dirty ?st' = (if 0 \<le> b \<and> b < as_num_blocks st then insert b (dirty st) else dirty st)"
  proof (cases "0 \<le> b \<and> b < as_num_blocks st \<and> b \<notin> dirty st")
    case False
    then have "b < 0 \<or> as_num_blocks st \<le> b \<or> cow_test st b" by (auto simp: dirty_def)
    then have "?st' = st" by (elim disjE) (simp_all add: tbft_state_cow_single_def Let_def)
    with False inv show ?thesis by auto
  next
    case True
    have sub: "insert b (dirty st) \<subseteq> {0 ..< as_num_blocks st}" using True by (simp add: dirty_def subset_eq)
    then have "finite (dirty st)" by (rule finite_subset [OF subset_trans [OF subset_insertI]]) simp
    then have "Suc (card (dirty st)) \<le> card {0 ..< as_num_blocks st}"
      using card_mono [OF _ sub] True by simp
    moreover have "length ?old = card (dirty st)"
      using inv distinct_card [of "map cow_block_idx ?old"] by (simp add: cow_inv_def)
    ultimately have room: "int (length ?old) < as_num_blocks st" by simp
    let ?e = "\<lparr> cow_block_idx = b, cow_data = state_block c st b \<rparr>"
    let ?mid = "st\<lparr> as_ckpt_records := (as_ckpt_records st)[?slot := (as_ckpt_records st ! ?slot)\<lparr> ckr_old_blocks := Some (?old @ [?e]) \<rparr>] \<rparr>"
    have st': "?st' = cow_set ?mid b"
      using True room by (simp add: tbft_state_cow_single_def old dirty_def Let_def)
    have shm: "as_shape c ?mid"
      using sh by (simp add: as_shape_def list_all_update)
    then have sh': "as_shape c ?st'" by (simp add: st' as_shape_def cow_set_def)
    have d: "dirty ?st' = insert b (dirty st)"
      using True cow_test_set [OF shm, of b] by (auto simp: st' dirty_def) (auto simp: cow_set_def cow_test_def)
    have sn: "snapshots c ?st' = ?old @ [?e]"
      using slot by (simp add: st' cow_set_def snapshots_def)
    have fr: "as_mem ?st' = as_mem st" "as_num_blocks ?st' = as_num_blocks st"
      using cow_single_frame by (auto simp: cow_frame_def)
    have blk: "state_block c st b = block_at c smem (nat b)"
      using inv True by (auto simp: cow_inv_def state_block_at)
    have "b \<notin> cow_block_idx ` set ?old" using inv True by (simp add: cow_inv_def)
    then have "cow_inv c smem ?st'"
      using inv sh' unfolding cow_inv_def sn d fr by (auto simp: blk)
    with d True show ?thesis by simp
  qed
  then show "cow_inv c smem ?st'" "dirty ?st' = (if 0 \<le> b \<and> b < as_num_blocks st then insert b (dirty st) else dirty st)"
    by simp_all
qed

lemma cow_fold_inv:
  assumes "cow_inv c smem st"
  shows "cow_inv c smem (fold (\<lambda>i st. tbft_state_cow_single c st i) bs st) \<and>
    cow_frame st (fold (\<lambda>i st. tbft_state_cow_single c st i) bs st) \<and>
    dirty (fold (\<lambda>i st. tbft_state_cow_single c st i) bs st) = dirty st \<union> (set bs \<inter> {0 ..< as_num_blocks st})"
  using assms
proof (induction bs arbitrary: st)
  case Nil
  then show ?case by simp
next
  case (Cons b bs)
  let ?s = "tbft_state_cow_single c st b"
  have fr: "cow_frame st ?s" by (rule cow_single_frame)
  then have n: "as_num_blocks ?s = as_num_blocks st" by (simp add: cow_frame_def)
  from Cons.IH [OF cow_single_inv(1) [OF Cons.prems, of b]] cow_frame_trans [OF fr]
    cow_single_inv(2) [OF Cons.prems, of b] show ?case by (auto simp: n)
qed

section \<open>Digests of the blocks\<close>

text \<open>Documented behaviour of \<open>psa_hash_compute\<close> on valid inputs: it succeeds.\<close>

definition hash_total :: "(bytes \<Rightarrow> bytes option) \<Rightarrow> bool" where
  "hash_total H \<longleftrightarrow> hash_len_ok H \<and> (\<forall>x. H x \<noteq> None)"

lemma hash_totalD: "hash_total H \<Longrightarrow> \<exists>d. H x = Some d \<and> length d = 32"
  by (auto simp: hash_total_def hash_len_ok_def) (metis not_None_eq)

lemma propagate_total: "hash_total H \<Longrightarrow> \<exists>t'. ptree_propagate H v l idx t = (True, t')"
proof (induction H v l idx t rule: ptree_propagate.induct)
  case (1 H v idx t)
  then show ?case by simp
next
  case (2 H v l idx t)
  obtain d where d: "H (ptree_child_digests t (Suc l) (ptree_parent idx (pt_children t))) = Some d"
    using hash_totalD [OF "2.prems"] by blast
  show ?case using "2.IH" [OF refl d "2.prems"] by (simp add: d Let_def)
qed

definition tree_ok :: "config \<Rightarrow> (bytes \<Rightarrow> bytes option) \<Rightarrow> int \<Rightarrow> ptree \<Rightarrow> bool" where
  "tree_ok c H num t \<longleftrightarrow> ptree_ok H t \<and> ptree_digests_ok t \<and> pt_levels t \<le> TBFT_P_LEVELS c \<and> pt_num_blocks t = num"

definition leaf :: "ptree \<Rightarrow> nat \<Rightarrow> digest" where
  "leaf t i = node_digest t (pt_levels t - 1) i"

definition same_dims :: "ptree \<Rightarrow> ptree \<Rightarrow> bool" where
  "same_dims t u \<longleftrightarrow> pt_levels t = pt_levels u \<and> pt_children t = pt_children u \<and> pt_num_blocks t = pt_num_blocks u"

lemma update_leaf_total:
  assumes H: "hash_total H" and t: "tree_ok c H num t" and b: "0 \<le> b" "b < num" and d: "length d = 32"
  shows "tree_ok c H num (snd (ptree_update_leaf c H t b d v))" (is "tree_ok c H num ?t'")
    and "same_dims (snd (ptree_update_leaf c H t b d v)) t"
    and "leaf (snd (ptree_update_leaf c H t b d v)) j = (if int j = b then d else leaf t j)"
proof -
  have wf: "ptree_wf t" using t by (simp add: tree_ok_def ptree_ok_def)
  then have L: "1 \<le> pt_levels t" by (simp add: ptree_wf_def)
  have "ptree_update_leaf c H t b d v =
      ptree_propagate H v (nat (int (pt_levels t) - 1)) (nat b) (ptree_set_node t (nat (int (pt_levels t) - 1)) (nat b) d v)"
    using b t L by (simp add: ptree_update_leaf_def tree_ok_def Let_def)
  then obtain t' where r: "ptree_update_leaf c H t b d v = (True, t')"
    using propagate_total [OF H] by metis
  have hl: "hash_len_ok H" using H by (simp add: hash_total_def)
  have ok: "ptree_ok H t" and dig: "ptree_digests_ok t" using t by (simp_all add: tree_ok_def)
  note u = update_leaf_ok [OF ok r]
  have dig': "ptree_digests_ok t'" by (rule update_leaf_digests [OF hl wf dig d r])
  have snd: "snd (ptree_update_leaf c H t b d v) = t'" using r by simp
  show "tree_ok c H num ?t'" unfolding snd using u dig' t by (simp add: tree_ok_def)
  show "same_dims ?t' t" unfolding snd using u by (simp add: same_dims_def)
  show "leaf ?t' j = (if int j = b then d else leaf t j)"
    unfolding snd leaf_def u(2) using u(7) by simp
qed

text \<open>The leaves agree with the memory, except at the marked blocks.  A leaf that is still zero
  stands for a block that still has its initial contents \<open>mem0\<close>.\<close>

definition leaf_current :: "config \<Rightarrow> (bytes \<Rightarrow> bytes option) \<Rightarrow> bytes \<Rightarrow> bytes \<Rightarrow> ptree \<Rightarrow> nat \<Rightarrow> bool" where
  "leaf_current c H mem0 mem t i \<longleftrightarrow>
     leaf t i = tbft_msg_digest H (block_at c mem i) \<or>
     leaf t i = tbft_digest_zero \<and> block_at c mem i = block_at c mem0 i"

definition synced :: "config \<Rightarrow> (bytes \<Rightarrow> bytes option) \<Rightarrow> bytes \<Rightarrow> app_state \<Rightarrow> bool" where
  "synced c H mem0 st \<longleftrightarrow> tree_ok c H (as_num_blocks st) (as_ptree st) \<and>
     (\<forall>i. 0 \<le> i \<and> i < as_num_blocks st \<and> i \<notin> dirty st \<longrightarrow> leaf_current c H mem0 (as_mem st) (as_ptree st) (nat i))"

definition ckpt_frame :: "app_state \<Rightarrow> app_state \<Rightarrow> bool" where
  "ckpt_frame st st' \<longleftrightarrow> as_mem st' = as_mem st \<and> as_num_blocks st' = as_num_blocks st \<and> as_cowb st' = as_cowb st \<and>
     as_ckpt_records st' = as_ckpt_records st \<and> as_last_stable st' = as_last_stable st \<and>
     as_fetch_received st' = as_fetch_received st \<and> same_dims (as_ptree st') (as_ptree st) \<and>
     length (as_block_digests st') = length (as_block_digests st)"

lemma ckpt_block_tree:
  assumes H: "hash_total H" and t: "tree_ok c H (as_num_blocks st) (as_ptree st)" and b: "0 \<le> b" "b < as_num_blocks st"
  shows "tree_ok c H (as_num_blocks st) (as_ptree (ckpt_block c H v b st))"
    and "leaf (as_ptree (ckpt_block c H v b st)) j =
      (if int j = b then tbft_msg_digest H (block_at c (as_mem st) j) else leaf (as_ptree st) j)"
    and "ckpt_frame st (ckpt_block c H v b st)"
proof -
  have len: "length (tbft_msg_digest H (state_block c st b)) = 32" using H by (simp add: hash_total_def)
  note u = update_leaf_total [OF H t b len, of v]
  show "tree_ok c H (as_num_blocks st) (as_ptree (ckpt_block c H v b st))"
    using u(1) by (simp add: ckpt_block_def Let_def)
  show "leaf (as_ptree (ckpt_block c H v b st)) j =
      (if int j = b then tbft_msg_digest H (block_at c (as_mem st) j) else leaf (as_ptree st) j)"
    using u(3) [of j] by (auto simp: ckpt_block_def Let_def state_block_at)
  show "ckpt_frame st (ckpt_block c H v b st)"
    using u(2) by (simp add: ckpt_frame_def ckpt_block_def Let_def)
qed

abbreviation ckpt_dirty :: "config \<Rightarrow> (bytes \<Rightarrow> bytes option) \<Rightarrow> int \<Rightarrow> int list \<Rightarrow> app_state \<Rightarrow> app_state" where
  "ckpt_dirty c H v bs st \<equiv> fold (\<lambda>i st. if \<not> cow_test st i then st else ckpt_block c H v i st) bs st"

lemma ckpt_frame_refl [simp]: "ckpt_frame st st"
  by (simp add: ckpt_frame_def same_dims_def)

lemma ckpt_frame_trans: "ckpt_frame a b \<Longrightarrow> ckpt_frame b d \<Longrightarrow> ckpt_frame a d"
  by (simp add: ckpt_frame_def same_dims_def)

lemma ckpt_dirty_leaves:
  assumes H: "hash_total H" and t: "tree_ok c H (as_num_blocks st) (as_ptree st)"
    and bs: "set bs \<subseteq> {0 ..< as_num_blocks st}"
  shows "tree_ok c H (as_num_blocks st) (as_ptree (ckpt_dirty c H v bs st)) \<and> ckpt_frame st (ckpt_dirty c H v bs st) \<and>
    (\<forall>j. leaf (as_ptree (ckpt_dirty c H v bs st)) j =
      (if int j \<in> set bs \<inter> dirty st then tbft_msg_digest H (block_at c (as_mem st) j) else leaf (as_ptree st) j))"
  using t bs
proof (induction bs arbitrary: st)
  case Nil
  then show ?case by simp
next
  case (Cons b bs)
  have b: "0 \<le> b" "b < as_num_blocks st" using Cons.prems(2) by auto
  show ?case
  proof (cases "cow_test st b")
    case False
    then have "b \<notin> dirty st" by (simp add: dirty_def)
    with Cons.IH [OF Cons.prems(1)] Cons.prems(2) False show ?thesis by auto
  next
    case True
    let ?s = "ckpt_block c H v b st"
    note k = ckpt_block_tree [OF H Cons.prems(1) b]
    have n: "as_num_blocks ?s = as_num_blocks st" "as_mem ?s = as_mem st" "dirty ?s = dirty st"
      using k(3) by (auto simp: ckpt_frame_def dirty_def cow_test_def)
    have bd: "b \<in> dirty st" using True b by (simp add: dirty_def)
    have "tree_ok c H (as_num_blocks ?s) (as_ptree (ckpt_dirty c H v bs ?s)) \<and> ckpt_frame ?s (ckpt_dirty c H v bs ?s) \<and>
      (\<forall>j. leaf (as_ptree (ckpt_dirty c H v bs ?s)) j =
        (if int j \<in> set bs \<inter> dirty ?s then tbft_msg_digest H (block_at c (as_mem ?s) j) else leaf (as_ptree ?s) j))"
      using k(1) Cons.prems(2) by (intro Cons.IH) (auto simp: n)
    with ckpt_frame_trans [OF k(3)] True bd show ?thesis by (auto simp: n k(2))
  qed
qed

lemma checkpoint_shape:
  assumes sh: "as_shape c st" and f: "ckpt_frame st st'"
  shows "as_shape c (cow_zero (st'\<lparr> as_ckpt_records := (as_ckpt_records st')[slot := (as_ckpt_records st' ! slot)
      \<lparr> ckr_seqno := s, ckr_root_digest := d, ckr_valid := True \<rparr>] \<rparr>))"
proof (cases "slot < length (as_ckpt_records st)")
  case True
  then have "ckr_old_blocks (as_ckpt_records st ! slot) \<noteq> None"
    using sh by (simp add: as_shape_def list_all_length del: not_None_eq)
  with sh f show ?thesis by (simp add: as_shape_def cow_zero_def ckpt_frame_def list_all_update)
next
  case False
  with sh f show ?thesis by (simp add: as_shape_def cow_zero_def ckpt_frame_def list_update_beyond)
qed

lemma checkpoint_synced:
  assumes H: "hash_total H" and sh: "as_shape c st" and sy: "synced c H mem0 st"
  shows "synced c H mem0 (tbft_state_checkpoint c H st s)" (is "synced c H mem0 ?st'")
    and "as_shape c (tbft_state_checkpoint c H st s)"
    and "dirty (tbft_state_checkpoint c H st s) = {}"
    and "as_mem (tbft_state_checkpoint c H st s) = as_mem st"
    and "as_num_blocks (tbft_state_checkpoint c H st s) = as_num_blocks st"
    and "as_last_stable (tbft_state_checkpoint c H st s) = as_last_stable st"
    and "same_dims (as_ptree (tbft_state_checkpoint c H st s)) (as_ptree st)"
    and "leaf_current c H mem0 (as_mem st) (as_ptree (tbft_state_checkpoint c H st s)) i \<or> as_num_blocks st \<le> int i"
proof -
  let ?d = "ckpt_dirty c H s [0 .. as_num_blocks st - 1] st"
  have t: "tree_ok c H (as_num_blocks st) (as_ptree st)" using sy by (simp add: synced_def)
  have sub: "set [0 .. as_num_blocks st - 1] \<subseteq> {0 ..< as_num_blocks st}" by auto
  note l = ckpt_dirty_leaves [OF H t sub, of s]
  have f: "ckpt_frame st ?d" using l by simp
  have st': "?st' = cow_zero (?d\<lparr> as_ckpt_records := (as_ckpt_records ?d)[ckpt_slot_for c s :=
      (as_ckpt_records ?d ! ckpt_slot_for c s)\<lparr> ckr_seqno := s, ckr_root_digest := ptree_root_digest (as_ptree ?d), ckr_valid := True \<rparr>] \<rparr>)"
    unfolding tbft_state_checkpoint_def Let_def ..
  have proj: "as_mem ?st' = as_mem ?d" "as_num_blocks ?st' = as_num_blocks ?d" "as_ptree ?st' = as_ptree ?d"
    "as_last_stable ?st' = as_last_stable ?d"
    unfolding st' by (simp_all add: cow_zero_def)
  show dir: "dirty ?st' = {}" unfolding st' by (simp add: dirty_def)
  show "as_shape c ?st'" unfolding st' by (rule checkpoint_shape [OF sh f])
  show m: "as_mem ?st' = as_mem st" and n: "as_num_blocks ?st' = as_num_blocks st"
    and "as_last_stable ?st' = as_last_stable st" and "same_dims (as_ptree ?st') (as_ptree st)"
    using f by (simp_all add: proj ckpt_frame_def)
  have cur: "leaf_current c H mem0 (as_mem st) (as_ptree ?st') j" if j: "int j < as_num_blocks st" for j
  proof (cases "int j \<in> dirty st")
    case True
    with l j show ?thesis by (simp add: proj leaf_current_def)
  next
    case False
    then have "leaf (as_ptree ?d) j = leaf (as_ptree st) j" using l by simp
    moreover have "leaf_current c H mem0 (as_mem st) (as_ptree st) (nat (int j))"
      using sy j False unfolding synced_def by (metis of_nat_0_le_iff)
    ultimately show ?thesis by (simp add: proj leaf_current_def)
  qed
  show "synced c H mem0 ?st'"
    using l cur by (simp add: synced_def dir m n) (simp add: proj)
  show "leaf_current c H mem0 (as_mem st) (as_ptree ?st') i \<or> as_num_blocks st \<le> int i"
    using cur [of i] by auto
qed

text \<open>The application writes: it announces the range with \<open>tbft_state_cow\<close> and then modifies it.\<close>

definition app_write :: "config \<Rightarrow> int \<Rightarrow> int \<Rightarrow> bytes \<Rightarrow> app_state \<Rightarrow> app_state" where
  "app_write c base off xs st =
     (let st = tbft_state_cow c base st (base + off) (int (length xs))
      in st\<lparr> as_mem := put (nat off) xs (as_mem st) \<rparr>)"

lemma div_outside_range:
  fixes i off B n :: int
  assumes "0 < B" "\<not> (off div B \<le> i \<and> i \<le> (off + n - 1) div B)"
  shows "i * B + B \<le> off \<or> off + n \<le> i * B"
proof (cases "i < off div B")
  case True
  then have "(i + 1) * B \<le> off div B * B" using assms(1) by (intro mult_right_mono) auto
  then show ?thesis
    using pos_mod_sign [OF assms(1), of off] div_mult_mod_eq [of off B] by (simp only: distrib_right mult_1) linarith
next
  case False
  let ?q = "(off + n - 1) div B"
  from False assms(2) have "?q < i" by auto
  then have "(?q + 1) * B \<le> i * B" using assms(1) by (intro mult_right_mono) auto
  then show ?thesis
    using pos_mod_bound [OF assms(1), of "off + n - 1"] div_mult_mod_eq [of "off + n - 1" B]
    by (simp only: distrib_right mult_1) linarith
qed

lemma cow_marks:
  assumes I: "cow_inv c smem st" and base: "0 \<le> base" "base + int (length (as_mem st)) < 2 ^ 32"
    and rng: "0 \<le> off" "off + n \<le> int (length (as_mem st))" "0 < n"
  shows "cow_inv c smem (tbft_state_cow c base st (base + off) n)"
    "cow_frame st (tbft_state_cow c base st (base + off) n)"
    "dirty (tbft_state_cow c base st (base + off) n) = dirty st \<union>
      ({off div int (TBFT_BLOCK_SIZE c) .. (off + n - 1) div int (TBFT_BLOCK_SIZE c)} \<inter> {0 ..< as_num_blocks st})"
proof -
  have e: "(base + off + n) mod 2 ^ 32 = base + off + n" "(base + int (length (as_mem st))) mod 2 ^ 32 = base + int (length (as_mem st))"
    "(base + off + n - base - 1) mod 2 ^ 32 = off + n - 1"
    using base rng by (simp_all add: mod_pos_pos_trivial)
  have "tbft_state_cow c base st (base + off) n = fold (\<lambda>i st. tbft_state_cow_single c st i)
      [off div int (TBFT_BLOCK_SIZE c) .. (off + n - 1) div int (TBFT_BLOCK_SIZE c)] st"
    using rng unfolding tbft_state_cow_def Let_def e by simp
  with cow_fold_inv [OF I, of "[off div int (TBFT_BLOCK_SIZE c) .. (off + n - 1) div int (TBFT_BLOCK_SIZE c)]"]
  show "cow_inv c smem (tbft_state_cow c base st (base + off) n)"
    "cow_frame st (tbft_state_cow c base st (base + off) n)"
    "dirty (tbft_state_cow c base st (base + off) n) = dirty st \<union>
      ({off div int (TBFT_BLOCK_SIZE c) .. (off + n - 1) div int (TBFT_BLOCK_SIZE c)} \<inter> {0 ..< as_num_blocks st})"
    by simp_all
qed

lemma write_keeps_clean_block:
  assumes sh: "as_shape c st" and n: "xs \<noteq> []" "0 \<le> off" "off + int (length xs) \<le> int (length (as_mem st))"
    and i: "0 \<le> i" "i < as_num_blocks st"
      "\<not> (off div int (TBFT_BLOCK_SIZE c) \<le> i \<and> i \<le> (off + int (length xs) - 1) div int (TBFT_BLOCK_SIZE c))"
  shows "block_at c (put (nat off) xs (as_mem st)) (nat i) = block_at c (as_mem st) (nat i)"
proof (rule block_at_put_other)
  let ?B = "TBFT_BLOCK_SIZE c"
  have "0 < int ?B" using sh by (simp add: as_shape_def)
  note o = div_outside_range [OF this i(3)]
  show "nat off + length xs \<le> length (as_mem st)" using n by linarith
  have "nat i < nat (as_num_blocks st)" using i by simp
  from block_fits [OF this, of ?B] sh show "nat i * ?B + ?B \<le> length (as_mem st)" by (simp add: as_shape_def)
  have ib: "int (nat i * ?B) = i * int ?B" using i(1) by simp
  from o have "int (nat i * ?B + ?B) \<le> int (nat off) \<or> int (nat off + length xs) \<le> int (nat i * ?B)"
    using ib n(2) by (simp only: of_nat_add) simp
  then show "nat i * ?B + ?B \<le> nat off \<or> nat off + length xs \<le> nat i * ?B"
    by (simp only: of_nat_le_iff)
qed

lemma app_write_inv:
  assumes I: "cow_inv c smem st" and base: "0 \<le> base" "base + int (length (as_mem st)) < 2 ^ 32"
    and rng: "0 \<le> off" "off + int (length xs) \<le> int (length (as_mem st))"
  shows "cow_inv c smem (app_write c base off xs st)"
    "synced c H mem0 st \<Longrightarrow> synced c H mem0 (app_write c base off xs st)"
    "as_num_blocks (app_write c base off xs st) = as_num_blocks st"
    "length (as_mem (app_write c base off xs st)) = length (as_mem st)"
    "as_ptree (app_write c base off xs st) = as_ptree st"
    "as_last_stable (app_write c base off xs st) = as_last_stable st"
proof -
  let ?s = "tbft_state_cow c base st (base + off) (int (length xs))"
  let ?w = "app_write c base off xs st"
  have "cow_inv c smem ?s \<and> cow_frame st ?s \<and> dirty st \<subseteq> dirty ?s \<and>
      (\<forall>i. 0 \<le> i \<longrightarrow> i < as_num_blocks st \<longrightarrow> i \<notin> dirty ?s \<longrightarrow>
         block_at c (put (nat off) xs (as_mem st)) (nat i) = block_at c (as_mem st) (nat i))"
  proof (cases "xs = []")
    case True
    then show ?thesis using I by (simp add: tbft_state_cow_def put_def)
  next
    case False
    then have pos: "0 < int (length xs)" by simp
    have sh: "as_shape c st" using I by (simp add: cow_inv_def)
    note m = cow_marks [OF I base rng pos]
    have "block_at c (put (nat off) xs (as_mem st)) (nat i) = block_at c (as_mem st) (nat i)"
      if "0 \<le> i" "i < as_num_blocks st" "i \<notin> dirty ?s" for i
      using that by (intro write_keeps_clean_block [OF sh False rng that(1,2)]) (simp add: m(3))
    with m show ?thesis by simp
  qed
  then have s: "cow_inv c smem ?s" "cow_frame st ?s" "dirty st \<subseteq> dirty ?s"
    and clean: "\<And>i. 0 \<le> i \<Longrightarrow> i < as_num_blocks st \<Longrightarrow> i \<notin> dirty ?s \<Longrightarrow>
      block_at c (put (nat off) xs (as_mem st)) (nat i) = block_at c (as_mem st) (nat i)" by auto
  have w: "?w = ?s\<lparr> as_mem := put (nat off) xs (as_mem ?s) \<rparr>" by (simp add: app_write_def Let_def)
  have d: "dirty ?w = dirty ?s" by (simp add: w dirty_def cow_test_def)
  have sn: "snapshots c ?w = snapshots c ?s" by (simp add: w snapshots_def)
  have lx: "nat off + length xs \<le> length (as_mem st)" using rng by linarith
  have fr: "as_mem ?s = as_mem st" "as_num_blocks ?s = as_num_blocks st" "as_ptree ?s = as_ptree st"
    "as_last_stable ?s = as_last_stable st"
    using s(2) by (simp_all add: cow_frame_def)
  have wp: "as_mem ?w = put (nat off) xs (as_mem st)" "as_num_blocks ?w = as_num_blocks st" "as_ptree ?w = as_ptree st"
    "as_last_stable ?w = as_last_stable st"
    by (simp_all add: w fr)
  show "length (as_mem ?w) = length (as_mem st)" using lx by (simp add: wp)
  have shw: "as_shape c ?w"
    using s(1) lx by (simp add: cow_inv_def as_shape_def w fr)
  show "cow_inv c smem ?w"
    using s(1) shw lx clean unfolding cow_inv_def d sn wp by (simp add: fr)
  show "synced c H mem0 ?w" if sy: "synced c H mem0 st"
  proof -
    have "leaf_current c H mem0 (as_mem ?w) (as_ptree ?w) (nat i)"
      if i: "0 \<le> i" "i < as_num_blocks st" "i \<notin> dirty ?w" for i
    proof -
      have nd: "i \<notin> dirty st" "i \<notin> dirty ?s" using i(3) s(3) d by auto
      then have "leaf_current c H mem0 (as_mem st) (as_ptree st) (nat i)" using sy i(1,2) by (simp add: synced_def)
      then show ?thesis using clean [OF i(1,2) nd(2)] by (simp add: leaf_current_def wp)
    qed
    then show ?thesis using sy by (simp add: synced_def wp)
  qed
  show "as_num_blocks ?w = as_num_blocks st" "as_ptree ?w = as_ptree st" "as_last_stable ?w = as_last_stable st"
    by (simp_all add: wp)
qed

lemma mark_stable_inv:
  assumes sh: "as_shape c st" and d: "dirty st = {}" and s: "as_last_stable st < s"
  shows "cow_inv c (as_mem st) (tbft_state_mark_stable c st s)" (is "cow_inv c _ ?st'")
    "dirty (tbft_state_mark_stable c st s) = {}"
    "as_mem (tbft_state_mark_stable c st s) = as_mem st"
    "as_ptree (tbft_state_mark_stable c st s) = as_ptree st"
    "as_num_blocks (tbft_state_mark_stable c st s) = as_num_blocks st"
    "as_last_stable (tbft_state_mark_stable c st s) = s"
proof -
  let ?slot = "ckpt_slot_for c s"
  have s0: "0 \<le> s" using sh s by (simp add: as_shape_def)
  have slot: "?slot < length (as_ckpt_records st)" using sh ckpt_slot_less [OF s0] by (simp add: as_shape_def)
  then have "ckr_old_blocks (as_ckpt_records st ! ?slot) \<noteq> None"
    using sh by (simp add: as_shape_def list_all_length del: not_None_eq)
  then obtain old where old: "ckr_old_blocks (as_ckpt_records st ! ?slot) = Some old" by blast
  have st': "?st' = st\<lparr> as_ckpt_records := (as_ckpt_records st)[?slot := (as_ckpt_records st ! ?slot)\<lparr> ckr_old_blocks := Some [] \<rparr>],
      as_last_stable := s \<rparr>"
    using s by (simp add: tbft_state_mark_stable_def Let_def old)
  show p: "as_mem ?st' = as_mem st" "as_ptree ?st' = as_ptree st" "as_num_blocks ?st' = as_num_blocks st"
    "as_last_stable ?st' = s" by (simp_all add: st')
  show d': "dirty ?st' = {}" using d by (simp add: st' dirty_def cow_test_def)
  have sn: "snapshots c ?st' = []" using slot by (simp add: st' snapshots_def)
  have "as_shape c ?st'" using sh s0 by (simp add: st' as_shape_def list_all_update)
  then show "cow_inv c (as_mem st) ?st'" unfolding cow_inv_def d' sn p by simp
qed

section \<open>Runs\<close>

text \<open>What happens to the state between fetches: the application writes, and the replica takes a
  checkpoint that becomes stable before the next write.  \<open>None\<close> when a write leaves the memory or
  the sequence number does not grow.\<close>

datatype state_op = AppWrite int bytes | StableCkpt int

fun state_step :: "config \<Rightarrow> (bytes \<Rightarrow> bytes option) \<Rightarrow> int \<Rightarrow> state_op \<Rightarrow> app_state \<Rightarrow> app_state option" where
  "state_step c H base (AppWrite off xs) st =
     (if 0 \<le> off \<and> off + int (length xs) \<le> int (length (as_mem st)) then Some (app_write c base off xs st) else None)"
| "state_step c H base (StableCkpt s) st =
     (if as_last_stable st < s then Some (tbft_state_mark_stable c (tbft_state_checkpoint c H st s) s) else None)"

fun state_run :: "config \<Rightarrow> (bytes \<Rightarrow> bytes option) \<Rightarrow> int \<Rightarrow> state_op list \<Rightarrow> app_state \<Rightarrow> app_state option" where
  "state_run c H base [] st = Some st"
| "state_run c H base (op # ops) st =
     (case state_step c H base op st of None \<Rightarrow> None | Some st' \<Rightarrow> state_run c H base ops st')"

definition state_inv :: "config \<Rightarrow> (bytes \<Rightarrow> bytes option) \<Rightarrow> bytes \<Rightarrow> bytes \<Rightarrow> app_state \<Rightarrow> bool" where
  "state_inv c H mem0 smem st \<longleftrightarrow> cow_inv c smem st \<and> synced c H mem0 st"

definition stable_mem_after :: "state_op \<Rightarrow> app_state \<Rightarrow> bytes \<Rightarrow> bytes" where
  "stable_mem_after op st smem = (case op of AppWrite _ _ \<Rightarrow> smem | StableCkpt _ \<Rightarrow> as_mem st)"

lemma state_step_inv:
  assumes H: "hash_total H" and I: "state_inv c H mem0 smem st"
    and base: "0 \<le> base" "base + int (length (as_mem st)) < 2 ^ 32"
    and r: "state_step c H base op st = Some st'"
  shows "state_inv c H mem0 (stable_mem_after op st smem) st' \<and> as_num_blocks st' = as_num_blocks st \<and>
    length (as_mem st') = length (as_mem st) \<and> same_dims (as_ptree st') (as_ptree st)"
proof (cases op)
  case (AppWrite off xs)
  then have rng: "0 \<le> off" "off + int (length xs) \<le> int (length (as_mem st))" and st': "st' = app_write c base off xs st"
    using r by (auto split: if_splits)
  have "cow_inv c smem st" using I by (simp add: state_inv_def)
  note w = app_write_inv [OF this base rng]
  show ?thesis using I w by (simp add: st' AppWrite state_inv_def stable_mem_after_def same_dims_def)
next
  case (StableCkpt s)
  then have s: "as_last_stable st < s" and st': "st' = tbft_state_mark_stable c (tbft_state_checkpoint c H st s) s"
    using r by (auto split: if_splits)
  have sh: "as_shape c st" and sy: "synced c H mem0 st" using I by (simp_all add: state_inv_def cow_inv_def)
  note k = checkpoint_synced [OF H sh sy, of s]
  have "as_last_stable (tbft_state_checkpoint c H st s) < s" using s k(6) by simp
  note m = mark_stable_inv [OF k(2,3) this]
  have "synced c H mem0 st'"
    using k(1) by (simp add: synced_def st' m k(3))
  then show ?thesis
    using m k by (simp add: st' StableCkpt state_inv_def stable_mem_after_def)
qed

lemma state_run_inv:
  assumes H: "hash_total H" and base: "0 \<le> base"
    and I: "state_inv c H mem0 smem st" "base + int (length (as_mem st)) < 2 ^ 32"
    and r: "state_run c H base ops st = Some st'"
  shows "(\<exists>smem'. state_inv c H mem0 smem' st') \<and> as_num_blocks st' = as_num_blocks st \<and>
    length (as_mem st') = length (as_mem st) \<and> same_dims (as_ptree st') (as_ptree st)"
  using I r
proof (induction ops arbitrary: st smem)
  case Nil
  then show ?case by (auto simp: same_dims_def)
next
  case (Cons op ops)
  then obtain s1 where s1: "state_step c H base op st = Some s1" "state_run c H base ops s1 = Some st'"
    by (auto split: option.splits)
  note i = state_step_inv [OF H Cons.prems(1) base Cons.prems(2) s1(1)]
  have "(\<exists>smem'. state_inv c H mem0 smem' st') \<and> as_num_blocks st' = as_num_blocks s1 \<and>
    length (as_mem st') = length (as_mem s1) \<and> same_dims (as_ptree st') (as_ptree s1)"
    using i Cons.prems(2) s1(2) by (intro Cons.IH) auto
  with i show ?case by (simp add: same_dims_def)
qed

lemma state_init_inv:
  assumes init: "tbft_state_init c alloc mem = Some st" and c: "cfg_ok c"
    and p: "2 \<le> TBFT_P_CHILDREN c" "TBFT_P_CHILDREN c \<le> 2147"
      "int (TBFT_MAX_STATE_BLOCKS c) * int (TBFT_P_CHILDREN c) \<le> INT32_MAX"
  shows "state_inv c H mem mem st" "as_mem st = mem"
proof -
  let ?n = "int (length mem div TBFT_BLOCK_SIZE c)"
  from init obtain tree where tree: "ptree_init c (alloc 0) ?n (TBFT_P_CHILDREN c) = Some tree"
    and n: "?n \<le> int (TBFT_MAX_STATE_BLOCKS c)" "length mem mod TBFT_BLOCK_SIZE c = 0"
    and st: "as_mem st = mem" "as_num_blocks st = ?n" "as_cowb st = replicate (TBFT_MAX_STATE_BLOCKS c div 64 + 1) 0"
      "as_ptree st = tree" "as_block_digests st = replicate (TBFT_MAX_STATE_BLOCKS c) tbft_digest_zero"
      "as_ckpt_records st = replicate (TBFT_NUM_CKPT_SLOTS c) (ckpt_record_zero\<lparr> ckr_old_blocks := Some [] \<rparr>)"
      "as_fetch_received st = replicate ((TBFT_MAX_STATE_BLOCKS c + 63) div 64) 0" "as_last_stable st = 0"
    by (auto simp: tbft_state_init_def Let_def split: if_splits option.splits)
  show "as_mem st = mem" by (rule st)
  have "?n * int (TBFT_P_CHILDREN c) \<le> int (TBFT_MAX_STATE_BLOCKS c) * int (TBFT_P_CHILDREN c)"
    using n(1) by (intro mult_right_mono) auto
  then have np: "?n * int (TBFT_P_CHILDREN c) \<le> INT32_MAX" using p(3) by linarith
  note w = ptree_init_wf [OF tree p(1,2) np]
  have B: "0 < TBFT_BLOCK_SIZE c" "1 \<le> TBFT_CHECKPOINT_INTERVAL c" using cfg_ok_simps [OF c] by auto
  have "length mem = (length mem div TBFT_BLOCK_SIZE c) * TBFT_BLOCK_SIZE c"
    using n(2) by (metis add.right_neutral div_mult_mod_eq)
  then have sh: "as_shape c st"
    using B n(1) by (simp add: as_shape_def st list_all_length)
  have "\<not> words_test (as_cowb st) i" for i unfolding st(3) by (rule words_test_zero)
  then have d: "dirty st = {}" by (simp add: dirty_def cow_test_def)
  have "ckpt_slot_for c 0 < TBFT_NUM_CKPT_SLOTS c" by (simp add: ckpt_slot_less)
  then have sn: "snapshots c st = []" by (simp add: snapshots_def st)
  have ci: "cow_inv c mem st" unfolding cow_inv_def d sn using sh by (simp add: st)
  have L: "1 \<le> pt_levels tree" using w(1) by (simp add: ptree_wf_def)
  have zero: "leaf tree j = tbft_digest_zero" if "int j < ?n" for j
  proof -
    have "?n \<le> int (TBFT_P_CHILDREN c) ^ (pt_levels tree - 1)" using w(1,3,4) by (simp add: ptree_wf_def)
    then have "int j < int (TBFT_P_CHILDREN c ^ (pt_levels tree - 1))" using that by simp
    then have "j < TBFT_P_CHILDREN c ^ (pt_levels tree - 1)" by (simp only: of_nat_less_iff)
    then show ?thesis using w(5) L by (simp add: leaf_def part_zero_def)
  qed
  have "tree_ok c H ?n tree"
    using ptree_init_ok [OF tree p(1,2) np] init_digests_ok [OF tree p(1,2) np] w by (simp add: tree_ok_def)
  moreover have "leaf_current c H mem mem tree (nat i)" if "0 \<le> i" "i < ?n" for i
    using zero [of "nat i"] that by (simp add: leaf_current_def)
  ultimately have "synced c H mem st" by (simp add: synced_def st d)
  with ci show "state_inv c H mem mem st" by (simp add: state_inv_def)
qed


section \<open>Properties\<close>

text \<open>No hash collision between corresponding blocks of two memories of \<open>n\<close> blocks, and no block
  hashes to the zero digest.\<close>

definition no_block_collision :: "config \<Rightarrow> (bytes \<Rightarrow> bytes option) \<Rightarrow> nat \<Rightarrow> bytes \<Rightarrow> bytes \<Rightarrow> bool" where
  "no_block_collision c H n m m' \<longleftrightarrow>
     list_all (\<lambda>i. (tbft_msg_digest H (block_at c m i) = tbft_msg_digest H (block_at c m' i) \<longrightarrow>
                       block_at c m i = block_at c m' i) \<and>
                   tbft_msg_digest H (block_at c m i) \<noteq> tbft_digest_zero \<and>
                   tbft_msg_digest H (block_at c m' i) \<noteq> tbft_digest_zero) [0 ..< n]"

lemma synced_leaf:
  assumes "synced c H mem0 st" "int j < as_num_blocks st" "int j \<notin> dirty st"
  shows "leaf_current c H mem0 (as_mem st) (as_ptree st) j"
  using assms unfolding synced_def by (metis nat_int of_nat_0_le_iff)

lemma leaves_bind_memory:
  assumes "state_inv c H mem0 sm s" "state_inv c H mem0 sm' s'" "dirty s = {}" "dirty s' = {}"
    and n: "as_num_blocks s' = as_num_blocks s"
    and "no_block_collision c H (nat (as_num_blocks s)) (as_mem s) (as_mem s')"
    and eq: "\<And>j. int j < as_num_blocks s \<Longrightarrow> leaf (as_ptree s) j = leaf (as_ptree s') j"
  shows "as_mem s = as_mem s'"
proof (rule mem_eq_blocks)
  have sh: "as_shape c s" "as_shape c s'" using assms(1,2) by (simp_all add: state_inv_def cow_inv_def)
  then show "length (as_mem s) = nat (as_num_blocks s) * TBFT_BLOCK_SIZE c"
    "length (as_mem s') = nat (as_num_blocks s) * TBFT_BLOCK_SIZE c" "0 < TBFT_BLOCK_SIZE c"
    using n by (simp_all add: as_shape_def)
  fix i assume i: "i < nat (as_num_blocks s)"
  then have ii: "0 \<le> int i" "int i < as_num_blocks s" by simp_all
  have "leaf_current c H mem0 (as_mem s) (as_ptree s) i" "leaf_current c H mem0 (as_mem s') (as_ptree s') i"
    using assms(1-4) ii n by (simp_all add: state_inv_def synced_leaf)
  moreover have "(tbft_msg_digest H (block_at c (as_mem s) i) = tbft_msg_digest H (block_at c (as_mem s') i) \<longrightarrow>
      block_at c (as_mem s) i = block_at c (as_mem s') i) \<and>
      tbft_msg_digest H (block_at c (as_mem s) i) \<noteq> tbft_digest_zero \<and>
      tbft_msg_digest H (block_at c (as_mem s') i) \<noteq> tbft_digest_zero"
    using assms(6) i by (simp add: no_block_collision_def list_all_iff)
  ultimately show "block_at c (as_mem s) i = block_at c (as_mem s') i"
    using eq [OF ii(2)] unfolding leaf_current_def by (elim disjE) (metis, metis, metis, metis)
qed

lemma stable_ckpt_clean:
  "state_step c H base (StableCkpt s) st = Some st' \<Longrightarrow> hash_total H \<Longrightarrow> state_inv c H mem0 smem st \<Longrightarrow> dirty st' = {}"
  using checkpoint_synced [of H c st mem0 s] mark_stable_inv(2) [of c "tbft_state_checkpoint c H st s" s]
  by (auto simp: state_inv_def cow_inv_def split: if_splits)

lemma state_run_snoc:
  "state_run c H base (ops @ [op]) st = (case state_run c H base ops st of None \<Rightarrow> None | Some s \<Rightarrow> state_step c H base op s)"
  by (induction ops arbitrary: st) (auto split: option.splits)

text \<open>C12: the checkpoint digest of a replica determines its memory.  Two replicas start from the
  same memory, execute any writes and stable checkpoints, and take a checkpoint.  If the root
  digests are equal then the memories are equal, unless SHA-256 collides.\<close>

theorem checkpoint_digest_binds_memory:
  assumes "cfg_ok c" "2 \<le> TBFT_P_CHILDREN c" "TBFT_P_CHILDREN c \<le> 2147"
    "int (TBFT_MAX_STATE_BLOCKS c) * int (TBFT_P_CHILDREN c) \<le> INT32_MAX"
    and H: "hash_total H" and init: "tbft_state_init c alloc mem0 = Some s0" "tbft_state_init c alloc' mem0 = Some s0'"
    and base: "0 \<le> base" "base + int (length mem0) < 2 ^ 32" "0 \<le> base'" "base' + int (length mem0) < 2 ^ 32"
    and run: "state_run c H base (ops @ [StableCkpt n]) s0 = Some s" "state_run c H base' (ops' @ [StableCkpt n']) s0' = Some s'"
    and nc: "no_collision H (as_ptree s) (as_ptree s')"
      "no_block_collision c H (nat (as_num_blocks s)) (as_mem s) (as_mem s')"
    and root: "tbft_state_root_digest s = tbft_state_root_digest s'"
  shows "as_mem s = as_mem s'"
proof -
  note i = state_init_inv(1) [OF init(1) assms(1-4), of H] state_init_inv(2) [OF init(1) assms(1-4)]
    state_init_inv(1) [OF init(2) assms(1-4), of H] state_init_inv(2) [OF init(2) assms(1-4)]
  have b: "base + int (length (as_mem s0)) < 2 ^ 32" "base' + int (length (as_mem s0')) < 2 ^ 32"
    using base i by simp_all
  from state_run_inv [OF H base(1) i(1) b(1) run(1)] obtain sm where r: "state_inv c H mem0 sm s"
    "as_num_blocks s = as_num_blocks s0" "same_dims (as_ptree s) (as_ptree s0)" by blast
  from state_run_inv [OF H base(3) i(3) b(2) run(2)] obtain sm' where r': "state_inv c H mem0 sm' s'"
    "as_num_blocks s' = as_num_blocks s0'" "same_dims (as_ptree s') (as_ptree s0')" by blast
  have "s0 = s0'" using init by (auto simp: tbft_state_init_def Let_def ptree_init_def split: if_splits option.splits)
  then have n: "as_num_blocks s' = as_num_blocks s" and dims: "same_dims (as_ptree s') (as_ptree s)"
    using r r' by (simp_all add: same_dims_def)
  from run(1) obtain s1 where s1: "state_run c H base ops s0 = Some s1" "state_step c H base (StableCkpt n) s1 = Some s"
    by (auto simp: state_run_snoc split: option.splits)
  from run(2) obtain s1' where s1': "state_run c H base' ops' s0' = Some s1'" "state_step c H base' (StableCkpt n') s1' = Some s'"
    by (auto simp: state_run_snoc split: option.splits)
  have d: "dirty s = {}" "dirty s' = {}"
    using state_run_inv [OF H base(1) i(1) b(1) s1(1)] stable_ckpt_clean [OF s1(2) H]
      state_run_inv [OF H base(3) i(3) b(2) s1'(1)] stable_ckpt_clean [OF s1'(2) H] by blast+
  have t: "tree_ok c H (as_num_blocks s) (as_ptree s)" "tree_ok c H (as_num_blocks s') (as_ptree s')"
    using r(1) r'(1) by (simp_all add: state_inv_def synced_def)
  then have ok: "ptree_ok H (as_ptree s)" "ptree_digests_ok (as_ptree s)" "ptree_ok H (as_ptree s')" "ptree_digests_ok (as_ptree s')"
    by (simp_all add: tree_ok_def)
  have "leaf (as_ptree s) j = leaf (as_ptree s') j" if "int j < as_num_blocks s" for j
  proof -
    have wf: "ptree_wf (as_ptree s)" using ok(1) by (simp add: ptree_ok_def)
    then have "as_num_blocks s \<le> int (pt_children (as_ptree s) ^ (pt_levels (as_ptree s) - 1))"
      using t(1) by (simp add: ptree_wf_def tree_ok_def)
    then have "j < pt_children (as_ptree s) ^ (pt_levels (as_ptree s) - 1)" using that by linarith
    moreover have "pt_levels (as_ptree s) - 1 < pt_levels (as_ptree s)" using wf by (simp add: ptree_wf_def)
    ultimately show ?thesis
      using equal_level [OF ok _ _ nc(1)] dims root by (simp add: leaf_def same_dims_def tbft_state_root_digest_def)
  qed
  then show ?thesis by (rule leaves_bind_memory [OF r(1) r'(1) d n nc(2)])
qed

section \<open>Rollback\<close>

lemma ckpt_block_simps [simp]:
  "as_mem (ckpt_block c H v i st) = as_mem st" "as_num_blocks (ckpt_block c H v i st) = as_num_blocks st"
  by (simp_all add: ckpt_block_def Let_def)

lemma restore_mem:
  assumes "length (as_mem st) = n * TBFT_BLOCK_SIZE c" "length smem = n * TBFT_BLOCK_SIZE c"
    and "\<forall>e \<in> set es. 0 \<le> cow_block_idx e \<and> cow_block_idx e < int n \<and> cow_data e = block_at c smem (nat (cow_block_idx e))"
  shows "length (as_mem (fold (restore_block c H v) es st)) = n * TBFT_BLOCK_SIZE c \<and>
    (\<forall>i < n. block_at c (as_mem (fold (restore_block c H v) es st)) i =
      (if int i \<in> cow_block_idx ` set es then block_at c smem i else block_at c (as_mem st) i))"
  using assms(1,3)
proof (induction es arbitrary: st)
  case Nil
  then show ?case by simp
next
  case (Cons e es)
  let ?i = "nat (cow_block_idx e)"
  have i: "?i < n" "int ?i = cow_block_idx e" "cow_data e = block_at c smem ?i" using Cons.prems(2) by auto
  have ld: "length (cow_data e) = TBFT_BLOCK_SIZE c" using length_block_at [OF assms(2) i(1)] i(3) by simp
  let ?s = "restore_block c H v e st"
  have m: "as_mem ?s = put (?i * TBFT_BLOCK_SIZE c) (cow_data e) (as_mem st)" by (simp add: restore_block_def)
  have len: "length (as_mem ?s) = n * TBFT_BLOCK_SIZE c"
    using block_fits [OF i(1), of "TBFT_BLOCK_SIZE c"] ld Cons.prems(1) by (simp add: m)
  have blk: "block_at c (as_mem ?s) j = (if j = ?i then block_at c smem j else block_at c (as_mem st) j)" if "j < n" for j
    using block_at_put_block [OF Cons.prems(1) that i(1) ld] i(3) by (simp add: m)
  from Cons.IH [OF len] Cons.prems(2) i(2) show ?case by (auto simp: blk)
qed

definition stable_rec :: "config \<Rightarrow> int \<Rightarrow> app_state \<Rightarrow> bool" where
  "stable_rec c n st \<longleftrightarrow> as_last_stable st = n \<and> ckr_valid (as_ckpt_records st ! ckpt_slot_for c n) \<and>
     ckr_seqno (as_ckpt_records st ! ckpt_slot_for c n) = n"

lemma rollback_mem:
  assumes I: "cow_inv c smem st" and r: "stable_rec c n st"
  shows "fst (tbft_state_rollback c H st) = n \<and> as_mem (snd (tbft_state_rollback c H st)) = smem"
proof -
  have sh: "as_shape c st" using I by (simp add: cow_inv_def)
  let ?slot = "ckpt_slot_for c n" and ?n = "nat (as_num_blocks st)"
  let ?s = "fold (restore_block c H n) (snapshots c st) st"
  have ls: "as_last_stable st = n" using r by (simp add: stable_rec_def)
  then have "?slot < length (as_ckpt_records st)" using sh ckpt_slot_less [of n c] by (auto simp: as_shape_def)
  then have "ckr_old_blocks (as_ckpt_records st ! ?slot) \<noteq> None"
    using sh by (simp add: as_shape_def list_all_length del: not_None_eq)
  then have "ckr_old_blocks (as_ckpt_records st ! ?slot) = Some (snapshots c st)" by (auto simp: snapshots_def ls)
  then have rb: "tbft_state_rollback c H st = (n, cow_zero ?s)"
    using r by (simp add: tbft_state_rollback_def stable_rec_def ls Let_def)
  have len: "length (as_mem st) = ?n * TBFT_BLOCK_SIZE c" "length smem = ?n * TBFT_BLOCK_SIZE c"
    using I sh by (simp_all add: cow_inv_def as_shape_def)
  have "\<forall>e \<in> set (snapshots c st). 0 \<le> cow_block_idx e \<and> cow_block_idx e < int ?n \<and>
      cow_data e = block_at c smem (nat (cow_block_idx e))"
    using I by (auto simp: cow_inv_def dirty_def)
  note m = restore_mem [OF len this, of H n]
  have "as_mem ?s = smem"
  proof (rule mem_eq_blocks [of _ ?n c])
    show "0 < TBFT_BLOCK_SIZE c" using sh by (simp add: as_shape_def)
    fix i assume i: "i < ?n"
    then have "int i < as_num_blocks st" by simp
    then have "int i \<notin> dirty st \<Longrightarrow> block_at c (as_mem st) (nat (int i)) = block_at c smem (nat (int i))"
      using I unfolding cow_inv_def by (metis of_nat_0_le_iff)
    with m i show "block_at c (as_mem ?s) i = block_at c smem i"
      using I by (simp add: cow_inv_def)
  qed (use m len in simp_all)
  then show ?thesis by (simp add: rb cow_zero_def)
qed

lemma cow_single_stable_rec: "stable_rec c n st \<Longrightarrow> stable_rec c n (tbft_state_cow_single c st b)"
  by (cases "ckpt_slot_for c n < length (as_ckpt_records st)")
    (simp_all add: stable_rec_def tbft_state_cow_single_def cow_set_def Let_def list_update_beyond split: option.splits)

lemma cow_fold_stable_rec:
  "stable_rec c n st \<Longrightarrow> stable_rec c n (fold (\<lambda>i st. tbft_state_cow_single c st i) bs st)"
  by (induction bs arbitrary: st) (simp_all add: cow_single_stable_rec)

lemma app_write_stable_rec: "stable_rec c n st \<Longrightarrow> stable_rec c n (app_write c base off xs st)"
  using cow_fold_stable_rec by (auto simp: app_write_def tbft_state_cow_def Let_def stable_rec_def)

lemma stable_ckpt_rec:
  assumes H: "hash_total H" and sh: "as_shape c st" and sy: "synced c H mem0 st"
    and r: "state_step c H base (StableCkpt n) st = Some st'"
  shows "stable_rec c n st'"
proof -
  from r have n: "as_last_stable st < n" and st': "st' = tbft_state_mark_stable c (tbft_state_checkpoint c H st n) n"
    by (auto split: if_splits)
  let ?k = "tbft_state_checkpoint c H st n"
  note k = checkpoint_synced [OF H sh sy, of n]
  have "0 \<le> n" using sh n by (simp add: as_shape_def)
  then have slot: "ckpt_slot_for c n < length (as_ckpt_records ?k)"
    using k(2) ckpt_slot_less by (simp add: as_shape_def)
  then have "ckr_valid (as_ckpt_records ?k ! ckpt_slot_for c n) \<and> ckr_seqno (as_ckpt_records ?k ! ckpt_slot_for c n) = n"
    by (simp add: tbft_state_checkpoint_def Let_def cow_zero_def)
  with slot n k(6) show ?thesis
    by (simp add: st' stable_rec_def tbft_state_mark_stable_def Let_def)
qed

lemma writes_inv:
  assumes base: "0 \<le> base"
    and I: "cow_inv c smem st" "base + int (length (as_mem st)) < 2 ^ 32" "stable_rec c n st"
    and r: "state_run c H base (map (\<lambda>(off, xs). AppWrite off xs) ws) st = Some st'"
  shows "cow_inv c smem st' \<and> stable_rec c n st'"
  using I r
proof (induction ws arbitrary: st)
  case Nil
  then show ?case by simp
next
  case (Cons w ws)
  obtain off xs where w: "w = (off, xs)" by (cases w)
  with Cons.prems(4) have rng: "0 \<le> off" "off + int (length xs) \<le> int (length (as_mem st))"
    and r: "state_run c H base (map (\<lambda>(off, xs). AppWrite off xs) ws) (app_write c base off xs st) = Some st'"
    by (auto split: if_splits)
  note a = app_write_inv [OF Cons.prems(1) base Cons.prems(2) rng]
  show ?case
    using Cons.IH [OF a(1) _ app_write_stable_rec [OF Cons.prems(3)] r] a(4) Cons.prems(2) by simp
qed

text \<open>The state after a run that ends with a stable checkpoint.\<close>

lemma stable_run:
  assumes "cfg_ok c" "2 \<le> TBFT_P_CHILDREN c" "TBFT_P_CHILDREN c \<le> 2147"
    "int (TBFT_MAX_STATE_BLOCKS c) * int (TBFT_P_CHILDREN c) \<le> INT32_MAX"
    and H: "hash_total H" and init: "tbft_state_init c alloc mem0 = Some s0"
    and base: "0 \<le> base" "base + int (length mem0) < 2 ^ 32"
    and run: "state_run c H base (ops @ [StableCkpt n]) s0 = Some s1"
  shows "cow_inv c (as_mem s1) s1" "stable_rec c n s1" "base + int (length (as_mem s1)) < 2 ^ 32"
proof -
  note i = state_init_inv(1) [OF init assms(1-4), of H] state_init_inv(2) [OF init assms(1-4)]
  have b: "base + int (length (as_mem s0)) < 2 ^ 32" using base i by simp
  from run obtain s where s: "state_run c H base ops s0 = Some s" "state_step c H base (StableCkpt n) s = Some s1"
    by (auto simp: state_run_snoc split: option.splits)
  from state_run_inv [OF H base(1) i(1) b s(1)] b obtain sm where r: "state_inv c H mem0 sm s"
    and l: "base + int (length (as_mem s)) < 2 ^ 32" by auto
  have si: "state_inv c H mem0 (as_mem s) s1" and len: "length (as_mem s1) = length (as_mem s)"
    using state_step_inv [OF H r base(1) l s(2)] by (simp_all add: stable_mem_after_def)
  have sh: "as_shape c s" and sy: "synced c H mem0 s" using r by (simp_all add: state_inv_def cow_inv_def)
  have mem: "as_mem s1 = as_mem s"
    using s(2) checkpoint_synced [OF H sh sy, of n] by (auto simp: tbft_state_mark_stable_def Let_def split: if_splits)
  show "cow_inv c (as_mem s1) s1" using si by (simp add: state_inv_def mem)
  show "stable_rec c n s1" by (rule stable_ckpt_rec [OF H sh sy s(2)])
  show "base + int (length (as_mem s1)) < 2 ^ 32" using l len by simp
qed


end
