(* ===== verification/State_Examples.thy ===== *)
theory State_Examples
  imports App_State
begin

text \<open>
  Concrete runs of the application state on a small configuration: the witnesses of the properties
  of \<open>App_State\<close>, and two behaviours of \<open>tbft_state.c\<close> that differ from what it means to do, when a
  checkpoint is taken whose predecessor is not yet stable.
\<close>

section \<open>A small configuration\<close>

text \<open>A small configuration (blocks of one byte, branching factor 7) and a hash that pads.\<close>

definition small_config :: config where
  "small_config = default_config\<lparr> TBFT_MAX_MESSAGE_SIZE := 304, TBFT_MAX_REPLY_SIZE := 0, TBFT_BLOCK_SIZE := 1 \<rparr>"

definition pad_hash :: "bytes \<Rightarrow> bytes option" where
  "pad_hash x = Some (take 32 (x @ replicate 32 9))"

lemma small_config_ok: "cfg_ok small_config"
  by (simp add: cfg_ok_def small_config_def pow2_assert_def TBFT_P_CHILDREN_def)

lemma small_config_simps [simp]:
  "TBFT_BLOCK_SIZE small_config = 1" "TBFT_P_CHILDREN small_config = 7" "TBFT_P_LEVELS small_config = 4"
  "TBFT_MAX_STATE_BLOCKS small_config = 256" "TBFT_NUM_CKPT_SLOTS small_config = 4"
  "TBFT_CHECKPOINT_INTERVAL small_config = 8" "TBFT_RECOVERY_TIMEOUT_US small_config = 2500000"
  by (simp_all add: small_config_def TBFT_P_CHILDREN_def default_config_def TBFT_NUM_CKPT_SLOTS_def)

lemma pad_hash_total: "hash_total pad_hash"
  by (auto simp: hash_total_def hash_len_ok_def pad_hash_def min_def)

definition small_state :: app_state where
  "small_state = the (tbft_state_init small_config (\<lambda>_. True) [1, 2])"

lemma small_state_init: "tbft_state_init small_config (\<lambda>_. True) [1, 2] = Some \<lparr> as_mem = [1, 2], as_num_blocks = 2,
  as_cowb = replicate 5 0, as_ptree = \<lparr> pt_levels = 2, pt_children = 7, pt_num_blocks = 2,
    pt_nodes = [[part_zero], replicate 7 part_zero], pt_total_nodes = 8 \<rparr>,
  as_block_digests = replicate 256 tbft_digest_zero,
  as_ckpt_records = replicate 4 (ckpt_record_zero\<lparr> ckr_old_blocks := Some [] \<rparr>),
  as_in_fetch = False, as_fetch_seqno = 0, as_fetch_queue = [], as_n_data_pending = 0, as_fetch_timeout_us = 2500000,
  as_fetch_start_time_us = 0, as_fetch_replier = 0, as_fetch_received = replicate 4 0, as_last_stable = 0 \<rparr>"
  by (simp add: tbft_state_init_def ptree_init_def ptree_compute_levels_def ptree_levels_loop.simps ptree_nodes_at_level_def
        i32_id Let_def upt_rec) 


lemma replicates [simp]: "replicate 4 x = [x, x, x, x]" "replicate 5 x = [x, x, x, x, x]" "replicate 7 x = [x, x, x, x, x, x, x]"
  by (simp_all add: numeral_eq_Suc)


lemma cons_not_zeros [simp]: "x \<noteq> 0 \<Longrightarrow> x # xs \<noteq> replicate 32 (0 :: u8)"
  by (simp add: numeral_eq_Suc)

lemmas write_eval = app_write_def tbft_state_cow_def tbft_state_cow_single_def Let_def put_def upto.simps
  cow_test_def words_test_def cow_set_def words_set_def state_block_def ckpt_slot_eq ckpt_record_zero_def
lemmas ckpt_eval = tbft_state_mark_stable_def tbft_state_checkpoint_def tbft_state_rollback_def restore_block_def
  upto.simps ckpt_block_def Let_def cow_test_def words_test_def ckpt_slot_eq cow_zero_def words_zero_def
  state_block_def ptree_update_leaf_def ptree_set_node_def ptree_parent_def ptree_child_digests_def
  ptree_first_child_def ptree_nodes_at_level_def i32_id ptree_node_def pad_hash_def tbft_msg_digest_def
  upt_rec part_zero_def tbft_digest_zero_def ptree_root_digest_def put_def tbft_state_root_digest_def

abbreviation zero_part :: part where
  "zero_part \<equiv> \<lparr> part_digest = replicate 32 0, part_version = 0 \<rparr>"

text \<open>The small state after one write to block 0 and a stable checkpoint at \<open>n\<close> (slot \<open>k\<close>).\<close>

definition small_after :: "int \<Rightarrow> nat \<Rightarrow> app_state" where
  "small_after n k = \<lparr> as_mem = [5, 2], as_num_blocks = 2, as_cowb = [0, 0, 0, 0, 0],
     as_ptree = \<lparr> pt_levels = 2, pt_children = 7, pt_num_blocks = 2,
       pt_nodes = [[\<lparr> part_digest = 5 # replicate 31 9, part_version = n \<rparr>],
         [\<lparr> part_digest = 5 # replicate 31 9, part_version = n \<rparr>, zero_part, zero_part, zero_part, zero_part, zero_part, zero_part]],
       pt_total_nodes = 8 \<rparr>,
     as_block_digests = (replicate 256 (replicate 32 0))[0 := 5 # replicate 31 9],
     as_ckpt_records = (\<lparr> ckr_seqno = 0, ckr_root_digest = replicate 32 0,
         ckr_old_blocks = Some [\<lparr> cow_block_idx = 0, cow_data = [1] \<rparr>], ckr_valid = False \<rparr> #
       (replicate 3 \<lparr> ckr_seqno = 0, ckr_root_digest = replicate 32 0, ckr_old_blocks = Some [], ckr_valid = False \<rparr>)
         [k := \<lparr> ckr_seqno = n, ckr_root_digest = 5 # replicate 31 9, ckr_old_blocks = Some [], ckr_valid = True \<rparr>]),
     as_in_fetch = False, as_fetch_seqno = 0, as_fetch_queue = [], as_n_data_pending = 0, as_fetch_timeout_us = 2500000,
     as_fetch_start_time_us = 0, as_fetch_replier = 0, as_fetch_received = [0, 0, 0, 0], as_last_stable = n \<rparr>"

lemma small_run_8:
  "state_run small_config pad_hash 4096 [AppWrite 0 [5], StableCkpt 8] (the (tbft_state_init small_config (\<lambda>_. True) [1, 2])) =
   Some (small_after 8 0)"
  unfolding small_state_init option.sel by (simp add: write_eval) (simp add: ckpt_eval small_after_def numeral_3_eq_3)

lemma small_run_16:
  "state_run small_config pad_hash 4096 [AppWrite 0 [6], AppWrite 0 [5], StableCkpt 16]
     (the (tbft_state_init small_config (\<lambda>_. True) [1, 2])) = Some (small_after 16 1)"
  unfolding small_state_init option.sel by (simp add: write_eval) (simp add: ckpt_eval small_after_def numeral_3_eq_3)

lemma checkpoint_digest_binds_memory_witness:
  "as_mem (small_after 8 0) = as_mem (small_after 16 1)"
proof (rule checkpoint_digest_binds_memory [where c = small_config and H = pad_hash and ?mem0.0 = "[1, 2]" and
      ?s0.0 = "the (tbft_state_init small_config (\<lambda>_. True) [1, 2])" and s0' = "the (tbft_state_init small_config (\<lambda>_. True) [1, 2])" and
      alloc = "\<lambda>_. True" and alloc' = "\<lambda>_. True" and
      base = 4096 and base' = 4096 and ops = "[AppWrite 0 [5]]" and n = 8 and ops' = "[AppWrite 0 [6], AppWrite 0 [5]]" and n' = 16])
  show "state_run small_config pad_hash 4096 ([AppWrite 0 [5]] @ [StableCkpt 8])
      (the (tbft_state_init small_config (\<lambda>_. True) [1, 2])) = Some (small_after 8 0)"
    using small_run_8 by (simp only: append.simps)
  show "state_run small_config pad_hash 4096 ([AppWrite 0 [6], AppWrite 0 [5]] @ [StableCkpt 16])
      (the (tbft_state_init small_config (\<lambda>_. True) [1, 2])) = Some (small_after 16 1)"
    using small_run_16 by (simp only: append.simps)
  show "no_collision pad_hash (as_ptree (small_after 8 0)) (as_ptree (small_after 16 1))"
    by (simp add: no_collision_def small_after_def ckpt_eval)
  show "no_block_collision small_config pad_hash (nat (as_num_blocks (small_after 8 0)))
      (as_mem (small_after 8 0)) (as_mem (small_after 16 1))"
    by (simp add: no_block_collision_def small_after_def ckpt_eval block_at_def)
qed (simp_all add: small_config_ok pad_hash_total small_state_init INT32_MAX_def small_after_def tbft_state_root_digest_def
    ptree_root_digest_def ptree_node_def)


text \<open>The small state after another write and a checkpoint at 16 that is not stable.\<close>

definition small_unstable :: app_state where
  "small_unstable = (small_after 8 0)\<lparr> as_mem := [6, 2],
     as_ptree := \<lparr> pt_levels = 2, pt_children = 7, pt_num_blocks = 2,
       pt_nodes = [[\<lparr> part_digest = 6 # replicate 31 9, part_version = 16 \<rparr>],
         [\<lparr> part_digest = 6 # replicate 31 9, part_version = 16 \<rparr>, zero_part, zero_part, zero_part, zero_part, zero_part, zero_part]],
       pt_total_nodes = 8 \<rparr>,
     as_block_digests := (replicate 256 (replicate 32 0))[0 := 6 # replicate 31 9],
     as_ckpt_records :=
       [\<lparr> ckr_seqno = 0, ckr_root_digest = replicate 32 0,
          ckr_old_blocks = Some [\<lparr> cow_block_idx = 0, cow_data = [1] \<rparr>], ckr_valid = False \<rparr>,
        \<lparr> ckr_seqno = 8, ckr_root_digest = 5 # replicate 31 9,
          ckr_old_blocks = Some [\<lparr> cow_block_idx = 0, cow_data = [5] \<rparr>], ckr_valid = True \<rparr>,
        \<lparr> ckr_seqno = 16, ckr_root_digest = 6 # replicate 31 9, ckr_old_blocks = Some [], ckr_valid = True \<rparr>,
        \<lparr> ckr_seqno = 0, ckr_root_digest = replicate 32 0, ckr_old_blocks = Some [], ckr_valid = False \<rparr>] \<rparr>"

lemma small_unstable_reached:
  "tbft_state_checkpoint small_config pad_hash (app_write small_config 4096 0 [6] (small_after 8 0)) 16 = small_unstable"
  by (simp add: small_after_def numeral_3_eq_3 write_eval) (simp add: ckpt_eval small_unstable_def small_after_def)


text \<open>The small state after a write to both blocks and a checkpoint at 8 that is not stable.\<close>

definition small_full :: app_state where
  "small_full = \<lparr> as_mem = [5, 6], as_num_blocks = 2, as_cowb = [0, 0, 0, 0, 0],
     as_ptree = \<lparr> pt_levels = 2, pt_children = 7, pt_num_blocks = 2,
       pt_nodes = [[\<lparr> part_digest = 5 # replicate 31 9, part_version = 8 \<rparr>],
         [\<lparr> part_digest = 5 # replicate 31 9, part_version = 8 \<rparr>, \<lparr> part_digest = 6 # replicate 31 9, part_version = 8 \<rparr>,
          zero_part, zero_part, zero_part, zero_part, zero_part]],
       pt_total_nodes = 8 \<rparr>,
     as_block_digests = (replicate 256 (replicate 32 0))[0 := 5 # replicate 31 9, 1 := 6 # replicate 31 9],
     as_ckpt_records = [\<lparr> ckr_seqno = 0, ckr_root_digest = replicate 32 0,
         ckr_old_blocks = Some [\<lparr> cow_block_idx = 0, cow_data = [1] \<rparr>, \<lparr> cow_block_idx = 1, cow_data = [2] \<rparr>], ckr_valid = False \<rparr>,
       \<lparr> ckr_seqno = 8, ckr_root_digest = 5 # replicate 31 9, ckr_old_blocks = Some [], ckr_valid = True \<rparr>,
       \<lparr> ckr_seqno = 0, ckr_root_digest = replicate 32 0, ckr_old_blocks = Some [], ckr_valid = False \<rparr>,
       \<lparr> ckr_seqno = 0, ckr_root_digest = replicate 32 0, ckr_old_blocks = Some [], ckr_valid = False \<rparr>],
     as_in_fetch = False, as_fetch_seqno = 0, as_fetch_queue = [], as_n_data_pending = 0, as_fetch_timeout_us = 2500000,
     as_fetch_start_time_us = 0, as_fetch_replier = 0, as_fetch_received = [0, 0, 0, 0], as_last_stable = 0 \<rparr>"

lemma small_full_run:
  "tbft_state_checkpoint small_config pad_hash (app_write small_config 4096 0 [5, 6]
     (the (tbft_state_init small_config (\<lambda>_. True) [1, 2]))) 8 = small_full"
  unfolding small_state_init option.sel by (simp add: write_eval) (simp add: ckpt_eval small_full_def)


end
