(* ===== verification/Quorum.thy ===== *)
theory Quorum
  imports Message
begin

text \<open>
  The contract that the quorum certificates of the code share.  \<open>Certificate\<close> (the macro
  \<open>CERT_IMPL\<close>) and the slots of \<open>Checkpoint_Region\<close> store votes in different ways; both keep at
  most one vote per sender and both announce a digest only when enough senders voted for it.
  A vote log \<open>V\<close> maps a sender to the digest it voted for; \<open>holds s V\<close> says that the stored
  certificate \<open>s\<close> represents \<open>V\<close>.  The clients' lemma is quorum intersection: with
  \<open>n = 3f + 1\<close> replicas, \<open>f\<close> of them faulty, two certificates of \<open>2f + 1\<close> votes announce the
  same digest, whichever replicas hold them.
\<close>

type_synonym votes = "int \<Rightarrow> digest option"

definition voters :: "votes \<Rightarrow> digest \<Rightarrow> int set" where
  "voters V d = {i. V i = Some d}"

lemma voters_subset_dom: "voters V d \<subseteq> dom V"
  by (auto simp: voters_def)

lemma voters_update:
  "V i = None \<Longrightarrow> voters (V(i \<mapsto> d)) e = (if d = e then insert i (voters V e) else voters V e)"
  by (auto simp: voters_def)

lemma voters_disjoint: "d \<noteq> e \<Longrightarrow> voters V d \<inter> voters V e = {}"
  by (auto simp: voters_def)

lemma quorum_overlap:
  assumes "finite N" "A \<subseteq> N" "B \<subseteq> N" "int (card N) \<le> 3 * f + 1"
    and "2 * f + 1 \<le> int (card A)" "2 * f + 1 \<le> int (card B)"
  shows "f + 1 \<le> int (card (A \<inter> B))"
proof -
  have fin: "finite A" "finite B" using assms(1-3) finite_subset by auto
  have "card (A \<union> B) \<le> card N" using assms(1-3) by (intro card_mono) auto
  moreover have "card A + card B = card (A \<union> B) + card (A \<inter> B)"
    using fin by (rule card_Un_Int)
  ultimately show ?thesis using assms(4-6) by linarith
qed

lemma quorum_honest_overlap:
  assumes "finite N" "A \<subseteq> N" "B \<subseteq> N" "int (card N) \<le> 3 * f + 1"
    and "2 * f + 1 \<le> int (card A)" "2 * f + 1 \<le> int (card B)"
    and "finite F" "int (card F) \<le> f"
  obtains i where "i \<in> A" "i \<in> B" "i \<notin> F"
proof -
  have "card F < card (A \<inter> B)"
    using quorum_overlap [OF assms(1-6)] assms(8) by linarith
  then have "\<not> A \<inter> B \<subseteq> F" using card_mono [OF assms(7)] by (meson not_less)
  then show thesis using that by blast
qed

locale quorum_cert =
  fixes holds :: "'s \<Rightarrow> votes \<Rightarrow> bool"
    and winner :: "'s \<Rightarrow> digest option"
    and quorum :: "'s \<Rightarrow> int"
  assumes holds_finite: "holds s V \<Longrightarrow> finite (dom V)"
    and winner_quorum: "holds s V \<Longrightarrow> winner s = Some d \<Longrightarrow> quorum s \<le> int (card (voters V d))"
begin

lemma winner_has_voters:
  assumes "holds s V" "winner s = Some d" "0 < quorum s"
  shows "voters V d \<noteq> {}"
  using winner_quorum [OF assms(1,2)] assms(3) by force

lemma winners_agree:
  assumes s: "holds s V" "winner s = Some d" "2 * f + 1 \<le> quorum s"
    and t: "holds t W" "winner t = Some e" "2 * f + 1 \<le> quorum t"
    and n: "dom V \<subseteq> {0 ..< n}" "dom W \<subseteq> {0 ..< n}" "n \<le> 3 * f + 1" "0 \<le> n"
    and faulty: "finite F" "int (card F) \<le> f"
    and honest: "\<And>i x y. i \<notin> F \<Longrightarrow> V i = Some x \<Longrightarrow> W i = Some y \<Longrightarrow> x = y"
  shows "d = e"
proof -
  have A: "voters V d \<subseteq> {0 ..< n}" and B: "voters W e \<subseteq> {0 ..< n}"
    using n(1,2) voters_subset_dom by fast+
  have cA: "2 * f + 1 \<le> int (card (voters V d))" using winner_quorum [OF s(1,2)] s(3) by simp
  have cB: "2 * f + 1 \<le> int (card (voters W e))" using winner_quorum [OF t(1,2)] t(3) by simp
  have "int (card {0 ..< n}) \<le> 3 * f + 1" using n(3,4) by simp
  then obtain i where "i \<in> voters V d" "i \<in> voters W e" "i \<notin> F"
    using quorum_honest_overlap [OF _ A B _ cA cB faulty] by auto
  then show ?thesis using honest [of i d e] by (auto simp: voters_def)
qed

text \<open>A certificate contains the vote of an honest replica.\<close>

lemma winner_honest_vote:
  assumes "holds s V" "winner s = Some d" "f + 1 \<le> quorum s" "finite F" "int (card F) \<le> f"
  obtains i where "i \<notin> F" "V i = Some d"
proof -
  have "card F < card (voters V d)" using winner_quorum [OF assms(1,2)] assms(3,5) by linarith
  then have "\<not> voters V d \<subseteq> F" using card_mono [OF assms(4)] by (meson not_less)
  then show thesis using that by (auto simp: voters_def)
qed

end

end
