(* ===== verification/Certificate.thy ===== *)
theory Certificate
  imports Quorum
begin

text \<open>
  Quorum certificates, \<open>src/tbft_certificate.h\<close> and \<open>tbft_certificate.c\<close>.  The macro
  \<open>CERT_IMPL\<close> is expanded three times; its parameters (slot size, digest offset, tag) are the
  record \<open>cert_kind\<close> and the three instances are \<open>commit_kind\<close>, \<open>checkpoint_kind\<close> and
  \<open>prepare_kind\<close>.  \<open>cert_inv\<close> is the representation invariant, \<open>cert_votes\<close> the abstraction
  relation to a vote log; \<open>quorum_cert\<close> is interpreted on them.
\<close>

section \<open>State\<close>

record cert_kind =
  ck_slot_size :: nat
  ck_digest_offset :: nat
  ck_tag :: tbft_msg_tag

definition commit_kind :: "config \<Rightarrow> cert_kind" where
  "commit_kind c = \<lparr> ck_slot_size = sz_commit + TBFT_AUTH_SIZE c,
     ck_digest_offset = 16 + 8 + 8, ck_tag = TBFT_MSG_COMMIT \<rparr>"

definition checkpoint_kind :: "config \<Rightarrow> cert_kind" where
  "checkpoint_kind c = \<lparr> ck_slot_size = sz_checkpoint + TBFT_AUTH_SIZE c,
     ck_digest_offset = 16 + 8, ck_tag = TBFT_MSG_CHECKPOINT \<rparr>"

definition prepare_kind :: "config \<Rightarrow> cert_kind" where
  "prepare_kind c = \<lparr> ck_slot_size = sz_prepare + TBFT_AUTH_SIZE c,
     ck_digest_offset = 16 + 8 + 8, ck_tag = TBFT_MSG_PREPARE \<rparr>"

record cert =
  cert_bmap :: bitmap
  cert_val_digests :: "digest list"
  cert_vals :: "bytes list"
  cert_correct :: "nat list"
  cert_num_vals :: nat
  cert_mym_idx :: int
  cert_complete_threshold :: int

section \<open>Operations\<close>

definition extract_msg_digest :: "bytes \<Rightarrow> int \<Rightarrow> tbft_msg_tag \<Rightarrow> nat \<Rightarrow> digest option" where
  "extract_msg_digest msg msg_len expected_tag digest_offset =
     (if msg_len \<le> 0 then None
      else if nat msg_len < digest_offset + TBFT_DIGEST_SIZE then None
      else if hdr_tag msg \<noteq> tag_val expected_tag then None
      else Some (field digest_offset TBFT_DIGEST_SIZE msg))"

definition cert_init :: "config \<Rightarrow> cert_kind \<Rightarrow> int \<Rightarrow> cert" where
  "cert_init c k threshold = \<lparr>
     cert_bmap = tbft_bitmap_zero,
     cert_val_digests = replicate (TBFT_CERT_MAX_VALS c) tbft_digest_zero,
     cert_vals = replicate (TBFT_CERT_MAX_VALS c) (replicate (ck_slot_size k) 0),
     cert_correct = replicate (TBFT_CERT_MAX_VALS c) 0,
     cert_num_vals = 0,
     cert_mym_idx = - 1,
     cert_complete_threshold = threshold \<rparr>"

definition cert_clear :: "config \<Rightarrow> cert_kind \<Rightarrow> cert \<Rightarrow> cert" where
  "cert_clear c k ct = cert_init c k (cert_complete_threshold ct)"

text \<open>The loop that looks for a stored value with the message's digest.\<close>

definition cert_find :: "cert \<Rightarrow> digest \<Rightarrow> nat option" where
  "cert_find ct d =
     List.find (\<lambda>i. tbft_digest_equal d (cert_val_digests ct ! i)) [0 ..< cert_num_vals ct]"

definition cert_bump :: "cert \<Rightarrow> nat \<Rightarrow> int \<Rightarrow> cert" where
  "cert_bump ct i sender = ct\<lparr>
     cert_bmap := tbft_bitmap_set (cert_bmap ct) sender,
     cert_correct := (cert_correct ct)[i := cert_correct ct ! i + 1] \<rparr>"

definition cert_store :: "cert \<Rightarrow> digest \<Rightarrow> bytes \<Rightarrow> int \<Rightarrow> int \<Rightarrow> cert" where
  "cert_store ct d msg msg_len sender = ct\<lparr>
     cert_val_digests := (cert_val_digests ct)[cert_num_vals ct := d],
     cert_vals := (cert_vals ct)[cert_num_vals ct :=
       put 0 (take (nat msg_len) msg) (cert_vals ct ! cert_num_vals ct)],
     cert_correct := (cert_correct ct)[cert_num_vals ct := 1],
     cert_bmap := tbft_bitmap_set (cert_bmap ct) sender,
     cert_num_vals := cert_num_vals ct + 1 \<rparr>"

definition cert_add :: "config \<Rightarrow> cert_kind \<Rightarrow> cert \<Rightarrow> bytes \<Rightarrow> int \<Rightarrow> int \<Rightarrow> bool \<times> cert" where
  "cert_add c k ct msg msg_len sender_id =
     (if sender_id < 0 \<or> 64 \<le> sender_id then (False, ct)
      else if msg_len \<le> 0 \<or> ck_slot_size k < nat msg_len then (False, ct)
      else if tbft_bitmap_test (cert_bmap ct) sender_id then (False, ct)
      else case extract_msg_digest msg msg_len (ck_tag k) (ck_digest_offset k) of
        None \<Rightarrow> (False, ct)
      | Some d \<Rightarrow>
          (case cert_find ct d of
             Some i \<Rightarrow> (True, cert_bump ct i sender_id)
           | None \<Rightarrow>
               if TBFT_CERT_MAX_VALS c \<le> cert_num_vals ct then (False, ct)
               else (True, cert_store ct d msg msg_len sender_id)))"

definition cert_add_mine :: "config \<Rightarrow> cert_kind \<Rightarrow> cert \<Rightarrow> bytes \<Rightarrow> int \<Rightarrow> int \<Rightarrow> bool \<times> cert" where
  "cert_add_mine c k ct msg msg_len my_id =
     (if my_id < 0 \<or> 64 \<le> my_id then (False, ct)
      else if msg_len \<le> 0 \<or> ck_slot_size k < nat msg_len then (False, ct)
      else if tbft_bitmap_test (cert_bmap ct) my_id then (False, ct)
      else case extract_msg_digest msg msg_len (ck_tag k) (ck_digest_offset k) of
        None \<Rightarrow> (False, ct)
      | Some d \<Rightarrow>
          (case cert_find ct d of
             Some i \<Rightarrow> (True, (cert_bump ct i my_id)\<lparr> cert_mym_idx := int i \<rparr>)
           | None \<Rightarrow>
               if cert_num_vals ct < TBFT_CERT_MAX_VALS c
               then (True, (cert_store ct d msg msg_len my_id)
                             \<lparr> cert_mym_idx := int (cert_num_vals ct) \<rparr>)
               else (False, ct)))"

definition cert_winning :: "cert \<Rightarrow> nat option" where
  "cert_winning ct =
     List.find (\<lambda>i. cert_complete_threshold ct \<le> int (cert_correct ct ! i)) [0 ..< cert_num_vals ct]"

definition cert_cvalue :: "cert \<Rightarrow> bytes option" where
  "cert_cvalue ct = map_option (\<lambda>i. cert_vals ct ! i) (cert_winning ct)"

definition cert_is_complete :: "cert \<Rightarrow> bool" where
  "cert_is_complete ct \<longleftrightarrow> cert_cvalue ct \<noteq> None"

section \<open>Representation invariant and abstraction\<close>

definition cert_inv :: "config \<Rightarrow> cert_kind \<Rightarrow> cert \<Rightarrow> bool" where
  "cert_inv c k ct \<longleftrightarrow>
     length (cert_val_digests ct) = TBFT_CERT_MAX_VALS c \<and>
     length (cert_vals ct) = TBFT_CERT_MAX_VALS c \<and>
     length (cert_correct ct) = TBFT_CERT_MAX_VALS c \<and>
     cert_num_vals ct \<le> TBFT_CERT_MAX_VALS c \<and>
     (\<forall>i < TBFT_CERT_MAX_VALS c. length (cert_vals ct ! i) = ck_slot_size k) \<and>
     (\<forall>i < cert_num_vals ct. length (cert_val_digests ct ! i) = 32 \<and>
        field (ck_digest_offset k) 32 (cert_vals ct ! i) = cert_val_digests ct ! i \<and>
        hdr_tag (cert_vals ct ! i) = tag_val (ck_tag k)) \<and>
     (\<forall>i < cert_num_vals ct. \<forall>j < cert_num_vals ct.
        cert_val_digests ct ! i = cert_val_digests ct ! j \<longrightarrow> i = j) \<and>
     - 1 \<le> cert_mym_idx ct \<and> cert_mym_idx ct < int (cert_num_vals ct)"

definition cert_votes :: "cert \<Rightarrow> votes \<Rightarrow> bool" where
  "cert_votes ct V \<longleftrightarrow>
     dom V = members (cert_bmap ct) \<and>
     ran V = {cert_val_digests ct ! i | i. i < cert_num_vals ct} \<and>
     (\<forall>i < cert_num_vals ct. cert_correct ct ! i = card (voters V (cert_val_digests ct ! i)))"

definition cert_holds :: "config \<Rightarrow> cert_kind \<Rightarrow> cert \<Rightarrow> votes \<Rightarrow> bool" where
  "cert_holds c k ct V \<longleftrightarrow> cert_inv c k ct \<and> cert_votes ct V"

text \<open>The digest a complete certificate certifies: the digest field of its winning message.\<close>

definition cert_winner :: "cert_kind \<Rightarrow> cert \<Rightarrow> digest option" where
  "cert_winner k ct = map_option (field (ck_digest_offset k) 32) (cert_cvalue ct)"


definition kind_ok :: "cert_kind \<Rightarrow> bool" where
  "kind_ok k \<longleftrightarrow> 16 \<le> ck_digest_offset k \<and> ck_digest_offset k + 32 \<le> ck_slot_size k"

lemma kinds_ok [simp]: "kind_ok (commit_kind c)" "kind_ok (checkpoint_kind c)" "kind_ok (prepare_kind c)"
  by (simp_all add: kind_ok_def commit_kind_def checkpoint_kind_def prepare_kind_def)

section \<open>Searching the stored values\<close>

lemma cert_find_Some:
  assumes "cert_inv c k ct" "length d = 32" "cert_find ct d = Some i"
  shows "i < cert_num_vals ct" "cert_val_digests ct ! i = d"
  using assms by (auto simp: cert_find_def find_Some_iff cert_inv_def)

lemma cert_find_None:
  assumes "cert_inv c k ct" "length d = 32" "cert_find ct d = None" "i < cert_num_vals ct"
  shows "cert_val_digests ct ! i \<noteq> d"
  using assms by (auto simp: cert_find_def find_None_iff cert_inv_def)

lemma cert_find_None_ran:
  assumes "cert_holds c k ct V" "length d = 32" "cert_find ct d = None"
  shows "d \<notin> ran V"
  using assms cert_find_None by (fastforce simp: cert_holds_def cert_votes_def)

lemma num_vals_ran:
  assumes "cert_holds c k ct V"
  shows "cert_num_vals ct = card (ran V)"
proof -
  have "ran V = (\<lambda>i. cert_val_digests ct ! i) ` {..< cert_num_vals ct}"
    using assms by (auto simp: cert_holds_def cert_votes_def)
  moreover have "inj_on (\<lambda>i. cert_val_digests ct ! i) {..< cert_num_vals ct}"
    using assms by (auto simp: cert_holds_def cert_inv_def inj_on_def)
  ultimately show ?thesis by (simp add: card_image)
qed

lemma cert_holds_finite: "cert_holds c k ct V \<Longrightarrow> finite (dom V)"
  by (simp add: cert_holds_def cert_votes_def)

lemma finite_voters: "finite (dom V) \<Longrightarrow> finite (voters V d)"
  using voters_subset_dom finite_subset by blast

lemma extract_Some:
  assumes "extract_msg_digest m l t off = Some d"
  shows "0 < l" "off + 32 \<le> nat l" "hdr_tag m = tag_val t" "d = field off 32 m" "length d = 32"
  using assms by (auto simp: extract_msg_digest_def split: if_splits)

section \<open>Every operation keeps the vote log\<close>

lemma cert_init_holds [inv_intros]: "cert_holds c k (cert_init c k t) Map.empty"
  by (simp add: cert_holds_def cert_inv_def cert_votes_def cert_init_def tbft_bitmap_zero_def)

lemma cert_clear_holds [inv_intros]: "cert_holds c k (cert_clear c k ct) Map.empty"
  by (simp add: cert_clear_def inv_intros)

lemma cert_bump_inv: "cert_inv c k ct \<Longrightarrow> cert_inv c k (cert_bump ct i s)"
  by (simp add: cert_inv_def cert_bump_def)

lemma cert_bump_votes:
  assumes h: "cert_holds c k ct V" and i: "i < cert_num_vals ct"
    and s: "0 \<le> s" "s < 64" "s \<notin> members (cert_bmap ct)"
  shows "cert_votes (cert_bump ct i s) (V(s \<mapsto> cert_val_digests ct ! i))" (is "cert_votes _ (V(s \<mapsto> ?d))")
proof -
  from h s have Vs: "V s = None" by (auto simp: cert_holds_def cert_votes_def domIff)
  from h i have d: "?d \<in> ran V" by (auto simp: cert_holds_def cert_votes_def)
  from h i have len: "i < length (cert_correct ct)" by (auto simp: cert_holds_def cert_inv_def)
  have inj: "j < cert_num_vals ct \<Longrightarrow> ?d = cert_val_digests ct ! j \<longleftrightarrow> i = j" for j
    using h i by (auto simp: cert_holds_def cert_inv_def)
  have nin: "s \<notin> voters V e" for e using Vs by (simp add: voters_def)
  show ?thesis
    using h i s d Vs len inj nin finite_voters [OF cert_holds_finite [OF h]]
    by (simp add: cert_holds_def cert_votes_def cert_bump_def members_set ran_map_upd insert_absorb
        voters_update nth_list_update)
qed

lemma cert_store_inv:
  assumes h: "cert_inv c k ct" and k: "kind_ok k" and room: "cert_num_vals ct < TBFT_CERT_MAX_VALS c"
    and len: "nat l \<le> ck_slot_size k" "nat l \<le> length m"
    and d: "extract_msg_digest m l (ck_tag k) (ck_digest_offset k) = Some d"
    and fresh: "cert_find ct d = None"
  shows "cert_inv c k (cert_store ct d m l s)"
proof -
  note e = extract_Some [OF d]
  let ?v = "put 0 (take (nat l) m) (cert_vals ct ! cert_num_vals ct)"
  have slot: "length (cert_vals ct ! cert_num_vals ct) = ck_slot_size k"
    using h room by (simp add: cert_inv_def)
  have "length ?v = ck_slot_size k" using slot len by simp
  moreover have "field (ck_digest_offset k) 32 ?v = d"
    using e(2,4) len(2) field_put_prefix [of "ck_digest_offset k" 32 "nat l" m] by simp
  moreover have "hdr_tag ?v = tag_val (ck_tag k)"
  proof -
    have "field 0 2 ?v = field 0 2 m"
      using e(2) len(2) by (intro field_put_prefix) auto
    from rd_field_cong(1) [OF this] e(3) show ?thesis by (simp add: hdr_tag_def)
  qed
  moreover have "\<forall>i < cert_num_vals ct. cert_val_digests ct ! i \<noteq> d"
    using cert_find_None [OF h e(5) fresh] by blast
  ultimately show ?thesis using h room e(5)
    unfolding cert_inv_def cert_store_def
    by (auto simp: nth_list_update less_Suc_eq)
qed

lemma cert_store_votes:
  assumes h: "cert_holds c k ct V" and room: "cert_num_vals ct < TBFT_CERT_MAX_VALS c"
    and d: "length d = 32" "cert_find ct d = None"
    and s: "0 \<le> s" "s < 64" "s \<notin> members (cert_bmap ct)"
  shows "cert_votes (cert_store ct d m l s) (V(s \<mapsto> d))"
proof -
  from h s have Vs: "V s = None" by (auto simp: cert_holds_def cert_votes_def domIff)
  have dr: "d \<notin> ran V" using cert_find_None_ran [OF h d] .
  then have vd0: "voters V d = {}" by (auto simp: voters_def ran_def)
  have ne: "j < cert_num_vals ct \<Longrightarrow> cert_val_digests ct ! j \<noteq> d" for j
    using h cert_find_None [OF _ d] by (auto simp: cert_holds_def)
  have len: "length (cert_val_digests ct) = TBFT_CERT_MAX_VALS c"
    "length (cert_correct ct) = TBFT_CERT_MAX_VALS c"
    using h by (auto simp: cert_holds_def cert_inv_def)
  let ?ct = "cert_store ct d m l s"
  have nv: "cert_num_vals ?ct = Suc (cert_num_vals ct)" by (simp add: cert_store_def)
  have vd: "cert_val_digests ?ct ! i = (if i = cert_num_vals ct then d else cert_val_digests ct ! i)"
    and vc: "cert_correct ?ct ! i = (if i = cert_num_vals ct then 1 else cert_correct ct ! i)" for i
    using room len by (auto simp: cert_store_def)
  have "dom (V(s \<mapsto> d)) = members (cert_bmap ?ct)"
    using h s by (simp add: cert_holds_def cert_votes_def cert_store_def members_set)
  moreover have "ran (V(s \<mapsto> d)) = {cert_val_digests ?ct ! i | i. i < cert_num_vals ?ct}"
  proof -
    have "ran V = {cert_val_digests ct ! i | i. i < cert_num_vals ct}"
      using h by (simp add: cert_holds_def cert_votes_def)
    moreover have "{cert_val_digests ?ct ! i | i. i < cert_num_vals ?ct} =
        insert d {cert_val_digests ct ! i | i. i < cert_num_vals ct}"
      unfolding nv vd less_Suc_eq by (auto, metis less_irrefl)
    ultimately show ?thesis using Vs by (simp add: ran_map_upd)
  qed
  moreover have "cert_correct ?ct ! i = card (voters (V(s \<mapsto> d)) (cert_val_digests ?ct ! i))"
    if "i < cert_num_vals ?ct" for i
  proof (cases "i = cert_num_vals ct")
    case True
    then show ?thesis using voters_update [of V s d d, OF Vs] vd0 by (simp add: vd vc)
  next
    case False
    with that have i: "i < cert_num_vals ct" by (simp add: nv)
    have "cert_correct ct ! i = card (voters V (cert_val_digests ct ! i))"
      using h i by (simp add: cert_holds_def cert_votes_def)
    then show ?thesis using False ne [OF i] voters_update [of V s d, OF Vs] by (simp add: vd vc)
  qed
  ultimately show ?thesis unfolding cert_votes_def by blast
qed

text \<open>What a message contributes to the vote log when it is accepted.\<close>

abbreviation cert_msg_ok :: "cert_kind \<Rightarrow> bytes \<Rightarrow> int \<Rightarrow> bool" where
  "cert_msg_ok k m l \<equiv> kind_ok k \<and> nat l \<le> length m"

lemma cert_bump_holds:
  assumes "cert_holds c k ct V" "i < cert_num_vals ct" "0 \<le> s" "s < 64" "s \<notin> members (cert_bmap ct)"
  shows "cert_holds c k (cert_bump ct i s) (V(s \<mapsto> cert_val_digests ct ! i))"
  using assms cert_bump_votes [OF assms] cert_bump_inv by (auto simp: cert_holds_def)

lemma cert_store_holds:
  assumes "cert_holds c k ct V" "cert_msg_ok k m l" "cert_num_vals ct < TBFT_CERT_MAX_VALS c"
    "nat l \<le> ck_slot_size k" "extract_msg_digest m l (ck_tag k) (ck_digest_offset k) = Some d"
    "cert_find ct d = None" "0 \<le> s" "s < 64" "s \<notin> members (cert_bmap ct)"
  shows "cert_holds c k (cert_store ct d m l s) (V(s \<mapsto> d))"
  using assms cert_store_votes [OF assms(1,3) extract_Some(5) [OF assms(5)] assms(6-9)]
    cert_store_inv [OF _ _ assms(3,4) _ assms(5,6)]
  by (auto simp: cert_holds_def)

lemma mym_idx_holds:
  "cert_holds c k ct V \<Longrightarrow> i < cert_num_vals ct \<Longrightarrow> cert_holds c k (ct\<lparr> cert_mym_idx := int i \<rparr>) V"
  by (simp add: cert_holds_def cert_inv_def cert_votes_def)

lemma cert_add_cases:
  assumes h: "cert_holds c k ct V" and m: "cert_msg_ok k m l" and r: "cert_add c k ct m l s = (True, ct')"
  obtains d where "extract_msg_digest m l (ck_tag k) (ck_digest_offset k) = Some d"
    "V s = None" "0 \<le> s" "s < 64" "cert_holds c k ct' (V(s \<mapsto> d))"
proof -
  from r obtain d where d: "extract_msg_digest m l (ck_tag k) (ck_digest_offset k) = Some d"
    and s: "0 \<le> s" "s < 64" "s \<notin> members (cert_bmap ct)" and len: "nat l \<le> ck_slot_size k"
    by (auto simp: cert_add_def tbft_bitmap_test_iff split: if_splits option.splits)
  have Vs: "V s = None" using h s(3) by (auto simp: cert_holds_def cert_votes_def domIff)
  have inv: "cert_inv c k ct" using h by (simp add: cert_holds_def)
  have "cert_holds c k ct' (V(s \<mapsto> d))"
  proof (cases "cert_find ct d")
    case None
    with r d s len have "ct' = cert_store ct d m l s" "cert_num_vals ct < TBFT_CERT_MAX_VALS c"
      by (auto simp: cert_add_def split: if_splits)
    with cert_store_holds [OF h m _ len d None s] show ?thesis by simp
  next
    case (Some i)
    with r d s len have "ct' = cert_bump ct i s"
      by (auto simp: cert_add_def split: if_splits)
    with cert_bump_holds [OF h _ s] cert_find_Some [OF inv extract_Some(5) [OF d] Some]
    show ?thesis by auto
  qed
  with d Vs s that show thesis by blast
qed

lemma cert_add_mine_cases:
  assumes h: "cert_holds c k ct V" and m: "cert_msg_ok k m l"
    and r: "cert_add_mine c k ct m l s = (True, ct')"
  obtains d where "extract_msg_digest m l (ck_tag k) (ck_digest_offset k) = Some d"
    "V s = None" "0 \<le> s" "s < 64" "cert_holds c k ct' (V(s \<mapsto> d))"
    "0 \<le> cert_mym_idx ct'" "cert_val_digests ct' ! nat (cert_mym_idx ct') = d"
proof -
  from r obtain d where d: "extract_msg_digest m l (ck_tag k) (ck_digest_offset k) = Some d"
    and s: "0 \<le> s" "s < 64" "s \<notin> members (cert_bmap ct)" and len: "nat l \<le> ck_slot_size k"
    by (auto simp: cert_add_mine_def tbft_bitmap_test_iff split: if_splits option.splits)
  have Vs: "V s = None" using h s(3) by (auto simp: cert_holds_def cert_votes_def domIff)
  have inv: "cert_inv c k ct" using h by (simp add: cert_holds_def)
  have "cert_holds c k ct' (V(s \<mapsto> d)) \<and> 0 \<le> cert_mym_idx ct' \<and>
    cert_val_digests ct' ! nat (cert_mym_idx ct') = d"
  proof (cases "cert_find ct d")
    case None
    with r d s len have ct': "ct' = (cert_store ct d m l s)\<lparr> cert_mym_idx := int (cert_num_vals ct) \<rparr>"
      and room: "cert_num_vals ct < TBFT_CERT_MAX_VALS c"
      by (auto simp: cert_add_mine_def split: if_splits)
    then show ?thesis
      using mym_idx_holds [OF cert_store_holds [OF h m room len d None s], of "cert_num_vals ct"] inv
      by (simp add: cert_store_def cert_inv_def)
  next
    case (Some i)
    with r d s len have ct': "ct' = (cert_bump ct i s)\<lparr> cert_mym_idx := int i \<rparr>"
      by (auto simp: cert_add_mine_def split: if_splits)
    note i = cert_find_Some [OF inv extract_Some(5) [OF d] Some]
    show ?thesis
      using mym_idx_holds [OF cert_bump_holds [OF h i(1) s], of i] i ct' by (simp add: cert_bump_def)
  qed
  with d Vs s that show thesis by blast
qed

lemma cert_add_False [reject_simps]: "cert_add c k ct m l s = (False, ct') \<Longrightarrow> ct' = ct"
  by (auto simp: cert_add_def split: if_splits option.splits)

lemma cert_add_mine_False [reject_simps]: "cert_add_mine c k ct m l s = (False, ct') \<Longrightarrow> ct' = ct"
  by (auto simp: cert_add_mine_def split: if_splits option.splits)

lemma threshold_unchanged [simp]:
  "cert_complete_threshold (snd (cert_add c k ct m l s)) = cert_complete_threshold ct"
  "cert_complete_threshold (snd (cert_add_mine c k ct m l s)) = cert_complete_threshold ct"
  "cert_complete_threshold (cert_init c k t) = t"
  "cert_complete_threshold (cert_clear c k ct) = cert_complete_threshold ct"
  by (auto simp: cert_add_def cert_add_mine_def cert_store_def cert_bump_def cert_init_def
      cert_clear_def split: option.splits)

section \<open>Completeness of a certificate\<close>

lemma cert_winner_voters:
  assumes h: "cert_holds c k ct V" and w: "cert_winner k ct = Some d"
  shows "cert_complete_threshold ct \<le> int (card (voters V d))"
proof -
  from w obtain i where i: "cert_winning ct = Some i" and d: "d = field (ck_digest_offset k) 32 (cert_vals ct ! i)"
    by (auto simp: cert_winner_def cert_cvalue_def)
  from i have "i < cert_num_vals ct" "cert_complete_threshold ct \<le> int (cert_correct ct ! i)"
    by (auto simp: cert_winning_def find_Some_iff)
  with h d show ?thesis by (auto simp: cert_holds_def cert_inv_def cert_votes_def)
qed

lemma cert_complete_winner: "cert_is_complete ct \<longleftrightarrow> (\<exists>d. cert_winner k ct = Some d)"
  by (auto simp: cert_is_complete_def cert_winner_def)

lemma cert_complete_iff:
  assumes h: "cert_holds c k ct V" and t: "1 \<le> cert_complete_threshold ct"
  shows "cert_is_complete ct \<longleftrightarrow> (\<exists>d. cert_complete_threshold ct \<le> int (card (voters V d)))"
proof
  assume "cert_is_complete ct"
  with cert_winner_voters [OF h] show "\<exists>d. cert_complete_threshold ct \<le> int (card (voters V d))"
    by (auto simp: cert_complete_winner [of _ k])
next
  assume "\<exists>d. cert_complete_threshold ct \<le> int (card (voters V d))"
  then obtain d where d: "cert_complete_threshold ct \<le> int (card (voters V d))" by blast
  with t have "voters V d \<noteq> {}" by force
  then have "d \<in> ran V" by (auto simp: voters_def ran_def)
  with h obtain i where "i < cert_num_vals ct" "cert_val_digests ct ! i = d"
    by (auto simp: cert_holds_def cert_votes_def)
  with h d have "\<exists>i. i < cert_num_vals ct \<and> cert_complete_threshold ct \<le> int (cert_correct ct ! i)"
    by (auto simp: cert_holds_def cert_votes_def)
  then show "cert_is_complete ct"
    by (auto simp: cert_is_complete_def cert_cvalue_def cert_winning_def find_None_iff)
qed

text \<open>
  Room for the honest value: with at most \<open>TBFT_MAX_FAULTY\<close> senders that vote for something
  else, the \<open>f + 1\<close> stored values never crowd out the value the honest senders vote for.
\<close>

lemma cert_add_honest:
  assumes h: "cert_holds c k ct V" and m: "cert_msg_ok k m l" and len: "nat l \<le> ck_slot_size k"
    and d: "extract_msg_digest m l (ck_tag k) (ck_digest_offset k) = Some d"
    and s: "0 \<le> s" "s < 64" "V s = None"
    and faulty: "finite F" "card F \<le> TBFT_MAX_FAULTY c"
    and honest: "\<And>i e. i \<notin> F \<Longrightarrow> V i = Some e \<Longrightarrow> e = d"
  shows "fst (cert_add c k ct m l s)" "fst (cert_add_mine c k ct m l s)"
proof -
  have sm: "s \<notin> members (cert_bmap ct)" using h s(3) by (auto simp: cert_holds_def cert_votes_def)
  have room: "cert_num_vals ct < TBFT_CERT_MAX_VALS c" if "cert_find ct d = None"
  proof -
    have "d \<notin> ran V" using cert_find_None_ran [OF h extract_Some(5) [OF d] that] .
    then have sub: "dom V \<subseteq> F" using honest by (fastforce simp: ran_def)
    have "card (ran V) \<le> card (dom V)"
    proof -
      have "ran V = (\<lambda>i. the (V i)) ` dom V" by (force simp: ran_def)
      then show ?thesis using card_image_le [OF cert_holds_finite [OF h]] by simp
    qed
    also have "\<dots> \<le> card F" using sub faulty(1) by (rule card_mono [rotated])
    finally show ?thesis using num_vals_ran [OF h] faulty(2) by (simp add: TBFT_CERT_MAX_VALS_def)
  qed
  show "fst (cert_add c k ct m l s)" "fst (cert_add_mine c k ct m l s)"
    using s sm len d room extract_Some(1) [OF d]
    by (auto simp: cert_add_def cert_add_mine_def tbft_bitmap_test_iff split: option.splits)
qed

interpretation cert: quorum_cert "cert_holds c k" "cert_winner k" cert_complete_threshold
  by unfold_locales (auto intro: cert_holds_finite cert_winner_voters)

section \<open>A certificate filled from a sequence of received messages\<close>

type_synonym cert_input = "bytes \<times> int \<times> int"

definition cert_adds :: "config \<Rightarrow> cert_kind \<Rightarrow> cert \<Rightarrow> cert_input list \<Rightarrow> cert" where
  "cert_adds c k ct xs = fold (\<lambda>(m, l, s) ct. snd (cert_add c k ct m l s)) xs ct"

text \<open>\<open>cert_claim k (m, l, s) = Some d\<close>: the message is one that \<open>add\<close> can store, for digest \<open>d\<close>.\<close>

definition cert_claim :: "cert_kind \<Rightarrow> cert_input \<Rightarrow> digest option" where
  "cert_claim k x = (case x of (m, l, s) \<Rightarrow>
     if 0 \<le> s \<and> s < 64 \<and> nat l \<le> ck_slot_size k
     then extract_msg_digest m l (ck_tag k) (ck_digest_offset k) else None)"

definition cert_input_ok :: "cert_input \<Rightarrow> bool" where
  "cert_input_ok x \<longleftrightarrow> nat (fst (snd x)) \<le> length (fst x)"

lemma cert_adds_simps [simp]:
  "cert_adds c k ct [] = ct"
  "cert_adds c k ct ((m, l, s) # xs) = cert_adds c k (snd (cert_add c k ct m l s)) xs"
  by (simp_all add: cert_adds_def)

lemma cert_adds_threshold [simp]:
  "cert_complete_threshold (cert_adds c k ct xs) = cert_complete_threshold ct"
  by (induction xs arbitrary: ct) (auto simp del: threshold_unchanged simp: threshold_unchanged(1))

lemma cert_add_claim:
  assumes "cert_add c k ct m l s = (True, ct')"
  shows "cert_claim k (m, l, s) = extract_msg_digest m l (ck_tag k) (ck_digest_offset k)"
  using assms by (auto simp: cert_add_def cert_claim_def split: if_splits)

lemma cert_adds_log:
  assumes "cert_holds c k ct V" "kind_ok k" "\<forall>x \<in> set xs. cert_input_ok x"
  shows "\<exists>W. cert_holds c k (cert_adds c k ct xs) W \<and> V \<subseteq>\<^sub>m W \<and>
    (\<forall>i e. W i = Some e \<longrightarrow> V i = Some e \<or> (\<exists>m l. (m, l, i) \<in> set xs \<and> cert_claim k (m, l, i) = Some e))"
  using assms
proof (induction xs arbitrary: ct V)
  case Nil
  then show ?case by (auto intro: map_le_refl)
next
  case (Cons x xs)
  obtain m l s where x: "x = (m, l, s)" by (cases x)
  have ok: "cert_msg_ok k m l" using Cons.prems x by (simp add: cert_input_ok_def)
  obtain b ct' where r: "cert_add c k ct m l s = (b, ct')" by (cases "cert_add c k ct m l s")
  show ?case
  proof (cases b)
    case True
    with r obtain d where d: "cert_claim k x = Some d" "V s = None" "cert_holds c k ct' (V(s \<mapsto> d))"
      using cert_add_cases [OF Cons.prems(1) ok] cert_add_claim x by metis
    have "\<forall>x \<in> set xs. cert_input_ok x" using Cons.prems(3) by simp
    with Cons.IH [OF d(3) Cons.prems(2)] obtain W where
      W: "cert_holds c k (cert_adds c k ct' xs) W" "V(s \<mapsto> d) \<subseteq>\<^sub>m W"
        "\<forall>i e. W i = Some e \<longrightarrow> (V(s \<mapsto> d)) i = Some e \<or>
           (\<exists>m l. (m, l, i) \<in> set xs \<and> cert_claim k (m, l, i) = Some e)" by blast
    have "V \<subseteq>\<^sub>m V(s \<mapsto> d)" using d(2) by (auto simp: map_le_def)
    with W(2) have "V \<subseteq>\<^sub>m W" by (rule map_le_trans [rotated])
    moreover have "V i = Some e \<or> (\<exists>m l. (m, l, i) \<in> set (x # xs) \<and> cert_claim k (m, l, i) = Some e)"
      if "W i = Some e" for i e
      using W(3) [rule_format, OF that] d(1) x by (auto split: if_splits)
    ultimately show ?thesis using W(1) r x by auto
  next
    case False
    with r have "ct' = ct" by (auto dest: cert_add_False)
    have "\<forall>x \<in> set xs. cert_input_ok x" using Cons.prems(3) by simp
    from Cons.IH [OF Cons.prems(1,2) this] obtain W where
      "cert_holds c k (cert_adds c k ct xs) W" "V \<subseteq>\<^sub>m W"
      "\<forall>i e. W i = Some e \<longrightarrow> V i = Some e \<or> (\<exists>m l. (m, l, i) \<in> set xs \<and> cert_claim k (m, l, i) = Some e)"
      by blast
    then show ?thesis using r x \<open>ct' = ct\<close> by (intro exI [of _ W]) auto
  qed
qed

lemma cert_adds_honest_log:
  assumes h: "cert_holds c k ct V" and k: "kind_ok k" and xs: "\<forall>x \<in> set xs. cert_input_ok x"
    and faulty: "finite F" "card F \<le> TBFT_MAX_FAULTY c"
    and honest: "\<forall>(m, l, i) \<in> set xs. i \<notin> F \<longrightarrow> cert_claim k (m, l, i) \<in> {None, Some d}"
    and old: "\<forall>i. i \<notin> F \<longrightarrow> V i \<in> {None, Some d}"
  shows "\<exists>W. cert_holds c k (cert_adds c k ct xs) W \<and> dom V \<subseteq> dom W \<and>
    (\<forall>(m, l, i) \<in> set xs. i \<notin> F \<longrightarrow> cert_claim k (m, l, i) \<noteq> None \<longrightarrow> i \<in> dom W) \<and>
    (\<forall>i. i \<notin> F \<longrightarrow> W i \<in> {None, Some d})"
  using h xs honest old
proof (induction xs arbitrary: ct V)
  case Nil
  then show ?case by auto
next
  case (Cons x xs)
  obtain m l s where x: "x = (m, l, s)" by (cases x)
  have ok: "cert_msg_ok k m l" using Cons.prems(2) k x by (simp add: cert_input_ok_def)
  obtain b ct' where r: "cert_add c k ct m l s = (b, ct')" by (cases "cert_add c k ct m l s")
  have rest: "\<forall>x \<in> set xs. cert_input_ok x" using Cons.prems(2) by simp
  have hon: "\<forall>(m, l, i) \<in> set xs. i \<notin> F \<longrightarrow> cert_claim k (m, l, i) \<in> {None, Some d}"
    using Cons.prems(3) by auto
  have step: "\<exists>V'. cert_holds c k ct' V' \<and> dom V \<subseteq> dom V' \<and>
    (s \<notin> F \<longrightarrow> cert_claim k x \<noteq> None \<longrightarrow> s \<in> dom V') \<and> (\<forall>i. i \<notin> F \<longrightarrow> V' i \<in> {None, Some d})"
  proof (cases b)
    case True
    with r obtain e where e: "cert_claim k x = Some e" "V s = None" "cert_holds c k ct' (V(s \<mapsto> e))"
      using cert_add_cases [OF Cons.prems(1) ok] cert_add_claim x by metis
    then have "\<forall>i. i \<notin> F \<longrightarrow> (V(s \<mapsto> e)) i \<in> {None, Some d}"
      using Cons.prems(3,4) x by auto
    with e(3) show ?thesis by (intro exI [of _ "V(s \<mapsto> e)"]) auto
  next
    case False
    with r have ct': "ct' = ct" by (auto dest: cert_add_False)
    have "s \<in> dom V" if s: "s \<notin> F" "cert_claim k x \<noteq> None"
    proof (rule ccontr)
      assume "s \<notin> dom V"
      then have None: "V s = None" by auto
      from s Cons.prems(3) x have "cert_claim k x = Some d" by auto
      then have e: "extract_msg_digest m l (ck_tag k) (ck_digest_offset k) = Some d"
        "0 \<le> s" "s < 64" "nat l \<le> ck_slot_size k"
        by (auto simp: cert_claim_def x split: if_splits)
      have old: "\<And>i e. i \<notin> F \<Longrightarrow> V i = Some e \<Longrightarrow> e = d" using Cons.prems(4) by force
      have "fst (cert_add c k ct m l s)"
        by (rule cert_add_honest(1) [OF Cons.prems(1) ok e(4) e(1,2,3) None faulty]) (rule old)
      with r False show False by simp
    qed
    with Cons.prems(1,4) ct' show ?thesis by blast
  qed
  then obtain V' where V': "cert_holds c k ct' V'" "dom V \<subseteq> dom V'"
    "s \<notin> F \<longrightarrow> cert_claim k x \<noteq> None \<longrightarrow> s \<in> dom V'" "\<forall>i. i \<notin> F \<longrightarrow> V' i \<in> {None, Some d}" by blast
  from Cons.IH [OF V'(1) rest hon V'(4)] obtain W where
    "cert_holds c k (cert_adds c k ct' xs) W" "dom V' \<subseteq> dom W"
    "\<forall>(m, l, i) \<in> set xs. i \<notin> F \<longrightarrow> cert_claim k (m, l, i) \<noteq> None \<longrightarrow> i \<in> dom W"
    "\<forall>i. i \<notin> F \<longrightarrow> W i \<in> {None, Some d}" by blast
  with V'(2,3) r x show ?case by (intro exI [of _ W]) auto
qed

lemma cert_quorum_reached:
  assumes k: "kind_ok k" and xs: "\<forall>x \<in> set xs. cert_input_ok x"
    and faulty: "finite F" "card F \<le> TBFT_MAX_FAULTY c" "int (card F) < t"
    and honest: "\<forall>(m, l, i) \<in> set xs. i \<notin> F \<longrightarrow> cert_claim k (m, l, i) \<in> {None, Some d}"
    and quorum: "Q \<inter> F = {}" "t \<le> int (card Q)" "\<forall>i \<in> Q. \<exists>m l. (m, l, i) \<in> set xs \<and> cert_claim k (m, l, i) = Some d"
  shows "cert_winner k (cert_adds c k (cert_init c k t) xs) = Some d"
proof -
  let ?ct = "cert_adds c k (cert_init c k t) xs"
  have "\<forall>i. i \<notin> F \<longrightarrow> Map.empty i \<in> {None, Some d}" by simp
  from cert_adds_honest_log [OF cert_init_holds [of c k t] k xs faulty(1,2) honest this] obtain W where
    W: "cert_holds c k ?ct W" "\<forall>(m, l, i) \<in> set xs. i \<notin> F \<longrightarrow> cert_claim k (m, l, i) \<noteq> None \<longrightarrow> i \<in> dom W"
      "\<forall>i. i \<notin> F \<longrightarrow> W i \<in> {None, Some d}" by blast
  have "Q \<subseteq> voters W d"
  proof
    fix i assume i: "i \<in> Q"
    with quorum(3) obtain m l where "(m, l, i) \<in> set xs" "cert_claim k (m, l, i) = Some d" by blast
    moreover have "i \<notin> F" using i quorum(1) by blast
    ultimately have "i \<in> dom W" "W i \<in> {None, Some d}" using W(2,3) by auto
    then show "i \<in> voters W d" by (auto simp: voters_def)
  qed
  then have "card Q \<le> card (voters W d)"
    using finite_voters [OF cert_holds_finite [OF W(1)]] by (simp add: card_mono)
  with quorum(2) have "t \<le> int (card (voters W d))" by simp
  with faulty(3) have "cert_is_complete ?ct"
    by (subst cert_complete_iff [OF W(1)]) auto
  then obtain e where e: "cert_winner k ?ct = Some e" by (auto simp: cert_complete_winner [of _ k])
  from cert.winner_honest_vote [OF W(1) e, of "t - 1" F] faulty
  obtain i where "i \<notin> F" "W i = Some e" by auto
  with W(3) have "e = d" by force
  with e show ?thesis by simp
qed

lemma cert_cvalue_stored:
  assumes "cert_inv c k ct" "cert_cvalue ct = Some v"
  shows "length v = ck_slot_size k" "hdr_tag v = tag_val (ck_tag k)"
  using assms by (auto simp: cert_cvalue_def cert_winning_def find_Some_iff cert_inv_def)

section \<open>Properties\<close>

text \<open>C15: a certificate records exactly the votes that \<open>add\<close> accepts.  An accepted message adds one
  vote of its sender, who had none, for the digest in the message; a refused message (sender
  out of range, oversized or malformed message, second vote, no room) changes nothing.\<close>

theorem cert_add_records:
  assumes "cert_holds c k ct V" "kind_ok k" "nat l \<le> length m"
  shows "case cert_add c k ct m l s of (accepted, ct') \<Rightarrow>
    if accepted
    then V s = None \<and> 0 \<le> s \<and> s < 64 \<and>
      (\<exists>d. extract_msg_digest m l (ck_tag k) (ck_digest_offset k) = Some d \<and> cert_holds c k ct' (V(s \<mapsto> d)))
    else ct' = ct"
proof -
  obtain b ct' where r: "cert_add c k ct m l s = (b, ct')" by (cases "cert_add c k ct m l s")
  show ?thesis
  proof (cases b)
    case True
    with r have "cert_add c k ct m l s = (True, ct')" by simp
    then obtain d where "extract_msg_digest m l (ck_tag k) (ck_digest_offset k) = Some d"
      "V s = None" "0 \<le> s" "s < 64" "cert_holds c k ct' (V(s \<mapsto> d))"
      by (rule cert_add_cases [OF assms(1) conjI [OF assms(2,3)]]) blast
    with r True show ?thesis by simp
  next
    case False
    with r show ?thesis by (auto dest: cert_add_False)
  qed
qed

text \<open>A commit message of the wire format, for the witnesses.\<close>

definition sample_commit :: "digest \<Rightarrow> bytes" where
  "sample_commit d = put 32 d (wr_i16 0 (tag_val TBFT_MSG_COMMIT) (replicate 72 0))"

lemma sample_commit_claim:
  assumes "length d = 32" "0 \<le> i" "i < 64"
  shows "cert_claim (commit_kind c) (sample_commit d, 72, i) = Some d"
proof -
  have "hdr_tag (sample_commit d) = tag_val TBFT_MSG_COMMIT"
    by (simp add: sample_commit_def hdr_tag_def wire_simps)
      (simp add: i16_def)
  with assms show "cert_claim (commit_kind c) (sample_commit d, 72, i) = Some d"
    by (simp add: cert_claim_def extract_msg_digest_def commit_kind_def sample_commit_def wire_simps)
qed

lemma sample_commit_length: "length d = 32 \<Longrightarrow> length (sample_commit d) = 72"
  by (simp add: sample_commit_def)

lemma cert_add_records_witness:
  "\<exists>ct'. cert_add default_config (commit_kind default_config)
      (cert_init default_config (commit_kind default_config) 3) (sample_commit tbft_digest_zero) 72 1 = (True, ct') \<and>
    cert_holds default_config (commit_kind default_config) ct' [1 \<mapsto> tbft_digest_zero]"
proof -
  let ?k = "commit_kind default_config"
  let ?ct = "cert_init default_config ?k 3"
  let ?m = "sample_commit tbft_digest_zero"
  have len: "length tbft_digest_zero = 32" by (simp add: tbft_digest_zero_def)
  note cl = sample_commit_claim [OF len, of 1, simplified] sample_commit_length [OF len]
  have slot: "ck_slot_size ?k = 168" by (simp add: commit_kind_def)
  from cl(1) [where c = default_config] have ex: "extract_msg_digest ?m 72 (ck_tag ?k) (ck_digest_offset ?k) = Some tbft_digest_zero"
    by (simp add: cert_claim_def slot)
  have "fst (cert_add default_config ?k ?ct ?m 72 1)"
    by (rule cert_add_honest(1) [OF cert_init_holds _ _ ex, of _ "{}"])
      (use cl in \<open>auto simp: commit_kind_def kind_ok_def\<close>)
  then obtain ct' where "cert_add default_config ?k ?ct ?m 72 1 = (True, ct')"
    by (cases "cert_add default_config ?k ?ct ?m 72 1") auto
  with cert_add_records [OF cert_init_holds [of default_config ?k 3], of 72 ?m 1] ex cl(2) show ?thesis by auto
qed

lemma cert_collected:
  assumes k: "kind_ok k" and xs: "\<forall>x \<in> set xs. cert_input_ok x"
    and faulty: "finite F" "card F \<le> TBFT_MAX_FAULTY c" "int (card F) < t"
    and honest: "\<forall>(m, l, i) \<in> set xs. i \<notin> F \<longrightarrow> cert_claim k (m, l, i) \<in> {None, Some d}"
    and quorum: "Q \<inter> F = {}" "t \<le> int (card Q)" "\<forall>i \<in> Q. \<exists>m l. (m, l, i) \<in> set xs \<and> cert_claim k (m, l, i) = Some d"
  shows "\<exists>v. cert_cvalue (cert_adds c k (cert_init c k t) xs) = Some v \<and> length v = ck_slot_size k \<and>
    hdr_tag v = tag_val (ck_tag k) \<and> field (ck_digest_offset k) 32 v = d"
proof -
  let ?ct = "cert_adds c k (cert_init c k t) xs"
  have w: "cert_winner k ?ct = Some d" by (rule cert_quorum_reached [OF assms])
  from cert_adds_log [OF cert_init_holds k xs, of c t] obtain W where "cert_holds c k ?ct W" by blast
  with w cert_cvalue_stored [of c k ?ct] show ?thesis by (auto simp: cert_winner_def cert_holds_def)
qed

text \<open>C14: a certificate collects a quorum whatever the faulty senders do.  If at most
  \<open>TBFT_MAX_FAULTY\<close> senders are faulty, all messages of the other senders carry the digest \<open>d\<close>
  and enough of them arrive, then, in any order and interleaved with any messages of the faulty
  senders, the certificate is complete and the value it returns is for \<open>d\<close>.\<close>

theorem cert_collects_quorum:
  assumes k: "kind_ok k" and xs: "\<forall>x \<in> set xs. cert_input_ok x"
    and faulty: "finite F" "card F \<le> TBFT_MAX_FAULTY c" "int (card F) < t"
    and honest: "\<forall>(m, l, i) \<in> set xs. i \<notin> F \<longrightarrow> cert_claim k (m, l, i) \<in> {None, Some d}"
    and quorum: "Q \<inter> F = {}" "t \<le> int (card Q)" "\<forall>i \<in> Q. \<exists>m l. (m, l, i) \<in> set xs \<and> cert_claim k (m, l, i) = Some d"
  shows "\<exists>v. cert_cvalue (cert_adds c k (cert_init c k t) xs) = Some v \<and> length v = ck_slot_size k \<and>
    hdr_tag v = tag_val (ck_tag k) \<and> field (ck_digest_offset k) 32 v = d"
  by (rule cert_collected [OF assms])

lemma cert_collects_quorum_witness:
  "\<exists>v. cert_cvalue (cert_adds default_config (commit_kind default_config)
        (cert_init default_config (commit_kind default_config) 3)
        (map (\<lambda>(d, i). (sample_commit d, 72, i))
           [(tbft_digest_zero, 0), (replicate 32 7, 3), (tbft_digest_zero, 1), (tbft_digest_zero, 2)])) = Some v \<and>
     field 32 32 v = tbft_digest_zero"
proof -
  have len: "length tbft_digest_zero = 32" "length (replicate 32 (7 :: u8)) = 32"
    by (simp_all add: tbft_digest_zero_def)
  have q: "int (card {0, 1, 2 :: int}) = 3" by simp
  let ?xs = "map (\<lambda>(d, i). (sample_commit d, 72, i))
    [(tbft_digest_zero, 0 :: int), (replicate 32 7, 3), (tbft_digest_zero, 1), (tbft_digest_zero, 2)]"
  have "\<exists>v. cert_cvalue (cert_adds default_config (commit_kind default_config)
        (cert_init default_config (commit_kind default_config) 3) ?xs) = Some v \<and>
      length v = ck_slot_size (commit_kind default_config) \<and>
      hdr_tag v = tag_val (ck_tag (commit_kind default_config)) \<and>
      field (ck_digest_offset (commit_kind default_config)) 32 v = tbft_digest_zero"
    by (rule cert_collects_quorum [where F = "{3}" and Q = "{0, 1, 2}"])
      (auto simp: cert_input_ok_def sample_commit_claim sample_commit_length len TBFT_MAX_FAULTY_def)
  then show ?thesis by (auto simp: commit_kind_def simp del: cert_adds_simps)
qed

text \<open>C8: agreement.  Two commit certificates with threshold \<open>2f + 1\<close>, filled at two replicas from
  any received messages, return the same digest, provided there are \<open>n \<le> 3f + 1\<close> senders of
  which at most \<open>f\<close> are faulty and no other sender sends different digests to the two.\<close>

theorem commit_certificates_agree:
  fixes n f :: int
  assumes n: "0 \<le> n" "n \<le> 3 * f + 1" "2 * f + 1 \<le> t"
    and faulty: "finite F" "int (card F) \<le> f"
    and inputs: "\<forall>x \<in> set xs \<union> set ys. cert_input_ok x \<and> 0 \<le> snd (snd x) \<and> snd (snd x) < n"
    and honest: "\<forall>(m, l, i) \<in> set xs. \<forall>(m', l', j) \<in> set ys. i = j \<longrightarrow> i \<notin> F \<longrightarrow>
      cert_claim (commit_kind c) (m, l, i) = None \<or> cert_claim (commit_kind c) (m', l', i) = None \<or>
      cert_claim (commit_kind c) (m, l, i) = cert_claim (commit_kind c) (m', l', i)"
    and x: "cert_winner (commit_kind c) (cert_adds c (commit_kind c) (cert_init c (commit_kind c) t) xs) = Some d"
    and y: "cert_winner (commit_kind c) (cert_adds c (commit_kind c) (cert_init c (commit_kind c) t) ys) = Some e"
  shows "d = e"
proof -
  let ?k = "commit_kind c"
  from cert_adds_log [OF cert_init_holds, of ?k xs c t] inputs obtain V where
    V: "cert_holds c ?k (cert_adds c ?k (cert_init c ?k t) xs) V"
      "\<forall>i e. V i = Some e \<longrightarrow> (\<exists>m l. (m, l, i) \<in> set xs \<and> cert_claim ?k (m, l, i) = Some e)"
    by auto
  from cert_adds_log [OF cert_init_holds, of ?k ys c t] inputs obtain W where
    W: "cert_holds c ?k (cert_adds c ?k (cert_init c ?k t) ys) W"
      "\<forall>i e. W i = Some e \<longrightarrow> (\<exists>m l. (m, l, i) \<in> set ys \<and> cert_claim ?k (m, l, i) = Some e)"
    by auto
  have dom: "dom V \<subseteq> {0 ..< n}" "dom W \<subseteq> {0 ..< n}"
  proof -
    have "i \<in> {0 ..< n}" if "V i = Some x" for i x
    proof -
      from V(2) that obtain m l where "(m, l, i) \<in> set xs" by blast
      then show ?thesis using bspec [OF inputs, of "(m, l, i)"] by simp
    qed
    then show "dom V \<subseteq> {0 ..< n}" by blast
    have "i \<in> {0 ..< n}" if "W i = Some x" for i x
    proof -
      from W(2) that obtain m l where "(m, l, i) \<in> set ys" by blast
      then show ?thesis using bspec [OF inputs, of "(m, l, i)"] by simp
    qed
    then show "dom W \<subseteq> {0 ..< n}" by blast
  qed
  have "x = y" if "i \<notin> F" "V i = Some x" "W i = Some y" for i x y
  proof -
    from V(2) that obtain m l where "(m, l, i) \<in> set xs" "cert_claim ?k (m, l, i) = Some x" by blast
    moreover from W(2) that obtain m' l' where "(m', l', i) \<in> set ys" "cert_claim ?k (m', l', i) = Some y" by blast
    ultimately show ?thesis using honest that(1) by fastforce
  qed
  then show ?thesis
    by (intro cert.winners_agree [OF V(1) x _ W(1) y _ dom n(2,1) faulty]) (use n(3) in auto)
qed

lemma commit_certificates_agree_witness:
  "\<exists>d e. let k = commit_kind default_config;
       run = (\<lambda>ids. cert_adds default_config k (cert_init default_config k 3)
                (map (\<lambda>i. (sample_commit tbft_digest_zero, 72, i)) ids)) in
     cert_winner k (run [0, 1, 2]) = Some d \<and> cert_winner k (run [3, 1, 0]) = Some e \<and> d = e"
proof -
  let ?k = "commit_kind default_config"
  let ?in = "map (\<lambda>i. (sample_commit tbft_digest_zero, 72, i :: int))"
  let ?run = "\<lambda>ids. cert_adds default_config ?k (cert_init default_config ?k 3) (?in ids)"
  have len: "length tbft_digest_zero = 32" by (simp add: tbft_digest_zero_def)
  have "cert_winner ?k (?run [0, 1, 2]) = Some tbft_digest_zero"
    by (rule cert_quorum_reached [where F = "{}" and Q = "{0, 1, 2}"])
      (auto simp: cert_input_ok_def sample_commit_claim sample_commit_length len)
  moreover have "cert_winner ?k (?run [3, 1, 0]) = Some tbft_digest_zero"
    by (rule cert_quorum_reached [where F = "{}" and Q = "{3, 1, 0}"])
      (auto simp: cert_input_ok_def sample_commit_claim sample_commit_length len)
  ultimately obtain d e where
    de: "cert_winner ?k (?run [0, 1, 2]) = Some d" "cert_winner ?k (?run [3, 1, 0]) = Some e" by blast
  have "d = e"
    by (rule commit_certificates_agree [of 4 1 3 "{2}" "?in [0, 1, 2]" "?in [3, 1, 0]" default_config])
      (use de in \<open>auto simp: cert_input_ok_def sample_commit_length len simp del: cert_adds_simps\<close>)
  with de show ?thesis by (simp add: Let_def del: cert_adds_simps)
qed

end
