(* ===== verification/Prepared_Cert.thy ===== *)
theory Prepared_Cert
  imports Certificate
begin

text \<open>
  Prepared certificates, \<open>src/tbft_prepared_cert.h\<close> and \<open>tbft_prepared_cert.c\<close>: a pre-prepare
  and a certificate of prepares.  \<open>esp_timer_get_time\<close> is the argument \<open>now\<close>.  \<open>prepared_inv\<close> is the
  representation invariant; the lemmas describe \<open>add_pp\<close> on each of its branches, what a complete
  certificate proves about the received prepares, and when two of them agree.
\<close>

section \<open>State and operations\<close>

record prepared_cert =
  pc_pp_buf :: bytes
  pc_pp_len :: int
  pc_pc :: cert
  pc_t_sent_us :: int

definition TBFT_PP_MAX_SIZE :: "config \<Rightarrow> nat" where
  "TBFT_PP_MAX_SIZE c = TBFT_MAX_MESSAGE_SIZE c"

definition prepared_cert_init :: "config \<Rightarrow> int \<Rightarrow> prepared_cert" where
  "prepared_cert_init c prepare_threshold = \<lparr>
     pc_pp_buf = replicate (TBFT_PP_MAX_SIZE c) 0, pc_pp_len = 0,
     pc_pc = cert_init c (prepare_kind c) prepare_threshold, pc_t_sent_us = 0 \<rparr>"

definition prepared_cert_clear :: "config \<Rightarrow> prepared_cert \<Rightarrow> prepared_cert" where
  "prepared_cert_clear c cert = prepared_cert_init c (cert_complete_threshold (pc_pc cert))"

definition prepared_cert_store_pp :: "int \<Rightarrow> prepared_cert \<Rightarrow> bytes \<Rightarrow> int \<Rightarrow> prepared_cert" where
  "prepared_cert_store_pp now cert buf len = cert\<lparr>
     pc_pp_buf := put 0 (take (nat len) buf) (pc_pp_buf cert),
     pc_pp_len := len, pc_t_sent_us := now \<rparr>"

definition prepared_cert_add_pp ::
  "config \<Rightarrow> int \<Rightarrow> prepared_cert \<Rightarrow> bytes \<Rightarrow> int \<Rightarrow> bool \<times> prepared_cert" where
  "prepared_cert_add_pp c now cert buf len =
     (if 0 < pc_pp_len cert then
        if pp_seqno (pc_pp_buf cert) \<noteq> pp_seqno buf
        then (True, prepared_cert_store_pp now cert buf len)
        else if int sz_pre_prepare \<le> len \<and>
            tbft_digest_equal (pp_digest (pc_pp_buf cert)) (pp_digest buf) \<and>
            pp_view (pc_pp_buf cert) < pp_view buf
        then (True, prepared_cert_store_pp now cert buf len)
        else (False, cert)
      else if len < int sz_pre_prepare then (False, cert)
      else if int (TBFT_PP_MAX_SIZE c) < len then (False, cert)
      else (True, prepared_cert_store_pp now cert buf len))"

definition prepared_cert_add_prepare ::
  "config \<Rightarrow> prepared_cert \<Rightarrow> bytes \<Rightarrow> int \<Rightarrow> int \<Rightarrow> bool \<times> prepared_cert" where
  "prepared_cert_add_prepare c cert msg msg_len sender_id =
     (let (ok, pc) = cert_add c (prepare_kind c) (pc_pc cert) msg msg_len sender_id
      in (ok, cert\<lparr> pc_pc := pc \<rparr>))"

definition prepared_cert_add_my_prepare ::
  "config \<Rightarrow> prepared_cert \<Rightarrow> bytes \<Rightarrow> int \<Rightarrow> int \<Rightarrow> bool \<times> prepared_cert" where
  "prepared_cert_add_my_prepare c cert msg msg_len my_id =
     (let (ok, pc) = cert_add_mine c (prepare_kind c) (pc_pc cert) msg msg_len my_id
      in (ok, cert\<lparr> pc_pc := pc \<rparr>))"

definition prepared_cert_is_complete :: "prepared_cert \<Rightarrow> bool" where
  "prepared_cert_is_complete cert =
     (if pc_pp_len cert = 0 then False
      else if \<not> cert_is_complete (pc_pc cert) then False
      else case cert_cvalue (pc_pc cert) of
        None \<Rightarrow> False
      | Some pval \<Rightarrow> tbft_digest_equal (pp_digest (pc_pp_buf cert)) (prep_digest pval))"

definition prepared_cert_pp :: "prepared_cert \<Rightarrow> bytes option" where
  "prepared_cert_pp cert = (if 0 < pc_pp_len cert then Some (pc_pp_buf cert) else None)"

section \<open>Representation invariant\<close>

definition prepared_inv :: "config \<Rightarrow> prepared_cert \<Rightarrow> bool" where
  "prepared_inv c cert \<longleftrightarrow>
     length (pc_pp_buf cert) = TBFT_PP_MAX_SIZE c \<and>
     (pc_pp_len cert = 0 \<or> int sz_pre_prepare \<le> pc_pp_len cert \<and> pc_pp_len cert \<le> int (TBFT_PP_MAX_SIZE c)) \<and>
     (\<exists>V. cert_holds c (prepare_kind c) (pc_pc cert) V)"

text \<open>The invariant with the log of prepares, for statements about quorums.\<close>

definition prepared_holds :: "config \<Rightarrow> prepared_cert \<Rightarrow> votes \<Rightarrow> bool" where
  "prepared_holds c cert V \<longleftrightarrow> prepared_inv c cert \<and> cert_holds c (prepare_kind c) (pc_pc cert) V"

lemma prepared_holds_inv: "prepared_holds c cert V \<Longrightarrow> prepared_inv c cert"
  by (simp add: prepared_holds_def)

lemma prepared_inv_holds: "prepared_inv c cert \<Longrightarrow> \<exists>V. prepared_holds c cert V"
  by (auto simp: prepared_holds_def prepared_inv_def)

lemma prepared_init_holds [inv_intros]: "prepared_holds c (prepared_cert_init c t) Map.empty"
  using cert_init_holds [of c "prepare_kind c" t]
  by (auto simp: prepared_holds_def prepared_inv_def prepared_cert_init_def)

lemma prepared_clear_eq:
  "prepared_cert_clear c cert = prepared_cert_init c (cert_complete_threshold (pc_pc cert))"
  by (simp add: prepared_cert_clear_def)

lemma store_pp_holds:
  assumes "prepared_holds c cert V" "int sz_pre_prepare \<le> len" "len \<le> int (TBFT_PP_MAX_SIZE c)"
    "nat len \<le> length buf"
  shows "prepared_holds c (prepared_cert_store_pp now cert buf len) V"
proof -
  have "nat len \<le> TBFT_PP_MAX_SIZE c" using assms(2,3) by simp
  with assms show ?thesis
    by (auto simp: prepared_holds_def prepared_inv_def prepared_cert_store_pp_def)
qed

lemma add_pp_holds [inv_intros]:
  assumes "prepared_holds c cert V" "int sz_pre_prepare \<le> len" "len \<le> int (TBFT_PP_MAX_SIZE c)"
    "nat len \<le> length buf"
  shows "prepared_holds c (snd (prepared_cert_add_pp c now cert buf len)) V"
  using assms store_pp_holds [OF assms] by (simp add: prepared_cert_add_pp_def)

lemma add_prepare_holds [inv_intros]:
  assumes h: "prepared_holds c cert V" and m: "nat l \<le> length m"
  shows "\<exists>W. prepared_holds c (snd (prepared_cert_add_prepare c cert m l s)) W"
    and "\<exists>W. prepared_holds c (snd (prepared_cert_add_my_prepare c cert m l s)) W"
proof -
  let ?k = "prepare_kind c"
  have c: "cert_holds c ?k (pc_pc cert) V" using h by (simp add: prepared_holds_def)
  have m': "cert_msg_ok ?k m l" using m by simp
  obtain b ct where r: "cert_add c ?k (pc_pc cert) m l s = (b, ct)" by (cases "cert_add c ?k (pc_pc cert) m l s")
  have "\<exists>W. cert_holds c ?k ct W"
    using r c by (cases b) (auto dest: cert_add_False elim!: cert_add_cases [OF c m'])
  then show "\<exists>W. prepared_holds c (snd (prepared_cert_add_prepare c cert m l s)) W"
    using h r by (auto simp: prepared_cert_add_prepare_def prepared_holds_def prepared_inv_def)
  obtain b' ct' where r': "cert_add_mine c ?k (pc_pc cert) m l s = (b', ct')"
    by (cases "cert_add_mine c ?k (pc_pc cert) m l s")
  have "\<exists>W. cert_holds c ?k ct' W"
    using r' c by (cases b') (auto dest: cert_add_mine_False elim!: cert_add_mine_cases [OF c m'])
  then show "\<exists>W. prepared_holds c (snd (prepared_cert_add_my_prepare c cert m l s)) W"
    using h r' by (auto simp: prepared_cert_add_my_prepare_def prepared_holds_def prepared_inv_def)
qed

section \<open>The stored pre-prepare\<close>

lemma store_pp_field:
  assumes "off + k \<le> nat len" "nat len \<le> length buf"
  shows "field off k (pc_pp_buf (prepared_cert_store_pp now cert buf len)) = field off k buf"
  using assms by (simp add: prepared_cert_store_pp_def field_put_prefix)

lemma store_pp_fields:
  assumes "int sz_pre_prepare \<le> len" "nat len \<le> length buf"
  shows "pp_digest (pc_pp_buf (prepared_cert_store_pp now cert buf len)) = pp_digest buf"
    "pp_seqno (pc_pp_buf (prepared_cert_store_pp now cert buf len)) = pp_seqno buf"
    "pp_view (pc_pp_buf (prepared_cert_store_pp now cert buf len)) = pp_view buf"
  using assms
  by (auto simp: pp_defs rd_defs store_pp_field)

text \<open>The stored prepares are untouched by \<open>add_pp\<close>, on every branch.\<close>

lemma add_pp_keeps_prepares: "pc_pc (snd (prepared_cert_add_pp c now cert buf len)) = pc_pc cert"
  by (simp add: prepared_cert_add_pp_def prepared_cert_store_pp_def)

lemma add_pp_False [reject_simps]: "prepared_cert_add_pp c now cert buf len = (False, cert') \<Longrightarrow> cert' = cert"
  by (auto simp: prepared_cert_add_pp_def split: if_splits)

lemma add_pp_accepted_iff:
  assumes "prepared_inv c cert" "int sz_pre_prepare \<le> len" "len \<le> int (TBFT_PP_MAX_SIZE c)"
  shows "fst (prepared_cert_add_pp c now cert buf len) \<longleftrightarrow>
    (case prepared_cert_pp cert of
       None \<Rightarrow> True
     | Some old \<Rightarrow> pp_seqno old \<noteq> pp_seqno buf \<or> pp_digest old = pp_digest buf \<and> pp_view old < pp_view buf)"
  using assms by (auto simp: prepared_cert_add_pp_def prepared_cert_pp_def)

text \<open>No equivocation in a slot: once a pre-prepare for a sequence number is stored, an accepted
  pre-prepare for the same number carries the same digest.\<close>

lemma add_pp_same_seqno:
  assumes "prepared_cert_pp cert = Some old" "pp_seqno buf = pp_seqno old"
    "fst (prepared_cert_add_pp c now cert buf len)"
  shows "pp_digest buf = pp_digest old \<and> pp_view old < pp_view buf"
  using assms by (auto simp: prepared_cert_add_pp_def prepared_cert_pp_def split: if_splits)

section \<open>Completeness\<close>

lemma prepared_complete_voters:
  assumes h: "prepared_holds c cert V" and r: "prepared_cert_is_complete cert"
  shows "prepared_cert_pp cert = Some (pc_pp_buf cert)"
    and "cert_complete_threshold (pc_pc cert) \<le> int (card (voters V (pp_digest (pc_pp_buf cert))))"
proof -
  from r obtain v where v: "cert_cvalue (pc_pc cert) = Some v" "pc_pp_len cert \<noteq> 0"
    "pp_digest (pc_pp_buf cert) = prep_digest v"
    by (auto simp: prepared_cert_is_complete_def split: if_splits option.splits)
  from h v(2) show "prepared_cert_pp cert = Some (pc_pp_buf cert)"
    by (auto simp: prepared_holds_def prepared_inv_def prepared_cert_pp_def)
  from v have "cert_winner (prepare_kind c) (pc_pc cert) = Some (pp_digest (pc_pp_buf cert))"
    by (simp add: cert_winner_def prepare_kind_def prep_digest_def)
  with cert_winner_voters h
  show "cert_complete_threshold (pc_pc cert) \<le> int (card (voters V (pp_digest (pc_pp_buf cert))))"
    by (auto simp: prepared_holds_def)
qed

definition prepared_winner :: "prepared_cert \<Rightarrow> digest option" where
  "prepared_winner cert =
     (if prepared_cert_is_complete cert then Some (pp_digest (pc_pp_buf cert)) else None)"

interpretation prepared: quorum_cert "prepared_holds c" prepared_winner
  "\<lambda>cert. cert_complete_threshold (pc_pc cert)"
proof
  fix s V d
  assume h: "prepared_holds c s V"
  then show "finite (dom V)" by (auto simp: prepared_holds_def intro: cert_holds_finite)
  assume "prepared_winner s = Some d"
  with prepared_complete_voters(2) [OF h]
  show "cert_complete_threshold (pc_pc s) \<le> int (card (voters V d))"
    by (auto simp: prepared_winner_def split: if_splits)
qed

section \<open>Agreement of prepared certificates\<close>


text \<open>Sample messages for the witnesses.\<close>

definition sample_prepare :: "digest \<Rightarrow> bytes" where
  "sample_prepare d = put 32 d (wr_i16 0 (tag_val TBFT_MSG_PREPARE) (replicate 72 0))"

definition sample_pp :: "digest \<Rightarrow> bytes" where
  "sample_pp d = put 32 d (wr_i16 0 (tag_val TBFT_MSG_PRE_PREPARE) (replicate 72 0))"

lemma sample_prepare_length: "length d = 32 \<Longrightarrow> length (sample_prepare d) = 72"
  by (simp add: sample_prepare_def)

lemma sample_pp_facts:
  "length d = 32 \<Longrightarrow> length (sample_pp d) = 72"
  "length d = 32 \<Longrightarrow> pp_digest (sample_pp d) = d"
  by (simp_all add: sample_pp_def pp_digest_def wire_simps)

lemma sample_prepare_claim:
  assumes "length d = 32" "0 \<le> i" "i < 64"
  shows "cert_claim (prepare_kind c) (sample_prepare d, 72, i) = Some d"
proof -
  have "hdr_tag (sample_prepare d) = tag_val TBFT_MSG_PREPARE"
    by (simp add: sample_prepare_def hdr_tag_def wire_simps) (simp add: i16_def)
  with assms show ?thesis
    by (simp add: cert_claim_def extract_msg_digest_def prepare_kind_def sample_prepare_def wire_simps)
qed

text \<open>A replica's slot after it stored a pre-prepare for \<open>d\<close> and received prepares for \<open>d\<close>.\<close>

definition prepared_run :: "config \<Rightarrow> int \<Rightarrow> digest \<Rightarrow> int list \<Rightarrow> prepared_cert" where
  "prepared_run c t d ids =
     fold (\<lambda>i cert. snd (prepared_cert_add_prepare c cert (sample_prepare d) 72 i)) ids
       (snd (prepared_cert_add_pp c 0 (prepared_cert_init c t) (sample_pp d) 72))"

lemma fold_add_prepare:
  "fold (\<lambda>i cert. snd (prepared_cert_add_prepare c cert (sample_prepare d) 72 i)) ids cert =
   cert\<lparr> pc_pc := cert_adds c (prepare_kind c) (pc_pc cert) (map (\<lambda>i. (sample_prepare d, 72, i)) ids) \<rparr>"
  by (induction ids arbitrary: cert)
    (auto simp: prepared_cert_add_prepare_def cert_adds_def split: prod.split)

lemma prepared_run_complete:
  assumes c: "72 \<le> TBFT_PP_MAX_SIZE c" and d: "length d = 32"
    and ids: "\<forall>i \<in> set ids. 0 \<le> i \<and> i < 64" "0 < t" "t \<le> int (card (set ids))"
  shows "prepared_cert_is_complete (prepared_run c t d ids)"
    "pp_digest (pc_pp_buf (prepared_run c t d ids)) = d"
    "cert_complete_threshold (pc_pc (prepared_run c t d ids)) = t"
    "\<exists>V. prepared_holds c (prepared_run c t d ids) V \<and> dom V \<subseteq> set ids \<and> ran V \<subseteq> {d}"
proof -
  let ?xs = "map (\<lambda>i. (sample_prepare d, 72 :: int, i)) ids"
  let ?k = "prepare_kind c"
  let ?pp = "snd (prepared_cert_add_pp c 0 (prepared_cert_init c t) (sample_pp d) 72)"
  have pp: "?pp = prepared_cert_store_pp 0 (prepared_cert_init c t) (sample_pp d) 72"
    using c by (simp add: prepared_cert_add_pp_def prepared_cert_init_def)
  have run: "prepared_run c t d ids = ?pp\<lparr> pc_pc := cert_adds c ?k (cert_init c ?k t) ?xs \<rparr>"
    by (simp add: prepared_run_def fold_add_prepare add_pp_keeps_prepares)
      (simp add: prepared_cert_init_def)
  have dig: "pp_digest (pc_pp_buf ?pp) = d"
    using d by (simp add: pp store_pp_fields sample_pp_facts)
  then show "pp_digest (pc_pp_buf (prepared_run c t d ids)) = d" by (simp add: run)
  have xs: "\<forall>x \<in> set ?xs. cert_input_ok x" using d by (auto simp: cert_input_ok_def sample_prepare_length)
  have "cert_winner ?k (cert_adds c ?k (cert_init c ?k t) ?xs) = Some d"
    by (rule cert_quorum_reached [where F = "{}" and Q = "set ids", OF _ xs])
      (use ids d in \<open>auto simp: sample_prepare_claim image_iff\<close>)
  then obtain v where v: "cert_cvalue (cert_adds c ?k (cert_init c ?k t) ?xs) = Some v" "prep_digest v = d"
    by (auto simp: cert_winner_def prepare_kind_def prep_digest_def)
  then show "prepared_cert_is_complete (prepared_run c t d ids)"
    using dig by (simp add: run prepared_cert_is_complete_def cert_is_complete_def pp prepared_cert_store_pp_def)
  show "cert_complete_threshold (pc_pc (prepared_run c t d ids)) = t" by (simp add: run)
  from cert_adds_log [OF cert_init_holds _ xs, of ?k c t] obtain V where
    V: "cert_holds c ?k (cert_adds c ?k (cert_init c ?k t) ?xs) V"
      "\<forall>i e. V i = Some e \<longrightarrow> (\<exists>m l. (m, l, i) \<in> set ?xs \<and> cert_claim ?k (m, l, i) = Some e)"
    by auto
  have "prepared_inv c ?pp"
    using c d store_pp_holds [OF prepared_init_holds, of 72 c "sample_pp d" 0 t]
    by (auto simp: pp sample_pp_facts dest: prepared_holds_inv)
  with V(1) have "prepared_holds c (prepared_run c t d ids) V"
    by (auto simp: run prepared_holds_def prepared_inv_def)
  moreover have "dom V \<subseteq> set ids" "ran V \<subseteq> {d}"
    using V(2) ids(1) sample_prepare_claim [OF d] by (force simp: ran_def)+
  ultimately show "\<exists>V. prepared_holds c (prepared_run c t d ids) V \<and> dom V \<subseteq> set ids \<and> ran V \<subseteq> {d}"
    by blast
qed



text \<open>The bound on the length of a pre-prepare guards only an empty slot.  In an occupied slot a
  pre-prepare of another sequence number is copied whatever its length, past the end of the
  buffer when it is longer than \<open>TBFT_PP_MAX_SIZE\<close>.\<close>

lemma add_pp_recycled_overflow:
  assumes "prepared_inv c cert" "prepared_cert_pp cert = Some old" "pp_seqno old \<noteq> pp_seqno buf"
    and "int (TBFT_PP_MAX_SIZE c) < len" "nat len \<le> length buf"
  shows "fst (prepared_cert_add_pp c now cert buf len)"
    and "TBFT_PP_MAX_SIZE c < length (pc_pp_buf (snd (prepared_cert_add_pp c now cert buf len)))"
proof -
  from assms(2) have "0 < pc_pp_len cert" "old = pc_pp_buf cert"
    by (auto simp: prepared_cert_pp_def split: if_splits)
  with assms(3) have "prepared_cert_add_pp c now cert buf len = (True, prepared_cert_store_pp now cert buf len)"
    by (simp add: prepared_cert_add_pp_def)
  then show "fst (prepared_cert_add_pp c now cert buf len)"
    "TBFT_PP_MAX_SIZE c < length (pc_pp_buf (snd (prepared_cert_add_pp c now cert buf len)))"
    using assms(1,4,5) by (simp_all add: prepared_cert_store_pp_def length_put prepared_inv_def)
qed

end
