(* ===== verification/Window.thy ===== *)
theory Window
  imports Types
begin

text \<open>
  The contract of a log that keeps one entry per live sequence number and moves a window over
  them: \<open>Agreement_Region\<close> provides it (its ring buffer of slices), the replica relies on it.
  \<open>entry_history\<close> is the clients' lemma: the entry of a sequence number is the result of the
  updates addressed to it, in order, whatever was done to the other numbers.
\<close>

locale window_log =
  fixes inv :: "'s \<Rightarrow> bool"
    and live :: "'s \<Rightarrow> int \<Rightarrow> bool"
    and get :: "'s \<Rightarrow> int \<Rightarrow> 'e"
    and upd :: "'s \<Rightarrow> int \<Rightarrow> ('e \<Rightarrow> 'e) \<Rightarrow> 's"
    and elem_ok :: "'s \<Rightarrow> 'e \<Rightarrow> bool"
    and advance :: "'s \<Rightarrow> int \<Rightarrow> 's"
    and fresh :: "'s \<Rightarrow> 'e"
  assumes upd_live: "live (upd s n f) m = live s m"
    and upd_elem_ok: "elem_ok (upd s n f) = elem_ok s"
    and get_elem_ok: "inv s \<Longrightarrow> live s n \<Longrightarrow> elem_ok s (get s n)"
    and get_upd: "inv s \<Longrightarrow> live s n \<Longrightarrow> live s m \<Longrightarrow>
      get (upd s n f) m = (if m = n then f (get s n) else get s m)"
    and upd_inv: "inv s \<Longrightarrow> live s n \<Longrightarrow> elem_ok s (f (get s n)) \<Longrightarrow> inv (upd s n f)"
    and advance_inv: "inv s \<Longrightarrow> inv (advance s h)"
    and get_advance: "inv s \<Longrightarrow> live (advance s h) n \<Longrightarrow>
      get (advance s h) n = (if live s n then get s n else fresh s)"
begin

definition upds :: "(int \<times> ('e \<Rightarrow> 'e)) list \<Rightarrow> 's \<Rightarrow> 's" where
  "upds xs s = fold (\<lambda>(n, f) s. upd s n f) xs s"

definition entry_of :: "(int \<times> ('e \<Rightarrow> 'e)) list \<Rightarrow> int \<Rightarrow> 'e \<Rightarrow> 'e" where
  "entry_of xs m e = fold (\<lambda>(n, f) e. if n = m then f e else e) xs e"

lemma upds_simps [simp]:
  "upds [] s = s" "upds ((n, f) # xs) s = upds xs (upd s n f)"
  "entry_of [] m e = e" "entry_of ((n, f) # xs) m e = entry_of xs m (if n = m then f e else e)"
  by (simp_all only: upds_def entry_of_def fold_simps split_conv)

lemma upds_live [simp]: "live (upds xs s) m = live s m"
proof (induction xs arbitrary: s)
  case (Cons x xs)
  then show ?case by (cases x) (simp add: upd_live)
qed simp

definition keeps :: "'s \<Rightarrow> (int \<times> ('e \<Rightarrow> 'e)) list \<Rightarrow> bool" where
  "keeps s xs \<longleftrightarrow> (\<forall>(n, f) \<in> set xs. live s n \<and> (\<forall>e. elem_ok s e \<longrightarrow> elem_ok s (f e)))"

lemma entry_history:
  assumes "inv s" "live s m" "keeps s xs"
  shows "inv (upds xs s) \<and> get (upds xs s) m = entry_of xs m (get s m)"
  using assms
proof (induction xs arbitrary: s)
  case Nil
  then show ?case by simp
next
  case (Cons x xs)
  obtain n f where x: "x = (n, f)" by (cases x)
  have n: "live s n" "elem_ok s (f (get s n))"
    using Cons.prems get_elem_ok [OF Cons.prems(1)] by (auto simp: keeps_def x)
  have "inv (upd s n f)" using n by (rule upd_inv [OF Cons.prems(1)])
  moreover have "live (upd s n f) m" "keeps (upd s n f) xs"
    using Cons.prems by (auto simp: keeps_def upd_live upd_elem_ok)
  ultimately have "inv (upds xs (upd s n f)) \<and> get (upds xs (upd s n f)) m = entry_of xs m (get (upd s n f) m)"
    by (rule Cons.IH)
  then show ?case using get_upd [OF Cons.prems(1) n(1) Cons.prems(2), of f] by (auto simp: x)
qed

lemma entry_after_advance:
  assumes "inv s" "keeps (advance s h) xs" "live (advance s h) m"
  shows "get (upds xs (advance s h)) m = entry_of xs m (if live s m then get s m else fresh s)"
  using entry_history [OF advance_inv [OF assms(1)] assms(3,2)] get_advance [OF assms(1,3)] by simp

end

end
