(* ===== verification/Agreement_Region.thy ===== *)
theory Agreement_Region
  imports Prepared_Cert Window
begin

text \<open>
  The agreement region, \<open>src/tbft_agreement_region.h\<close> and \<open>tbft_agreement_region.c\<close>: a ring
  buffer of slices, one per sequence number of the window.  The abstraction is the function
  \<open>ar_get\<close> from live sequence numbers to slices; \<open>window_log\<close> is interpreted on it, which is the
  refinement of the ring buffer to a window of independent entries.  \<open>ar_base\<close>, the slot of
  sequence number 0, is what every operation of this file keeps.
\<close>

section \<open>State and operations\<close>

record agreement_slice =
  sl_prepared :: prepared_cert
  sl_commit :: cert
  sl_commit_sent_us :: int
  sl_fill_sent_us :: int

record agreement_region =
  ar_slices :: "agreement_slice list"
  ar_head :: int
  ar_head_idx :: int
  ar_mask :: int
  ar_prepare_threshold :: int
  ar_commit_threshold :: int

definition slice_init :: "config \<Rightarrow> int \<Rightarrow> int \<Rightarrow> agreement_slice" where
  "slice_init c pt ct = \<lparr> sl_prepared = prepared_cert_init c pt,
     sl_commit = cert_init c (commit_kind c) ct, sl_commit_sent_us = 0, sl_fill_sent_us = 0 \<rparr>"

definition ar_init :: "config \<Rightarrow> int \<Rightarrow> int \<Rightarrow> agreement_region" where
  "ar_init c pt ct = \<lparr> ar_slices = replicate (TBFT_WINDOW_SIZE c) (slice_init c pt ct),
     ar_head = 1, ar_head_idx = 0, ar_mask = int (TBFT_WINDOW_SIZE c) - 1,
     ar_prepare_threshold = pt, ar_commit_threshold = ct \<rparr>"

definition ar_in_range :: "config \<Rightarrow> agreement_region \<Rightarrow> int \<Rightarrow> bool" where
  "ar_in_range c ar n \<longleftrightarrow> ar_head ar \<le> n \<and> n < ar_head ar + int (TBFT_WINDOW_SIZE c)"

definition ar_slot :: "agreement_region \<Rightarrow> int \<Rightarrow> nat" where
  "ar_slot ar n = nat ((ar_head_idx ar + (n - ar_head ar)) AND ar_mask ar)"

definition ar_slice :: "agreement_region \<Rightarrow> int \<Rightarrow> agreement_slice" where
  "ar_slice ar n = ar_slices ar ! ar_slot ar n"

text \<open>The pointer that \<open>tbft_ar_slice\<close> returns is written through.\<close>

definition ar_upd :: "agreement_region \<Rightarrow> int \<Rightarrow> (agreement_slice \<Rightarrow> agreement_slice) \<Rightarrow> agreement_region" where
  "ar_upd ar n f = ar\<lparr> ar_slices := (ar_slices ar)[ar_slot ar n := f (ar_slice ar n)] \<rparr>"

definition ar_store_pp :: "config \<Rightarrow> int \<Rightarrow> agreement_region \<Rightarrow> int \<Rightarrow> bytes \<Rightarrow> int \<Rightarrow> bool \<times> agreement_region" where
  "ar_store_pp c now ar seqno buf len =
     (if \<not> ar_in_range c ar seqno then (False, ar)
      else let (ok, p) = prepared_cert_add_pp c now (sl_prepared (ar_slice ar seqno)) buf len
           in (ok, ar_upd ar seqno (\<lambda>sl. sl\<lparr> sl_prepared := p \<rparr>)))"

text \<open>The result is the pointer, as the bytes it points to, and the length written to \<open>len_out\<close>.\<close>

definition ar_load_pp :: "config \<Rightarrow> agreement_region \<Rightarrow> int \<Rightarrow> bytes option \<times> int" where
  "ar_load_pp c ar seqno =
     (if \<not> ar_in_range c ar seqno then (None, 0)
      else (prepared_cert_pp (sl_prepared (ar_slice ar seqno)), pc_pp_len (sl_prepared (ar_slice ar seqno))))"

definition ar_add_prepare :: "config \<Rightarrow> agreement_region \<Rightarrow> int \<Rightarrow> bytes \<Rightarrow> int \<Rightarrow> int \<Rightarrow> bool \<times> agreement_region" where
  "ar_add_prepare c ar seqno msg msg_len sender_id =
     (if \<not> ar_in_range c ar seqno then (False, ar)
      else let (ok, p) = prepared_cert_add_prepare c (sl_prepared (ar_slice ar seqno)) msg msg_len sender_id
           in (ok, ar_upd ar seqno (\<lambda>sl. sl\<lparr> sl_prepared := p \<rparr>)))"

definition ar_add_my_prepare :: "config \<Rightarrow> agreement_region \<Rightarrow> int \<Rightarrow> bytes \<Rightarrow> int \<Rightarrow> int \<Rightarrow> bool \<times> agreement_region" where
  "ar_add_my_prepare c ar seqno msg msg_len my_id =
     (if \<not> ar_in_range c ar seqno then (False, ar)
      else let (ok, p) = prepared_cert_add_my_prepare c (sl_prepared (ar_slice ar seqno)) msg msg_len my_id
           in (ok, ar_upd ar seqno (\<lambda>sl. sl\<lparr> sl_prepared := p \<rparr>)))"

definition ar_prepared :: "config \<Rightarrow> agreement_region \<Rightarrow> int \<Rightarrow> bool" where
  "ar_prepared c ar seqno =
     (if \<not> ar_in_range c ar seqno then False
      else prepared_cert_is_complete (sl_prepared (ar_slice ar seqno)))"

definition ar_add_commit :: "config \<Rightarrow> agreement_region \<Rightarrow> int \<Rightarrow> bytes \<Rightarrow> int \<Rightarrow> int \<Rightarrow> bool \<times> agreement_region" where
  "ar_add_commit c ar seqno msg msg_len sender_id =
     (if \<not> ar_in_range c ar seqno then (False, ar)
      else let (ok, ct) = cert_add c (commit_kind c) (sl_commit (ar_slice ar seqno)) msg msg_len sender_id
           in (ok, ar_upd ar seqno (\<lambda>sl. sl\<lparr> sl_commit := ct \<rparr>)))"

definition ar_add_my_commit :: "config \<Rightarrow> agreement_region \<Rightarrow> int \<Rightarrow> bytes \<Rightarrow> int \<Rightarrow> int \<Rightarrow> bool \<times> agreement_region" where
  "ar_add_my_commit c ar seqno msg msg_len my_id =
     (if \<not> ar_in_range c ar seqno then (False, ar)
      else let (ok, ct) = cert_add_mine c (commit_kind c) (sl_commit (ar_slice ar seqno)) msg msg_len my_id
           in (ok, ar_upd ar seqno (\<lambda>sl. sl\<lparr> sl_commit := ct \<rparr>)))"

definition ar_committed :: "config \<Rightarrow> agreement_region \<Rightarrow> int \<Rightarrow> bool" where
  "ar_committed c ar seqno =
     (if \<not> ar_in_range c ar seqno then False
      else cert_is_complete (sl_commit (ar_slice ar seqno)))"

definition slice_clear :: "config \<Rightarrow> agreement_slice \<Rightarrow> agreement_slice" where
  "slice_clear c sl = sl\<lparr> sl_prepared := prepared_cert_clear c (sl_prepared sl),
     sl_commit := cert_clear c (commit_kind c) (sl_commit sl),
     sl_commit_sent_us := 0, sl_fill_sent_us := 0 \<rparr>"

text \<open>The clear loop of \<open>tbft_ar_truncate\<close>, \<open>delta\<close> rounds.\<close>

definition ar_clear_loop :: "config \<Rightarrow> agreement_region \<Rightarrow> nat \<Rightarrow> agreement_slice list" where
  "ar_clear_loop c ar delta =
     fold (\<lambda>i sls. let idx = nat ((ar_head_idx ar + i32 (int i)) AND ar_mask ar)
                   in sls[idx := slice_clear c (sls ! idx)]) [0 ..< delta] (ar_slices ar)"

definition ar_truncate :: "config \<Rightarrow> agreement_region \<Rightarrow> int \<Rightarrow> agreement_region" where
  "ar_truncate c ar new_head =
     (if new_head \<le> ar_head ar then ar
      else
        let full_delta = new_head - ar_head ar;
            delta = (if int (TBFT_WINDOW_SIZE c) < full_delta then int (TBFT_WINDOW_SIZE c) else full_delta)
        in ar\<lparr> ar_slices := ar_clear_loop c ar (nat delta),
               ar_head_idx := i32 (ar_head_idx ar + i32 full_delta) AND ar_mask ar,
               ar_head := new_head \<rparr>)"

section \<open>Representation invariant and abstraction\<close>

definition slice_ok :: "config \<Rightarrow> int \<Rightarrow> int \<Rightarrow> agreement_slice \<Rightarrow> bool" where
  "slice_ok c pt ct sl \<longleftrightarrow>
     prepared_inv c (sl_prepared sl) \<and> (\<exists>V. cert_holds c (commit_kind c) (sl_commit sl) V) \<and>
     cert_complete_threshold (pc_pc (sl_prepared sl)) = pt \<and> cert_complete_threshold (sl_commit sl) = ct"

definition ar_slice_ok :: "config \<Rightarrow> agreement_region \<Rightarrow> agreement_slice \<Rightarrow> bool" where
  "ar_slice_ok c ar = slice_ok c (ar_prepare_threshold ar) (ar_commit_threshold ar)"

definition ar_inv :: "config \<Rightarrow> agreement_region \<Rightarrow> bool" where
  "ar_inv c ar \<longleftrightarrow> cfg_ok c \<and> int (TBFT_WINDOW_SIZE c) \<le> INT32_MAX \<and>
     length (ar_slices ar) = TBFT_WINDOW_SIZE c \<and> ar_mask ar = int (TBFT_WINDOW_SIZE c) - 1 \<and>
     0 \<le> ar_head_idx ar \<and> ar_head_idx ar < int (TBFT_WINDOW_SIZE c) \<and>
     (\<forall>sl \<in> set (ar_slices ar). ar_slice_ok c ar sl)"

definition ar_fresh :: "config \<Rightarrow> agreement_region \<Rightarrow> agreement_slice" where
  "ar_fresh c ar = slice_init c (ar_prepare_threshold ar) (ar_commit_threshold ar)"

definition ar_base :: "config \<Rightarrow> agreement_region \<Rightarrow> int" where
  "ar_base c ar = (ar_head_idx ar - ar_head ar) mod int (TBFT_WINDOW_SIZE c)"

section \<open>Slots of the ring buffer\<close>

lemma ar_slot_mod:
  assumes "ar_inv c ar"
  shows "ar_slot ar n = nat ((ar_base c ar + n) mod int (TBFT_WINDOW_SIZE c))"
proof -
  have "(ar_head_idx ar + (n - ar_head ar)) mod int (TBFT_WINDOW_SIZE c) =
    (ar_base c ar + n) mod int (TBFT_WINDOW_SIZE c)"
    unfolding ar_base_def mod_add_left_eq by (simp add: algebra_simps)
  then show ?thesis using assms by (simp add: ar_slot_def ar_inv_def window_mask_mod)
qed

lemma window_pos: "ar_inv c ar \<Longrightarrow> 0 < int (TBFT_WINDOW_SIZE c)"
  using cfg_ok_simps(1) by (auto simp: ar_inv_def)

lemma ar_slot_less: "ar_inv c ar \<Longrightarrow> ar_slot ar n < TBFT_WINDOW_SIZE c"
  using window_pos [of c ar] by (simp add: ar_slot_mod) (simp add: nat_less_iff)

lemma mod_window_inj:
  fixes a b m :: int
  assumes "a mod m = b mod m" "\<bar>a - b\<bar> < m"
  shows "a = b"
proof -
  from assms(1) have "m dvd a - b" by (rule mod_eq_dvd_iff [THEN iffD1])
  with assms(2) show ?thesis using zdvd_not_zless [of "\<bar>a - b\<bar>" m] by force
qed

lemma ar_slot_inj:
  assumes "ar_inv c ar" "ar_in_range c ar n" "ar_in_range c ar m" "ar_slot ar n = ar_slot ar m"
  shows "n = m"
proof -
  let ?W = "int (TBFT_WINDOW_SIZE c)"
  have "(ar_base c ar + n) mod ?W = (ar_base c ar + m) mod ?W"
    using assms(1,4) window_pos [OF assms(1)] by (simp add: ar_slot_mod eq_nat_nat_iff)
  then have "ar_base c ar + n = ar_base c ar + m"
    by (rule mod_window_inj) (use assms(2,3) in \<open>auto simp: ar_in_range_def\<close>)
  then show ?thesis by simp
qed

lemma ar_upd_simps [simp]:
  "ar_head (ar_upd ar n f) = ar_head ar" "ar_head_idx (ar_upd ar n f) = ar_head_idx ar"
  "ar_mask (ar_upd ar n f) = ar_mask ar"
  "ar_prepare_threshold (ar_upd ar n f) = ar_prepare_threshold ar"
  "ar_commit_threshold (ar_upd ar n f) = ar_commit_threshold ar"
  "ar_in_range c (ar_upd ar n f) m = ar_in_range c ar m"
  "ar_slot (ar_upd ar n f) m = ar_slot ar m"
  "ar_slice_ok c (ar_upd ar n f) = ar_slice_ok c ar"
  "ar_fresh c (ar_upd ar n f) = ar_fresh c ar"
  by (simp_all add: ar_upd_def ar_in_range_def ar_slot_def ar_slice_ok_def ar_fresh_def)

lemma ar_slice_upd:
  assumes "ar_inv c ar" "ar_in_range c ar n" "ar_in_range c ar m"
  shows "ar_slice (ar_upd ar n f) m = (if m = n then f (ar_slice ar n) else ar_slice ar m)"
proof -
  have "length (ar_slices ar) = TBFT_WINDOW_SIZE c" using assms(1) by (simp add: ar_inv_def)
  then show ?thesis
    using ar_slot_less [OF assms(1)] ar_slot_inj [OF assms]
    by (auto simp: ar_slice_def ar_upd_def ar_slot_def nth_list_update)
qed

lemma ar_slice_in:
  assumes "ar_inv c ar"
  shows "ar_slice_ok c ar (ar_slice ar n)"
  using assms ar_slot_less [OF assms] by (auto simp: ar_slice_def ar_inv_def)

lemma ar_upd_inv [inv_intros]:
  assumes "ar_inv c ar" "ar_slice_ok c ar (f (ar_slice ar n))"
  shows "ar_inv c (ar_upd ar n f)"
  using assms unfolding ar_inv_def
  by (auto simp: ar_upd_def ar_slice_ok_def dest!: set_update_subset_insert [THEN subsetD])

lemma ar_init_inv [inv_intros]:
  assumes "cfg_ok c" "int (TBFT_WINDOW_SIZE c) \<le> INT32_MAX"
  shows "ar_inv c (ar_init c pt ct)"
  using assms cfg_ok_simps(1) [OF assms(1)] prepared_init_holds [of c pt, THEN prepared_holds_inv]
    cert_init_holds [of c "commit_kind c" ct]
  by (auto simp: ar_inv_def ar_init_def ar_slice_ok_def slice_ok_def slice_init_def prepared_cert_init_def)

section \<open>Truncation\<close>

lemma slice_clear_init:
  "slice_ok c pt ct sl \<Longrightarrow> slice_clear c sl = slice_init c pt ct"
  by (simp add: slice_ok_def slice_clear_def slice_init_def prepared_cert_clear_def cert_clear_def)

lemma slice_clear_idem: "slice_clear c (slice_clear c sl) = slice_clear c sl"
  by (simp add: slice_clear_def prepared_cert_clear_def prepared_cert_init_def cert_clear_def)

lemma slice_init_ok: "slice_ok c pt ct (slice_init c pt ct)"
  using prepared_init_holds [of c pt, THEN prepared_holds_inv] cert_init_holds [of c "commit_kind c" ct]
  by (auto simp: slice_ok_def slice_init_def prepared_cert_init_def)

lemma clear_loop_nth:
  assumes "ar_inv c ar" "delta \<le> TBFT_WINDOW_SIZE c"
  shows "length (ar_clear_loop c ar delta) = TBFT_WINDOW_SIZE c \<and>
    (\<forall>j < TBFT_WINDOW_SIZE c. ar_clear_loop c ar delta ! j =
      (if \<exists>i < delta. ar_slot ar (ar_head ar + int i) = j
       then slice_clear c (ar_slices ar ! j) else ar_slices ar ! j))"
  using assms(2)
proof (induction delta)
  case 0
  then show ?case using assms(1) by (simp add: ar_clear_loop_def ar_inv_def)
next
  case (Suc d)
  let ?idx = "ar_slot ar (ar_head ar + int d)"
  have "i32 (int d) = int d" using assms(1) Suc.prems by (intro i32_id) (auto simp: ar_inv_def INT32_MAX_def)
  then have "ar_clear_loop c ar (Suc d) =
      (ar_clear_loop c ar d)[?idx := slice_clear c (ar_clear_loop c ar d ! ?idx)]"
    by (simp add: ar_clear_loop_def ar_slot_def Let_def)
  moreover have "?idx < TBFT_WINDOW_SIZE c" using ar_slot_less [OF assms(1)] .
  ultimately show ?case
    using Suc.IH Suc.prems by (auto simp: nth_list_update less_Suc_eq slice_clear_idem)
qed

lemma i32_mod_pow2: "k \<le> 31 \<Longrightarrow> i32 x mod 2 ^ k = x mod 2 ^ k"
proof -
  assume k: "k \<le> 31"
  have "take_bit k (signed_take_bit 31 x) = take_bit k x"
    using k by (intro bit_eqI) (auto simp: bit_simps min_def)
  then show ?thesis by (simp add: i32_def take_bit_eq_mod)
qed

lemma i32_mod_window:
  assumes "ar_inv c ar"
  shows "i32 x mod int (TBFT_WINDOW_SIZE c) = x mod int (TBFT_WINDOW_SIZE c)"
proof -
  from assms obtain k where k: "TBFT_WINDOW_SIZE c = 2 ^ k"
    using pow2_assert_exp by (auto simp: ar_inv_def cfg_ok_def)
  have "k < 32"
  proof (rule ccontr)
    assume "\<not> k < 32"
    then have "(2 :: int) ^ 32 \<le> 2 ^ k" by (intro power_increasing) auto
    with assms k show False by (simp add: ar_inv_def INT32_MAX_def)
  qed
  with k show ?thesis by (simp add: i32_mod_pow2)
qed

lemma truncate_head_idx:
  assumes "ar_inv c ar" "ar_head ar < h"
  shows "ar_head_idx (ar_truncate c ar h) = (ar_head_idx ar + (h - ar_head ar)) mod int (TBFT_WINDOW_SIZE c)"
proof -
  have "(ar_head_idx ar + i32 (h - ar_head ar)) mod int (TBFT_WINDOW_SIZE c) =
      (ar_head_idx ar + (h - ar_head ar)) mod int (TBFT_WINDOW_SIZE c)"
    by (rule mod_add_cong) (simp_all add: i32_mod_window [OF assms(1)])
  then show ?thesis
    using assms by (simp add: ar_truncate_def ar_inv_def window_mask_mod i32_mod_window [OF assms(1)] Let_def)
qed

lemma truncate_simps [simp]:
  "ar_mask (ar_truncate c ar h) = ar_mask ar"
  "ar_prepare_threshold (ar_truncate c ar h) = ar_prepare_threshold ar"
  "ar_commit_threshold (ar_truncate c ar h) = ar_commit_threshold ar"
  "ar_head (ar_truncate c ar h) = max (ar_head ar) h"
  by (auto simp: ar_truncate_def Let_def)

lemma truncate_slices:
  assumes "ar_inv c ar" "j < TBFT_WINDOW_SIZE c"
  shows "ar_slices (ar_truncate c ar h) ! j =
    (if \<exists>n. ar_in_range c ar n \<and> n < h \<and> ar_slot ar n = j then ar_fresh c ar else ar_slices ar ! j)"
proof (cases "h \<le> ar_head ar")
  case True
  then show ?thesis by (auto simp: ar_truncate_def ar_in_range_def)
next
  case False
  let ?W = "TBFT_WINDOW_SIZE c"
  let ?d = "nat (min (int ?W) (h - ar_head ar))"
  have d: "nat (if int ?W < h - ar_head ar then int ?W else h - ar_head ar) = ?d"
    by auto
  have sl: "ar_slices (ar_truncate c ar h) = ar_clear_loop c ar ?d"
    using False by (simp add: ar_truncate_def Let_def d)
  have "(\<exists>i < ?d. ar_slot ar (ar_head ar + int i) = j) \<longleftrightarrow>
      (\<exists>n. ar_in_range c ar n \<and> n < h \<and> ar_slot ar n = j)"
  proof
    assume "\<exists>i < ?d. ar_slot ar (ar_head ar + int i) = j"
    then obtain i where "i < ?d" "ar_slot ar (ar_head ar + int i) = j" by blast
    then show "\<exists>n. ar_in_range c ar n \<and> n < h \<and> ar_slot ar n = j"
      by (intro exI [of _ "ar_head ar + int i"]) (auto simp: ar_in_range_def)
  next
    assume "\<exists>n. ar_in_range c ar n \<and> n < h \<and> ar_slot ar n = j"
    then obtain n where "ar_in_range c ar n" "n < h" "ar_slot ar n = j" by blast
    then show "\<exists>i < ?d. ar_slot ar (ar_head ar + int i) = j"
      by (intro exI [of _ "nat (n - ar_head ar)"]) (auto simp: ar_in_range_def)
  qed
  moreover have "slice_clear c (ar_slices ar ! j) = ar_fresh c ar"
    using assms by (intro slice_clear_init [folded ar_slice_ok_def, of c "ar_prepare_threshold ar"
        "ar_commit_threshold ar" "ar_slices ar ! j", folded ar_fresh_def])
      (auto simp: ar_inv_def ar_slice_ok_def)
  moreover have "?d \<le> ?W" by auto
  ultimately show ?thesis using clear_loop_nth [OF assms(1), of ?d] assms(2) by (auto simp: sl)
qed

lemma length_truncate: "ar_inv c ar \<Longrightarrow> length (ar_slices (ar_truncate c ar h)) = TBFT_WINDOW_SIZE c"
proof -
  assume a: "ar_inv c ar"
  have "nat (if int (TBFT_WINDOW_SIZE c) < d then int (TBFT_WINDOW_SIZE c) else d) \<le> TBFT_WINDOW_SIZE c" for d
    by auto
  from clear_loop_nth [OF a this] a show ?thesis by (auto simp: ar_truncate_def Let_def ar_inv_def)
qed

lemma ar_truncate_inv [inv_intros]:
  assumes "ar_inv c ar"
  shows "ar_inv c (ar_truncate c ar h)"
proof -
  have "0 \<le> ar_head_idx (ar_truncate c ar h) \<and> ar_head_idx (ar_truncate c ar h) < int (TBFT_WINDOW_SIZE c)"
  proof (cases "ar_head ar < h")
    case True
    then show ?thesis using truncate_head_idx [OF assms True] window_pos [OF assms] by simp
  next
    case False
    then show ?thesis using assms by (simp add: ar_truncate_def ar_inv_def)
  qed
  moreover have "ar_slice_ok c ar sl" if "sl \<in> set (ar_slices (ar_truncate c ar h))" for sl
  proof -
    from that obtain j where "j < TBFT_WINDOW_SIZE c" "sl = ar_slices (ar_truncate c ar h) ! j"
      by (auto simp: in_set_conv_nth length_truncate [OF assms])
    then show ?thesis
      using truncate_slices [OF assms, of j h] assms
      by (auto simp: ar_fresh_def ar_slice_ok_def slice_init_ok ar_inv_def)
  qed
  ultimately show ?thesis
    using assms length_truncate [OF assms] by (auto simp: ar_inv_def ar_slice_ok_def)
qed

lemma ar_truncate_base:
  assumes "ar_inv c ar"
  shows "ar_base c (ar_truncate c ar h) = ar_base c ar"
proof (cases "ar_head ar < h")
  case True
  have "(a mod m - b) mod m = (a - b) mod m" for a b m :: int by (rule mod_diff_left_eq)
  with truncate_head_idx [OF assms True] True show ?thesis by (simp add: ar_base_def)
next
  case False
  then show ?thesis by (simp add: ar_truncate_def)
qed

lemma ar_truncate_slot: "ar_inv c ar \<Longrightarrow> ar_slot (ar_truncate c ar h) n = ar_slot ar n"
  by (simp add: ar_slot_mod [of c ar] ar_slot_mod [OF ar_truncate_inv] ar_truncate_base)

lemma ar_slice_truncate:
  assumes "ar_inv c ar" "ar_in_range c (ar_truncate c ar h) n"
  shows "ar_slice (ar_truncate c ar h) n = (if ar_in_range c ar n then ar_slice ar n else ar_fresh c ar)"
proof -
  let ?W = "int (TBFT_WINDOW_SIZE c)"
  let ?j = "ar_slot ar n"
  have W: "0 < ?W" using window_pos [OF assms(1)] .
  have n: "h \<le> n" "ar_head ar \<le> n" "n < max (ar_head ar) h + ?W"
    using assms(2) by (auto simp: ar_in_range_def)
  have "(\<exists>m. ar_in_range c ar m \<and> m < h \<and> ar_slot ar m = ?j) \<longleftrightarrow> \<not> ar_in_range c ar n"
  proof
    assume "\<exists>m. ar_in_range c ar m \<and> m < h \<and> ar_slot ar m = ?j"
    then show "\<not> ar_in_range c ar n" using ar_slot_inj [OF assms(1)] n(1) by force
  next
    assume out: "\<not> ar_in_range c ar n"
    let ?m = "ar_head ar + (n - ar_head ar) mod ?W"
    have "(ar_base c ar + ?m) mod ?W = (ar_base c ar + n) mod ?W"
      by (simp add: mod_simps flip: add.assoc)
    then have "ar_slot ar ?m = ?j" by (simp add: ar_slot_mod [OF assms(1)])
    moreover have "ar_in_range c ar ?m" using W by (simp add: ar_in_range_def)
    moreover have "?m < h"
    proof -
      have ge: "ar_head ar + ?W \<le> n" "ar_head ar < h" using out n W by (auto simp: ar_in_range_def max_def split: if_splits)
      show ?thesis
      proof (cases "h - ar_head ar < ?W")
        case True
        then have "(n - ar_head ar) mod ?W = n - ar_head ar - ?W"
          using ge n by (subst mod_pos_pos_trivial [of "n - ar_head ar - ?W" ?W, symmetric]) auto
        then show ?thesis using n ge by (simp add: max_def split: if_splits)
      next
        case False
        then show ?thesis using pos_mod_bound [OF W, of "n - ar_head ar"] by linarith
      qed
    qed
    ultimately show "\<exists>m. ar_in_range c ar m \<and> m < h \<and> ar_slot ar m = ?j" by blast
  qed
  then show ?thesis
    using truncate_slices [OF assms(1) ar_slot_less [OF assms(1)], of h n]
    by (simp add: ar_slice_def ar_truncate_slot [OF assms(1)])
qed

interpretation ar: window_log "ar_inv c" "ar_in_range c" ar_slice ar_upd "ar_slice_ok c" "ar_truncate c" "ar_fresh c"
proof
  fix s n m f h
  show "ar_in_range c (ar_upd s n f) m = ar_in_range c s m" by simp
  show "ar_slice_ok c (ar_upd s n f) = ar_slice_ok c s" by simp
  show "ar_slice_ok c s (ar_slice s n)" if "ar_inv c s" using that by (rule ar_slice_in)
  show "ar_slice (ar_upd s n f) m = (if m = n then f (ar_slice s n) else ar_slice s m)"
    if "ar_inv c s" "ar_in_range c s n" "ar_in_range c s m" using that by (rule ar_slice_upd)
  show "ar_inv c (ar_upd s n f)" if "ar_inv c s" "ar_slice_ok c s (f (ar_slice s n))"
    using that by (rule ar_upd_inv)
  show "ar_inv c (ar_truncate c s h)" if "ar_inv c s" using that by (rule ar_truncate_inv)
  show "ar_slice (ar_truncate c s h) n = (if ar_in_range c s n then ar_slice s n else ar_fresh c s)"
    if "ar_inv c s" "ar_in_range c (ar_truncate c s h) n" using that by (rule ar_slice_truncate)
qed

section \<open>Operations as a sequence\<close>

datatype ar_op =
    Store_pp int int bytes int
  | Add_prepare int bytes int int
  | Add_my_prepare int bytes int int
  | Add_commit int bytes int int
  | Add_my_commit int bytes int int
  | Truncate int

fun ar_step :: "config \<Rightarrow> ar_op \<Rightarrow> agreement_region \<Rightarrow> agreement_region" where
  "ar_step c (Store_pp now n m l) ar = snd (ar_store_pp c now ar n m l)"
| "ar_step c (Add_prepare n m l i) ar = snd (ar_add_prepare c ar n m l i)"
| "ar_step c (Add_my_prepare n m l i) ar = snd (ar_add_my_prepare c ar n m l i)"
| "ar_step c (Add_commit n m l i) ar = snd (ar_add_commit c ar n m l i)"
| "ar_step c (Add_my_commit n m l i) ar = snd (ar_add_my_commit c ar n m l i)"
| "ar_step c (Truncate h) ar = ar_truncate c ar h"

definition ar_run :: "config \<Rightarrow> ar_op list \<Rightarrow> agreement_region \<Rightarrow> agreement_region" where
  "ar_run c ops ar = fold (ar_step c) ops ar"

fun op_seqno :: "ar_op \<Rightarrow> int option" where
  "op_seqno (Store_pp now n m l) = Some n"
| "op_seqno (Add_prepare n m l i) = Some n"
| "op_seqno (Add_my_prepare n m l i) = Some n"
| "op_seqno (Add_commit n m l i) = Some n"
| "op_seqno (Add_my_commit n m l i) = Some n"
| "op_seqno (Truncate h) = None"

text \<open>What the callers guarantee: the length is the number of received bytes, and a pre-prepare
  has its header and fits the buffer.\<close>

fun op_ok :: "config \<Rightarrow> ar_op \<Rightarrow> bool" where
  "op_ok c (Store_pp now n m l) \<longleftrightarrow> int sz_pre_prepare \<le> l \<and> l \<le> int (TBFT_PP_MAX_SIZE c) \<and> nat l \<le> length m"
| "op_ok c (Add_prepare n m l i) \<longleftrightarrow> nat l \<le> length m"
| "op_ok c (Add_my_prepare n m l i) \<longleftrightarrow> nat l \<le> length m"
| "op_ok c (Add_commit n m l i) \<longleftrightarrow> nat l \<le> length m"
| "op_ok c (Add_my_commit n m l i) \<longleftrightarrow> nat l \<le> length m"
| "op_ok c (Truncate h) \<longleftrightarrow> True"

text \<open>The effect of an operation on the slice it is addressed to.\<close>

fun op_slice :: "config \<Rightarrow> ar_op \<Rightarrow> agreement_slice \<Rightarrow> agreement_slice" where
  "op_slice c (Store_pp now n m l) sl = sl\<lparr> sl_prepared := snd (prepared_cert_add_pp c now (sl_prepared sl) m l) \<rparr>"
| "op_slice c (Add_prepare n m l i) sl = sl\<lparr> sl_prepared := snd (prepared_cert_add_prepare c (sl_prepared sl) m l i) \<rparr>"
| "op_slice c (Add_my_prepare n m l i) sl = sl\<lparr> sl_prepared := snd (prepared_cert_add_my_prepare c (sl_prepared sl) m l i) \<rparr>"
| "op_slice c (Add_commit n m l i) sl = sl\<lparr> sl_commit := snd (cert_add c (commit_kind c) (sl_commit sl) m l i) \<rparr>"
| "op_slice c (Add_my_commit n m l i) sl = sl\<lparr> sl_commit := snd (cert_add_mine c (commit_kind c) (sl_commit sl) m l i) \<rparr>"
| "op_slice c (Truncate h) sl = sl"

lemma ar_upd_cong: "f (ar_slice ar n) = g (ar_slice ar n) \<Longrightarrow> ar_upd ar n f = ar_upd ar n g"
  by (simp add: ar_upd_def)

lemma ar_step_upd:
  assumes "op_seqno op = Some n"
  shows "ar_step c op ar = (if ar_in_range c ar n then ar_upd ar n (op_slice c op) else ar)"
  using assms
  by (cases op) (auto simp: ar_store_pp_def ar_add_prepare_def ar_add_my_prepare_def ar_add_commit_def
      ar_add_my_commit_def intro!: ar_upd_cong split: prod.splits)

lemma cert_add_ex_holds:
  assumes "cert_holds c k ct V" "kind_ok k" "nat l \<le> length m"
  shows "\<exists>W. cert_holds c k (snd (cert_add c k ct m l i)) W"
    and "\<exists>W. cert_holds c k (snd (cert_add_mine c k ct m l i)) W"
proof -
  have m: "cert_msg_ok k m l" using assms(2,3) by simp
  obtain b ct' where r: "cert_add c k ct m l i = (b, ct')" by (cases "cert_add c k ct m l i")
  show "\<exists>W. cert_holds c k (snd (cert_add c k ct m l i)) W"
    using r assms(1) by (cases b) (auto dest: cert_add_False elim!: cert_add_cases [OF assms(1) m])
  obtain b ct' where r: "cert_add_mine c k ct m l i = (b, ct')" by (cases "cert_add_mine c k ct m l i")
  show "\<exists>W. cert_holds c k (snd (cert_add_mine c k ct m l i)) W"
    using r assms(1) by (cases b) (auto dest: cert_add_mine_False elim!: cert_add_mine_cases [OF assms(1) m])
qed

lemma prepared_ops_threshold [simp]:
  "cert_complete_threshold (pc_pc (snd (prepared_cert_add_pp c now p m l))) = cert_complete_threshold (pc_pc p)"
  "cert_complete_threshold (pc_pc (snd (prepared_cert_add_prepare c p m l i))) = cert_complete_threshold (pc_pc p)"
  "cert_complete_threshold (pc_pc (snd (prepared_cert_add_my_prepare c p m l i))) = cert_complete_threshold (pc_pc p)"
  using threshold_unchanged(1) [of c "prepare_kind c" "pc_pc p" m l i]
    threshold_unchanged(2) [of c "prepare_kind c" "pc_pc p" m l i]
  by (auto simp: add_pp_keeps_prepares prepared_cert_add_prepare_def prepared_cert_add_my_prepare_def
      simp del: threshold_unchanged split: prod.splits)

lemma op_slice_ok:
  assumes "op_ok c op" "slice_ok c pt ct sl"
  shows "slice_ok c pt ct (op_slice c op sl)"
proof -
  from assms(2) obtain V where V: "prepared_holds c (sl_prepared sl) V"
    by (auto simp: slice_ok_def dest: prepared_inv_holds)
  from assms(2) obtain W where W: "cert_holds c (commit_kind c) (sl_commit sl) W"
    by (auto simp: slice_ok_def)
  show ?thesis
  proof (cases op)
    case (Store_pp now n m l)
    then show ?thesis using assms add_pp_holds [OF V, of l m now]
      by (auto simp: slice_ok_def dest: prepared_holds_inv)
  next
    case (Add_prepare n m l i)
    then show ?thesis using assms add_prepare_holds(1) [OF V, of l m i]
      by (auto simp: slice_ok_def dest: prepared_holds_inv)
  next
    case (Add_my_prepare n m l i)
    then show ?thesis using assms add_prepare_holds(2) [OF V, of l m i]
      by (auto simp: slice_ok_def dest: prepared_holds_inv)
  next
    case (Add_commit n m l i)
    then show ?thesis using assms cert_add_ex_holds(1) [OF W, of l m i] by (simp add: slice_ok_def)
  next
    case (Add_my_commit n m l i)
    then show ?thesis using assms cert_add_ex_holds(2) [OF W, of l m i] by (simp add: slice_ok_def)
  next
    case (Truncate h)
    then show ?thesis using assms by simp
  qed
qed

lemma ar_step_inv [inv_intros]:
  assumes "ar_inv c ar" "op_ok c op"
  shows "ar_inv c (ar_step c op ar)"
proof (cases "op_seqno op")
  case None
  then show ?thesis using assms by (cases op) (auto intro: ar_truncate_inv)
next
  case (Some n)
  have "ar_slice_ok c ar (op_slice c op (ar_slice ar n))"
    using ar_slice_in [OF assms(1)] op_slice_ok [OF assms(2)] by (simp add: ar_slice_ok_def)
  then show ?thesis using ar_step_upd [OF Some] assms(1) ar_upd_inv by simp
qed

section \<open>Properties\<close>

text \<open>C19: truncation refines dropping a prefix of the window.  For a jump of any length, the region
  stays well formed, the slices that stay in the window are unchanged, and every slice that
  enters the window is a fresh one, with the region's thresholds.\<close>

theorem ar_truncate_refines:
  assumes "ar_inv c ar"
  shows "ar_inv c (ar_truncate c ar h) \<and> ar_head (ar_truncate c ar h) = max (ar_head ar) h \<and>
    (\<forall>n. ar_in_range c (ar_truncate c ar h) n \<longrightarrow>
       ar_slice (ar_truncate c ar h) n = (if ar_in_range c ar n then ar_slice ar n else ar_fresh c ar))"
  using assms by (simp add: ar_truncate_inv ar.get_advance)

lemma ar_truncate_refines_witness:
  "let ar = ar_init default_config 2 3
   in ar_slice (ar_truncate default_config ar 1000) 1005 = ar_fresh default_config ar \<and>
      ar_slice (ar_truncate default_config ar 5) 7 = ar_slice ar 7"
proof -
  let ?ar = "ar_init default_config 2 3"
  have "ar_inv default_config ?ar"
    using default_config_ok by (intro ar_init_inv) (simp_all add: INT32_MAX_def)
  note r = ar_truncate_refines [OF this]
  have "ar_in_range default_config ?ar n \<longleftrightarrow> 1 \<le> n \<and> n < 17" for n
    by (simp add: ar_in_range_def ar_init_def)
  moreover have "ar_in_range default_config (ar_truncate default_config ?ar h) n \<longleftrightarrow> max 1 h \<le> n \<and> n < max 1 h + 16" for h n
    by (simp add: ar_in_range_def) (simp add: ar_init_def)
  ultimately show ?thesis using r [of 1000] r [of 5] by (simp add: Let_def)
qed

text \<open>C18: sequence numbers do not interfere.  After any sequence of operations, truncations
  included, the slice of a live sequence number is the one that the operations addressed to it
  and the truncations alone would have produced.\<close>

theorem ar_noninterference:
  assumes "ar_inv c ar" "\<forall>op \<in> set ops. op_ok c op" "ar_in_range c (ar_run c ops ar) m"
  shows "ar_slice (ar_run c ops ar) m =
    ar_slice (ar_run c (filter (\<lambda>op. op_seqno op \<in> {None, Some m}) ops) ar) m"
proof -
  have "ar_inv c (ar_run c ops s) \<and> ar_inv c (ar_run c (filter (\<lambda>op. op_seqno op \<in> {None, Some m}) ops) t) \<and>
      ar_head (ar_run c ops s) = ar_head (ar_run c (filter (\<lambda>op. op_seqno op \<in> {None, Some m}) ops) t) \<and>
      (ar_in_range c (ar_run c ops s) m \<longrightarrow> ar_slice (ar_run c ops s) m =
        ar_slice (ar_run c (filter (\<lambda>op. op_seqno op \<in> {None, Some m}) ops) t) m)"
    if "ar_inv c s" "ar_inv c t" "ar_head s = ar_head t" "ar_fresh c s = ar_fresh c t"
      "ar_in_range c s m \<longrightarrow> ar_slice s m = ar_slice t m" for s t
    using assms(2) that
  proof (induction ops arbitrary: s t)
    case Nil
    then show ?case by (simp add: ar_run_def)
  next
    case (Cons op ops)
    have inv: "ar_inv c (ar_step c op s)" "ar_inv c (ar_step c op t)"
      using Cons.prems by (auto intro: ar_step_inv)
    have range: "ar_in_range c s n = ar_in_range c t n" for n
      using Cons.prems(4) by (simp add: ar_in_range_def)
    show ?case
    proof (cases "op_seqno op")
      case None
      then obtain h where op: "op = Truncate h" by (cases op) auto
      have range': "ar_in_range c (ar_truncate c s h) m = ar_in_range c (ar_truncate c t h) m"
        using Cons.prems(4) by (simp add: ar_in_range_def)
      have "ar_in_range c (ar_truncate c s h) m \<longrightarrow> ar_slice (ar_truncate c s h) m = ar_slice (ar_truncate c t h) m"
        using Cons.prems(2-6) range range' by (simp add: ar.get_advance)
      moreover have "ar_fresh c (ar_truncate c s h) = ar_fresh c (ar_truncate c t h)"
        using Cons.prems(5) by (simp add: ar_fresh_def)
      ultimately show ?thesis
        using Cons.IH [of "ar_truncate c s h" "ar_truncate c t h"] Cons.prems inv op by (simp add: ar_run_def)
    next
      case (Some n)
      show ?thesis
      proof (cases "n = m")
        case True
        have "ar_in_range c (ar_step c op s) m \<longrightarrow> ar_slice (ar_step c op s) m = ar_slice (ar_step c op t) m"
          using Cons.prems(2-6) range True by (simp add: ar_step_upd [OF Some] ar.get_upd)
        then show ?thesis
          using Cons.IH [of "ar_step c op s" "ar_step c op t"] Cons.prems inv Some True range
          by (simp add: ar_run_def ar_step_upd [OF Some])
      next
        case False
        have "ar_in_range c (ar_step c op s) m \<longrightarrow> ar_slice (ar_step c op s) m = ar_slice t m"
          using Cons.prems(2-6) range False by (simp add: ar_step_upd [OF Some] ar.get_upd)
        then show ?thesis
          using Cons.IH [of "ar_step c op s" t] Cons.prems inv Some False
          by (simp add: ar_run_def ar_step_upd [OF Some])
      qed
    qed
  qed
  from this [of ar ar] assms show ?thesis by simp
qed

lemma ar_noninterference_witness:
  "let c = default_config; ar = ar_init c 2 3; m = sample_commit tbft_digest_zero;
       ops = [Add_commit 3 m 72 1, Add_commit 4 m 72 2, Truncate 2, Add_commit 3 m 72 2]
   in ar_slice (ar_run c ops ar) 3 =
      ar_slice (ar_run c [Add_commit 3 m 72 1, Truncate 2, Add_commit 3 m 72 2] ar) 3"
proof -
  let ?ar = "ar_init default_config 2 3" and ?m = "sample_commit tbft_digest_zero"
  have inv: "ar_inv default_config ?ar"
    using default_config_ok by (intro ar_init_inv) (simp_all add: INT32_MAX_def)
  have len: "length ?m = 72" by (simp add: sample_commit_length tbft_digest_zero_def)
  let ?ops = "[Add_commit 3 ?m 72 1, Add_commit 4 ?m 72 2, Truncate 2, Add_commit 3 ?m 72 2]"
  have ok: "\<forall>op \<in> set ?ops. op_ok default_config op" by (simp add: len)
  have head: "ar_head (snd (ar_add_commit c ar n m l i)) = ar_head ar" for c ar n m l i
    by (simp add: ar_add_commit_def split: prod.split)
  have "ar_head (ar_run default_config ?ops ?ar) = 2"
    by (simp add: ar_run_def head) (simp add: ar_init_def)
  then have "ar_in_range default_config (ar_run default_config ?ops ?ar) 3" by (simp add: ar_in_range_def)
  from ar_noninterference [OF inv ok this] show ?thesis by (simp add: Let_def)
qed

text \<open>Assigning \<open>head\<close> without adjusting \<open>head_idx\<close>, as several handlers of the replica do after a
  truncation, rotates the window: a sequence number then reads the slice of another one.\<close>

lemma ar_set_head_slot:
  "ar_slot (ar\<lparr> ar_head := h \<rparr>) n = ar_slot ar (n + (ar_head ar - h))"
  by (simp add: ar_slot_def algebra_simps)

lemma ar_set_head_misaligned:
  assumes "ar_in_range c ar n" "ar_head ar \<noteq> h"
  shows "n - (ar_head ar - h) \<noteq> n"
    and "ar_load_pp c (ar\<lparr> ar_head := h \<rparr>) (n - (ar_head ar - h)) = ar_load_pp c ar n"
  using assms by (auto simp: ar_load_pp_def ar_in_range_def ar_slice_def ar_set_head_slot)

end
