(* ===== verification/Checkpoint_Region.thy ===== *)
theory Checkpoint_Region
  imports Quorum
begin

text \<open>
  The checkpoint region, \<open>src/tbft_checkpoint_region.h\<close> and \<open>tbft_checkpoint_region.c\<close>: slots of
  checkpoint messages indexed by \<open>(seqno / interval) % slots\<close>, and one above-window slot per
  replica.  The vote log of a slot is computed from its stored messages (\<open>slot_votes\<close>); the
  invariant \<open>slot_inv\<close> relates the candidate counters to it and \<open>quorum_cert\<close> is interpreted on
  it.  A negative sequence number would index out of the array in C; callers only pass numbers
  above \<open>last_stable\<close>, which is never negative.
\<close>

section \<open>State\<close>

record ckpt_slot =
  cs_seqno :: int
  cs_msgs :: "bytes list"
  cs_msg_lens :: "int list"
  cs_present :: "bool list"
  cs_n_candidates :: nat
  cs_cand_digests :: "digest list"
  cs_cand_counts :: "int list"
  cs_match_count :: int
  cs_winning_digest :: digest

record checkpoint_region =
  cr_slots :: "ckpt_slot list"
  cr_above_window :: "ckpt_slot list"
  cr_num_replicas :: int
  cr_threshold :: int

definition TBFT_CKPT_MSG_SIZE :: "config \<Rightarrow> nat" where
  "TBFT_CKPT_MSG_SIZE c = sz_checkpoint + TBFT_AUTH_SIZE c"

text \<open>\<open>memset(slot, 0, sizeof(*slot))\<close>\<close>

definition ckpt_slot_zero :: "config \<Rightarrow> ckpt_slot" where
  "ckpt_slot_zero c = \<lparr> cs_seqno = 0,
     cs_msgs = replicate (TBFT_MAX_NUM_REPLICAS c) (replicate (TBFT_CKPT_MSG_SIZE c) 0),
     cs_msg_lens = replicate (TBFT_MAX_NUM_REPLICAS c) 0,
     cs_present = replicate (TBFT_MAX_NUM_REPLICAS c) False,
     cs_n_candidates = 0,
     cs_cand_digests = replicate (TBFT_CERT_MAX_VALS c) tbft_digest_zero,
     cs_cand_counts = replicate (TBFT_CERT_MAX_VALS c) 0,
     cs_match_count = 0, cs_winning_digest = tbft_digest_zero \<rparr>"

section \<open>Operations\<close>

definition slot_index :: "config \<Rightarrow> int \<Rightarrow> nat" where
  "slot_index c seqno =
     nat ((seqno sdiv int (TBFT_CHECKPOINT_INTERVAL c)) smod int (TBFT_NUM_CKPT_SLOTS c))"

definition cr_init :: "config \<Rightarrow> int \<Rightarrow> int \<Rightarrow> checkpoint_region" where
  "cr_init c num_replicas threshold = \<lparr>
     cr_slots = replicate (TBFT_NUM_CKPT_SLOTS c) (ckpt_slot_zero c),
     cr_above_window = replicate (TBFT_MAX_NUM_REPLICAS c) (ckpt_slot_zero c),
     cr_num_replicas = num_replicas, cr_threshold = threshold \<rparr>"

text \<open>The parts of \<open>tbft_cr_store\<close>: claim the slot for the sequence number, keep the message,
  count its digest.\<close>

definition slot_claim :: "config \<Rightarrow> int \<Rightarrow> ckpt_slot \<Rightarrow> ckpt_slot" where
  "slot_claim c seqno slot =
     (if cs_seqno slot \<noteq> seqno then (ckpt_slot_zero c)\<lparr> cs_seqno := seqno \<rparr> else slot)"

definition slot_put_msg :: "nat \<Rightarrow> bytes \<Rightarrow> int \<Rightarrow> ckpt_slot \<Rightarrow> ckpt_slot" where
  "slot_put_msg i msg msg_len slot = slot\<lparr>
     cs_msgs := (cs_msgs slot)[i := put 0 (take (nat msg_len) msg) (cs_msgs slot ! i)],
     cs_msg_lens := (cs_msg_lens slot)[i := msg_len],
     cs_present := (cs_present slot)[i := True] \<rparr>"

definition slot_find :: "ckpt_slot \<Rightarrow> digest \<Rightarrow> nat option" where
  "slot_find slot d =
     List.find (\<lambda>i. tbft_digest_equal (cs_cand_digests slot ! i) d) [0 ..< cs_n_candidates slot]"

definition slot_count :: "ckpt_slot \<Rightarrow> nat \<Rightarrow> ckpt_slot" where
  "slot_count slot ci =
     (let n = cs_cand_counts slot ! ci + 1;
          slot = slot\<lparr> cs_cand_counts := (cs_cand_counts slot)[ci := n] \<rparr>
      in if cs_match_count slot < n
         then slot\<lparr> cs_match_count := n, cs_winning_digest := cs_cand_digests slot ! ci \<rparr>
         else slot)"

definition slot_new_cand :: "ckpt_slot \<Rightarrow> digest \<Rightarrow> ckpt_slot" where
  "slot_new_cand slot d = slot\<lparr>
     cs_n_candidates := cs_n_candidates slot + 1,
     cs_cand_digests := (cs_cand_digests slot)[cs_n_candidates slot := d],
     cs_cand_counts := (cs_cand_counts slot)[cs_n_candidates slot := 0] \<rparr>"

definition slot_vote :: "config \<Rightarrow> ckpt_slot \<Rightarrow> digest \<Rightarrow> bool \<times> ckpt_slot" where
  "slot_vote c slot d =
     (case slot_find slot d of
        Some ci \<Rightarrow> (True, slot_count slot ci)
      | None \<Rightarrow>
          if cs_n_candidates slot < TBFT_CERT_MAX_VALS c
          then (True, slot_count (slot_new_cand slot d) (cs_n_candidates slot))
          else (False, slot))"

definition slot_store :: "config \<Rightarrow> int \<Rightarrow> int \<Rightarrow> nat \<Rightarrow> bytes \<Rightarrow> int \<Rightarrow> ckpt_slot \<Rightarrow> bool \<times> ckpt_slot" where
  "slot_store c threshold seqno i msg msg_len slot =
     (let slot = slot_claim c seqno slot
      in if cs_present slot ! i then (False, slot)
         else let (counted, slot) = slot_vote c (slot_put_msg i msg msg_len slot) (ckpt_digest msg)
              in (counted \<and> threshold \<le> cs_match_count slot, slot))"

definition cr_store :: "config \<Rightarrow> checkpoint_region \<Rightarrow> int \<Rightarrow> int \<Rightarrow> bytes \<Rightarrow> int \<Rightarrow> bool \<times> checkpoint_region" where
  "cr_store c cr seqno replica_id msg msg_len =
     (if replica_id < 0 \<or> int (TBFT_MAX_NUM_REPLICAS c) \<le> replica_id then (False, cr)
      else if msg_len < int sz_checkpoint \<or> int (TBFT_CKPT_MSG_SIZE c) < msg_len then (False, cr)
      else let (st, slot) = slot_store c (cr_threshold cr) seqno (nat replica_id) msg msg_len
                                  (cr_slots cr ! slot_index c seqno)
           in (st, cr\<lparr> cr_slots := (cr_slots cr)[slot_index c seqno := slot] \<rparr>))"

definition cr_load :: "config \<Rightarrow> checkpoint_region \<Rightarrow> int \<Rightarrow> int \<Rightarrow> bytes option \<times> int" where
  "cr_load c cr seqno replica_id =
     (if replica_id < 0 \<or> int (TBFT_MAX_NUM_REPLICAS c) \<le> replica_id then (None, 0)
      else let slot = cr_slots cr ! slot_index c seqno
           in if cs_seqno slot \<noteq> seqno \<or> \<not> cs_present slot ! nat replica_id then (None, 0)
              else (Some (cs_msgs slot ! nat replica_id), cs_msg_lens slot ! nat replica_id))"

definition cr_count :: "config \<Rightarrow> checkpoint_region \<Rightarrow> int \<Rightarrow> int" where
  "cr_count c cr seqno =
     (let slot = cr_slots cr ! slot_index c seqno
      in if cs_seqno slot \<noteq> seqno then 0 else cs_match_count slot)"

definition cr_winning_digest :: "config \<Rightarrow> checkpoint_region \<Rightarrow> int \<Rightarrow> digest option" where
  "cr_winning_digest c cr seqno =
     (let slot = cr_slots cr ! slot_index c seqno
      in if cs_match_count slot < cr_threshold cr then None else Some (cs_winning_digest slot))"

definition cr_store_above_window :: "config \<Rightarrow> checkpoint_region \<Rightarrow> int \<Rightarrow> bytes \<Rightarrow> int \<Rightarrow> checkpoint_region" where
  "cr_store_above_window c cr replica_id msg msg_len =
     (if replica_id < 0 \<or> int (TBFT_MAX_NUM_REPLICAS c) \<le> replica_id then cr
      else if msg_len < int sz_checkpoint \<or> int (TBFT_CKPT_MSG_SIZE c) < msg_len then cr
      else let slot = cr_above_window cr ! nat replica_id
           in if cs_present slot ! 0 \<and> ckpt_seqno msg \<le> cs_seqno slot then cr
              else cr\<lparr> cr_above_window := (cr_above_window cr)[nat replica_id :=
                     (slot_put_msg 0 msg msg_len ((ckpt_slot_zero c)\<lparr> cs_seqno := ckpt_seqno msg \<rparr>))
                       \<lparr> cs_match_count := 1 \<rparr>] \<rparr>)"

definition cr_load_above_window :: "config \<Rightarrow> checkpoint_region \<Rightarrow> int \<Rightarrow> bytes option \<times> int" where
  "cr_load_above_window c cr replica_id =
     (if replica_id < 0 \<or> int (TBFT_MAX_NUM_REPLICAS c) \<le> replica_id then (None, 0)
      else let slot = cr_above_window cr ! nat replica_id
           in if \<not> cs_present slot ! 0 then (None, 0)
              else (Some (cs_msgs slot ! 0), cs_msg_lens slot ! 0))"

definition cr_truncate :: "config \<Rightarrow> checkpoint_region \<Rightarrow> int \<Rightarrow> checkpoint_region" where
  "cr_truncate c cr stable_seqno = cr\<lparr>
     cr_slots := map (\<lambda>slot. if cs_seqno slot \<le> stable_seqno then ckpt_slot_zero c else slot) (cr_slots cr),
     cr_above_window := map (\<lambda>slot. if cs_present slot ! 0 \<and> cs_seqno slot \<le> stable_seqno
                                  then ckpt_slot_zero c else slot) (cr_above_window cr) \<rparr>"

section \<open>Invariant and vote log of a slot\<close>

definition slot_votes :: "ckpt_slot \<Rightarrow> votes" where
  "slot_votes slot i =
     (if 0 \<le> i \<and> nat i < length (cs_present slot) \<and> cs_present slot ! nat i
      then Some (ckpt_digest (cs_msgs slot ! nat i)) else None)"

definition slot_inv :: "config \<Rightarrow> ckpt_slot \<Rightarrow> bool" where
  "slot_inv c slot \<longleftrightarrow>
     length (cs_msgs slot) = TBFT_MAX_NUM_REPLICAS c \<and>
     length (cs_msg_lens slot) = TBFT_MAX_NUM_REPLICAS c \<and>
     length (cs_present slot) = TBFT_MAX_NUM_REPLICAS c \<and>
     length (cs_cand_digests slot) = TBFT_CERT_MAX_VALS c \<and>
     length (cs_cand_counts slot) = TBFT_CERT_MAX_VALS c \<and>
     cs_n_candidates slot \<le> TBFT_CERT_MAX_VALS c \<and>
     (\<forall>m \<in> set (cs_msgs slot). length m = TBFT_CKPT_MSG_SIZE c) \<and>
     (\<forall>i < cs_n_candidates slot. length (cs_cand_digests slot ! i) = 32) \<and>
     (\<forall>i < cs_n_candidates slot. \<forall>j < cs_n_candidates slot.
        cs_cand_digests slot ! i = cs_cand_digests slot ! j \<longrightarrow> i = j)"

definition slot_counted :: "config \<Rightarrow> ckpt_slot \<Rightarrow> votes \<Rightarrow> bool" where
  "slot_counted c slot V \<longleftrightarrow>
     (\<forall>i < cs_n_candidates slot.
        cs_cand_counts slot ! i = int (card (voters V (cs_cand_digests slot ! i))) \<and>
        cs_cand_counts slot ! i \<le> cs_match_count slot) \<and>
     (\<forall>d \<in> ran V. (\<exists>i < cs_n_candidates slot. cs_cand_digests slot ! i = d) \<or>
        cs_n_candidates slot = TBFT_CERT_MAX_VALS c) \<and>
     0 \<le> cs_match_count slot \<and>
     (0 < cs_match_count slot \<longrightarrow>
        (\<exists>i < cs_n_candidates slot. cs_winning_digest slot = cs_cand_digests slot ! i \<and>
           cs_cand_counts slot ! i = cs_match_count slot))"

definition slot_cands :: "ckpt_slot \<Rightarrow> votes \<Rightarrow> bool" where
  "slot_cands slot V \<longleftrightarrow> (\<forall>i < cs_n_candidates slot. cs_cand_digests slot ! i \<in> ran V)"

definition slot_holds :: "config \<Rightarrow> ckpt_slot \<Rightarrow> votes \<Rightarrow> bool" where
  "slot_holds c slot V \<longleftrightarrow>
     slot_inv c slot \<and> V = slot_votes slot \<and> slot_counted c slot V \<and> slot_cands slot V"

definition cr_inv :: "config \<Rightarrow> checkpoint_region \<Rightarrow> bool" where
  "cr_inv c cr \<longleftrightarrow> cfg_ok c \<and> length (cr_slots cr) = TBFT_NUM_CKPT_SLOTS c \<and>
     length (cr_above_window cr) = TBFT_MAX_NUM_REPLICAS c \<and>
     (\<forall>slot \<in> set (cr_slots cr). slot_holds c slot (slot_votes slot)) \<and>
     (\<forall>slot \<in> set (cr_above_window cr). slot_inv c slot)"

lemma slot_zero_votes: "slot_votes (ckpt_slot_zero c) = Map.empty"
  by (rule ext) (simp add: slot_votes_def ckpt_slot_zero_def)

lemma slot_seqno_inv: "slot_inv c (slot\<lparr> cs_seqno := n \<rparr>) = slot_inv c slot"
  "slot_votes (slot\<lparr> cs_seqno := n \<rparr>) = slot_votes slot"
  "slot_counted c (slot\<lparr> cs_seqno := n \<rparr>) V = slot_counted c slot V"
  "slot_cands (slot\<lparr> cs_seqno := n \<rparr>) V = slot_cands slot V"
  by (simp_all add: slot_inv_def slot_votes_def slot_counted_def slot_cands_def fun_eq_iff)

lemma slot_zero_holds: "slot_holds c (ckpt_slot_zero c) Map.empty"
  unfolding slot_holds_def slot_zero_votes
  by (simp add: slot_inv_def slot_counted_def slot_cands_def ckpt_slot_zero_def)

lemma slot_claim_holds:
  "slot_holds c slot (slot_votes slot) \<Longrightarrow> slot_holds c (slot_claim c n slot) (slot_votes (slot_claim c n slot))"
  using slot_zero_holds [of c] by (simp add: slot_claim_def slot_holds_def slot_seqno_inv slot_zero_votes)

lemma slot_votes_finite: "finite (dom (slot_votes slot))"
  by (rule finite_subset [of _ "{0 ..< int (length (cs_present slot))}"])
    (auto simp: slot_votes_def split: if_splits)

lemma slot_find_Some:
  assumes "slot_inv c slot" "length d = 32" "slot_find slot d = Some i"
  shows "i < cs_n_candidates slot" "cs_cand_digests slot ! i = d"
  using assms by (auto simp: slot_find_def find_Some_iff slot_inv_def)

lemma slot_find_None:
  assumes "slot_inv c slot" "length d = 32" "slot_find slot d = None"
  shows "\<forall>i < cs_n_candidates slot. cs_cand_digests slot ! i \<noteq> d"
  using assms by (auto simp: slot_find_def find_None_iff slot_inv_def)

lemma slot_put_inv:
  assumes "slot_inv c slot" "i < TBFT_MAX_NUM_REPLICAS c" "nat l \<le> TBFT_CKPT_MSG_SIZE c" "nat l \<le> length m"
  shows "slot_inv c (slot_put_msg i m l slot)"
proof -
  have "length (put 0 (take (nat l) m) (cs_msgs slot ! i)) = TBFT_CKPT_MSG_SIZE c"
    using assms by (simp add: slot_inv_def)
  with assms(1) show ?thesis
    by (auto simp: slot_inv_def slot_put_msg_def dest!: set_update_subset_insert [THEN subsetD])
qed

lemma slot_put_votes:
  assumes "slot_inv c slot" "i < TBFT_MAX_NUM_REPLICAS c" "int sz_checkpoint \<le> l" "nat l \<le> length m"
  shows "slot_votes (slot_put_msg i m l slot) = (slot_votes slot)(int i \<mapsto> ckpt_digest m)"
proof
  fix j
  have "field 24 32 (put 0 (take (nat l) m) (cs_msgs slot ! i)) = field 24 32 m"
    using assms(3,4) by (intro field_put_prefix) auto
  then show "slot_votes (slot_put_msg i m l slot) j = ((slot_votes slot)(int i \<mapsto> ckpt_digest m)) j"
    using assms(1,2) by (auto simp: slot_votes_def slot_put_msg_def slot_inv_def ckpt_digest_def nth_list_update)
qed

section \<open>Storing a checkpoint message\<close>

lemma slot_put_counted: "slot_counted c (slot_put_msg i m l slot) V = slot_counted c slot V"
  "slot_cands (slot_put_msg i m l slot) V = slot_cands slot V"
  by (simp_all add: slot_counted_def slot_cands_def slot_put_msg_def)

lemma slot_vote_cands:
  assumes "slot_inv c slot" "slot_cands slot V" "V j = None"
  shows "slot_cands (snd (slot_vote c slot d)) (V(j \<mapsto> d))"
  using assms
  by (auto simp: slot_vote_def slot_cands_def slot_count_def slot_new_cand_def Let_def slot_inv_def
      ran_map_upd nth_list_update less_Suc_eq split: option.split)

lemma slot_vote_frame:
  "cs_msgs (snd (slot_vote c slot d)) = cs_msgs slot"
  "cs_msg_lens (snd (slot_vote c slot d)) = cs_msg_lens slot"
  "cs_present (snd (slot_vote c slot d)) = cs_present slot"
  "cs_seqno (snd (slot_vote c slot d)) = cs_seqno slot"
  "slot_votes (snd (slot_vote c slot d)) = slot_votes slot"
  by (auto simp: slot_vote_def slot_count_def slot_new_cand_def Let_def slot_votes_def fun_eq_iff split: option.split)

lemma slot_new_cand_inv:
  assumes "slot_inv c slot" "length d = 32" "\<forall>i < cs_n_candidates slot. cs_cand_digests slot ! i \<noteq> d"
    "cs_n_candidates slot < TBFT_CERT_MAX_VALS c"
  shows "slot_inv c (slot_new_cand slot d)"
  using assms by (auto simp: slot_inv_def slot_new_cand_def nth_list_update less_Suc_eq)

lemma slot_count_inv: "slot_inv c slot \<Longrightarrow> slot_inv c (slot_count slot ci)"
  by (simp add: slot_inv_def slot_count_def Let_def)

lemma slot_vote_inv:
  assumes "slot_inv c slot" "length d = 32"
  shows "slot_inv c (snd (slot_vote c slot d))"
  using assms slot_new_cand_inv [OF assms] slot_find_None [OF assms]
  by (auto simp: slot_vote_def slot_count_inv split: option.split)

lemma slot_count_counted:
  assumes inv: "slot_inv c slot" and ct: "slot_counted c slot V" and V: "V j = None" "finite (dom V)"
    and ci: "ci < cs_n_candidates slot" "cs_cand_digests slot ! ci = d"
  shows "slot_counted c (slot_count slot ci) (V(j \<mapsto> d))"
proof -
  let ?s = "slot_count slot ci"
  have len: "ci < length (cs_cand_counts slot)" using inv ci by (simp add: slot_inv_def)
  have n: "cs_n_candidates ?s = cs_n_candidates slot" "cs_cand_digests ?s = cs_cand_digests slot"
    by (simp_all add: slot_count_def Let_def)
  have cnt: "cs_cand_counts ?s ! i = (if i = ci then cs_cand_counts slot ! ci + 1 else cs_cand_counts slot ! i)"
    if "i < cs_n_candidates slot" for i
    using len by (simp add: slot_count_def Let_def)
  have mc: "cs_match_count ?s = max (cs_match_count slot) (cs_cand_counts slot ! ci + 1)"
    by (auto simp: slot_count_def Let_def)
  have inj: "cs_cand_digests slot ! i = d \<longleftrightarrow> i = ci" if "i < cs_n_candidates slot" for i
    using inv that ci by (auto simp: slot_inv_def)
  have fin: "finite (voters V e)" for e using V(2) voters_subset_dom finite_subset by blast
  have nin: "j \<notin> voters V e" for e using V(1) by (simp add: voters_def)
  have vot: "int (card (voters (V(j \<mapsto> d)) e)) = int (card (voters V e)) + (if d = e then 1 else 0)" for e
    using voters_update [of V j d e, OF V(1)] fin nin by simp
  have "cs_cand_counts ?s ! i = int (card (voters (V(j \<mapsto> d)) (cs_cand_digests ?s ! i))) \<and>
      cs_cand_counts ?s ! i \<le> cs_match_count ?s" if "i < cs_n_candidates ?s" for i
    using ct that inj [of i] cnt [of i] by (auto simp: slot_counted_def n vot mc)
  moreover have "\<forall>e \<in> ran (V(j \<mapsto> d)). (\<exists>i < cs_n_candidates ?s. cs_cand_digests ?s ! i = e) \<or>
      cs_n_candidates ?s = TBFT_CERT_MAX_VALS c"
    using ct ci V(1) by (auto simp: slot_counted_def n ran_map_upd)
  moreover have "0 < cs_match_count ?s \<longrightarrow> (\<exists>i < cs_n_candidates ?s. cs_winning_digest ?s = cs_cand_digests ?s ! i \<and>
      cs_cand_counts ?s ! i = cs_match_count ?s)"
  proof (cases "cs_match_count slot < cs_cand_counts slot ! ci + 1")
    case True
    then have "cs_winning_digest ?s = cs_cand_digests slot ! ci" by (simp add: slot_count_def Let_def)
    then show ?thesis using ci(1) cnt [of ci] True by (auto simp: n mc)
  next
    case False
    then have w: "cs_winning_digest ?s = cs_winning_digest slot" "cs_match_count ?s = cs_match_count slot"
      by (simp_all add: slot_count_def Let_def)
    show ?thesis
    proof
      assume "0 < cs_match_count ?s"
      with ct w obtain i where "i < cs_n_candidates slot" "cs_winning_digest slot = cs_cand_digests slot ! i"
        "cs_cand_counts slot ! i = cs_match_count slot" by (auto simp: slot_counted_def)
      moreover from this False have "i \<noteq> ci" by auto
      ultimately show "\<exists>i < cs_n_candidates ?s. cs_winning_digest ?s = cs_cand_digests ?s ! i \<and>
          cs_cand_counts ?s ! i = cs_match_count ?s"
        using w cnt [of i] by (auto simp: n)
    qed
  qed
  moreover have "0 \<le> cs_match_count ?s" using ct by (auto simp: slot_counted_def mc)
  ultimately show ?thesis unfolding slot_counted_def by blast
qed

lemma slot_new_cand_counted:
  assumes inv: "slot_inv c slot" and ct: "slot_counted c slot V"
    and room: "cs_n_candidates slot < TBFT_CERT_MAX_VALS c"
    and d: "\<forall>i < cs_n_candidates slot. cs_cand_digests slot ! i \<noteq> d"
  shows "slot_counted c (slot_new_cand slot d) V"
proof -
  have "d \<notin> ran V" using ct room d by (auto simp: slot_counted_def)
  then have vd: "voters V d = {}" by (auto simp: voters_def ran_def)
  have len: "length (cs_cand_digests slot) = TBFT_CERT_MAX_VALS c" "length (cs_cand_counts slot) = TBFT_CERT_MAX_VALS c"
    using inv by (auto simp: slot_inv_def)
  let ?s = "slot_new_cand slot d"
  have n: "cs_n_candidates ?s = Suc (cs_n_candidates slot)" "cs_match_count ?s = cs_match_count slot"
    "cs_winning_digest ?s = cs_winning_digest slot"
    by (simp_all add: slot_new_cand_def)
  have at: "cs_cand_digests ?s ! i = (if i = cs_n_candidates slot then d else cs_cand_digests slot ! i)"
    "cs_cand_counts ?s ! i = (if i = cs_n_candidates slot then 0 else cs_cand_counts slot ! i)" for i
    using room len by (auto simp: slot_new_cand_def)
  show ?thesis
    unfolding slot_counted_def n
  proof (intro conjI)
    show "\<forall>i < Suc (cs_n_candidates slot). cs_cand_counts ?s ! i = int (card (voters V (cs_cand_digests ?s ! i))) \<and>
        cs_cand_counts ?s ! i \<le> cs_match_count slot"
      using ct vd by (auto simp: slot_counted_def at less_Suc_eq)
    show "\<forall>e \<in> ran V. (\<exists>i < Suc (cs_n_candidates slot). cs_cand_digests ?s ! i = e) \<or>
        Suc (cs_n_candidates slot) = TBFT_CERT_MAX_VALS c"
    proof
      fix e assume "e \<in> ran V"
      with ct room obtain i where "i < cs_n_candidates slot" "cs_cand_digests slot ! i = e"
        by (auto simp: slot_counted_def)
      then show "(\<exists>i < Suc (cs_n_candidates slot). cs_cand_digests ?s ! i = e) \<or>
          Suc (cs_n_candidates slot) = TBFT_CERT_MAX_VALS c"
        by (intro disjI1 exI [of _ i]) (simp add: at)
    qed
    show "0 < cs_match_count slot \<longrightarrow> (\<exists>i < Suc (cs_n_candidates slot). cs_winning_digest slot = cs_cand_digests ?s ! i \<and>
        cs_cand_counts ?s ! i = cs_match_count slot)"
    proof
      assume "0 < cs_match_count slot"
      with ct obtain i where "i < cs_n_candidates slot" "cs_winning_digest slot = cs_cand_digests slot ! i"
        "cs_cand_counts slot ! i = cs_match_count slot" by (auto simp: slot_counted_def)
      then show "\<exists>i < Suc (cs_n_candidates slot). cs_winning_digest slot = cs_cand_digests ?s ! i \<and>
          cs_cand_counts ?s ! i = cs_match_count slot"
        by (intro exI [of _ i]) (simp add: at)
    qed
    show "0 \<le> cs_match_count slot" using ct by (simp add: slot_counted_def)
  qed
qed

lemma slot_vote_counted:
  assumes inv: "slot_inv c slot" and ct: "slot_counted c slot V" and V: "V j = None" "finite (dom V)"
    and d: "length d = 32"
  shows "slot_counted c (snd (slot_vote c slot d)) (V(j \<mapsto> d))"
proof (cases "slot_find slot d")
  case (Some ci)
  with slot_count_counted [OF inv ct V] slot_find_Some [OF inv d Some] show ?thesis
    by (simp add: slot_vote_def)
next
  case None
  note new = slot_find_None [OF inv d None]
  show ?thesis
  proof (cases "cs_n_candidates slot < TBFT_CERT_MAX_VALS c")
    case True
    have "cs_cand_digests (slot_new_cand slot d) ! cs_n_candidates slot = d"
      using inv True by (simp add: slot_new_cand_def slot_inv_def)
    then have "slot_counted c (slot_count (slot_new_cand slot d) (cs_n_candidates slot)) (V(j \<mapsto> d))"
      by (intro slot_count_counted [OF slot_new_cand_inv [OF inv d new True] slot_new_cand_counted [OF inv ct True new] V])
        (simp_all add: slot_new_cand_def)
    then show ?thesis using None True by (simp add: slot_vote_def)
  next
    case False
    have "voters (V(j \<mapsto> d)) e = voters V e" if "e \<noteq> d" for e
      using that V(1) by (auto simp: voters_def)
    then show ?thesis using ct None False new inv V(1)
      by (auto simp: slot_vote_def slot_counted_def slot_inv_def ran_map_upd)
  qed
qed

lemma slot_store_cases:
  assumes h: "slot_holds c slot (slot_votes slot)" and i: "i < TBFT_MAX_NUM_REPLICAS c"
    and l: "int sz_checkpoint \<le> l" "l \<le> int (TBFT_CKPT_MSG_SIZE c)" "nat l \<le> length m"
    and r: "slot_store c t n i m l slot = (st, slot')"
  shows "slot_holds c slot' (slot_votes slot') \<and> cs_seqno slot' = n \<and>
    slot_votes slot' = (let V = slot_votes (slot_claim c n slot)
                        in if V (int i) = None then V(int i \<mapsto> ckpt_digest m) else V)"
    and "st \<Longrightarrow> t \<le> cs_match_count slot'"
proof -
  let ?s = "slot_claim c n slot"
  have hs: "slot_holds c ?s (slot_votes ?s)" by (rule slot_claim_holds [OF h])
  then have inv: "slot_inv c ?s" by (simp add: slot_holds_def)
  have present: "cs_present ?s ! i \<longleftrightarrow> slot_votes ?s (int i) \<noteq> None"
    using inv i by (simp add: slot_votes_def slot_inv_def)
  have seq: "cs_seqno ?s = n" by (auto simp: slot_claim_def)
  show "slot_holds c slot' (slot_votes slot') \<and> cs_seqno slot' = n \<and>
    slot_votes slot' = (let V = slot_votes (slot_claim c n slot)
                        in if V (int i) = None then V(int i \<mapsto> ckpt_digest m) else V)"
  proof (cases "cs_present ?s ! i")
    case True
    with r have "slot' = ?s" by (simp add: slot_store_def Let_def)
    with hs True present seq show ?thesis by (auto simp: Let_def)
  next
    case False
    let ?p = "slot_put_msg i m l ?s"
    have slot': "slot' = snd (slot_vote c ?p (ckpt_digest m))"
      using r False by (auto simp: slot_store_def Let_def split: prod.splits)
    have pi: "slot_inv c ?p" using slot_put_inv [OF inv i _ l(3)] l(2) by simp
    have pv: "slot_votes ?p = (slot_votes ?s)(int i \<mapsto> ckpt_digest m)"
      using slot_put_votes [OF inv i l(1,3)] .
    have "slot_counted c ?p (slot_votes ?s)" "slot_cands ?p (slot_votes ?s)"
      using hs by (simp_all add: slot_holds_def slot_put_counted)
    from slot_vote_cands [OF pi this(2)] False present
    have "slot_cands slot' ((slot_votes ?s)(int i \<mapsto> ckpt_digest m))" by (simp add: slot')
    moreover from slot_vote_counted [OF pi \<open>slot_counted c ?p (slot_votes ?s)\<close> _ slot_votes_finite] False present
    have "slot_counted c slot' ((slot_votes ?s)(int i \<mapsto> ckpt_digest m))" by (simp add: slot')
    moreover have "slot_inv c slot'" using slot_vote_inv [OF pi] by (simp add: slot')
    moreover have "cs_seqno slot' = n" by (simp add: slot' slot_vote_frame slot_put_msg_def seq)
    ultimately show ?thesis
      using False present pv by (simp add: slot_holds_def slot' slot_vote_frame)
  qed
  show "t \<le> cs_match_count slot'" if st
    using r that by (auto simp: slot_store_def Let_def split: if_splits prod.splits)
qed

section \<open>Region operations keep the invariant\<close>

lemma slot_index_less:
  assumes "cfg_ok c" "0 \<le> n"
  shows "slot_index c n < TBFT_NUM_CKPT_SLOTS c"
    and "int (slot_index c n) = (n div int (TBFT_CHECKPOINT_INTERVAL c)) mod int (TBFT_NUM_CKPT_SLOTS c)"
proof -
  have pos: "0 < TBFT_CHECKPOINT_INTERVAL c" "0 < TBFT_NUM_CKPT_SLOTS c"
    using cfg_ok_simps(2) [OF assms(1)] by (auto simp: TBFT_NUM_CKPT_SLOTS_def)
  have eq: "slot_index c n = nat ((n div int (TBFT_CHECKPOINT_INTERVAL c)) mod int (TBFT_NUM_CKPT_SLOTS c))"
    using assms(2) pos
    by (simp add: slot_index_def signed_divide_int_def signed_modulo_int_def sgn_if minus_div_mult_eq_mod
        pos_imp_zdiv_nonneg_iff)
  then show "slot_index c n < TBFT_NUM_CKPT_SLOTS c" using pos by (simp add: nat_less_iff)
  show "int (slot_index c n) = (n div int (TBFT_CHECKPOINT_INTERVAL c)) mod int (TBFT_NUM_CKPT_SLOTS c)"
    using pos by (simp add: eq)
qed

lemma cr_init_inv [inv_intros]: "cfg_ok c \<Longrightarrow> cr_inv c (cr_init c n t)"
  using slot_zero_holds [of c] by (auto simp: cr_inv_def cr_init_def slot_zero_votes slot_holds_def)

lemma cr_store_inv [inv_intros]:
  assumes "cr_inv c cr" "0 \<le> n" "nat l \<le> length m"
  shows "cr_inv c (snd (cr_store c cr n i m l))"
proof (cases "i < 0 \<or> int (TBFT_MAX_NUM_REPLICAS c) \<le> i \<or> l < int sz_checkpoint \<or> int (TBFT_CKPT_MSG_SIZE c) < l")
  case True
  then show ?thesis using assms(1) by (auto simp: cr_store_def)
next
  case False
  have idx: "slot_index c n < length (cr_slots cr)"
    using assms slot_index_less(1) [of c n] by (simp add: cr_inv_def)
  let ?slot = "cr_slots cr ! slot_index c n"
  have h: "slot_holds c ?slot (slot_votes ?slot)" using assms(1) idx by (simp add: cr_inv_def)
  obtain st slot' where r: "slot_store c (cr_threshold cr) n (nat i) m l ?slot = (st, slot')"
    by (cases "slot_store c (cr_threshold cr) n (nat i) m l ?slot")
  have "slot_holds c slot' (slot_votes slot')"
    by (rule conjunct1 [OF slot_store_cases(1) [OF h _ _ _ assms(3) r]]) (use False in auto)
  then show ?thesis
    using assms(1) False r by (auto simp: cr_store_def cr_inv_def dest!: set_update_subset_insert [THEN subsetD])
qed

lemma cr_store_above_inv [inv_intros]:
  assumes "cr_inv c cr" "nat l \<le> length m"
  shows "cr_inv c (cr_store_above_window c cr i m l)"
proof -
  have pos: "0 < TBFT_MAX_NUM_REPLICAS c" using assms(1) cfg_ok_simps(4) by (force simp: cr_inv_def)
  have z: "slot_inv c ((ckpt_slot_zero c)\<lparr> cs_seqno := n \<rparr>)" for n
    using slot_zero_holds [of c] by (simp add: slot_seqno_inv slot_holds_def)
  have mc: "slot_inv c (s\<lparr> cs_match_count := k \<rparr>) = slot_inv c s" for s k by (simp add: slot_inv_def)
  show ?thesis
    using assms slot_put_inv [OF z pos _ assms(2)]
    by (auto simp: cr_store_above_window_def Let_def cr_inv_def mc dest!: set_update_subset_insert [THEN subsetD])
qed

lemma cr_truncate_inv [inv_intros]: "cr_inv c cr \<Longrightarrow> cr_inv c (cr_truncate c cr n)"
  using slot_zero_holds [of c] by (auto simp: cr_inv_def cr_truncate_def slot_zero_votes slot_holds_def)

text \<open>A slot with the threshold of its region, as a quorum certificate.\<close>

definition ckpt_holds :: "config \<Rightarrow> int \<times> ckpt_slot \<Rightarrow> votes \<Rightarrow> bool" where
  "ckpt_holds c s V \<longleftrightarrow> slot_holds c (snd s) V"

definition ckpt_winner :: "int \<times> ckpt_slot \<Rightarrow> digest option" where
  "ckpt_winner s =
     (if 0 < fst s \<and> fst s \<le> cs_match_count (snd s) then Some (cs_winning_digest (snd s)) else None)"

interpretation ckpt: quorum_cert "ckpt_holds c" ckpt_winner fst
proof
  fix s :: "int \<times> ckpt_slot" and V d
  obtain t slot where s: "s = (t, slot)" by (cases s)
  assume "ckpt_holds c s V"
  then have h: "slot_holds c slot V" by (simp add: ckpt_holds_def s)
  then show "finite (dom V)" using slot_votes_finite by (auto simp: slot_holds_def)
  assume "ckpt_winner s = Some d"
  then have w: "0 < t" "t \<le> cs_match_count slot" "cs_winning_digest slot = d"
    by (auto simp: s ckpt_winner_def split: if_splits)
  with h obtain i where "i < cs_n_candidates slot" "d = cs_cand_digests slot ! i"
    "cs_cand_counts slot ! i = cs_match_count slot"
    by (auto simp: slot_holds_def slot_counted_def)
  with h w show "fst s \<le> int (card (voters V d))"
    by (auto simp: s slot_holds_def slot_counted_def)
qed

section \<open>Operations as a sequence\<close>

datatype cr_op = Cr_store int int bytes int | Cr_above int bytes int | Cr_truncate int

fun cr_step :: "config \<Rightarrow> cr_op \<Rightarrow> checkpoint_region \<Rightarrow> checkpoint_region" where
  "cr_step c (Cr_store n i m l) cr = snd (cr_store c cr n i m l)"
| "cr_step c (Cr_above i m l) cr = cr_store_above_window c cr i m l"
| "cr_step c (Cr_truncate n) cr = cr_truncate c cr n"

definition cr_run :: "config \<Rightarrow> cr_op list \<Rightarrow> checkpoint_region \<Rightarrow> checkpoint_region" where
  "cr_run c ops cr = fold (cr_step c) ops cr"

fun cr_op_ok :: "cr_op \<Rightarrow> bool" where
  "cr_op_ok (Cr_store n i m l) \<longleftrightarrow> 0 \<le> n \<and> nat l \<le> length m"
| "cr_op_ok (Cr_above i m l) \<longleftrightarrow> nat l \<le> length m"
| "cr_op_ok (Cr_truncate n) \<longleftrightarrow> True"

lemma cr_step_inv [inv_intros]: "cr_inv c cr \<Longrightarrow> cr_op_ok op \<Longrightarrow> cr_inv c (cr_step c op cr)"
  by (cases op) (auto intro: cr_store_inv cr_store_above_inv cr_truncate_inv)

lemma cr_run_inv [inv_intros]:
  "cr_inv c cr \<Longrightarrow> \<forall>op \<in> set ops. cr_op_ok op \<Longrightarrow> cr_inv c (cr_run c ops cr)"
  unfolding cr_run_def by (induction ops arbitrary: cr) (auto intro: cr_step_inv)

lemma cr_threshold_init [simp]: "cr_threshold (cr_init c n t) = t"
  by (simp add: cr_init_def)

lemma cr_threshold_run [simp]: "cr_threshold (cr_run c ops cr) = cr_threshold cr"
proof -
  have "cr_threshold (cr_step c op cr) = cr_threshold cr" for op cr
    by (cases op) (auto simp: cr_store_def cr_store_above_window_def cr_truncate_def Let_def split: prod.split)
  then show ?thesis unfolding cr_run_def by (induction ops arbitrary: cr) auto
qed

text \<open>Where the stored messages come from.\<close>

definition slot_from :: "cr_op list \<Rightarrow> ckpt_slot \<Rightarrow> bool" where
  "slot_from ops slot \<longleftrightarrow>
     (\<forall>i < length (cs_present slot). cs_present slot ! i \<longrightarrow>
        (\<exists>m l. Cr_store (cs_seqno slot) (int i) m l \<in> set ops \<and> cs_msg_lens slot ! i = l \<and>
           field 0 (nat l) (cs_msgs slot ! i) = field 0 (nat l) m \<and> int sz_checkpoint \<le> l))"

lemma slot_zero_from: "slot_from ops (ckpt_slot_zero c)" "slot_from ops ((ckpt_slot_zero c)\<lparr> cs_seqno := n \<rparr>)"
  by (simp_all add: slot_from_def ckpt_slot_zero_def)

lemma slot_from_mono: "slot_from ops slot \<Longrightarrow> set ops \<subseteq> set ops' \<Longrightarrow> slot_from ops' slot"
  unfolding slot_from_def by (meson subsetD)

lemma slot_vote_from: "slot_from ops (snd (slot_vote c slot d)) = slot_from ops slot"
  by (simp add: slot_from_def slot_vote_frame)

lemma slot_store_from:
  assumes "slot_from ops slot" "slot_inv c slot" "i < TBFT_MAX_NUM_REPLICAS c"
    "int sz_checkpoint \<le> l" "nat l \<le> length m" "Cr_store n (int i) m l \<in> set ops"
  shows "slot_from ops (snd (slot_store c t n i m l slot))"
proof -
  let ?s = "slot_claim c n slot"
  have s: "slot_from ops ?s" "cs_seqno ?s = n" "slot_inv c ?s"
    using assms(1,2) slot_zero_from slot_zero_holds [of c]
    by (auto simp: slot_claim_def slot_holds_def slot_seqno_inv)
  have "slot_from ops (slot_put_msg i m l ?s)"
    using s assms(3-6) field_put_prefix [of 0 "nat l" "nat l" m]
    by (auto simp: slot_from_def slot_put_msg_def slot_inv_def nth_list_update)
  with s(1) show ?thesis
    by (auto simp: slot_store_def Let_def slot_vote_from [of ops c "slot_put_msg i m l ?s" "ckpt_digest m", symmetric]
        split: prod.split)
qed

lemma cr_run_from:
  assumes "cr_inv c cr" "\<forall>op \<in> set ops. cr_op_ok op" "\<forall>slot \<in> set (cr_slots cr). slot_from old slot"
  shows "\<forall>slot \<in> set (cr_slots (cr_run c ops cr)). slot_from (old @ ops) slot"
  using assms
proof (induction ops arbitrary: cr old)
  case Nil
  then show ?case by (simp add: cr_run_def)
next
  case (Cons op ops)
  have mono: "\<forall>slot \<in> set (cr_slots cr). slot_from (old @ [op]) slot"
    using Cons.prems(3) slot_from_mono [of old _ "old @ [op]"] by auto
  have "\<forall>slot \<in> set (cr_slots (cr_step c op cr)). slot_from (old @ [op]) slot"
  proof (cases op)
    case (Cr_store n i m l)
    show ?thesis
    proof (cases "i < 0 \<or> int (TBFT_MAX_NUM_REPLICAS c) \<le> i \<or> l < int sz_checkpoint \<or> int (TBFT_CKPT_MSG_SIZE c) < l")
      case True
      with mono Cr_store show ?thesis by (auto simp: cr_store_def)
    next
      case False
      have idx: "slot_index c n < length (cr_slots cr)"
        using Cons.prems(1,2) Cr_store slot_index_less(1) [of c n] by (simp add: cr_inv_def)
      let ?slot = "cr_slots cr ! slot_index c n"
      have "slot_inv c ?slot" using Cons.prems(1) idx by (simp add: cr_inv_def slot_holds_def)
      moreover have "slot_from (old @ [op]) ?slot" using mono idx by simp
      ultimately have "slot_from (old @ [op]) (snd (slot_store c (cr_threshold cr) n (nat i) m l ?slot))"
        using False Cons.prems(2) Cr_store by (intro slot_store_from) auto
      with mono False Cr_store show ?thesis
        by (auto simp: cr_store_def dest!: set_update_subset_insert [THEN subsetD] split: prod.splits)
    qed
  next
    case (Cr_above i m l)
    with mono show ?thesis by (auto simp: cr_store_above_window_def Let_def)
  next
    case (Cr_truncate n)
    with mono show ?thesis by (auto simp: cr_truncate_def slot_zero_from)
  qed
  from Cons.IH [OF cr_step_inv [OF Cons.prems(1)] _ this] Cons.prems(2) show ?case by (simp add: cr_run_def)
qed

lemma cr_load_slot:
  assumes "cr_inv c cr" "0 \<le> n"
  shows "cr_load c cr n i = (let slot = cr_slots cr ! slot_index c n; j = nat i in
    if 0 \<le> i \<and> j < TBFT_MAX_NUM_REPLICAS c \<and> cs_seqno slot = n \<and> cs_present slot ! j
    then (Some (cs_msgs slot ! j), cs_msg_lens slot ! j) else (None, 0))"
  by (auto simp: cr_load_def Let_def)

section \<open>Counting the honest digest\<close>

lemma slot_candidate:
  assumes h: "slot_holds c slot V" and d: "d \<in> ran V"
    and faulty: "finite F" "card F \<le> TBFT_MAX_FAULTY c" "\<forall>i. i \<notin> F \<longrightarrow> V i \<in> {None, Some d}"
  obtains i where "i < cs_n_candidates slot" "cs_cand_digests slot ! i = d"
proof (rule ccontr)
  assume "\<not> thesis"
  with that have no: "\<forall>i < cs_n_candidates slot. cs_cand_digests slot ! i \<noteq> d" by blast
  with h d have n: "cs_n_candidates slot = TBFT_CERT_MAX_VALS c" by (auto simp: slot_holds_def slot_counted_def)
  let ?C = "(\<lambda>i. cs_cand_digests slot ! i) ` {..< cs_n_candidates slot}"
  have "inj_on (\<lambda>i. cs_cand_digests slot ! i) {..< cs_n_candidates slot}"
    using h by (auto simp: slot_holds_def slot_inv_def inj_on_def)
  then have "card ?C = TBFT_CERT_MAX_VALS c" by (simp add: card_image n)
  moreover have "?C \<subseteq> (\<lambda>i. the (V i)) ` F"
  proof
    fix e assume "e \<in> ?C"
    with h no have "e \<in> ran V" "e \<noteq> d" by (auto simp: slot_holds_def slot_cands_def)
    then obtain i where "V i = Some e" by (auto simp: ran_def)
    moreover from this have "i \<in> F" using faulty(3) \<open>e \<noteq> d\<close> by force
    ultimately show "e \<in> (\<lambda>i. the (V i)) ` F" by force
  qed
  then have "card ?C \<le> card F"
    using faulty(1) by (meson card_image_le card_mono finite_imageI le_trans)
  ultimately show False using faulty(2) by (simp add: TBFT_CERT_MAX_VALS_def)
qed

lemma slot_quorum_counted:
  assumes h: "slot_holds c slot V" and t: "0 < t" "t \<le> int (card (voters V d))" "int (card F) < t"
    and faulty: "finite F" "card F \<le> TBFT_MAX_FAULTY c" "\<forall>i. i \<notin> F \<longrightarrow> V i \<in> {None, Some d}"
  shows "t \<le> cs_match_count slot \<and> cs_winning_digest slot = d"
proof -
  have "voters V d \<noteq> {}" using t by force
  then have "d \<in> ran V" by (auto simp: voters_def ran_def)
  from slot_candidate [OF h this faulty] obtain i where i: "i < cs_n_candidates slot" "cs_cand_digests slot ! i = d" .
  with h t have mc: "t \<le> cs_match_count slot" by (auto simp: slot_holds_def slot_counted_def)
  with h t obtain j where j: "cs_winning_digest slot = cs_cand_digests slot ! j"
    "int (card (voters V (cs_cand_digests slot ! j))) = cs_match_count slot"
    by (auto simp: slot_holds_def slot_counted_def)
  have "cs_cand_digests slot ! j = d"
  proof (rule ccontr)
    assume "cs_cand_digests slot ! j \<noteq> d"
    then have "voters V (cs_cand_digests slot ! j) \<subseteq> F" using faulty(3) by (force simp: voters_def)
    then have "card (voters V (cs_cand_digests slot ! j)) \<le> card F" using faulty(1) by (simp add: card_mono)
    with j(2) mc t(3) show False by linarith
  qed
  with mc j show ?thesis by simp
qed

text \<open>The votes of a region for a sequence number, the abstraction of the region.\<close>

definition cr_votes :: "config \<Rightarrow> checkpoint_region \<Rightarrow> int \<Rightarrow> votes" where
  "cr_votes c cr n =
     (let slot = cr_slots cr ! slot_index c n in if cs_seqno slot = n then slot_votes slot else Map.empty)"

lemma cr_slot_holds:
  assumes "cr_inv c cr" "0 \<le> n"
  shows "slot_index c n < length (cr_slots cr)"
    "slot_holds c (cr_slots cr ! slot_index c n) (slot_votes (cr_slots cr ! slot_index c n))"
  using assms slot_index_less(1) [OF _ assms(2)] by (simp_all add: cr_inv_def)

lemma cr_votes_load:
  assumes "cr_inv c cr" "0 \<le> n"
  shows "cr_votes c cr n i = map_option ckpt_digest (fst (cr_load c cr n i))"
  using cr_slot_holds(2) [OF assms]
  by (simp add: cr_load_slot [OF assms] cr_votes_def slot_votes_def Let_def slot_inv_def slot_holds_def)

lemma cr_votes_store:
  assumes inv: "cr_inv c cr" and n: "0 \<le> n" and i: "0 \<le> i" "i < int (TBFT_MAX_NUM_REPLICAS c)"
    and l: "int sz_checkpoint \<le> l" "l \<le> int (TBFT_CKPT_MSG_SIZE c)" "nat l \<le> length m"
  shows "cr_votes c (snd (cr_store c cr n i m l)) n =
    (if cr_votes c cr n i = None then (cr_votes c cr n)(i \<mapsto> ckpt_digest m) else cr_votes c cr n)"
proof -
  note h = cr_slot_holds [OF inv n]
  let ?slot = "cr_slots cr ! slot_index c n"
  obtain st slot' where r: "slot_store c (cr_threshold cr) n (nat i) m l ?slot = (st, slot')"
    by (cases "slot_store c (cr_threshold cr) n (nat i) m l ?slot")
  from i obtain k where k: "i = int k" "k < TBFT_MAX_NUM_REPLICAS c"
    by (metis nonneg_int_cases of_nat_less_iff)
  from slot_store_cases(1) [OF h(2) k(2) l r [unfolded k(1) nat_int]]
  have "cs_seqno slot' = n" "slot_votes slot' = (let V = slot_votes (slot_claim c n ?slot)
      in if V i = None then V(i \<mapsto> ckpt_digest m) else V)" by (simp_all add: k(1) Let_def)
  moreover have "slot_votes (slot_claim c n ?slot) = cr_votes c cr n"
    by (simp add: slot_claim_def cr_votes_def Let_def slot_seqno_inv slot_zero_votes)
  moreover have "cr_slots (snd (cr_store c cr n i m l)) ! slot_index c n = slot'"
    using i l h(1) r by (simp add: cr_store_def)
  ultimately show ?thesis by (simp add: cr_votes_def [of c "snd (cr_store c cr n i m l)"] Let_def)
qed

lemma cr_votes_truncate:
  assumes "cr_inv c cr" "0 \<le> n"
  shows "cr_votes c (cr_truncate c cr s) n = (if n \<le> s then Map.empty else cr_votes c cr n)"
  using cr_slot_holds(1) [OF assms] assms(2)
  by (auto simp: cr_votes_def cr_truncate_def Let_def slot_zero_votes)

lemma cr_count_votes:
  assumes inv: "cr_inv c cr" and n: "0 \<le> n" and t: "0 < t" "t \<le> cr_count c cr n"
  shows "t \<le> int (card (voters (cr_votes c cr n) (cs_winning_digest (cr_slots cr ! slot_index c n))))"
    "cs_seqno (cr_slots cr ! slot_index c n) = n"
proof -
  let ?slot = "cr_slots cr ! slot_index c n"
  show seq: "cs_seqno ?slot = n" using t by (simp add: cr_count_def Let_def split: if_splits)
  with t have "ckpt_winner (t, ?slot) = Some (cs_winning_digest ?slot)" by (simp add: ckpt_winner_def cr_count_def Let_def)
  with ckpt.winner_quorum [of c "(t, ?slot)" "slot_votes ?slot"] cr_slot_holds(2) [OF inv n] seq
  show "t \<le> int (card (voters (cr_votes c cr n) (cs_winning_digest ?slot)))"
    by (simp add: ckpt_holds_def cr_votes_def Let_def)
qed

lemma cr_quorum_counted:
  assumes inv: "cr_inv c cr" and n: "0 \<le> n"
    and t: "0 < cr_threshold cr" "cr_threshold cr \<le> int (card (voters (cr_votes c cr n) d))" "int (card F) < cr_threshold cr"
    and faulty: "finite F" "card F \<le> TBFT_MAX_FAULTY c" "\<forall>i. i \<notin> F \<longrightarrow> cr_votes c cr n i \<in> {None, Some d}"
  shows "cr_threshold cr \<le> cr_count c cr n \<and> cr_winning_digest c cr n = Some d"
proof -
  let ?slot = "cr_slots cr ! slot_index c n"
  have seq: "cs_seqno ?slot = n" using t by (auto simp: cr_votes_def Let_def voters_def split: if_splits)
  then have V: "cr_votes c cr n = slot_votes ?slot" by (simp add: cr_votes_def Let_def)
  from slot_quorum_counted [OF cr_slot_holds(2) [OF inv n] t(1) _ t(3) faulty(1,2), of d] t(2) faulty(3) V seq
  show ?thesis by (simp add: cr_count_def cr_winning_digest_def Let_def)
qed

lemma cr_load_prov:
  assumes c: "cfg_ok c" and ops: "\<forall>op \<in> set ops. cr_op_ok op" and n: "0 \<le> n"
    and cr: "cr = cr_run c ops (cr_init c k t)" and r: "cr_load c cr n i = (Some m, l)"
  shows "\<exists>msg. Cr_store n i msg l \<in> set ops \<and> ckpt_digest m = ckpt_digest msg"
proof -
  have inv: "cr_inv c cr" using cr_init_inv [OF c] ops by (simp add: cr cr_run_inv)
  let ?slot = "cr_slots cr ! slot_index c n"
  have "\<forall>slot \<in> set (cr_slots (cr_init c k t)). slot_from [] slot"
    by (auto simp: cr_init_def slot_zero_from)
  from cr_run_from [OF cr_init_inv [OF c] ops this] cr_slot_holds(1) [OF inv n]
  have prov: "slot_from ops ?slot" by (simp add: cr)
  have i: "0 \<le> i" "nat i < length (cs_present ?slot)" "cs_present ?slot ! nat i"
    "m = cs_msgs ?slot ! nat i" "l = cs_msg_lens ?slot ! nat i" "cs_seqno ?slot = n"
    using r cr_slot_holds(2) [OF inv n]
    by (auto simp: cr_load_slot [OF inv n] Let_def slot_holds_def slot_inv_def split: if_splits)
  with prov obtain msg where msg: "Cr_store n i msg l \<in> set ops" "int sz_checkpoint \<le> l"
    "field 0 (nat l) m = field 0 (nat l) msg" by (auto simp: slot_from_def)
  have "byte_at m j = byte_at msg j" if "j < nat l" for j
    using arg_cong [OF msg(3), of "\<lambda>xs. xs ! j"] that by (simp add: field_nth)
  with msg(2) have "ckpt_digest m = ckpt_digest msg" by (simp add: ckpt_digest_def field_def)
  with msg(1) show ?thesis by blast
qed

section \<open>Properties\<close>

text \<open>C16: a stable checkpoint is proved by messages that were received.  After any sequence of
  stores, above-window stores and truncations, if the count for \<open>n\<close> reaches the threshold, then
  the region announces a digest, at least that many replicas have a stored message for \<open>n\<close> with
  that digest, and each of them was stored for the number \<open>n\<close> from that replica: a vote for
  another checkpoint that shared the slot is never counted.\<close>

theorem stable_checkpoint_proof:
  fixes t :: int
  assumes c: "cfg_ok c" and ops: "\<forall>op \<in> set ops. cr_op_ok op" and n: "0 \<le> n" and t: "0 < t"
    and cr: "cr = cr_run c ops (cr_init c k t)" and count: "t \<le> cr_count c cr n"
  shows "\<exists>d. cr_winning_digest c cr n = Some d \<and>
    t \<le> int (card {i. \<exists>m. fst (cr_load c cr n i) = Some m \<and> ckpt_digest m = d}) \<and>
    (\<forall>i m l. cr_load c cr n i = (Some m, l) \<longrightarrow>
       (\<exists>msg. Cr_store n i msg l \<in> set ops \<and> ckpt_digest m = ckpt_digest msg))"
proof -
  have inv: "cr_inv c cr" using cr_init_inv [OF c] ops by (simp add: cr cr_run_inv)
  have thr: "cr_threshold cr = t" by (simp add: cr cr_init_def)
  let ?slot = "cr_slots cr ! slot_index c n"
  let ?d = "cs_winning_digest ?slot"
  note w = cr_count_votes [OF inv n t count]
  have "cr_winning_digest c cr n = Some ?d"
    using count w(2) thr by (simp add: cr_winning_digest_def cr_count_def Let_def)
  moreover have "voters (cr_votes c cr n) ?d = {i. \<exists>m. fst (cr_load c cr n i) = Some m \<and> ckpt_digest m = ?d}"
    by (auto simp: voters_def cr_votes_load [OF inv n])
  moreover have "\<exists>msg. Cr_store n i msg l \<in> set ops \<and> ckpt_digest m = ckpt_digest msg"
    if "cr_load c cr n i = (Some m, l)" for i m l
    using cr_load_prov [OF c ops n cr that] .
  ultimately show ?thesis using w(1) by auto
qed

definition sample_checkpoint :: "int \<Rightarrow> digest \<Rightarrow> bytes" where
  "sample_checkpoint n d = put 24 d (wr_i64 16 n (wr_i16 0 (tag_val TBFT_MSG_CHECKPOINT) (replicate 64 0)))"

lemma sample_checkpoint_facts:
  "length d = 32 \<Longrightarrow> length (sample_checkpoint n d) = 64"
  "length d = 32 \<Longrightarrow> ckpt_digest (sample_checkpoint n d) = d"
  by (simp_all add: sample_checkpoint_def ckpt_digest_def wire_simps)

text \<open>Three replicas' checkpoints, for the witnesses.\<close>

definition sample_ckpt_ops :: "cr_op list" where
  "sample_ckpt_ops = map (\<lambda>i. Cr_store 8 i (sample_checkpoint 8 tbft_digest_zero) 64) [0, 1, 2]"

lemma length_digest_zero: "length tbft_digest_zero = 32"
  by (simp add: tbft_digest_zero_def)

lemma sample_ckpt_run:
  assumes "cfg_ok c"
  shows "cr_inv c (cr_run c sample_ckpt_ops (cr_init c 4 3))"
    "cr_votes c (cr_run c sample_ckpt_ops (cr_init c 4 3)) 8 =
       [0 \<mapsto> tbft_digest_zero, 1 \<mapsto> tbft_digest_zero, 2 \<mapsto> tbft_digest_zero]"
    "\<forall>op \<in> set sample_ckpt_ops. cr_op_ok op"
proof -
  let ?m = "sample_checkpoint 8 tbft_digest_zero"
  have m: "length ?m = 64" "ckpt_digest ?m = tbft_digest_zero"
    by (simp_all add: sample_checkpoint_facts length_digest_zero)
  show ok: "\<forall>op \<in> set sample_ckpt_ops. cr_op_ok op" by (simp add: sample_ckpt_ops_def m)
  show "cr_inv c (cr_run c sample_ckpt_ops (cr_init c 4 3))" by (intro cr_run_inv cr_init_inv assms ok)
  define store where "store i cr = snd (cr_store c cr 8 i ?m 64)" for i cr
  define s0 where "s0 = cr_init c 4 3"
  have n: "4 \<le> TBFT_MAX_NUM_REPLICAS c" using cfg_ok_simps(4) [OF assms] .
  have inv: "cr_inv c cr \<Longrightarrow> cr_inv c (store i cr)" for i cr
    using m by (auto simp: store_def intro: cr_store_inv)
  have votes: "cr_inv c cr \<Longrightarrow> 0 \<le> i \<Longrightarrow> i < 4 \<Longrightarrow> cr_votes c (store i cr) 8 =
      (if cr_votes c cr 8 i = None then (cr_votes c cr 8)(i \<mapsto> tbft_digest_zero) else cr_votes c cr 8)" for i cr
    using cr_votes_store [of c cr 8 i 64 ?m] n m by (simp add: store_def TBFT_CKPT_MSG_SIZE_def)
  have i0: "cr_inv c s0" using cr_init_inv [OF assms] by (simp add: s0_def)
  have "slot_index c 8 < TBFT_NUM_CKPT_SLOTS c" using slot_index_less(1) [OF assms] by simp
  then have v0: "cr_votes c s0 8 = Map.empty"
    by (simp add: cr_votes_def s0_def cr_init_def ckpt_slot_zero_def)
  have "cr_run c sample_ckpt_ops s0 = store 2 (store 1 (store 0 s0))"
    by (simp add: cr_run_def sample_ckpt_ops_def store_def)
  then show "cr_votes c (cr_run c sample_ckpt_ops (cr_init c 4 3)) 8 =
      [0 \<mapsto> tbft_digest_zero, 1 \<mapsto> tbft_digest_zero, 2 \<mapsto> tbft_digest_zero]"
    by (simp add: s0_def [symmetric] votes inv i0 v0)
qed

lemma sample_ckpt_counted:
  "voters (cr_votes default_config (cr_run default_config sample_ckpt_ops (cr_init default_config 4 3)) 8)
     tbft_digest_zero = {0, 1, 2}"
  "3 \<le> cr_count default_config (cr_run default_config sample_ckpt_ops (cr_init default_config 4 3)) 8"
proof -
  let ?c = default_config and ?cr = "cr_run default_config sample_ckpt_ops (cr_init default_config 4 3)"
  note s = sample_ckpt_run [OF default_config_ok]
  show v: "voters (cr_votes ?c ?cr 8) tbft_digest_zero = {0, 1, 2}" by (auto simp: s(2) voters_def)
  have thr: "cr_threshold ?cr = 3" by simp
  have "\<forall>i. i \<notin> {} \<longrightarrow> cr_votes ?c ?cr 8 i \<in> {None, Some tbft_digest_zero}" by (simp add: s(2))
  from cr_quorum_counted [OF s(1) _ _ _ _ _ _ this, unfolded thr v] show "3 \<le> cr_count ?c ?cr 8" by simp
qed

lemma stable_checkpoint_proof_witness:
  "\<exists>d. cr_winning_digest default_config (cr_run default_config sample_ckpt_ops (cr_init default_config 4 3)) 8 = Some d \<and>
     3 \<le> int (card {i. \<exists>m. fst (cr_load default_config
       (cr_run default_config sample_ckpt_ops (cr_init default_config 4 3)) 8 i) = Some m \<and> ckpt_digest m = d})"
proof -
  let ?c = default_config and ?cr = "cr_run default_config sample_ckpt_ops (cr_init default_config 4 3)"
  note s = sample_ckpt_run [OF default_config_ok]
  from stable_checkpoint_proof [OF default_config_ok s(3) _ _ refl sample_ckpt_counted(2)] show ?thesis by auto
qed

text \<open>C17: checkpoints become stable whatever the faulty replicas send.  If the stored messages for
  \<open>n\<close> of all replicas outside a set of at most \<open>TBFT_MAX_FAULTY\<close> carry the digest \<open>d\<close>, and
  threshold many messages carry it, the count reaches the threshold and \<open>d\<close> is the digest
  announced: the \<open>f + 1\<close> candidates never leave out \<open>d\<close>.\<close>

theorem stable_checkpoint_reached:
  assumes inv: "cr_inv c cr" and n: "0 \<le> n"
    and quorum: "cr_threshold cr \<le> int (card {i. \<exists>m. fst (cr_load c cr n i) = Some m \<and> ckpt_digest m = d})"
    and faulty: "finite F" "card F \<le> TBFT_MAX_FAULTY c" "int (card F) < cr_threshold cr"
    and honest: "\<And>i m. i \<notin> F \<Longrightarrow> fst (cr_load c cr n i) = Some m \<Longrightarrow> ckpt_digest m = d"
  shows "cr_threshold cr \<le> cr_count c cr n \<and> cr_winning_digest c cr n = Some d"
proof -
  have "voters (cr_votes c cr n) d = {i. \<exists>m. fst (cr_load c cr n i) = Some m \<and> ckpt_digest m = d}"
    by (auto simp: voters_def cr_votes_load [OF inv n])
  moreover have "\<forall>i. i \<notin> F \<longrightarrow> cr_votes c cr n i \<in> {None, Some d}"
    using honest by (auto simp: cr_votes_load [OF inv n])
  ultimately show ?thesis using faulty(3) quorum by (intro cr_quorum_counted [OF inv n _ _ _ faulty(1,2)]) auto
qed

lemma stable_checkpoint_reached_witness:
  "cr_winning_digest default_config (cr_run default_config sample_ckpt_ops (cr_init default_config 4 3)) 8
   = Some tbft_digest_zero"
proof -
  let ?c = default_config and ?cr = "cr_run default_config sample_ckpt_ops (cr_init default_config 4 3)"
  note s = sample_ckpt_run [OF default_config_ok]
  have thr: "cr_threshold ?cr = 3" by simp
  have "{i. \<exists>m. fst (cr_load ?c ?cr 8 i) = Some m \<and> ckpt_digest m = tbft_digest_zero} =
      voters (cr_votes ?c ?cr 8) tbft_digest_zero"
    using cr_votes_load [OF s(1), of 8] by (auto simp: voters_def)
  also have "\<dots> = {0, 1, 2}" by (rule sample_ckpt_counted)
  finally have q: "cr_threshold ?cr \<le>
      int (card {i. \<exists>m. fst (cr_load ?c ?cr 8 i) = Some m \<and> ckpt_digest m = tbft_digest_zero})" by (simp add: thr)
  have hon: "ckpt_digest m = tbft_digest_zero" if "fst (cr_load ?c ?cr 8 i) = Some m" for i m
    using cr_votes_load [OF s(1), of 8 i] that by (auto simp: s(2) split: if_splits)
  from stable_checkpoint_reached [OF s(1) _ q, of "{}"] hon show ?thesis by (auto simp: thr)
qed



text \<open>\<open>tbft_cr_winning_digest\<close> does not compare the slot's sequence number: it announces the digest
  of the checkpoint that occupies the slot for every number that shares the slot.\<close>

lemma winning_digest_aliases:
  "slot_index c n = slot_index c m \<Longrightarrow> cr_winning_digest c cr n = cr_winning_digest c cr m"
  by (simp add: cr_winning_digest_def)

end
