(* ===== verification/Special_Region.thy ===== *)
theory Special_Region
  imports Message
begin

text \<open>
  The special region, \<open>src/tbft_special_region.h\<close> and \<open>tbft_special_region.c\<close>: one slot per
  replica, per pair of replicas or per client for the messages off the hot path.  The macros
  \<open>SR_STORE\<close> and \<open>SR_LOAD\<close> are \<open>sr_store\<close> and \<open>sr_load\<close>.  The contract of such an array of
  slots is the locale \<open>msg_cache\<close>, interpreted for the view-changes, requests and replies.
\<close>

section \<open>State\<close>

record sr_slot =
  srs_buf :: bytes
  srs_len :: int
  srs_valid :: bool

record special_region =
  sr_view_change :: "sr_slot list"
  sr_vc_ack :: "sr_slot list list"
  sr_new_view :: sr_slot
  sr_new_key :: sr_slot
  sr_request :: "sr_slot list"
  sr_reply :: "sr_slot list"
  sr_num_replicas :: int
  sr_num_clients :: int

definition TBFT_NK_MSG_MAX_SIZE :: "config \<Rightarrow> nat" where
  "TBFT_NK_MSG_MAX_SIZE c = sz_new_key + TBFT_MAX_NUM_REPLICAS c * sz_new_key_slot"

definition TBFT_REP_MSG_MAX_SIZE :: "config \<Rightarrow> nat" where
  "TBFT_REP_MSG_MAX_SIZE c = sz_reply + TBFT_MAX_REPLY_SIZE c + TBFT_SIG_SIZE"

definition sr_slot_zero :: "nat \<Rightarrow> sr_slot" where
  "sr_slot_zero maxlen = \<lparr> srs_buf = replicate maxlen 0, srs_len = 0, srs_valid = False \<rparr>"

section \<open>Operations\<close>

definition sr_init :: "config \<Rightarrow> int \<Rightarrow> int \<Rightarrow> special_region" where
  "sr_init c num_replicas num_clients = \<lparr>
     sr_view_change = replicate (TBFT_MAX_NUM_REPLICAS c) (sr_slot_zero (TBFT_MAX_MESSAGE_SIZE c)),
     sr_vc_ack = replicate (TBFT_MAX_NUM_REPLICAS c)
       (replicate (TBFT_MAX_NUM_REPLICAS c) (sr_slot_zero sz_vc_ack)),
     sr_new_view = sr_slot_zero (TBFT_MAX_MESSAGE_SIZE c),
     sr_new_key = sr_slot_zero (TBFT_NK_MSG_MAX_SIZE c),
     sr_request = replicate (TBFT_MAX_NUM_CLIENTS c) (sr_slot_zero (TBFT_MAX_MESSAGE_SIZE c)),
     sr_reply = replicate (TBFT_MAX_NUM_CLIENTS c) (sr_slot_zero (TBFT_REP_MSG_MAX_SIZE c)),
     sr_num_replicas = num_replicas, sr_num_clients = num_clients \<rparr>"

definition sr_store :: "nat \<Rightarrow> sr_slot \<Rightarrow> bytes \<Rightarrow> int \<Rightarrow> bool \<times> sr_slot" where
  "sr_store maxlen slot m mlen =
     (if mlen < 0 \<or> int maxlen < mlen then (False, slot)
      else (True, slot\<lparr> srs_buf := put 0 (take (nat mlen) m) (srs_buf slot),
                        srs_len := mlen, srs_valid := True \<rparr>))"

definition sr_load :: "sr_slot \<Rightarrow> bytes option \<times> int" where
  "sr_load slot = (if \<not> srs_valid slot then (None, 0) else (Some (srs_buf slot), srs_len slot))"

definition sr_store_at :: "nat \<Rightarrow> sr_slot list \<Rightarrow> nat \<Rightarrow> bytes \<Rightarrow> int \<Rightarrow> bool \<times> sr_slot list" where
  "sr_store_at maxlen slots i m mlen =
     (let (ok, slot) = sr_store maxlen (slots ! i) m mlen in (ok, slots[i := slot]))"

definition sr_store_vc :: "config \<Rightarrow> special_region \<Rightarrow> int \<Rightarrow> bytes \<Rightarrow> int \<Rightarrow> bool \<times> special_region" where
  "sr_store_vc c sr from_replica msg msg_len =
     (if from_replica < 0 \<or> int (TBFT_MAX_NUM_REPLICAS c) \<le> from_replica then (False, sr)
      else let (ok, slots) = sr_store_at (TBFT_MAX_MESSAGE_SIZE c) (sr_view_change sr) (nat from_replica) msg msg_len
           in (ok, sr\<lparr> sr_view_change := slots \<rparr>))"

definition sr_load_vc :: "config \<Rightarrow> special_region \<Rightarrow> int \<Rightarrow> bytes option \<times> int" where
  "sr_load_vc c sr from_replica =
     (if from_replica < 0 \<or> int (TBFT_MAX_NUM_REPLICAS c) \<le> from_replica then (None, 0)
      else sr_load (sr_view_change sr ! nat from_replica))"

definition sr_clear_vc :: "special_region \<Rightarrow> special_region" where
  "sr_clear_vc sr = sr\<lparr> sr_view_change :=
     map (\<lambda>slot. slot\<lparr> srs_valid := False, srs_len := 0 \<rparr>) (sr_view_change sr) \<rparr>"

definition sr_store_vc_ack ::
  "config \<Rightarrow> special_region \<Rightarrow> int \<Rightarrow> int \<Rightarrow> bytes \<Rightarrow> int \<Rightarrow> bool \<times> special_region" where
  "sr_store_vc_ack c sr sender vc_sender msg msg_len =
     (if sender < 0 \<or> int (TBFT_MAX_NUM_REPLICAS c) \<le> sender then (False, sr)
      else if vc_sender < 0 \<or> int (TBFT_MAX_NUM_REPLICAS c) \<le> vc_sender then (False, sr)
      else let (ok, slots) = sr_store_at sz_vc_ack (sr_vc_ack sr ! nat sender) (nat vc_sender) msg msg_len
           in (ok, sr\<lparr> sr_vc_ack := (sr_vc_ack sr)[nat sender := slots] \<rparr>))"

definition sr_store_nv :: "config \<Rightarrow> special_region \<Rightarrow> bytes \<Rightarrow> int \<Rightarrow> bool \<times> special_region" where
  "sr_store_nv c sr msg msg_len =
     (let (ok, slot) = sr_store (TBFT_MAX_MESSAGE_SIZE c) (sr_new_view sr) msg msg_len
      in (ok, sr\<lparr> sr_new_view := slot \<rparr>))"

definition sr_load_nv :: "special_region \<Rightarrow> bytes option \<times> int" where
  "sr_load_nv sr = sr_load (sr_new_view sr)"

definition sr_store_request :: "config \<Rightarrow> special_region \<Rightarrow> int \<Rightarrow> bytes \<Rightarrow> int \<Rightarrow> bool \<times> special_region" where
  "sr_store_request c sr client_idx msg msg_len =
     (if client_idx < 0 \<or> int (TBFT_MAX_NUM_CLIENTS c) \<le> client_idx then (False, sr)
      else let (ok, slots) = sr_store_at (TBFT_MAX_MESSAGE_SIZE c) (sr_request sr) (nat client_idx) msg msg_len
           in (ok, sr\<lparr> sr_request := slots \<rparr>))"

definition sr_load_request :: "config \<Rightarrow> special_region \<Rightarrow> int \<Rightarrow> bytes option \<times> int" where
  "sr_load_request c sr client_idx =
     (if client_idx < 0 \<or> int (TBFT_MAX_NUM_CLIENTS c) \<le> client_idx then (None, 0)
      else sr_load (sr_request sr ! nat client_idx))"

definition sr_store_reply :: "config \<Rightarrow> special_region \<Rightarrow> int \<Rightarrow> bytes \<Rightarrow> int \<Rightarrow> bool \<times> special_region" where
  "sr_store_reply c sr client_idx msg msg_len =
     (if client_idx < 0 \<or> int (TBFT_MAX_NUM_CLIENTS c) \<le> client_idx then (False, sr)
      else let (ok, slots) = sr_store_at (TBFT_REP_MSG_MAX_SIZE c) (sr_reply sr) (nat client_idx) msg msg_len
           in (ok, sr\<lparr> sr_reply := slots \<rparr>))"

definition sr_load_reply :: "config \<Rightarrow> special_region \<Rightarrow> int \<Rightarrow> bytes option \<times> int" where
  "sr_load_reply c sr client_idx =
     (if client_idx < 0 \<or> int (TBFT_MAX_NUM_CLIENTS c) \<le> client_idx then (None, 0)
      else sr_load (sr_reply sr ! nat client_idx))"

section \<open>Invariant\<close>

definition slots_ok :: "nat \<Rightarrow> nat \<Rightarrow> sr_slot list \<Rightarrow> bool" where
  "slots_ok n maxlen slots \<longleftrightarrow> length slots = n \<and>
     (\<forall>s \<in> set slots. length (srs_buf s) = maxlen \<and> 0 \<le> srs_len s \<and> srs_len s \<le> int maxlen)"

definition sr_inv :: "config \<Rightarrow> special_region \<Rightarrow> bool" where
  "sr_inv c sr \<longleftrightarrow>
     slots_ok (TBFT_MAX_NUM_REPLICAS c) (TBFT_MAX_MESSAGE_SIZE c) (sr_view_change sr) \<and>
     length (sr_vc_ack sr) = TBFT_MAX_NUM_REPLICAS c \<and>
     (\<forall>slots \<in> set (sr_vc_ack sr). slots_ok (TBFT_MAX_NUM_REPLICAS c) sz_vc_ack slots) \<and>
     slots_ok 1 (TBFT_MAX_MESSAGE_SIZE c) [sr_new_view sr] \<and>
     slots_ok (TBFT_MAX_NUM_CLIENTS c) (TBFT_MAX_MESSAGE_SIZE c) (sr_request sr) \<and>
     slots_ok (TBFT_MAX_NUM_CLIENTS c) (TBFT_REP_MSG_MAX_SIZE c) (sr_reply sr)"

section \<open>The contract of an array of slots\<close>

locale msg_cache =
  fixes inv :: "'s \<Rightarrow> bool"
    and ids :: "int set"
    and cap :: nat
    and store :: "'s \<Rightarrow> int \<Rightarrow> bytes \<Rightarrow> int \<Rightarrow> bool \<times> 's"
    and load :: "'s \<Rightarrow> int \<Rightarrow> bytes option \<times> int"
  assumes store_accepts: "fst (store s i m l) \<longleftrightarrow> i \<in> ids \<and> 0 \<le> l \<and> l \<le> int cap"
    and store_refused: "\<not> fst (store s i m l) \<Longrightarrow> snd (store s i m l) = s"
    and store_inv: "inv s \<Longrightarrow> nat l \<le> length m \<Longrightarrow> inv (snd (store s i m l))"
    and load_stored: "inv s \<Longrightarrow> fst (store s i m l) \<Longrightarrow> nat l \<le> length m \<Longrightarrow>
      \<exists>b. load (snd (store s i m l)) i = (Some b, l) \<and> take (nat l) b = take (nat l) m"
    and load_other: "inv s \<Longrightarrow> i \<noteq> j \<Longrightarrow> load (snd (store s i m l)) j = load s j"
begin

definition stores :: "(int \<times> bytes \<times> int) list \<Rightarrow> 's \<Rightarrow> 's" where
  "stores xs s = fold (\<lambda>(i, m, l) s. snd (store s i m l)) xs s"

definition accepted :: "int \<times> bytes \<times> int \<Rightarrow> bool" where
  "accepted x \<longleftrightarrow> fst x \<in> ids \<and> 0 \<le> snd (snd x) \<and> snd (snd x) \<le> int cap"

text \<open>The last accepted message for \<open>i\<close> is the one that is loaded.\<close>

lemma last_store_wins:
  assumes "inv s" "accepted (i, m, l)"
    and "\<forall>(j, m, l) \<in> set (xs @ (i, m, l) # ys). nat l \<le> length m"
    and "\<forall>y \<in> set ys. accepted y \<longrightarrow> fst y \<noteq> i"
  shows "\<exists>b. load (stores (xs @ (i, m, l) # ys) s) i = (Some b, l) \<and> take (nat l) b = take (nat l) m"
proof -
  have pre: "inv (stores xs s)"
    using assms(1,3) unfolding stores_def by (induction xs arbitrary: s) (auto intro: store_inv)
  have post: "load (stores ys s) i = load s i" if "inv s" for s
    using that assms(3,4)
  proof (induction ys arbitrary: s)
    case Nil
    then show ?case by (simp add: stores_def)
  next
    case (Cons y ys)
    obtain j n k where y: "y = (j, n, k)" by (cases y)
    have step: "inv (snd (store s j n k))" "load (snd (store s j n k)) i = load s i"
    proof -
      show "inv (snd (store s j n k))" using Cons.prems(1,2) y store_inv by auto
      show "load (snd (store s j n k)) i = load s i"
      proof (cases "j = i")
        case True
        then have "\<not> fst (store s j n k)" using Cons.prems(3) y by (auto simp: accepted_def store_accepts)
        then show ?thesis by (simp add: store_refused)
      next
        case False
        then show ?thesis using load_other [OF Cons.prems(1)] by auto
      qed
    qed
    have "load (stores ys (snd (store s j n k))) i = load (snd (store s j n k)) i"
      using Cons.prems(2,3) by (intro Cons.IH [OF step(1)]) auto
    then show ?case using step(2) by (simp add: stores_def y)
  qed
  have "fst (store (stores xs s) i m l)" using assms(2) by (simp add: accepted_def store_accepts)
  from load_stored [OF pre this] assms(3) obtain b where
    "load (snd (store (stores xs s) i m l)) i = (Some b, l)" "take (nat l) b = take (nat l) m" by auto
  moreover have "inv (snd (store (stores xs s) i m l))" using pre assms(3) by (auto intro: store_inv)
  ultimately show ?thesis using post by (simp add: stores_def)
qed

end

section \<open>The region provides it\<close>

lemma sr_store_at_facts:
  assumes "slots_ok n maxlen slots" "i < n" "nat l \<le> length m"
  shows "slots_ok n maxlen (snd (sr_store_at maxlen slots i m l))"
    "j \<noteq> i \<Longrightarrow> snd (sr_store_at maxlen slots i m l) ! j = slots ! j"
    "fst (sr_store_at maxlen slots i m l) \<Longrightarrow>
     \<exists>b. sr_load (snd (sr_store_at maxlen slots i m l) ! i) = (Some b, l) \<and> take (nat l) b = take (nat l) m"
proof -
  have len: "length slots = n" "length (srs_buf (slots ! i)) = maxlen" using assms(1,2) by (auto simp: slots_ok_def)
  have ok: "s \<in> set slots \<Longrightarrow> length (srs_buf s) = maxlen \<and> 0 \<le> srs_len s \<and> srs_len s \<le> int maxlen" for s
    using assms(1) by (auto simp: slots_ok_def)
  show "slots_ok n maxlen (snd (sr_store_at maxlen slots i m l))"
    using assms len ok [OF nth_mem, of i]
    by (auto simp: sr_store_at_def sr_store_def slots_ok_def dest!: set_update_subset_insert [THEN subsetD])
  show "j \<noteq> i \<Longrightarrow> snd (sr_store_at maxlen slots i m l) ! j = slots ! j"
    by (auto simp: sr_store_at_def split: prod.split)
  show "fst (sr_store_at maxlen slots i m l) \<Longrightarrow>
     \<exists>b. sr_load (snd (sr_store_at maxlen slots i m l) ! i) = (Some b, l) \<and> take (nat l) b = take (nat l) m"
    using assms(2,3) len by (auto simp: sr_store_at_def sr_store_def sr_load_def put_def split: if_splits)
qed

lemma fst_sr_store_at [simp]: "fst (sr_store_at maxlen slots i m l) \<longleftrightarrow> 0 \<le> l \<and> l \<le> int maxlen"
  by (auto simp: sr_store_at_def sr_store_def)

lemma sr_store_at_accepted: "sr_store_at maxlen slots i m l = (True, slots') \<Longrightarrow> 0 \<le> l \<and> l \<le> int maxlen"
  by (metis fst_conv fst_sr_store_at)

lemma sr_store_at_refused: "sr_store_at maxlen slots i m l = (False, slots') \<Longrightarrow> slots' = slots"
  by (auto simp: sr_store_at_def sr_store_def split: if_splits)

lemma sr_init_inv [inv_intros]: "sr_inv c (sr_init c n k)"
  by (simp add: sr_inv_def sr_init_def slots_ok_def sr_slot_zero_def)

lemma sr_clear_vc_inv [inv_intros]: "sr_inv c sr \<Longrightarrow> sr_inv c (sr_clear_vc sr)"
  by (auto simp: sr_inv_def sr_clear_vc_def slots_ok_def)

lemma sr_load_vc_clear: "sr_inv c sr \<Longrightarrow> sr_load_vc c (sr_clear_vc sr) i = (None, 0)"
  by (auto simp: sr_load_vc_def sr_clear_vc_def sr_load_def sr_inv_def slots_ok_def nth_map nat_less_iff)

text \<open>Every pair of a store and a load function over one of the region's arrays is a cache.\<close>

lemma msg_cache_slots:
  assumes store: "\<And>s i m l. store s i m l = (if i < 0 \<or> int n \<le> i then (False, s)
      else let (ok, slots) = sr_store_at cap (get s) (nat i) m l in (ok, upd slots s))"
    and load: "\<And>s i. load s i = (if i < 0 \<or> int n \<le> i then (None, 0) else sr_load (get s ! nat i))"
    and get_upd: "\<And>s x. get (upd x s) = x" and upd_get: "\<And>s. upd (get s) s = s"
    and inv_slots: "\<And>s. I s \<Longrightarrow> slots_ok n cap (get s)"
    and inv_upd: "\<And>s x. I s \<Longrightarrow> slots_ok n cap x \<Longrightarrow> I (upd x s)"
  shows "msg_cache I {0 ..< int n} cap store load"
proof
  fix s i j m l
  have fst_at: "fst (sr_store_at cap (get s) (nat i) m l) \<longleftrightarrow> 0 \<le> l \<and> l \<le> int cap" by simp
  show "fst (store s i m l) \<longleftrightarrow> i \<in> {0 ..< int n} \<and> 0 \<le> l \<and> l \<le> int cap"
    using fst_at by (cases "sr_store_at cap (get s) (nat i) m l") (auto simp: store)
  show "snd (store s i m l) = s" if "\<not> fst (store s i m l)"
    using that upd_get by (auto simp: store dest!: sr_store_at_refused split: if_splits prod.splits)
  assume inv: "I s"
  show "I (snd (store s i m l))" if "nat l \<le> length m"
    using inv that sr_store_at_facts(1) [OF inv_slots [OF inv], of "nat i" l m]
    by (auto simp: store intro: inv_upd split: prod.split)
  show "\<exists>b. load (snd (store s i m l)) i = (Some b, l) \<and> take (nat l) b = take (nat l) m"
    if "fst (store s i m l)" "nat l \<le> length m"
    using that fst_at sr_store_at_facts(3) [OF inv_slots [OF inv], of "nat i" l m]
    by (auto simp: store load get_upd nat_less_iff dest: sr_store_at_accepted split: prod.splits if_splits)
  show "load (snd (store s i m l)) j = load s j" if "i \<noteq> j"
    using that sr_store_at_facts(2) by (auto simp: store load get_upd sr_store_at_def nth_list_update split: prod.splits)
qed

interpretation vcs: msg_cache "sr_inv c" "{0 ..< int (TBFT_MAX_NUM_REPLICAS c)}" "TBFT_MAX_MESSAGE_SIZE c" "sr_store_vc c" "sr_load_vc c"
  by (rule msg_cache_slots [where get = sr_view_change and upd = "\<lambda>x s. s\<lparr> sr_view_change := x \<rparr>"])
    (simp_all add: sr_store_vc_def sr_load_vc_def sr_inv_def)

interpretation reqs: msg_cache "sr_inv c" "{0 ..< int (TBFT_MAX_NUM_CLIENTS c)}" "TBFT_MAX_MESSAGE_SIZE c" "sr_store_request c" "sr_load_request c"
  by (rule msg_cache_slots [where get = sr_request and upd = "\<lambda>x s. s\<lparr> sr_request := x \<rparr>"])
    (simp_all add: sr_store_request_def sr_load_request_def sr_inv_def)

interpretation reps: msg_cache "sr_inv c" "{0 ..< int (TBFT_MAX_NUM_CLIENTS c)}" "TBFT_REP_MSG_MAX_SIZE c" "sr_store_reply c" "sr_load_reply c"
  by (rule msg_cache_slots [where get = sr_reply and upd = "\<lambda>x s. s\<lparr> sr_reply := x \<rparr>"])
    (simp_all add: sr_store_reply_def sr_load_reply_def sr_inv_def)

section \<open>Properties\<close>

text \<open>C27: the reply cache returns the last reply that was stored for a client, byte for byte,
  whatever is stored for the other clients before and after it and whatever oversized replies
  are refused in between.\<close>

theorem reply_cache_last:
  assumes "sr_inv c sr" "0 \<le> i" "i < int (TBFT_MAX_NUM_CLIENTS c)"
    and "0 \<le> l" "l \<le> int (TBFT_REP_MSG_MAX_SIZE c)"
    and "\<forall>(j, m, l) \<in> set (xs @ (i, m, l) # ys). nat l \<le> length m"
    and "\<forall>(j, m, l) \<in> set ys. j \<noteq> i \<or> l < 0 \<or> int (TBFT_REP_MSG_MAX_SIZE c) < l"
  shows "\<exists>b. sr_load_reply c (fold (\<lambda>(j, m, l) s. snd (sr_store_reply c s j m l)) (xs @ (i, m, l) # ys) sr) i
      = (Some b, l) \<and> take (nat l) b = take (nat l) m"
proof -
  have "reps.accepted c (i, m, l)" using assms(2-5) by (simp add: reps.accepted_def)
  moreover have "\<forall>y \<in> set ys. reps.accepted c y \<longrightarrow> fst y \<noteq> i"
    using assms(7) by (force simp: reps.accepted_def)
  ultimately show ?thesis
    using reps.last_store_wins [OF assms(1) _ assms(6)] by (simp add: reps.stores_def)
qed

lemma reply_cache_last_witness:
  "\<exists>b. sr_load_reply default_config (fold (\<lambda>(j, m, l) s. snd (sr_store_reply default_config s j m l))
      ([(0, [1, 2, 3], 3)] @ (0, [4, 5], 2) # [(1, [6], 1)]) (sr_init default_config 4 1)) 0 = (Some b, 2) \<and>
    take 2 b = [4, 5]"
  using reply_cache_last [OF sr_init_inv [of default_config 4 1], of 0 2 "[(0, [1, 2, 3], 3)]" "[4, 5]" "[(1, [6], 1)]"]
  by (simp add: TBFT_REP_MSG_MAX_SIZE_def)

end
