(* ===== verification/View_Info.thy ===== *)
theory View_Info
  imports Special_Region
begin

text \<open>
  View-change bookkeeping, \<open>src/tbft_view_info.h\<close> and \<open>tbft_view_info.c\<close>.  The back-pointer to
  the special region is an argument of the operations, which return it updated.  \<open>vi_inv\<close> ties
  the counters to the stored view-changes; the lemmas show what a quorum consists of, which
  bounds \<open>compute_min_max\<close> returns and what an accepted new-view proves.
\<close>

section \<open>State and operations\<close>

record view_info =
  vi_target_view :: int
  vi_num_replicas :: int
  vi_threshold :: int
  vi_in_progress :: bool
  vi_received :: "bool list"
  vi_last_stable :: "int list"
  vi_n_received :: int

definition vi_init :: "config \<Rightarrow> int \<Rightarrow> int \<Rightarrow> view_info" where
  "vi_init c num_replicas threshold = \<lparr> vi_target_view = 0, vi_num_replicas = num_replicas,
     vi_threshold = threshold, vi_in_progress = False,
     vi_received = replicate (TBFT_MAX_NUM_REPLICAS c) False,
     vi_last_stable = replicate (TBFT_MAX_NUM_REPLICAS c) 0, vi_n_received = 0 \<rparr>"

definition vi_reset :: "config \<Rightarrow> view_info \<Rightarrow> special_region \<Rightarrow> int \<Rightarrow> view_info \<times> special_region" where
  "vi_reset c vi sr new_target_view =
     (vi\<lparr> vi_target_view := new_target_view, vi_n_received := 0,
          vi_received := replicate (TBFT_MAX_NUM_REPLICAS c) False,
          vi_last_stable := replicate (TBFT_MAX_NUM_REPLICAS c) 0 \<rparr>, sr_clear_vc sr)"

definition vi_record :: "view_info \<Rightarrow> nat \<Rightarrow> int \<Rightarrow> view_info" where
  "vi_record vi i ls = vi\<lparr> vi_received := (vi_received vi)[i := True],
     vi_last_stable := (vi_last_stable vi)[i := ls], vi_n_received := vi_n_received vi + 1 \<rparr>"

definition vi_collect_vc ::
  "config \<Rightarrow> view_info \<Rightarrow> special_region \<Rightarrow> int \<Rightarrow> bytes \<Rightarrow> int \<Rightarrow> bool \<times> view_info \<times> special_region" where
  "vi_collect_vc c vi sr sender_id msg msg_len =
     (if sender_id < 0 \<or> int (TBFT_MAX_NUM_REPLICAS c) \<le> sender_id then (False, vi, sr)
      else if msg_len < int sz_view_change then (False, vi, sr)
      else if vc_v msg < vi_target_view vi then (False, vi, sr)
      else let (vi, sr) = (if vc_v msg \<noteq> vi_target_view vi then vi_reset c vi sr (vc_v msg) else (vi, sr))
           in if vi_received vi ! nat sender_id then (False, vi, sr)
              else let (ok, sr) = sr_store_vc c sr sender_id msg msg_len
                   in if \<not> ok then (False, vi, sr)
                      else (True, vi_record vi (nat sender_id) (vc_ls msg), sr))"

definition vi_has_quorum :: "view_info \<Rightarrow> bool" where
  "vi_has_quorum vi \<longleftrightarrow> vi_threshold vi \<le> vi_n_received vi"

text \<open>One round of the loop of \<open>compute_min_max\<close> on \<open>(min_val, max_val, first)\<close>.\<close>

definition vi_min_max_step :: "config \<Rightarrow> view_info \<Rightarrow> nat \<Rightarrow> int \<times> int \<times> bool \<Rightarrow> int \<times> int \<times> bool" where
  "vi_min_max_step c vi i acc = (case acc of (min_val, max_val, is_first) \<Rightarrow>
     if \<not> vi_received vi ! i then acc
     else let ls = vi_last_stable vi ! i; W = int (TBFT_WINDOW_SIZE c) in
       if is_first then (ls, ls + W, False)
       else (if min_val < ls then ls else min_val, if ls + W < max_val then ls + W else max_val, False))"

definition vi_compute_min_max :: "config \<Rightarrow> view_info \<Rightarrow> int \<times> int" where
  "vi_compute_min_max c vi =
     (let (min_val, max_val, _) = fold (vi_min_max_step c vi) [0 ..< nat (vi_num_replicas vi)]
                                    (0, int (TBFT_WINDOW_SIZE c), True)
      in (min_val, max_val))"

text \<open>Whether the view-change stored for replica \<open>r\<close> lists the proof.  The byte counts are
  \<open>int32_t\<close>, as in the code; an offset that overflows to a negative number, at which the code
  would read before the buffer, is read at 0.\<close>

definition vi_attests :: "config \<Rightarrow> special_region \<Rightarrow> nat \<Rightarrow> int \<Rightarrow> digest \<Rightarrow> bool" where
  "vi_attests c sr r seqno d =
     (case sr_load_vc c sr (int r) of
        (None, _) \<Rightarrow> False
      | (Some vc, vc_len) \<Rightarrow>
          if vc_len < int (sz_view_change + TBFT_SIG_SIZE) then False
          else if vc_n_ckpts vc < 0 \<or> vc_n_reqs vc < 0 then False
          else
            let ckpt_bytes = i32 (vc_n_ckpts vc * int sz_vc_ckpt);
                req_bytes = i32 (vc_n_reqs vc * int sz_vc_req_info);
                body_end = vc_len - int TBFT_SIG_SIZE;
                reqs = int sz_view_change + ckpt_bytes
            in if body_end < reqs + req_bytes then False
               else list_ex (\<lambda>q. let off = nat (reqs + int (q * sz_vc_req_info)) in
                      vcr_seqno off vc = seqno \<and> tbft_digest_equal (vcr_digest off vc) d)
                      [0 ..< nat (vc_n_reqs vc)])"

definition vi_attestations :: "config \<Rightarrow> view_info \<Rightarrow> special_region \<Rightarrow> int \<Rightarrow> digest \<Rightarrow> int" where
  "vi_attestations c vi sr seqno d =
     fold (\<lambda>r n. if vi_threshold vi \<le> n then n
                 else if \<not> vi_received vi ! r then n
                 else if vi_attests c sr r seqno d then n + 1 else n)
       [0 ..< nat (vi_num_replicas vi)] 0"

definition vi_proofs_ok :: "config \<Rightarrow> view_info \<Rightarrow> special_region \<Rightarrow> bytes \<Rightarrow> int \<Rightarrow> bool" where
  "vi_proofs_ok c vi sr nv nv_len =
     (let proofs_size = i32 (nv_n_prep nv * int sz_vc_req_info); header_size = int sz_new_view in
      if 0 < proofs_size
      then if nv_len < i32 (header_size + proofs_size) then False
           else list_all (\<lambda>p. let off = sz_new_view + p * sz_vc_req_info in
                  vi_threshold vi \<le> vi_attestations c vi sr (vcr_seqno off nv) (vcr_digest off nv))
                  [0 ..< nat (nv_n_prep nv)]
      else True)"

definition vi_verify_nv :: "config \<Rightarrow> view_info \<Rightarrow> special_region \<Rightarrow> bytes \<Rightarrow> int \<Rightarrow> bool" where
  "vi_verify_nv c vi sr nv nv_len =
     (if nv_len < int sz_new_view then False
      else if nv_v nv \<noteq> vi_target_view vi then False
      else if nv_max nv < nv_min nv then False
      else if vi_n_received vi < vi_threshold vi then False
      else let (expected_min, expected_max) = vi_compute_min_max c vi in
        if nv_min nv < expected_min then False
        else if expected_max < nv_max nv then False
        else vi_proofs_ok c vi sr nv nv_len)"

definition vi_collect_vc_ack :: "config \<Rightarrow> special_region \<Rightarrow> int \<Rightarrow> int \<Rightarrow> bytes \<Rightarrow> int \<Rightarrow> special_region" where
  "vi_collect_vc_ack c sr sender vc_sender msg msg_len = snd (sr_store_vc_ack c sr sender vc_sender msg msg_len)"

section \<open>Invariant\<close>

definition vi_senders :: "view_info \<Rightarrow> nat set" where
  "vi_senders vi = {i. i < length (vi_received vi) \<and> vi_received vi ! i}"

definition vi_inv :: "config \<Rightarrow> view_info \<Rightarrow> special_region \<Rightarrow> bool" where
  "vi_inv c vi sr \<longleftrightarrow> sr_inv c sr \<and>
     length (vi_received vi) = TBFT_MAX_NUM_REPLICAS c \<and>
     length (vi_last_stable vi) = TBFT_MAX_NUM_REPLICAS c \<and>
     vi_n_received vi = int (card (vi_senders vi)) \<and>
     (\<forall>i \<in> vi_senders vi. \<exists>vc l. sr_load_vc c sr (int i) = (Some vc, l) \<and> int sz_view_change \<le> l \<and>
        vc_v vc = vi_target_view vi \<and> vc_ls vc = vi_last_stable vi ! i)"

lemma finite_vi_senders [simp]: "finite (vi_senders vi)"
  by (simp add: vi_senders_def)

lemma vi_init_inv [inv_intros]: "sr_inv c sr \<Longrightarrow> vi_inv c (vi_init c n t) sr"
  by (auto simp: vi_inv_def vi_init_def vi_senders_def)

lemma vi_reset_inv [inv_intros]:
  "vi_inv c vi sr \<Longrightarrow> vi_reset c vi sr v = (vi', sr') \<Longrightarrow> vi_inv c vi' sr'"
  by (auto simp: vi_inv_def vi_reset_def vi_senders_def sr_clear_vc_inv)

lemma take_vc_fields:
  assumes "take n a = take n b" "48 \<le> n"
  shows "vc_v a = vc_v b" "vc_ls a = vc_ls b" "vc_n_reqs a = vc_n_reqs b" "vc_n_ckpts a = vc_n_ckpts b"
  using assms(2) by (auto simp: vc_defs rd_defs take_eq_field [OF assms(1)])

lemma vi_store_inv:
  assumes inv: "vi_inv c vi sr" and v: "vc_v m = vi_target_view vi" and i: "i < TBFT_MAX_NUM_REPLICAS c"
    and new: "\<not> vi_received vi ! i" and l: "int sz_view_change \<le> l" "nat l \<le> length m"
    and st: "sr_store_vc c sr (int i) m l = (True, sr')"
  shows "vi_inv c (vi_record vi i (vc_ls m)) sr'"
proof -
  have sr: "sr_inv c sr" using inv by (simp add: vi_inv_def)
  have senders: "vi_senders (vi_record vi i (vc_ls m)) = insert i (vi_senders vi)" "i \<notin> vi_senders vi"
  proof -
    have "length (vi_received vi) = TBFT_MAX_NUM_REPLICAS c" using inv by (simp add: vi_inv_def)
    with i new show "vi_senders (vi_record vi i (vc_ls m)) = insert i (vi_senders vi)" "i \<notin> vi_senders vi"
      by (auto simp: vi_senders_def vi_record_def nth_list_update)
  qed
  obtain b where b: "sr_load_vc c sr' (int i) = (Some b, l)" "take (nat l) b = take (nat l) m"
    using vcs.load_stored [OF sr, of "int i" m l] l(2) by (auto simp: st)
  have "vc_v b = vc_v m" "vc_ls b = vc_ls m" using take_vc_fields [OF b(2)] l(1) by auto
  moreover have "sr_load_vc c sr' (int j) = sr_load_vc c sr (int j)" if "j \<noteq> i" for j
    using vcs.load_other [OF sr, of "int i" "int j" m l] that by (simp add: st)
  moreover have "sr_inv c sr'" using vcs.store_inv [OF sr l(2), of "int i"] by (simp add: st)
  ultimately show ?thesis
    using inv b(1) i l(1) v senders
    by (auto simp: vi_inv_def) (auto simp: vi_record_def nth_list_update)
qed

lemma vi_collect_inv [inv_intros]:
  assumes inv: "vi_inv c vi sr" and m: "nat l \<le> length m"
    and r: "vi_collect_vc c vi sr s m l = (ok, vi', sr')"
  shows "vi_inv c vi' sr'"
proof (cases "s < 0 \<or> int (TBFT_MAX_NUM_REPLICAS c) \<le> s \<or> l < int sz_view_change \<or> vc_v m < vi_target_view vi")
  case True
  with r inv show ?thesis by (auto simp: vi_collect_vc_def split: if_splits)
next
  case False
  then obtain i where i: "s = int i" "i < TBFT_MAX_NUM_REPLICAS c"
    by (metis nonneg_int_cases not_less of_nat_less_iff)
  obtain vi1 sr1 where r1: "(if vc_v m \<noteq> vi_target_view vi then vi_reset c vi sr (vc_v m) else (vi, sr)) = (vi1, sr1)"
    by (metis surj_pair)
  then have 1: "vi_inv c vi1 sr1" "vi_target_view vi1 = vc_v m"
    using inv vi_reset_inv by (auto simp: vi_reset_def split: if_splits)
  have "(ok, vi', sr') = (if vi_received vi1 ! i then (False, vi1, sr1)
      else let (ok, sr) = sr_store_vc c sr1 (int i) m l
           in if \<not> ok then (False, vi1, sr) else (True, vi_record vi1 i (vc_ls m), sr))"
    using r False i r1 by (auto simp: vi_collect_vc_def split: prod.splits)
  moreover have "sr2 = sr1" if "sr_store_vc c sr1 (int i) m l = (False, sr2)" for sr2
    using vcs.store_refused [of c sr1 "int i" m l] that by simp
  ultimately show ?thesis
    using 1 i(2) m False vi_store_inv [OF 1(1) 1(2) [symmetric] i(2) _ _ m]
    by (auto split: if_splits prod.splits)
qed

section \<open>The bounds of a new view\<close>

definition vi_voters :: "view_info \<Rightarrow> nat \<Rightarrow> nat set" where
  "vi_voters vi k = {i. i < k \<and> vi_received vi ! i}"

lemma vi_voters_simps [simp]:
  "vi_voters vi 0 = {}"
  "vi_voters vi (Suc k) = (if vi_received vi ! k then insert k (vi_voters vi k) else vi_voters vi k)"
  "finite (vi_voters vi k)" "k \<notin> vi_voters vi k"
  by (auto simp: vi_voters_def less_Suc_eq)

lemma min_max_step:
  "vi_min_max_step c vi k (a, b + int (TBFT_WINDOW_SIZE c), False) =
    (if vi_received vi ! k then (max (vi_last_stable vi ! k) a, min (vi_last_stable vi ! k) b + int (TBFT_WINDOW_SIZE c), False)
     else (a, b + int (TBFT_WINDOW_SIZE c), False))"
  by (simp add: vi_min_max_step_def Let_def max_def min_def)

lemma min_max_fold:
  "fold (vi_min_max_step c vi) [0 ..< k] (0, int (TBFT_WINDOW_SIZE c), True) =
     (if vi_voters vi k = {} then (0, int (TBFT_WINDOW_SIZE c), True)
      else (Max ((\<lambda>i. vi_last_stable vi ! i) ` vi_voters vi k),
            Min ((\<lambda>i. vi_last_stable vi ! i) ` vi_voters vi k) + int (TBFT_WINDOW_SIZE c), False))"
proof (induction k)
  case 0
  then show ?case by simp
next
  case (Suc k)
  show ?case
  proof (cases "vi_voters vi k = {}")
    case True
    with Suc show ?thesis by (simp add: vi_min_max_step_def Let_def)
  next
    case False
    with Suc show ?thesis by (simp add: min_max_step Max_insert Min_insert)
  qed
qed

lemma min_max_bounds:
  assumes "vi_compute_min_max c vi = (mn, mx)" "i < nat (vi_num_replicas vi)" "vi_received vi ! i"
  shows "vi_last_stable vi ! i \<le> mn \<and> mx \<le> vi_last_stable vi ! i + int (TBFT_WINDOW_SIZE c)"
proof -
  let ?S = "vi_voters vi (nat (vi_num_replicas vi))"
  have i: "i \<in> ?S" using assms(2,3) by (simp add: vi_voters_def)
  then have "mn = Max ((\<lambda>i. vi_last_stable vi ! i) ` ?S)"
    "mx = Min ((\<lambda>i. vi_last_stable vi ! i) ` ?S) + int (TBFT_WINDOW_SIZE c)"
    using assms(1) by (auto simp: vi_compute_min_max_def min_max_fold split: if_splits)
  with i show ?thesis by simp
qed

section \<open>Attestations of a proof\<close>

lemma attestations_fold:
  assumes "0 \<le> vi_threshold vi"
  shows "fold (\<lambda>r n. if vi_threshold vi \<le> n then n
      else if \<not> vi_received vi ! r then n else if vi_attests c sr r x d then n + 1 else n) [0 ..< k] 0 =
    min (vi_threshold vi) (int (card {r \<in> vi_voters vi k. vi_attests c sr r x d}))"
proof (induction k)
  case 0
  then show ?case using assms by simp
next
  case (Suc k)
  have "{r \<in> vi_voters vi (Suc k). vi_attests c sr r x d} =
      (if vi_received vi ! k \<and> vi_attests c sr k x d
       then insert k {r \<in> vi_voters vi k. vi_attests c sr r x d} else {r \<in> vi_voters vi k. vi_attests c sr r x d})"
    by auto
  then have "int (card {r \<in> vi_voters vi (Suc k). vi_attests c sr r x d}) =
      int (card {r \<in> vi_voters vi k. vi_attests c sr r x d}) +
      (if vi_received vi ! k \<and> vi_attests c sr k x d then 1 else 0)"
    by (simp del: vi_voters_simps(2))
  then show ?case by (simp add: Suc.IH min_def del: vi_voters_simps(2))
qed

lemma attestations_quorum:
  assumes "0 \<le> vi_threshold vi" "vi_threshold vi \<le> vi_attestations c vi sr x d"
  shows "vi_threshold vi \<le> int (card {r \<in> vi_voters vi (nat (vi_num_replicas vi)). vi_attests c sr r x d})"
  using assms by (simp add: vi_attestations_def attestations_fold)

lemma vi_verify_cases:
  assumes "vi_verify_nv c vi sr nv nv_len"
  obtains mn mx where "int sz_new_view \<le> nv_len" "nv_v nv = vi_target_view vi" "nv_min nv \<le> nv_max nv"
    "vi_has_quorum vi" "vi_compute_min_max c vi = (mn, mx)" "mn \<le> nv_min nv" "nv_max nv \<le> mx"
    "vi_proofs_ok c vi sr nv nv_len"
  using assms
  by (cases "vi_compute_min_max c vi")
    (auto simp: vi_verify_nv_def vi_has_quorum_def not_less split: if_splits)

section \<open>Properties\<close>

text \<open>C26: the collected view-changes are real.  Whatever messages are offered to \<open>collect_vc\<close>, in
  any order and for any views, a quorum means that at least \<open>threshold\<close> different replicas have
  a stored view-change for the current target view, with the recorded last stable number.\<close>

theorem vi_quorum_stored:
  assumes "sr_inv c sr" "\<forall>(s, m, l) \<in> set xs. nat l \<le> length m"
    and "fold (\<lambda>(s, m, l) (vi, sr). snd (vi_collect_vc c vi sr s m l)) xs (vi_init c n t, sr) = (vi', sr')"
    and "vi_has_quorum vi'"
  shows "t \<le> int (card {i. \<exists>vc l. sr_load_vc c sr' i = (Some vc, l) \<and> int sz_view_change \<le> l \<and>
    vc_v vc = vi_target_view vi' \<and> 0 \<le> i \<and> vc_ls vc = vi_last_stable vi' ! nat i})"
proof -
  have thr: "vi_threshold (fst (snd (vi_collect_vc c vi sr s m l))) = vi_threshold vi" for vi sr s m l
    by (auto simp: vi_collect_vc_def vi_reset_def vi_record_def Let_def split: prod.splits)
  have "vi_inv c vi' sr' \<and> vi_threshold vi' = vi_threshold vi"
    if "vi_inv c vi sr" "fold (\<lambda>(s, m, l) (vi, sr). snd (vi_collect_vc c vi sr s m l)) xs (vi, sr) = (vi', sr')" for vi sr
    using that assms(2)
  proof (induction xs arbitrary: vi sr)
    case Nil
    then show ?case by simp
  next
    case (Cons x xs)
    obtain s m l where x: "x = (s, m, l)" by (metis prod_cases3)
    obtain ok vi1 sr1 where r: "vi_collect_vc c vi sr s m l = (ok, vi1, sr1)" by (metis prod_cases3)
    have "vi_inv c vi1 sr1" using vi_collect_inv [OF Cons.prems(1) _ r] Cons.prems(3) x by auto
    with Cons.IH [OF this] Cons.prems(2,3) r x thr [of vi sr s m l] show ?case by simp
  qed
  from this [OF vi_init_inv [OF assms(1)] assms(3)]
  have inv: "vi_inv c vi' sr'" "vi_threshold vi' = t" by (simp_all add: vi_init_def)
  let ?L = "{i. \<exists>vc l. sr_load_vc c sr' i = (Some vc, l) \<and> int sz_view_change \<le> l \<and>
    vc_v vc = vi_target_view vi' \<and> 0 \<le> i \<and> vc_ls vc = vi_last_stable vi' ! nat i}"
  have "int ` vi_senders vi' \<subseteq> ?L" using inv(1) by (fastforce simp: vi_inv_def)
  moreover have "?L \<subseteq> {0 ..< int (TBFT_MAX_NUM_REPLICAS c)}" by (auto simp: sr_load_vc_def split: if_splits)
  then have "finite ?L" by (rule finite_subset) simp
  ultimately have "card (vi_senders vi') \<le> card ?L"
    using card_mono [of ?L "int ` vi_senders vi'"] by (simp add: card_image)
  then show ?thesis using assms(4) inv by (simp add: vi_has_quorum_def vi_inv_def)
qed

text \<open>A view-change for view 1 with last stable number 0 that lists one prepared request
  (sequence number 5, digest zero), and a new-view that carries it as a proof.\<close>

definition sample_vc :: bytes where
  "sample_vc = wr_i64 48 5 (wr_i32 36 1 (wr_i64 16 1 (replicate 352 0)))"

definition sample_nv :: bytes where
  "sample_nv = wr_i64 48 5 (wr_i32 40 1 (wr_i64 32 16 (wr_i64 16 1 (replicate 96 0))))"

lemma sample_vc_facts:
  "length sample_vc = 352" "vc_v sample_vc = 1" "vc_ls sample_vc = 0" "vc_n_reqs sample_vc = 1"
  "vc_n_ckpts sample_vc = 0" "vcr_seqno 48 sample_vc = 5" "vcr_digest 48 sample_vc = replicate 32 0"
  by (simp_all add: sample_vc_def vc_defs vcr_defs wire_simps i64_id i32_id)

lemma sample_nv_facts:
  "nv_v sample_nv = 1" "nv_min sample_nv = 0" "nv_max sample_nv = 16" "nv_n_prep sample_nv = 1"
  "vcr_seqno 48 sample_nv = 5" "vcr_digest 48 sample_nv = replicate 32 0"
  by (simp_all add: sample_nv_def nv_defs vcr_defs wire_simps i64_id i32_id)

lemma sample_vc_attests:
  assumes "sr_load_vc c sr (int r) = (Some b, 352)" "take 352 b = take 352 sample_vc"
  shows "vi_attests c sr r 5 (replicate 32 0)"
proof -
  have "vcr_seqno 48 b = 5" "vcr_digest 48 b = replicate 32 0"
    using take_eq_field [OF assms(2), of 48 8] take_eq_field [OF assms(2), of 64 32] sample_vc_facts(6,7)
    by (simp_all add: vcr_defs rd_defs)
  moreover have "vc_n_reqs b = 1" "vc_n_ckpts b = 0"
    using take_vc_fields [OF assms(2)] sample_vc_facts by simp_all
  ultimately show ?thesis using assms(1)
    by (simp add: vi_attests_def i32_id Let_def)
qed

lemma vi_collect_eq:
  assumes "i < TBFT_MAX_NUM_REPLICAS c" "int sz_view_change \<le> l" "vi_target_view vi \<le> vc_v m"
    and "(if vc_v m \<noteq> vi_target_view vi then vi_reset c vi sr (vc_v m) else (vi, sr)) = (vi1, sr1)"
    and "\<not> vi_received vi1 ! i" "sr_store_vc c sr1 (int i) m l = (True, sr2)"
  shows "vi_collect_vc c vi sr (int i) m l = (True, vi_record vi1 i (vc_ls m), sr2)"
proof -
  have "\<not> (int i < 0 \<or> int (TBFT_MAX_NUM_REPLICAS c) \<le> int i)" "\<not> l < int sz_view_change" "\<not> vc_v m < vi_target_view vi"
    using assms(1-3) by auto
  with assms(4-6) show ?thesis by (simp only: vi_collect_vc_def if_False Let_def prod.case nat_int) simp
qed

definition sample_vcs :: "(int \<times> bytes \<times> int) list" where
  "sample_vcs = map (\<lambda>i. (i, sample_vc, 352)) [0, 1, 2]"

lemma sample_vcs_collected:
  fixes c t
  defines "r \<equiv> fold (\<lambda>(s, m, l) (vi, sr). snd (vi_collect_vc c vi sr s m l)) sample_vcs (vi_init c 4 t, sr_init c 4 1)"
  assumes "cfg_ok c" "352 \<le> TBFT_MAX_MESSAGE_SIZE c"
  shows "vi_inv c (fst r) (snd r)" "vi_target_view (fst r) = 1" "vi_n_received (fst r) = 3"
    "vi_num_replicas (fst r) = 4" "vi_threshold (fst r) = t"
    "\<forall>i < 4. vi_received (fst r) ! i \<longleftrightarrow> i < 3" "\<forall>i < 4. vi_last_stable (fst r) ! i = 0"
    "\<forall>i < 3. \<exists>b. sr_load_vc c (snd r) (int i) = (Some b, 352) \<and> take 352 b = take 352 sample_vc"
proof -
  have n: "4 \<le> TBFT_MAX_NUM_REPLICAS c" using cfg_ok_simps(4) [OF assms(2)] .
  define P where "P k vi sr \<longleftrightarrow> vi_inv c vi sr \<and> (k > 0 \<longrightarrow> vi_target_view vi = 1) \<and> vi_target_view vi \<in> {0, 1} \<and>
    vi_n_received vi = int k \<and> vi_num_replicas vi = 4 \<and> vi_threshold vi = t \<and>
    (\<forall>i < 4. vi_received vi ! i \<longleftrightarrow> i < k) \<and> (\<forall>i < 4. vi_last_stable vi ! i = 0) \<and>
    (\<forall>i < k. \<exists>b. sr_load_vc c sr (int i) = (Some b, 352) \<and> take 352 b = take 352 sample_vc)" for k vi sr
  have step: "\<exists>vi' sr'. vi_collect_vc c vi sr (int k) sample_vc 352 = (True, vi', sr') \<and> P (Suc k) vi' sr'"
    if p: "P k vi sr" and k: "k < 3" for k vi sr
  proof -
    obtain vi1 sr1 where r0: "(if vc_v sample_vc \<noteq> vi_target_view vi then vi_reset c vi sr (vc_v sample_vc) else (vi, sr)) = (vi1, sr1)"
      by (metis surj_pair)
    then have r1: "(if 1 \<noteq> vi_target_view vi then vi_reset c vi sr 1 else (vi, sr)) = (vi1, sr1)"
      by (simp only: sample_vc_facts)
    have p1: "P k vi1 sr1 \<and> vi_target_view vi1 = 1"
    proof (cases "vi_target_view vi = 1")
      case True
      with r1 p show ?thesis by simp
    next
      case False
      with p have "k = 0" by (auto simp: P_def)
      moreover have "vi_inv c vi1 sr1" using False r1 vi_reset_inv [of c vi sr 1 vi1 sr1] p by (simp add: P_def)
      ultimately show ?thesis using r1 False p n by (auto simp: P_def vi_reset_def)
    qed
    have sr: "sr_inv c sr1" using p1 by (simp add: P_def vi_inv_def)
    have "fst (sr_store_vc c sr1 (int k) sample_vc 352)"
      using k n assms(3) by (simp add: vcs.store_accepts)
    then obtain sr2 where st: "sr_store_vc c sr1 (int k) sample_vc 352 = (True, sr2)"
      by (cases "sr_store_vc c sr1 (int k) sample_vc 352") auto
    have new: "\<not> vi_received vi1 ! k" using p1 k by (simp add: P_def)
    have kn: "k < TBFT_MAX_NUM_REPLICAS c" using k n by simp
    have r2: "vi_collect_vc c vi sr (int k) sample_vc 352 = (True, vi_record vi1 k 0, sr2)"
    proof -
      have "vi_target_view vi \<le> vc_v sample_vc" using p by (auto simp: P_def sample_vc_facts)
      from vi_collect_eq [OF kn _ this r0 new st] show ?thesis by (simp add: sample_vc_facts)
    qed
    have ls: "length (vi_received vi1) = TBFT_MAX_NUM_REPLICAS c" "length (vi_last_stable vi1) = TBFT_MAX_NUM_REPLICAS c"
      using p1 by (simp_all add: P_def vi_inv_def)
    have inv2: "vi_inv c (vi_record vi1 k 0) sr2"
      using vi_store_inv [of c vi1 sr1 sample_vc k 352 sr2] p1 new st kn by (simp add: P_def sample_vc_facts)
    obtain b where b: "sr_load_vc c sr2 (int k) = (Some b, 352)" "take 352 b = take 352 sample_vc"
      using vcs.load_stored [OF sr, of "int k" sample_vc 352] st by (auto simp: sample_vc_facts)
    have other: "sr_load_vc c sr2 (int j) = sr_load_vc c sr1 (int j)" if "j \<noteq> k" for j
      using vcs.load_other [OF sr, of "int k" "int j" sample_vc 352] st that by simp
    have "P (Suc k) (vi_record vi1 k 0) sr2"
      using p1 inv2 ls k kn b other n
      by (auto simp: P_def less_Suc_eq) (auto simp: vi_record_def nth_list_update)
    with r2 show ?thesis by blast
  qed
  have "P 0 (vi_init c 4 t) (sr_init c 4 1)"
    using vi_init_inv [OF sr_init_inv, of c 4 t 4 1] n by (simp add: P_def vi_init_def)
  from step [OF this] obtain v1 s1 where 1: "vi_collect_vc c (vi_init c 4 t) (sr_init c 4 1) 0 sample_vc 352 = (True, v1, s1)" "P 1 v1 s1"
    by auto
  from step [OF 1(2)] obtain v2 s2 where 2: "vi_collect_vc c v1 s1 1 sample_vc 352 = (True, v2, s2)" "P 2 v2 s2"
    by (auto simp: numeral_2_eq_2)
  from step [OF 2(2)] obtain v3 s3 where 3: "vi_collect_vc c v2 s2 2 sample_vc 352 = (True, v3, s3)" "P 3 v3 s3"
    by (auto simp: eval_nat_numeral)
  have "r = (v3, s3)" using 1 2 3 by (simp add: r_def sample_vcs_def)
  with 3(2) show "vi_inv c (fst r) (snd r)" "vi_target_view (fst r) = 1" "vi_n_received (fst r) = 3"
    "vi_num_replicas (fst r) = 4" "vi_threshold (fst r) = t"
    "\<forall>i < 4. vi_received (fst r) ! i \<longleftrightarrow> i < 3" "\<forall>i < 4. vi_last_stable (fst r) ! i = 0"
    "\<forall>i < 3. \<exists>b. sr_load_vc c (snd r) (int i) = (Some b, 352) \<and> take 352 b = take 352 sample_vc"
    by (simp_all add: P_def)
qed

lemma vi_quorum_stored_witness:
  "\<exists>vi sr. fold (\<lambda>(s, m, l) (vi, sr). snd (vi_collect_vc default_config vi sr s m l)) sample_vcs
       (vi_init default_config 4 3, sr_init default_config 4 1) = (vi, sr) \<and>
     3 \<le> int (card {i. \<exists>vc l. sr_load_vc default_config sr i = (Some vc, l) \<and> int sz_view_change \<le> l \<and>
       vc_v vc = vi_target_view vi \<and> 0 \<le> i \<and> vc_ls vc = vi_last_stable vi ! nat i})"
proof -
  let ?r = "fold (\<lambda>(s, m, l) (vi, sr). snd (vi_collect_vc default_config vi sr s m l)) sample_vcs
    (vi_init default_config 4 3, sr_init default_config 4 1)"
  obtain vi sr where r: "?r = (vi, sr)" by (cases ?r)
  have "352 \<le> TBFT_MAX_MESSAGE_SIZE default_config" by simp
  from sample_vcs_collected(3,5) [OF default_config_ok this, of 3] r have "vi_has_quorum vi"
    by (simp add: vi_has_quorum_def)
  moreover have "\<forall>(s, m, l) \<in> set sample_vcs. nat l \<le> length m"
    by (simp add: sample_vcs_def sample_vc_facts)
  ultimately show ?thesis
    using vi_quorum_stored [OF sr_init_inv _ r] r by blast
qed



text \<open>C29: the proofs of a new-view are skipped when their byte count overflows.  With
  \<open>n_prep = 2 ^ 28\<close> the product with the size of a proof is 0 modulo \<open>2 ^ 32\<close>, so a new-view
  whose range is acceptable is accepted without a single attested proof.\<close>

theorem verify_nv_overflow:
  assumes "nv_n_prep nv = 268435456" "int sz_new_view \<le> nv_len" "nv_v nv = vi_target_view vi"
    and "nv_min nv \<le> nv_max nv" "vi_has_quorum vi"
    and "fst (vi_compute_min_max c vi) \<le> nv_min nv" "nv_max nv \<le> snd (vi_compute_min_max c vi)"
  shows "vi_verify_nv c vi sr nv nv_len"
proof -
  have "i32 (268435456 * 48) = 0" by (simp add: i32_def)
  then have "vi_proofs_ok c vi sr nv nv_len" using assms(1) by (simp add: vi_proofs_ok_def)
  with assms show ?thesis by (auto simp: vi_verify_nv_def vi_has_quorum_def split: prod.split)
qed

lemma verify_nv_overflow_witness:
  "vi_verify_nv default_config (vi_init default_config 4 0) (sr_init default_config 4 1)
     (wr_i32 40 268435456 (replicate 48 0)) 48"
  by (rule verify_nv_overflow)
    (simp_all add: nv_defs wire_simps i32_id vi_init_def vi_has_quorum_def vi_compute_min_max_def
      vi_min_max_step_def upt_rec)

end
