(* ===== verification/State_Fetch.thy ===== *)
theory State_Fetch
  imports State_Examples
begin

text \<open>
  The fetch protocol of the application state: the effect of a Data message, duplicates, the
  completion of the data phase, and what unrequested messages can do.  A Data message carries the
  digest it is checked against, so the check only binds the payload to the message itself.
\<close>

section \<open>Receiving a block\<close>

definition data_accepted :: "config \<Rightarrow> (bytes \<Rightarrow> bytes option) \<Rightarrow> app_state \<Rightarrow> bytes \<Rightarrow> bytes \<Rightarrow> bool" where
  "data_accepted c H st rep block \<longleftrightarrow> as_in_fetch st \<and> data_seqno rep = as_fetch_seqno st \<and>
     0 \<le> data_block_index rep \<and> data_block_index rep < as_num_blocks st \<and>
     \<not> fetch_received_test st (data_block_index rep) \<and>
     tbft_digest_equal (tbft_msg_digest H (field 0 (TBFT_BLOCK_SIZE c) block)) (data_digest rep)"

lemma handle_data_cases:
  "tbft_state_handle_data c H st rep block =
     (if data_accepted c H st rep block
      then let st' = data_write c H st rep (field 0 (TBFT_BLOCK_SIZE c) block)
           in if as_n_data_pending st' = 0 \<and> list_all fr_done (as_fetch_queue st') then tbft_state_fetch_complete st' else st'
      else st)"
  unfolding tbft_state_handle_data_def data_accepted_def Let_def
  by (simp only: not_less not_le de_Morgan_conj if_not_P split: if_split) auto

lemma data_write_simps [simp]:
  "as_mem (data_write c H st rep b) = put (nat (data_block_index rep) * TBFT_BLOCK_SIZE c) b (as_mem st)"
  "as_num_blocks (data_write c H st rep b) = as_num_blocks st"
  "as_in_fetch (data_write c H st rep b) = as_in_fetch st"
  "as_fetch_seqno (data_write c H st rep b) = as_fetch_seqno st"
  "as_fetch_queue (data_write c H st rep b) = as_fetch_queue st"
  "as_fetch_received (data_write c H st rep b) = words_set (as_fetch_received st) (data_block_index rep)"
  "as_n_data_pending (data_write c H st rep b) =
     (if 0 < as_n_data_pending st then as_n_data_pending st - 1 else as_n_data_pending st)"
  "as_cowb (data_write c H st rep b) = as_cowb st"
  "as_ckpt_records (data_write c H st rep b) = as_ckpt_records st"
  "as_last_stable (data_write c H st rep b) = as_last_stable st"
  "length (as_block_digests (data_write c H st rep b)) = length (as_block_digests st)"
  by (simp_all add: data_write_def Let_def fetch_received_set_def)

lemma fetch_complete_simps [simp]:
  "as_mem (tbft_state_fetch_complete st) = as_mem st"
  "as_num_blocks (tbft_state_fetch_complete st) = as_num_blocks st"
  "\<not> as_in_fetch (tbft_state_fetch_complete st)"
  "as_fetch_seqno (tbft_state_fetch_complete st) = as_fetch_seqno st"
  "as_cowb (tbft_state_fetch_complete st) = as_cowb st"
  "as_ckpt_records (tbft_state_fetch_complete st) = as_ckpt_records st"
  "as_last_stable (tbft_state_fetch_complete st) = as_last_stable st"
  "as_block_digests (tbft_state_fetch_complete st) = as_block_digests st"
  "length (as_fetch_received (tbft_state_fetch_complete st)) = length (as_fetch_received st)"
  by (simp_all add: tbft_state_fetch_complete_def fetch_received_zero_def)

lemma handle_data_mem:
  "as_mem (tbft_state_handle_data c H st rep block) =
     (if data_accepted c H st rep block
      then put (nat (data_block_index rep) * TBFT_BLOCK_SIZE c) (field 0 (TBFT_BLOCK_SIZE c) block) (as_mem st)
      else as_mem st)"
  by (simp add: handle_data_cases Let_def)

lemma data_put_blocks:
  assumes sh: "as_shape c st" and i: "0 \<le> i" "i < as_num_blocks st" and b: "length b = TBFT_BLOCK_SIZE c"
  shows "length (put (nat i * TBFT_BLOCK_SIZE c) b (as_mem st)) = length (as_mem st)"
    and "int j < as_num_blocks st \<Longrightarrow> block_at c (put (nat i * TBFT_BLOCK_SIZE c) b (as_mem st)) j =
      (if int j = i then b else block_at c (as_mem st) j)"
proof -
  let ?n = "nat (as_num_blocks st)"
  have len: "length (as_mem st) = ?n * TBFT_BLOCK_SIZE c" using sh by (simp add: as_shape_def)
  have ni: "nat i < ?n" using i by simp
  show "length (put (nat i * TBFT_BLOCK_SIZE c) b (as_mem st)) = length (as_mem st)"
    using block_fits [OF ni, of "TBFT_BLOCK_SIZE c"] len b by simp
  show "block_at c (put (nat i * TBFT_BLOCK_SIZE c) b (as_mem st)) j =
      (if int j = i then b else block_at c (as_mem st) j)" if "int j < as_num_blocks st"
    using block_at_put_block [OF len _ ni b, of j] that i(1) by auto
qed

text \<open>The effect of a Data message.  It either leaves the memory alone, or it was accepted,
  its payload hashes to the digest it carries, and exactly the announced block is replaced by the
  payload; the shape of the state (sizes of memory, bitmaps and records) is kept in every case.\<close>

lemma handle_data_effect:
  assumes sh: "as_shape c st"
  shows "as_shape c (tbft_state_handle_data c H st rep block) \<and>
    (as_mem (tbft_state_handle_data c H st rep block) = as_mem st \<or>
     data_accepted c H st rep block \<and>
     (\<forall>j. int j < as_num_blocks st \<longrightarrow>
        block_at c (as_mem (tbft_state_handle_data c H st rep block)) j =
          (if int j = data_block_index rep then field 0 (TBFT_BLOCK_SIZE c) block else block_at c (as_mem st) j)))"
proof (cases "data_accepted c H st rep block")
  case False
  then show ?thesis using sh by (simp add: handle_data_cases)
next
  case True
  then have i: "0 \<le> data_block_index rep" "data_block_index rep < as_num_blocks st" by (simp_all add: data_accepted_def)
  note d = data_put_blocks [OF sh i, of "field 0 (TBFT_BLOCK_SIZE c) block"]
  have "as_shape c (tbft_state_handle_data c H st rep block)"
    using sh d(1) True by (simp add: handle_data_cases as_shape_def Let_def)
  then show ?thesis using True d(2) by (simp add: handle_data_mem)
qed

lemma received_after_write:
  assumes sh: "as_shape c st" and a: "data_accepted c H st rep block"
  shows "fetch_received_test (data_write c H st rep b) (data_block_index rep)"
proof -
  have i: "0 \<le> data_block_index rep" "data_block_index rep < as_num_blocks st" using a by (simp_all add: data_accepted_def)
  have "int (TBFT_MAX_STATE_BLOCKS c) \<le> 64 * int ((TBFT_MAX_STATE_BLOCKS c + 63) div 64)" by (simp add: zdiv_int)
  then have "data_block_index rep < 64 * int (length (as_fetch_received st))" using sh i by (simp add: as_shape_def)
  with i show ?thesis by (simp add: fetch_received_test_def words_test_set)
qed

text \<open>C30: a retransmitted Data message is ignored: handling the same message twice is handling it
  once, so that a duplicate neither rewrites the block nor counts down the pending requests.\<close>

theorem handle_data_idempotent:
  assumes sh: "as_shape c st"
  shows "tbft_state_handle_data c H (tbft_state_handle_data c H st rep block) rep block = tbft_state_handle_data c H st rep block"
proof (cases "data_accepted c H st rep block")
  case False
  then show ?thesis by (simp add: handle_data_cases)
next
  case True
  then have "\<not> data_accepted c H (tbft_state_handle_data c H st rep block) rep block"
    using received_after_write [OF sh True] by (auto simp: handle_data_cases [of c H st] data_accepted_def Let_def)
  then show ?thesis by (subst handle_data_cases) simp
qed

section \<open>The data phase of a fetch\<close>

text \<open>A Data message as the replier of the fetch builds it from its memory \<open>M\<close>.\<close>

definition honest_data :: "config \<Rightarrow> (bytes \<Rightarrow> bytes option) \<Rightarrow> int \<Rightarrow> bytes \<Rightarrow> bytes \<times> bytes \<Rightarrow> bool" where
  "honest_data c H n M d \<longleftrightarrow> data_seqno (fst d) = n \<and> 0 \<le> data_block_index (fst d) \<and>
     field 0 (TBFT_BLOCK_SIZE c) (snd d) = block_at c M (nat (data_block_index (fst d))) \<and>
     data_digest (fst d) = tbft_msg_digest H (block_at c M (nat (data_block_index (fst d))))"

text \<open>Blocks \<open>L\<close> were requested, \<open>R\<close> of them have arrived from \<open>M\<close>, nothing else has changed.\<close>

definition data_phase :: "config \<Rightarrow> app_state \<Rightarrow> bytes \<Rightarrow> int set \<Rightarrow> int set \<Rightarrow> app_state \<Rightarrow> bool" where
  "data_phase c st0 M L R st \<longleftrightarrow> as_shape c st \<and> as_num_blocks st = as_num_blocks st0 \<and>
     as_fetch_seqno st = as_fetch_seqno st0 \<and> R \<subseteq> L \<and>
     (\<forall>j. int j < as_num_blocks st0 \<longrightarrow>
        block_at c (as_mem st) j = (if int j \<in> R then block_at c M j else block_at c (as_mem st0) j)) \<and>
     (if R = L then \<not> as_in_fetch st
      else as_in_fetch st \<and> list_all fr_done (as_fetch_queue st) \<and> as_n_data_pending st = int (card (L - R)) \<and>
        (\<forall>i \<in> L. fetch_received_test st i \<longleftrightarrow> i \<in> R))"

lemma fetch_received_write:
  assumes sh: "as_shape c st" and i: "0 \<le> data_block_index rep" "data_block_index rep < as_num_blocks st" "0 \<le> j"
  shows "fetch_received_test (data_write c H st rep b) j \<longleftrightarrow> data_block_index rep = j \<or> fetch_received_test st j"
proof -
  have "int (TBFT_MAX_STATE_BLOCKS c) \<le> 64 * int ((TBFT_MAX_STATE_BLOCKS c + 63) div 64)" by (simp add: zdiv_int)
  then have "data_block_index rep < 64 * int (length (as_fetch_received st))" using sh i by (simp add: as_shape_def)
  with i show ?thesis by (simp add: fetch_received_test_def words_test_set)
qed

lemma data_phase_step:
  assumes ph: "data_phase c st0 M L R st" and L: "L \<subseteq> {0 ..< as_num_blocks st0}" "finite L"
    and d: "honest_data c H (as_fetch_seqno st0) M d" "data_block_index (fst d) \<in> L"
  shows "data_phase c st0 M L (insert (data_block_index (fst d)) R) (tbft_state_handle_data c H st (fst d) (snd d))"
    (is "data_phase c st0 M L (insert ?i R) ?st'")
proof (cases "R = L \<or> ?i \<in> R")
  case True
  then have ins: "insert ?i R = R" using d(2) by auto
  have "\<not> data_accepted c H st (fst d) (snd d)"
    using True ph d(2) by (auto simp: data_phase_def data_accepted_def split: if_splits)
  then show ?thesis using ph by (simp add: handle_data_cases ins)
next
  case False
  then have ph': "as_shape c st" "as_num_blocks st = as_num_blocks st0" "as_fetch_seqno st = as_fetch_seqno st0" "R \<subseteq> L"
      "as_in_fetch st" "list_all fr_done (as_fetch_queue st)" "as_n_data_pending st = int (card (L - R))"
      "\<forall>i \<in> L. fetch_received_test st i \<longleftrightarrow> i \<in> R"
    and blk: "\<And>j. int j < as_num_blocks st0 \<Longrightarrow>
      block_at c (as_mem st) j = (if int j \<in> R then block_at c M j else block_at c (as_mem st0) j)"
    using ph by (auto simp: data_phase_def)
  have i: "0 \<le> ?i" "?i < as_num_blocks st" using d(2) L(1) ph'(2) by auto
  have acc: "data_accepted c H st (fst d) (snd d)"
    using d i ph' False by (simp add: data_accepted_def honest_data_def)
  let ?b = "field 0 (TBFT_BLOCK_SIZE c) (snd d)"
  let ?w = "data_write c H st (fst d) ?b"
  have st': "?st' = (if as_n_data_pending ?w = 0 then tbft_state_fetch_complete ?w else ?w)"
    using acc ph'(6) by (simp add: handle_data_cases Let_def)
  have memw: "as_mem ?st' = as_mem ?w" by (simp add: st')
  have blk': "block_at c (as_mem ?st') j = (if int j \<in> insert ?i R then block_at c M j else block_at c (as_mem st0) j)"
    if j: "int j < as_num_blocks st0" for j
  proof -
    have b: "?b = block_at c M (nat ?i)" using d(1) by (simp add: honest_data_def)
    have "block_at c (as_mem ?st') j = (if int j = ?i then ?b else block_at c (as_mem st) j)"
      using data_put_blocks(2) [OF ph'(1) i, of ?b j] j ph'(2) by (simp add: memw)
    moreover have "int j = ?i \<Longrightarrow> nat ?i = j" by linarith
    ultimately show ?thesis using b blk [OF j] by (cases "int j = ?i") auto
  qed
  have card: "card (L - R) = Suc (card (L - insert ?i R))"
  proof -
    have e: "L - insert ?i R = (L - R) - {?i}" by auto
    show ?thesis using card_Suc_Diff1 [of "L - R" ?i] d(2) False L(2) unfolding e by simp
  qed
  have pend: "as_n_data_pending ?w = int (card (L - insert ?i R))" using ph'(7) by (simp add: card)
  have done0: "as_n_data_pending ?w = 0 \<longleftrightarrow> insert ?i R = L"
    using pend L(2) ph'(4) d(2) by auto
  have shp: "as_shape c ?st'" using handle_data_effect [OF ph'(1)] by blast
  have rec: "\<forall>j \<in> L. fetch_received_test ?w j \<longleftrightarrow> j \<in> insert ?i R"
    using fetch_received_write [OF ph'(1) i] ph'(8) L(1) by auto
  have sub: "insert ?i R \<subseteq> L" using ph'(4) d(2) by simp
  show ?thesis
  proof (cases "insert ?i R = L")
    case True
    then have "?st' = tbft_state_fetch_complete ?w" using st' done0 by simp
    with shp blk' ph'(2,3) sub True show ?thesis unfolding data_phase_def by simp
  next
    case False
    then have "?st' = ?w" using st' done0 by simp
    with shp blk' ph'(2,3,5,6) sub False pend rec show ?thesis unfolding data_phase_def by simp
  qed
qed

lemma data_phase_fold:
  assumes L: "L \<subseteq> {0 ..< as_num_blocks st0}" "finite L"
    and ds: "\<forall>d \<in> set ds. honest_data c H (as_fetch_seqno st0) M d \<and> data_block_index (fst d) \<in> L"
    and ph: "data_phase c st0 M L R st"
  shows "data_phase c st0 M L (R \<union> (data_block_index \<circ> fst) ` set ds)
    (fold (\<lambda>d st. tbft_state_handle_data c H st (fst d) (snd d)) ds st)"
  using ds ph
proof (induction ds arbitrary: R st)
  case Nil
  then show ?case by simp
next
  case (Cons d ds)
  have "data_phase c st0 M L (insert (data_block_index (fst d)) R) (tbft_state_handle_data c H st (fst d) (snd d))"
    using Cons.prems by (intro data_phase_step [OF _ L]) auto
  from Cons.IH [OF _ this] Cons.prems(1) show ?case by simp
qed

text \<open>C25: the data phase of a fetch terminates with the replier's blocks.  All leaf requests \<open>L\<close>
  have been sent.  Whatever the order in which the replier's Data messages arrive, and however
  often each is repeated, once every requested block has arrived the fetch is complete, the
  requested blocks are the replier's and no other block has changed.\<close>

theorem fetch_data_phase_completes:
  assumes sh: "as_shape c st" and L: "L \<subseteq> {0 ..< as_num_blocks st}" "L \<noteq> {}"
    and start: "as_in_fetch st" "list_all fr_done (as_fetch_queue st)" "as_n_data_pending st = int (card L)"
      "\<forall>i \<in> L. \<not> fetch_received_test st i"
    and ds: "\<forall>d \<in> set ds. honest_data c H (as_fetch_seqno st) M d" "(data_block_index \<circ> fst) ` set ds = L"
  shows "\<not> as_in_fetch (fold (\<lambda>d st. tbft_state_handle_data c H st (fst d) (snd d)) ds st) \<and>
    (\<forall>j. int j < as_num_blocks st \<longrightarrow>
      block_at c (as_mem (fold (\<lambda>d st. tbft_state_handle_data c H st (fst d) (snd d)) ds st)) j =
        (if int j \<in> L then block_at c M j else block_at c (as_mem st) j))"
proof -
  have fin: "finite L" by (rule finite_subset [OF L(1)]) simp
  have "data_phase c st M L {} st" using sh L start by (simp add: data_phase_def)
  from data_phase_fold [OF L(1) fin _ this, of ds H] ds
  have "data_phase c st M L L (fold (\<lambda>d st. tbft_state_handle_data c H st (fst d) (snd d)) ds st)" by auto
  then show ?thesis by (simp add: data_phase_def)
qed

text \<open>C31: a single unrequested Data message ends a fetch.  After \<open>start_fetch\<close> on a tree with
  inner levels and the sending of the root request, nothing has been verified yet.  Any Data
  message for the fetched sequence number whose payload matches its own digest, from anyone, is
  written to the state and completes the fetch: the queue is all done and no data is pending.\<close>

theorem forged_data_completes_fetch:
  assumes sh: "as_shape c st" and lv: "pt_levels (as_ptree st) \<noteq> 1"
    and s: "s = snd (tbft_state_next_fetch_req (tbft_state_start_fetch c now st n replier))"
    and d: "data_seqno rep = n" "0 \<le> data_block_index rep" "data_block_index rep < as_num_blocks st"
      "data_digest rep = tbft_msg_digest H (field 0 (TBFT_BLOCK_SIZE c) block)"
  shows "as_in_fetch s \<and> \<not> as_in_fetch (tbft_state_handle_data c H s rep block) \<and>
    block_at c (as_mem (tbft_state_handle_data c H s rep block)) (nat (data_block_index rep)) = field 0 (TBFT_BLOCK_SIZE c) block"
proof -
  let ?q = "tbft_state_start_fetch c now st n replier"
  have q: "as_fetch_queue ?q = [\<lparr> fr_level = 0, fr_index = 0, fr_done = False \<rparr>]" "as_in_fetch ?q" "as_fetch_seqno ?q = n"
    "as_n_data_pending ?q = 0" "as_ptree ?q = as_ptree st" "as_num_blocks ?q = as_num_blocks st" "as_mem ?q = as_mem st"
    "as_fetch_received ?q = words_zero (as_fetch_received st)"
    using lv by (simp_all add: tbft_state_start_fetch_def fetch_received_zero_def Let_def)
  have ql: "(0 :: int) \<noteq> int (pt_levels (as_ptree st)) - 1" using lv by auto
  have s': "as_in_fetch s" "as_fetch_seqno s = n" "as_num_blocks s = as_num_blocks st" "as_mem s = as_mem st"
    "as_n_data_pending s = 0" "list_all fr_done (as_fetch_queue s)" "as_fetch_received s = words_zero (as_fetch_received st)"
    using q ql by (simp_all add: s tbft_state_next_fetch_req_def Let_def)
  have acc: "data_accepted c H s rep block"
    using s' d by (simp add: data_accepted_def fetch_received_test_def)
  then have "\<not> as_in_fetch (tbft_state_handle_data c H s rep block)"
    using s' by (simp add: handle_data_cases Let_def)
  moreover have "block_at c (as_mem (tbft_state_handle_data c H s rep block)) (nat (data_block_index rep)) = field 0 (TBFT_BLOCK_SIZE c) block"
    using data_put_blocks(2) [OF sh d(2,3), of "field 0 (TBFT_BLOCK_SIZE c) block" "nat (data_block_index rep)"] acc d(2,3) s'(4)
    by (simp add: handle_data_mem)
  ultimately show ?thesis using s'(1) by simp
qed


section \<open>Witnesses\<close>

text \<open>The Data message for block \<open>i\<close> with the one-byte payload \<open>b\<close>, for sequence number 8.\<close>

definition sample_data :: "int \<Rightarrow> u8 \<Rightarrow> bytes \<times> bytes" where
  "sample_data i b = (wr_i64 16 8 (wr_i32 24 i (put 32 (b # replicate 31 9) (replicate 64 0))), [b])"

lemma field_byte [simp]: "field 0 (Suc 0) [b] = [b]"
  by (simp add: field_def byte_at_def)

lemma sample_data_fields [simp]:
  "data_seqno (fst (sample_data i b)) = 8" "data_block_index (fst (sample_data i b)) = i32 i"
  "data_digest (fst (sample_data i b)) = b # replicate 31 9" "field 0 (Suc 0) (snd (sample_data i b)) = [b]"
  by (simp_all add: sample_data_def data_seqno_def data_block_index_def data_digest_def wire_simps i64_id)

lemma pad_hash_byte [simp]: "tbft_msg_digest pad_hash [b] = b # replicate 31 9"
  by (simp add: tbft_msg_digest_def pad_hash_def)

definition small_fetching :: app_state where
  "small_fetching = (the (tbft_state_init small_config (\<lambda>_. True) [1, 2]))\<lparr> as_in_fetch := True, as_fetch_seqno := 8,
     as_fetch_queue := [\<lparr> fr_level = 1, fr_index = 0, fr_done = True \<rparr>, \<lparr> fr_level = 1, fr_index = 1, fr_done = True \<rparr>],
     as_n_data_pending := 2 \<rparr>"

lemma small_shape: "as_shape small_config (the (tbft_state_init small_config (\<lambda>_. True) [1, 2]))"
  by (simp add: small_state_init as_shape_def)

lemma small_fetching_shape: "as_shape small_config small_fetching"
  using small_shape by (simp add: small_fetching_def as_shape_def)

lemma handle_data_idempotent_witness:
  "tbft_state_handle_data small_config pad_hash (tbft_state_handle_data small_config pad_hash small_fetching
     (fst (sample_data 1 7)) [7]) (fst (sample_data 1 7)) [7] =
   tbft_state_handle_data small_config pad_hash small_fetching (fst (sample_data 1 7)) [7]"
  by (rule handle_data_idempotent [OF small_fetching_shape])

lemma fetch_data_phase_completes_witness:
  "\<not> as_in_fetch (fold (\<lambda>d st. tbft_state_handle_data small_config pad_hash st (fst d) (snd d))
      [sample_data 1 8, sample_data 1 8, sample_data 0 9] small_fetching)"
proof -
  have ds: "\<forall>d \<in> set [sample_data 1 8, sample_data 1 8, sample_data 0 9].
      honest_data small_config pad_hash (as_fetch_seqno small_fetching) [9, 8] d"
    by (simp add: honest_data_def small_fetching_def block_at_def i32_id)
  have im: "(data_block_index \<circ> fst) ` set [sample_data 1 8, sample_data 1 8, sample_data 0 9] = {0, 1}"
    by (auto simp: i32_id)
  show ?thesis
    by (rule fetch_data_phase_completes [OF small_fetching_shape _ _ _ _ _ _ ds im, THEN conjunct1])
      (simp_all add: small_fetching_def small_state_init fetch_received_test_def words_test_def)
qed

lemma forged_data_completes_fetch_witness:
  "\<not> as_in_fetch (tbft_state_handle_data small_config pad_hash
     (snd (tbft_state_next_fetch_req (tbft_state_start_fetch small_config 0 (the (tbft_state_init small_config (\<lambda>_. True) [1, 2])) 8 1)))
     (fst (sample_data 1 66)) [66])"
  by (rule forged_data_completes_fetch [OF small_shape _ refl, THEN conjunct2, THEN conjunct1])
    (simp_all add: small_state_init i32_id)

end
