(* ===== verification/Principal.thy ===== *)
theory Principal
  imports Message
begin

text \<open>
  A principal, \<open>src/tbft_principal.h\<close> and \<open>tbft_principal.c\<close>: the keys shared with a peer and the
  operations on them.  PSA Crypto and the mbedtls key parser are parameters, the record \<open>psa\<close>.  A
  call that can fail returns its status (0 is \<open>PSA_SUCCESS\<close>) and its output buffer; a call that the
  code retries takes the number of the attempt.  A key handle is the key material it was imported
  from, \<open>None\<close> for the handle 0, so that a handle and its key cannot drift apart.
\<close>

section \<open>PSA Crypto\<close>

datatype key_usage = USAGE_SIGN | USAGE_VERIFY | USAGE_ENCRYPT | USAGE_DECRYPT

record psa =
  psa_hash_compute :: "bytes \<Rightarrow> bytes option"
  psa_import_key :: "key_usage \<Rightarrow> bytes \<Rightarrow> bool"
  psa_mac_compute :: "bytes \<Rightarrow> bytes \<Rightarrow> int \<times> bytes"
  psa_mac_verify :: "bytes \<Rightarrow> bytes \<Rightarrow> bytes \<Rightarrow> bool"
  psa_sign_hash :: "nat \<Rightarrow> bytes \<Rightarrow> bytes \<Rightarrow> int \<times> bytes"
  psa_verify_hash :: "bytes \<Rightarrow> bytes \<Rightarrow> bytes \<Rightarrow> bool"
  psa_asymmetric_encrypt :: "nat \<Rightarrow> bytes \<Rightarrow> bytes \<Rightarrow> int \<times> bytes"
  psa_asymmetric_decrypt :: "bytes \<Rightarrow> bytes \<Rightarrow> int \<times> bytes"
  mbedtls_pk_parse_key :: "bytes \<Rightarrow> bool"
  mbedtls_pk_parse_public_key :: "bytes \<Rightarrow> bool"
  mbedtls_pk_get_psa_attributes :: "key_usage \<Rightarrow> bytes \<Rightarrow> bool"
  mbedtls_pk_import_into_psa :: "key_usage \<Rightarrow> bytes \<Rightarrow> bool"

text \<open>\<open>PSA_ERROR_INSUFFICIENT_ENTROPY\<close>, the one failure that is retried.\<close>

definition INSUFFICIENT_ENTROPY :: int where
  "INSUFFICIENT_ENTROPY = - 148"

text \<open>Documented behaviour the code relies on: a computed MAC has 32 bytes and verifies under the
  same key; the same for signatures and for decrypting what was encrypted, for a key pair
  \<open>(priv, pub)\<close>.\<close>

definition mac_ok :: "psa \<Rightarrow> bool" where
  "mac_ok E \<longleftrightarrow> (\<forall>k m t. psa_mac_compute E k m = (0, t) \<longrightarrow> length t = TBFT_HMAC_SIZE \<and> psa_mac_verify E k m t)"

definition sig_pair_ok :: "psa \<Rightarrow> bytes \<Rightarrow> bytes \<Rightarrow> bool" where
  "sig_pair_ok E priv pub \<longleftrightarrow>
     (\<forall>n h s. psa_sign_hash E n priv h = (0, s) \<longrightarrow> psa_verify_hash E pub h s)"

definition enc_pair_ok :: "psa \<Rightarrow> bytes \<Rightarrow> bytes \<Rightarrow> bool" where
  "enc_pair_ok E priv pub \<longleftrightarrow>
     (\<forall>n k x. psa_asymmetric_encrypt E n pub k = (0, x) \<longrightarrow> psa_asymmetric_decrypt E priv x = (0, k))"

section \<open>State\<close>

record principal =
  p_id :: int
  p_addr :: bytes
  p_pub_verify_id :: "bytes option"
  p_pub_encrypt_id :: "bytes option"
  p_priv_sign_id :: "bytes option"
  p_priv_decrypt_id :: "bytes option"
  p_hmac_in_key :: bytes
  p_hmac_out_key :: bytes
  p_keys_fresh :: bool
  p_hmac_in_id :: "bytes option"
  p_hmac_out_id :: "bytes option"
  p_last_auth_time_us :: int
  p_last_new_key_ciphertext :: bytes
  p_last_sent_new_key_ciphertext :: bytes

definition zero_key :: bytes where
  "zero_key = replicate TBFT_HMAC_KEY_SIZE 0"

definition tbft_principal_init :: "int \<Rightarrow> bytes \<Rightarrow> principal" where
  "tbft_principal_init pid addr = \<lparr> p_id = pid, p_addr = addr, p_pub_verify_id = None, p_pub_encrypt_id = None,
     p_priv_sign_id = None, p_priv_decrypt_id = None, p_hmac_in_key = zero_key, p_hmac_out_key = zero_key,
     p_keys_fresh = False, p_hmac_in_id = None, p_hmac_out_id = None, p_last_auth_time_us = 0,
     p_last_new_key_ciphertext = replicate TBFT_SIG_SIZE 0,
     p_last_sent_new_key_ciphertext = replicate TBFT_SIG_SIZE 0 \<rparr>"

section \<open>RSA keys\<close>

definition import_rsa_key :: "psa \<Rightarrow> bool \<Rightarrow> key_usage \<Rightarrow> bytes \<Rightarrow> bytes option" where
  "import_rsa_key E key_pair usage der =
     (if key_pair \<and> \<not> mbedtls_pk_parse_key E der then None
      else if \<not> key_pair \<and> \<not> mbedtls_pk_parse_public_key E der then None
      else if \<not> mbedtls_pk_get_psa_attributes E usage der then None
      else if \<not> mbedtls_pk_import_into_psa E usage der then None
      else Some der)"

text \<open>The result is the return code and the updated principal.\<close>

definition tbft_principal_load_pub_key :: "psa \<Rightarrow> principal \<Rightarrow> bytes \<Rightarrow> int \<times> principal" where
  "tbft_principal_load_pub_key E p der =
     (let p = p\<lparr> p_pub_verify_id := None, p_pub_encrypt_id := None \<rparr>;
          p = p\<lparr> p_pub_verify_id := import_rsa_key E False USAGE_VERIFY der \<rparr>
      in if p_pub_verify_id p = None then (- 1, p)
         else let p = p\<lparr> p_pub_encrypt_id := import_rsa_key E False USAGE_ENCRYPT der \<rparr>
           in if p_pub_encrypt_id p = None then (- 1, p\<lparr> p_pub_verify_id := None \<rparr>) else (0, p))"

definition tbft_principal_load_priv_key :: "psa \<Rightarrow> principal \<Rightarrow> bytes \<Rightarrow> int \<times> principal" where
  "tbft_principal_load_priv_key E p der =
     (let p = p\<lparr> p_priv_sign_id := None, p_priv_decrypt_id := None \<rparr>;
          p = p\<lparr> p_priv_sign_id := import_rsa_key E True USAGE_SIGN der \<rparr>
      in if p_priv_sign_id p = None then (- 1, p)
         else let p = p\<lparr> p_priv_decrypt_id := import_rsa_key E True USAGE_DECRYPT der \<rparr>
           in if p_priv_decrypt_id p = None then (- 1, p\<lparr> p_priv_sign_id := None \<rparr>) else (0, p))"

section \<open>HMAC\<close>

definition import_hmac_key :: "psa \<Rightarrow> key_usage \<Rightarrow> bytes \<Rightarrow> bytes option" where
  "import_hmac_key E usage key = (if psa_import_key E usage key then Some key else None)"

text \<open>The return code and the MAC buffer after the call; \<open>mac0\<close> is its contents before.\<close>

definition mac_result :: "int \<times> bytes \<Rightarrow> int \<times> bytes" where
  "mac_result r = (if fst r \<noteq> 0 \<or> length (snd r) \<noteq> TBFT_HMAC_SIZE
                   then (if fst r \<noteq> 0 then fst r else - 1, snd r) else (0, snd r))"

definition tbft_principal_gen_mac_out :: "psa \<Rightarrow> principal \<Rightarrow> bytes \<Rightarrow> bytes \<Rightarrow> int \<times> bytes" where
  "tbft_principal_gen_mac_out E p msg mac0 =
     (case p_hmac_out_id p of
        Some k \<Rightarrow> mac_result (psa_mac_compute E k msg)
      | None \<Rightarrow>
          (case import_hmac_key E USAGE_SIGN (p_hmac_out_key p) of
             None \<Rightarrow> (- 1, mac0)
           | Some k \<Rightarrow> mac_result (psa_mac_compute E k msg)))"

definition tbft_principal_verify_mac_in :: "psa \<Rightarrow> principal \<Rightarrow> bytes \<Rightarrow> bytes \<Rightarrow> bool" where
  "tbft_principal_verify_mac_in E p msg mac =
     (case p_hmac_in_id p of
        Some k \<Rightarrow> psa_mac_verify E k msg mac
      | None \<Rightarrow>
          (case import_hmac_key E USAGE_VERIFY (p_hmac_in_key p) of
             None \<Rightarrow> False
           | Some k \<Rightarrow> psa_mac_verify E k msg mac))"

definition tbft_principal_verify_mac_in_with_replay_check :: "psa \<Rightarrow> principal \<Rightarrow> bytes \<Rightarrow> bytes \<Rightarrow> int \<Rightarrow> bool" where
  "tbft_principal_verify_mac_in_with_replay_check E p msg mac msg_time_us =
     (if \<not> tbft_principal_verify_mac_in E p msg mac then False else True)"

definition tbft_principal_update_auth_time :: "principal \<Rightarrow> int \<Rightarrow> principal" where
  "tbft_principal_update_auth_time p time_us = p\<lparr> p_last_auth_time_us := time_us \<rparr>"

text \<open>The bytes \<open>test123\<close> of the self test.\<close>

definition test_msg :: bytes where
  "test_msg = [0x74, 0x65, 0x73, 0x74, 0x31, 0x32, 0x33]"

definition key_self_test :: "psa \<Rightarrow> bytes \<Rightarrow> bytes \<Rightarrow> bool" where
  "key_self_test E in_id key =
     (case import_hmac_key E USAGE_SIGN key of
        None \<Rightarrow> False
      | Some k \<Rightarrow>
          let r = psa_mac_compute E k test_msg
          in if fst r \<noteq> 0 \<or> length (snd r) \<noteq> TBFT_HMAC_SIZE then False
             else psa_mac_verify E in_id test_msg (snd r))"

definition tbft_principal_set_in_key :: "psa \<Rightarrow> principal \<Rightarrow> bytes \<Rightarrow> principal" where
  "tbft_principal_set_in_key E p key =
     (case import_hmac_key E USAGE_VERIFY key of
        None \<Rightarrow> p\<lparr> p_keys_fresh := False \<rparr>
      | Some k \<Rightarrow> p\<lparr> p_hmac_in_key := key, p_hmac_in_id := Some k,
                     p_keys_fresh := key_self_test E k key, p_last_auth_time_us := 0 \<rparr>)"

definition tbft_principal_set_out_key :: "psa \<Rightarrow> principal \<Rightarrow> bytes \<Rightarrow> principal" where
  "tbft_principal_set_out_key E p key =
     p\<lparr> p_hmac_out_key := key, p_hmac_out_id := import_hmac_key E USAGE_SIGN key \<rparr>"

section \<open>Signatures and key transport\<close>

text \<open>The retry loop: up to five attempts, stopping at success or at any status other than
  insufficient entropy.  The result is the status of the last attempt and its output; \<open>n\<close> is the
  number of the next attempt.\<close>

function retry_loop :: "(nat \<Rightarrow> int \<times> bytes) \<Rightarrow> nat \<Rightarrow> int \<times> bytes \<Rightarrow> int \<times> bytes" where
  "retry_loop f n r =
     (if 5 \<le> n then r
      else let r = f n in if fst r = 0 then r
           else if fst r \<noteq> INSUFFICIENT_ENTROPY then r else retry_loop f (Suc n) r)"
  by pat_completeness auto
termination by (relation "measure (\<lambda>(_, n, _). 5 - n)") auto

declare retry_loop.simps [simp del]

definition tbft_principal_sign :: "psa \<Rightarrow> principal \<Rightarrow> bytes \<Rightarrow> bytes \<Rightarrow> int \<times> bytes" where
  "tbft_principal_sign E p msg sig0 =
     (case p_priv_sign_id p of
        None \<Rightarrow> (- 1, sig0)
      | Some k \<Rightarrow>
          (case psa_hash_compute E msg of
             None \<Rightarrow> (- 1, sig0)
           | Some hash \<Rightarrow>
               if length hash \<noteq> TBFT_DIGEST_SIZE then (- 1, sig0)
               else let r = retry_loop (\<lambda>n. psa_sign_hash E n k hash) 0 (INSUFFICIENT_ENTROPY, sig0)
                 in if fst r \<noteq> 0 then r
                    else if length (snd r) \<noteq> TBFT_SIG_SIZE then (- 1, snd r) else (0, snd r)))"

definition tbft_principal_verify_sig :: "psa \<Rightarrow> principal \<Rightarrow> bytes \<Rightarrow> bytes \<Rightarrow> bool" where
  "tbft_principal_verify_sig E p msg sig =
     (case p_pub_verify_id p of
        None \<Rightarrow> False
      | Some k \<Rightarrow>
          (case psa_hash_compute E msg of
             None \<Rightarrow> False
           | Some hash \<Rightarrow>
               if length hash \<noteq> TBFT_DIGEST_SIZE then False else psa_verify_hash E k hash sig))"

definition tbft_principal_encrypt_new_key :: "psa \<Rightarrow> principal \<Rightarrow> bytes \<Rightarrow> bytes \<Rightarrow> int \<times> bytes" where
  "tbft_principal_encrypt_new_key E p new_out_key enc_buf0 =
     (case p_pub_encrypt_id p of
        None \<Rightarrow> (- 1, enc_buf0)
      | Some k \<Rightarrow>
          if length enc_buf0 < TBFT_SIG_SIZE then (- 1, enc_buf0)
          else retry_loop (\<lambda>n. psa_asymmetric_encrypt E n k new_out_key) 0 (INSUFFICIENT_ENTROPY, enc_buf0))"

definition tbft_principal_decrypt_new_key :: "psa \<Rightarrow> principal \<Rightarrow> bytes \<Rightarrow> int \<times> bytes" where
  "tbft_principal_decrypt_new_key E p enc_buf =
     (case p_priv_decrypt_id p of
        None \<Rightarrow> (- 1, zero_key)
      | Some k \<Rightarrow>
          let r = psa_asymmetric_decrypt E k enc_buf
          in if fst r \<noteq> 0 then r
             else if length (snd r) \<noteq> TBFT_HMAC_KEY_SIZE then (- 1, snd r) else (0, snd r))"

section \<open>Laws\<close>

text \<open>The retry loop returns the first attempt that is not out of entropy, and otherwise the fifth.\<close>

lemma retry_loop_stops:
  assumes "\<forall>k < n. fst (f k) = INSUFFICIENT_ENTROPY" "fst (f n) \<noteq> INSUFFICIENT_ENTROPY" "n < 5" "m \<le> n"
  shows "retry_loop f m r = f n"
  using assms(4)
proof (induction "n - m" arbitrary: m r)
  case 0
  then have "m = n" by simp
  with assms(2,3) show ?case by (simp add: retry_loop.simps Let_def)
next
  case (Suc d)
  then have m: "m < n" by simp
  then have e: "fst (f m) = INSUFFICIENT_ENTROPY" "INSUFFICIENT_ENTROPY \<noteq> 0"
    using assms(1) by (simp_all add: INSUFFICIENT_ENTROPY_def)
  have "retry_loop f m r = retry_loop f (Suc m) (f m)"
    using m assms(3) e by (subst retry_loop.simps) (simp add: Let_def)
  with Suc.hyps m show ?case by simp
qed

lemma retry_loop_success:
  "fst (retry_loop f m r) = 0 \<Longrightarrow> fst r \<noteq> 0 \<Longrightarrow> \<exists>n. m \<le> n \<and> n < 5 \<and> retry_loop f m r = f n"
proof (induction f m r rule: retry_loop.induct)
  case (1 f n r)
  show ?case
  proof (cases "5 \<le> n")
    case True
    with "1.prems" show ?thesis by (simp add: retry_loop.simps)
  next
    case False
    show ?thesis
    proof (cases "fst (f n) = INSUFFICIENT_ENTROPY")
      case True
      then have z: "fst (f n) \<noteq> 0" by (simp add: INSUFFICIENT_ENTROPY_def)
      have "retry_loop f n r = retry_loop f (Suc n) (f n)"
        using False True z by (subst retry_loop.simps) (simp add: Let_def)
      with "1.IH" [OF False refl z] True z "1.prems"(1) show ?thesis by (metis Suc_leD)
    next
      case nE: False
      then have "retry_loop f n r = f n" using False by (simp add: retry_loop.simps Let_def)
      with False show ?thesis by (metis not_le order_refl)
    qed
  qed
qed

text \<open>What a principal signs, the peer that holds its public key verifies, whatever entropy
  failures happened before the signature was made.\<close>

lemma sign_verify:
  assumes "tbft_principal_sign E p msg s0 = (0, sig)"
    and "p_priv_sign_id p = Some priv" "p_pub_verify_id q = Some pub" "sig_pair_ok E priv pub"
  shows "tbft_principal_verify_sig E q msg sig"
proof -
  from assms(1,2) obtain hash where h: "psa_hash_compute E msg = Some hash" "length hash = TBFT_DIGEST_SIZE"
    and r: "retry_loop (\<lambda>n. psa_sign_hash E n priv hash) 0 (INSUFFICIENT_ENTROPY, s0) = (0, sig)"
    by (auto simp: tbft_principal_sign_def Let_def prod_eq_iff split: option.splits if_splits)
  have "\<exists>n. 0 \<le> n \<and> n < 5 \<and> retry_loop (\<lambda>n. psa_sign_hash E n priv hash) 0 (INSUFFICIENT_ENTROPY, s0) = psa_sign_hash E n priv hash"
    using r by (intro retry_loop_success) (simp_all add: INSUFFICIENT_ENTROPY_def)
  then obtain n where "psa_sign_hash E n priv hash = (0, sig)" using r by auto
  with assms(3,4) h show ?thesis by (simp add: tbft_principal_verify_sig_def sig_pair_ok_def)
qed

text \<open>Key transport.  The HMAC key that a replica encrypts for a peer is the key the peer
  decrypts and installs, so that MACs made with the one verify under the other.\<close>

lemma new_key_transport:
  assumes "tbft_principal_encrypt_new_key E p key buf0 = (0, enc)" "length key = TBFT_HMAC_KEY_SIZE"
    and "p_pub_encrypt_id p = Some pub" "p_priv_decrypt_id q = Some priv" "enc_pair_ok E priv pub"
    and "mac_ok E" "psa_import_key E USAGE_SIGN key" "psa_import_key E USAGE_VERIFY key"
    and "tbft_principal_gen_mac_out E (tbft_principal_set_out_key E p key) msg m0 = (0, mac)"
  shows "tbft_principal_decrypt_new_key E q enc = (0, key) \<and>
    tbft_principal_verify_mac_in E (tbft_principal_set_in_key E r (snd (tbft_principal_decrypt_new_key E q enc))) msg mac"
proof -
  from assms(1,3) have r: "retry_loop (\<lambda>n. psa_asymmetric_encrypt E n pub key) 0 (INSUFFICIENT_ENTROPY, buf0) = (0, enc)"
    by (auto simp: tbft_principal_encrypt_new_key_def split: if_splits)
  have "\<exists>n. 0 \<le> n \<and> n < 5 \<and> retry_loop (\<lambda>n. psa_asymmetric_encrypt E n pub key) 0 (INSUFFICIENT_ENTROPY, buf0) =
      psa_asymmetric_encrypt E n pub key"
    using r by (intro retry_loop_success) (simp_all add: INSUFFICIENT_ENTROPY_def)
  then obtain n where "psa_asymmetric_encrypt E n pub key = (0, enc)" using r by auto
  with assms(2,4,5) have d: "tbft_principal_decrypt_new_key E q enc = (0, key)"
    by (simp add: tbft_principal_decrypt_new_key_def enc_pair_ok_def)
  have "psa_mac_compute E key msg = (0, mac)"
    using assms(7,9) by (simp add: tbft_principal_gen_mac_out_def tbft_principal_set_out_key_def import_hmac_key_def
        mac_result_def prod_eq_iff split: if_splits)
  then have "psa_mac_verify E key msg mac" using assms(6) by (simp add: mac_ok_def)
  with d assms(8) show ?thesis
    by (simp add: tbft_principal_verify_mac_in_def tbft_principal_set_in_key_def import_hmac_key_def)
qed

text \<open>A failed import keeps the key that works.\<close>

lemma set_in_key_failed:
  "\<not> psa_import_key E USAGE_VERIFY key \<Longrightarrow>
   tbft_principal_verify_mac_in E (tbft_principal_set_in_key E p key) msg mac = tbft_principal_verify_mac_in E p msg mac"
  by (simp add: tbft_principal_set_in_key_def import_hmac_key_def tbft_principal_verify_mac_in_def split: option.split)

text \<open>The time stamp of a message plays no role: a recorded message with its MAC verifies at any
  later time, as long as the key is the same.\<close>

lemma replay_accepted:
  "tbft_principal_verify_mac_in_with_replay_check E p msg mac t =
   tbft_principal_verify_mac_in_with_replay_check E (tbft_principal_update_auth_time p u) msg mac t'"
  by (simp add: tbft_principal_verify_mac_in_with_replay_check_def tbft_principal_verify_mac_in_def
      tbft_principal_update_auth_time_def split: option.split)

section \<open>Witnesses\<close>

text \<open>A toy instance of PSA Crypto in which every call succeeds at the third attempt.\<close>

definition toy_tag :: "bytes \<Rightarrow> bytes \<Rightarrow> bytes" where
  "toy_tag k m = take 32 (k @ m @ replicate 32 0)"

definition toy_psa :: psa where
  "toy_psa = \<lparr> psa_hash_compute = (\<lambda>m. Some (take 32 (m @ replicate 32 0))),
     psa_import_key = (\<lambda>_ _. True), psa_mac_compute = (\<lambda>k m. (0, toy_tag k m)),
     psa_mac_verify = (\<lambda>k m t. t = toy_tag k m),
     psa_sign_hash = (\<lambda>n k h. if n < 2 then (INSUFFICIENT_ENTROPY, []) else (0, take 256 (h @ replicate 256 0))),
     psa_verify_hash = (\<lambda>k h s. s = take 256 (h @ replicate 256 0)),
     psa_asymmetric_encrypt = (\<lambda>n k x. if n < 2 then (INSUFFICIENT_ENTROPY, []) else (0, x @ replicate 224 7)),
     psa_asymmetric_decrypt = (\<lambda>k x. (0, take (length x - 224) x)),
     mbedtls_pk_parse_key = (\<lambda>_. True), mbedtls_pk_parse_public_key = (\<lambda>_. True),
     mbedtls_pk_get_psa_attributes = (\<lambda>_ _. True), mbedtls_pk_import_into_psa = (\<lambda>_ _. True) \<rparr>"

definition toy_peer :: principal where
  "toy_peer = (tbft_principal_init 1 [])\<lparr> p_pub_verify_id := Some [1], p_pub_encrypt_id := Some [1],
     p_priv_sign_id := Some [2], p_priv_decrypt_id := Some [2] \<rparr>"

lemma toy_laws: "mac_ok toy_psa" "sig_pair_ok toy_psa priv pub" "enc_pair_ok toy_psa priv pub"
  by (auto simp: mac_ok_def sig_pair_ok_def enc_pair_ok_def toy_psa_def toy_tag_def INSUFFICIENT_ENTROPY_def
      min_def split: if_splits)

lemma retry_third: "retry_loop (\<lambda>n. if n < 2 then (INSUFFICIENT_ENTROPY, []) else g n) 0 r = g (2 :: nat)"
  if "fst (g 2) = 0"
  using retry_loop_stops [of 2 "\<lambda>n. if n < 2 then (INSUFFICIENT_ENTROPY, []) else g n" 0 r] that
  by (simp add: INSUFFICIENT_ENTROPY_def)

lemma toy_sign: "tbft_principal_sign toy_psa toy_peer [5] [] = (0, 5 # replicate 255 0)"
  by (simp add: tbft_principal_sign_def toy_peer_def toy_psa_def retry_third replicate_add [symmetric])

lemma sign_verify_witness: "tbft_principal_verify_sig toy_psa toy_peer [5] (5 # replicate 255 0)"
  by (rule sign_verify [OF toy_sign _ _ toy_laws(2)]) (simp_all add: toy_peer_def)

lemma new_key_transport_witness:
  "tbft_principal_decrypt_new_key toy_psa toy_peer (replicate 32 3 @ replicate 224 7) = (0, replicate 32 3)"
proof -
  have e: "tbft_principal_encrypt_new_key toy_psa toy_peer (replicate 32 3) (replicate 256 0) =
      (0, replicate 32 3 @ replicate 224 7)"
    by (simp add: tbft_principal_encrypt_new_key_def toy_peer_def toy_psa_def retry_third)
  have g: "tbft_principal_gen_mac_out toy_psa (tbft_principal_set_out_key toy_psa toy_peer (replicate 32 3)) [5] [] =
      (0, replicate 32 3)"
    by (simp add: tbft_principal_gen_mac_out_def tbft_principal_set_out_key_def import_hmac_key_def toy_psa_def
        mac_result_def toy_tag_def)
  show ?thesis
    by (rule new_key_transport [OF e _ _ _ toy_laws(3) toy_laws(1) _ _ g, THEN conjunct1])
      (simp_all add: toy_peer_def toy_psa_def)
qed

end
