(* ===== verification/Itimer.thy ===== *)
theory Itimer
  imports Prelude
begin

text \<open>
  The one-shot timer of \<open>src/tbft_itimer.h\<close> and \<open>tbft_itimer.c\<close>.  The \<open>esp_timer\<close> behind the handle
  is a parameter of which the code uses the documented behaviour: a created timer is active
  between a successful \<open>esp_timer_start_once\<close> and its expiry or \<open>esp_timer_stop\<close>, and starting an
  active timer fails.  \<open>it_active\<close> is that state of the handle; \<open>it_handle\<close> says whether the
  pointer is non-NULL, \<open>it_cb\<close> whether a callback is set.
\<close>

record itimer =
  it_handle :: bool
  it_cb :: bool
  it_running :: bool
  it_period_us :: int
  it_active :: bool

text \<open>\<open>ESP_OK\<close> and the failure codes of the calls, as booleans.\<close>

definition esp_timer_stop :: "itimer \<Rightarrow> itimer" where
  "esp_timer_stop t = t\<lparr> it_active := False \<rparr>"

definition esp_timer_start_once :: "bool \<Rightarrow> itimer \<Rightarrow> bool \<times> itimer" where
  "esp_timer_start_once resource_ok t =
     (if it_active t \<or> \<not> resource_ok then (False, t) else (True, t\<lparr> it_active := True \<rparr>))"

definition tbft_itimer_init :: "bool \<Rightarrow> bool \<Rightarrow> itimer \<Rightarrow> bool \<times> itimer" where
  "tbft_itimer_init create_ok has_cb t =
     (create_ok, t\<lparr> it_cb := has_cb, it_running := False, it_handle := create_ok, it_active := False \<rparr>)"

definition tbft_itimer_start :: "bool \<Rightarrow> itimer \<Rightarrow> int \<Rightarrow> itimer" where
  "tbft_itimer_start resource_ok t timeout_us =
     (if \<not> it_handle t then t
      else if timeout_us \<le> 0 then t
      else let t = esp_timer_stop t; t = t\<lparr> it_running := True, it_period_us := timeout_us \<rparr>
        in case esp_timer_start_once resource_ok t of
             (ok, t) \<Rightarrow> if \<not> ok then t\<lparr> it_running := False \<rparr> else t)"

definition tbft_itimer_stop :: "itimer \<Rightarrow> itimer" where
  "tbft_itimer_stop t = (if it_handle t then (esp_timer_stop t)\<lparr> it_running := False \<rparr> else t)"

definition tbft_itimer_is_running :: "itimer \<Rightarrow> bool" where
  "tbft_itimer_is_running t = it_running t"

definition tbft_itimer_free :: "itimer \<Rightarrow> itimer" where
  "tbft_itimer_free t = (if it_handle t then (tbft_itimer_stop t)\<lparr> it_handle := False \<rparr> else t)"

text \<open>The timer service expires an active timer and calls \<open>timer_dispatch\<close>; the result says whether
  the callback runs.\<close>

definition timer_dispatch :: "itimer \<Rightarrow> bool \<times> itimer" where
  "timer_dispatch t = (it_cb t, t\<lparr> it_running := False \<rparr>)"

section \<open>Running means active\<close>

datatype timer_op = TStart bool int | TStop | TExpire

fun timer_step :: "timer_op \<Rightarrow> itimer \<Rightarrow> itimer" where
  "timer_step (TStart ok us) t = tbft_itimer_start ok t us"
| "timer_step TStop t = tbft_itimer_stop t"
| "timer_step TExpire t = (if it_active t then snd (timer_dispatch (t\<lparr> it_active := False \<rparr>)) else t)"

definition timer_inv :: "itimer \<Rightarrow> bool" where
  "timer_inv t \<longleftrightarrow> (it_running t \<longleftrightarrow> it_active t) \<and> (\<not> it_handle t \<longrightarrow> \<not> it_active t)"

lemma timer_step_inv [inv_intros]: "timer_inv t \<Longrightarrow> timer_inv (timer_step op t)"
  by (cases op)
    (auto simp: timer_inv_def tbft_itimer_start_def tbft_itimer_stop_def esp_timer_stop_def esp_timer_start_once_def
      timer_dispatch_def Let_def)

lemma timer_fold_inv [inv_intros]: "timer_inv t \<Longrightarrow> timer_inv (fold timer_step ops t)"
  by (induction ops arbitrary: t) (simp_all add: timer_step_inv)


end
