(* ===== verification/Node.thy ===== *)
theory Node
  imports Principal Itimer
begin

text \<open>
  The node layer, \<open>src/tbft_node.h\<close> and \<open>tbft_node.c\<close>: identity, the table of principals, and
  authenticators.  An authenticator is one MAC per remote replica, the local node's slot left out;
  it is the byte string of its slots.  The transport behind the node is a parameter: which of the
  attempts to create it succeeds, what a send returns and what a receive delivers.  The pointer
  \<open>local_principal\<close> points into the table; \<open>nd_local_set\<close> says whether it is set.
\<close>

record node =
  nd_node_id :: int
  nd_max_faulty :: int
  nd_num_replicas :: int
  nd_threshold :: int
  nd_view :: int
  nd_cur_primary :: int
  nd_principals :: "principal option list"
  nd_num_principals :: int
  nd_local_set :: bool
  nd_transport :: bool
  nd_atimer :: itimer
  nd_auth_timeout_us :: int
  nd_rid_counter :: u64

definition nd_principal :: "node \<Rightarrow> int \<Rightarrow> principal option" where
  "nd_principal nd i = (if 0 \<le> i \<and> nat i < length (nd_principals nd) then nd_principals nd ! nat i else None)"

definition nd_set_principal :: "node \<Rightarrow> int \<Rightarrow> principal \<Rightarrow> node" where
  "nd_set_principal nd i p = nd\<lparr> nd_principals := (nd_principals nd)[nat i := Some p] \<rparr>"

section \<open>Lifecycle\<close>

definition tbft_node_init ::
  "config \<Rightarrow> (nat \<Rightarrow> bool) \<Rightarrow> bool \<Rightarrow> int \<Rightarrow> int \<Rightarrow> int \<Rightarrow> int \<Rightarrow> int \<Rightarrow> node option" where
  "tbft_node_init c create_ok timer_ok node_id f num_replicas num_nodes auth_timeout_us =
     (let t0 = \<lparr> it_handle = False, it_cb = False, it_running = False, it_period_us = 0, it_active = False \<rparr>
      in if \<not> list_ex create_ok [0 ..< 5] then None
         else case tbft_itimer_init timer_ok False t0 of (ok, t) \<Rightarrow>
           if \<not> ok then None
           else Some \<lparr> nd_node_id = node_id, nd_max_faulty = f, nd_num_replicas = num_replicas,
             nd_threshold = i32 (2 * f + 1), nd_view = 0, nd_cur_primary = 0,
             nd_principals = replicate (TBFT_MAX_NUM_REPLICAS c + TBFT_MAX_NUM_CLIENTS c) None,
             nd_num_principals = num_nodes, nd_local_set = False, nd_transport = True, nd_atimer = t,
             nd_auth_timeout_us = auth_timeout_us, nd_rid_counter = 0 \<rparr>)"

definition tbft_node_free :: "node \<Rightarrow> node" where
  "tbft_node_free nd = nd\<lparr> nd_atimer := tbft_itimer_free (nd_atimer nd), nd_transport := False,
     nd_principals := map (\<lambda>i. if int i < nd_num_principals nd then None else nd_principals nd ! i)
       [0 ..< length (nd_principals nd)] \<rparr>"

section \<open>Network I/O\<close>

definition tbft_node_send :: "(bytes \<Rightarrow> int \<Rightarrow> int) \<Rightarrow> node \<Rightarrow> bytes \<Rightarrow> int \<Rightarrow> int" where
  "tbft_node_send transport_send nd buf dest = (if \<not> nd_transport nd then - 1 else transport_send buf dest)"

text \<open>The result of \<open>tbft_transport_recv\<close> is its return value.\<close>

definition tbft_node_recv :: "int \<Rightarrow> node \<Rightarrow> int" where
  "tbft_node_recv n nd =
     (if \<not> nd_transport nd then - 1
      else if n < 0 then - 1
      else if n < int sz_hdr then 0
      else n)"

section \<open>Authenticators\<close>

fun gen_auth_loop :: "psa \<Rightarrow> node \<Rightarrow> bytes \<Rightarrow> int \<Rightarrow> int list \<Rightarrow> nat \<Rightarrow> bytes \<Rightarrow> bytes" where
  "gen_auth_loop E nd msg expected_slots [] slot auth = auth"
| "gen_auth_loop E nd msg expected_slots (i # js) slot auth =
     (if i = nd_node_id nd then gen_auth_loop E nd msg expected_slots js slot auth
      else if expected_slots \<le> int slot then auth
      else let zero = replicate TBFT_HMAC_SIZE 0;
               mac = (case nd_principal nd i of
                        None \<Rightarrow> zero
                      | Some p \<Rightarrow> (let r = tbft_principal_gen_mac_out E p msg zero
                                  in if fst r \<noteq> 0 then zero else snd r))
        in gen_auth_loop E nd msg expected_slots js (Suc slot) (put (slot * TBFT_HMAC_SIZE) mac auth))"

definition tbft_node_gen_auth :: "config \<Rightarrow> psa \<Rightarrow> node \<Rightarrow> bytes \<Rightarrow> bytes" where
  "tbft_node_gen_auth c E nd msg =
     (let max_slots = int (TBFT_MAX_NUM_REPLICAS c) - 1;
          expected = (if max_slots < nd_num_replicas nd - 1 then max_slots else nd_num_replicas nd - 1)
      in gen_auth_loop E nd msg expected [0 .. nd_num_replicas nd - 1] 0 (replicate (TBFT_AUTH_SIZE c) 0))"

definition tbft_node_verify_auth :: "psa \<Rightarrow> node \<Rightarrow> int \<Rightarrow> bytes \<Rightarrow> bytes \<Rightarrow> int \<Rightarrow> bool" where
  "tbft_node_verify_auth E nd sender_id msg mac timestamp_us =
     (if sender_id < 0 \<or> nd_num_principals nd \<le> sender_id then False
      else case nd_principal nd sender_id of
             None \<Rightarrow> False
           | Some p \<Rightarrow> tbft_principal_verify_mac_in_with_replay_check E p msg mac timestamp_us)"

definition tbft_node_gen_sig :: "psa \<Rightarrow> node \<Rightarrow> bytes \<Rightarrow> bytes \<Rightarrow> int \<times> bytes" where
  "tbft_node_gen_sig E nd msg sig0 =
     (if \<not> nd_local_set nd then (- 1, sig0)
      else case nd_principal nd (nd_node_id nd) of
             None \<Rightarrow> (- 1, sig0)
           | Some p \<Rightarrow> tbft_principal_sign E p msg sig0)"

definition tbft_node_verify_sig :: "psa \<Rightarrow> node \<Rightarrow> int \<Rightarrow> bytes \<Rightarrow> bytes \<Rightarrow> bool" where
  "tbft_node_verify_sig E nd sender_id msg sig =
     (if sender_id < 0 \<or> nd_num_principals nd \<le> sender_id then False
      else case nd_principal nd sender_id of
             None \<Rightarrow> False
           | Some p \<Rightarrow> tbft_principal_verify_sig E p msg sig)"

definition tbft_node_auth_slot_index :: "node \<Rightarrow> int \<Rightarrow> int" where
  "tbft_node_auth_slot_index nd sender_id =
     (if sender_id = nd_node_id nd then - 1
      else if sender_id < nd_node_id nd then nd_node_id nd - 1
      else nd_node_id nd)"

section \<open>Helpers\<close>

definition tbft_node_new_rid :: "node \<Rightarrow> u64 \<times> node" where
  "tbft_node_new_rid nd =
     (let nd = nd\<lparr> nd_rid_counter := nd_rid_counter nd + 1 \<rparr>
      in (push_bit 48 (word_of_int (nd_node_id nd)) OR nd_rid_counter nd, nd))"

definition tbft_node_primary :: "node \<Rightarrow> int \<Rightarrow> int" where
  "tbft_node_primary nd v = i32 (v smod nd_num_replicas nd)"

definition tbft_node_is_replica :: "node \<Rightarrow> int \<Rightarrow> bool" where
  "tbft_node_is_replica nd i \<longleftrightarrow> 0 \<le> i \<and> i < nd_num_replicas nd"

section \<open>Authenticator slots\<close>

text \<open>The slot in which replica \<open>s\<close> puts the MAC for replica \<open>j\<close>.\<close>

definition slot_of :: "int \<Rightarrow> int \<Rightarrow> nat" where
  "slot_of s j = nat (if j < s then j else j - 1)"

lemma slot_index_receiver:
  "nd_node_id nd \<noteq> s \<Longrightarrow> tbft_node_auth_slot_index nd s = (if nd_node_id nd < s then nd_node_id nd else nd_node_id nd - 1)"
  by (simp add: tbft_node_auth_slot_index_def)

definition slot_mac :: "psa \<Rightarrow> node \<Rightarrow> bytes \<Rightarrow> int \<Rightarrow> bytes" where
  "slot_mac E nd msg j = (case nd_principal nd j of
     None \<Rightarrow> replicate TBFT_HMAC_SIZE 0
   | Some p \<Rightarrow> (let r = tbft_principal_gen_mac_out E p msg (replicate TBFT_HMAC_SIZE 0)
               in if fst r \<noteq> 0 then replicate TBFT_HMAC_SIZE 0 else snd r))"

lemma gen_mac_length: "mac_ok E \<Longrightarrow> fst (tbft_principal_gen_mac_out E p msg m0) = 0 \<Longrightarrow>
    length (snd (tbft_principal_gen_mac_out E p msg m0)) = TBFT_HMAC_SIZE"
  by (auto simp: tbft_principal_gen_mac_out_def mac_result_def split: option.splits if_splits)

lemma length_slot_mac [simp]: "mac_ok E \<Longrightarrow> length (slot_mac E nd msg j) = 32"
  using gen_mac_length by (auto simp: slot_mac_def Let_def split: option.split)

lemma gen_auth_loop_step:
  "i \<noteq> nd_node_id nd \<Longrightarrow> int slot < e \<Longrightarrow> gen_auth_loop E nd msg e (i # js) slot auth =
     gen_auth_loop E nd msg e js (Suc slot) (put (slot * 32) (slot_mac E nd msg i) auth)"
  unfolding slot_mac_def by (simp only: gen_auth_loop.simps if_False not_le [symmetric] Let_def TBFT_HMAC_SIZE_def)

lemma slot_of_inj: "0 \<le> i \<Longrightarrow> 0 \<le> j \<Longrightarrow> 0 \<le> s \<Longrightarrow> i \<noteq> s \<Longrightarrow> j \<noteq> s \<Longrightarrow> slot_of s i = slot_of s j \<longleftrightarrow> i = j"
  by (auto simp: slot_of_def)

lemma slot_fields_disjoint: "k \<noteq> l \<Longrightarrow> k * 32 + 32 \<le> l * 32 \<or> l * 32 + 32 \<le> k * (32 :: nat)"
  by linarith

lemma gen_auth_loop_slots:
  assumes E: "mac_ok E" and s: "0 \<le> s" "s < n" "nd_node_id nd = s"
    and j: "0 \<le> j" "j < n" "j \<noteq> s"
    and a: "0 \<le> a" "a \<le> n" "slot = nat (if a \<le> s then a else a - 1)" "32 * nat (n - 1) \<le> length auth"
  shows "field (slot_of s j * 32) 32 (gen_auth_loop E nd msg (n - 1) [a .. n - 1] slot auth) =
    (if a \<le> j then slot_mac E nd msg j else field (slot_of s j * 32) 32 auth)"
  using a
proof (induction "nat (n - a)" arbitrary: a slot auth)
  case 0
  then show ?case using j(2) by simp
next
  case (Suc k)
  then have a: "a < n" by simp
  have up: "[a .. n - 1] = a # [a + 1 .. n - 1]" using a by (simp add: upto_rec1)
  have k: "k = nat (n - (a + 1))" using Suc.hyps(2) by simp
  show ?case
  proof (cases "a = s")
    case True
    then have "slot = nat (if a + 1 \<le> s then a + 1 else a + 1 - 1)" using Suc.prems(3) by simp
    from Suc.hyps(1) [OF k _ _ this Suc.prems(4)] Suc.prems(1) a True s(3) j(3)
    show ?thesis unfolding up by auto
  next
    case False
    have slot: "slot = slot_of s a" using Suc.prems(3) False by (simp add: slot_of_def)
    have lt: "int slot < n - 1" using slot Suc.prems(1) a s False by (auto simp: slot_of_def)
    let ?auth = "put (slot * 32) (slot_mac E nd msg a) auth"
    have in': "slot * 32 + 32 \<le> length auth" using lt Suc.prems(4) by linarith
    then have la: "length ?auth = length auth" using E by simp
    have next': "Suc slot = nat (if a + 1 \<le> s then a + 1 else a + 1 - 1)"
      using slot Suc.prems(1) False s by (auto simp: slot_of_def)
    have ih: "field (slot_of s j * 32) 32 (gen_auth_loop E nd msg (n - 1) [a + 1 .. n - 1] (Suc slot) ?auth) =
        (if a + 1 \<le> j then slot_mac E nd msg j else field (slot_of s j * 32) 32 ?auth)"
      using Suc.prems a la by (intro Suc.hyps(1) [OF k _ _ next']) simp_all
    have f: "field (slot_of s j * 32) 32 ?auth = (if j = a then slot_mac E nd msg j else field (slot_of s j * 32) 32 auth)"
    proof (cases "j = a")
      case True
      then show ?thesis using E in' slot by (simp add: field_put_same)
    next
      case neq: False
      then have "slot_of s j \<noteq> slot" using slot_of_inj [OF j(1) Suc.prems(1) s(1) j(3) False] slot by simp
      from slot_fields_disjoint [OF this] E in' neq show ?thesis by (simp add: field_put_other)
    qed
    have "gen_auth_loop E nd msg (n - 1) [a .. n - 1] slot auth =
        gen_auth_loop E nd msg (n - 1) [a + 1 .. n - 1] (Suc slot) ?auth"
      unfolding up using False s(3) lt by (intro gen_auth_loop_step) simp_all
    with ih f show ?thesis by auto
  qed
qed

lemma gen_auth_slot:
  assumes "mac_ok E" "tbft_node_is_replica nd (nd_node_id nd)" "nd_num_replicas nd \<le> int (TBFT_MAX_NUM_REPLICAS c)"
    and "tbft_node_is_replica nd j" "j \<noteq> nd_node_id nd"
  shows "field (slot_of (nd_node_id nd) j * 32) 32 (tbft_node_gen_auth c E nd msg) = slot_mac E nd msg j"
proof -
  have "32 * nat (nd_num_replicas nd - 1) \<le> TBFT_AUTH_SIZE c"
    using assms(3) by (simp add: TBFT_AUTH_SIZE_def)
  then show ?thesis
    using gen_auth_loop_slots [OF assms(1), of "nd_node_id nd" "nd_num_replicas nd" nd j 0 0
        "replicate (TBFT_AUTH_SIZE c) 0" msg] assms(2-5)
    by (simp add: tbft_node_gen_auth_def tbft_node_is_replica_def Let_def)
qed

text \<open>C34: authenticators round trip.  A MAC vector that replica \<open>i\<close> generates is accepted by every
  other replica \<open>j\<close> that takes its own slot from it, when \<open>j\<close> holds for \<open>i\<close> the key that \<open>i\<close> uses
  towards \<open>j\<close>: the sender's slot order and the receiver's slot index agree.\<close>

theorem authenticator_roundtrip:
  assumes E: "mac_ok E" and snd: "tbft_node_is_replica nd (nd_node_id nd)" "nd_num_replicas nd \<le> int (TBFT_MAX_NUM_REPLICAS c)"
    and rcv: "tbft_node_is_replica nd (nd_node_id rv)" "nd_node_id rv \<noteq> nd_node_id nd"
      "nd_num_replicas nd \<le> nd_num_principals rv"
    and keys: "nd_principal nd (nd_node_id rv) = Some p" "p_hmac_out_id p = Some k"
      "nd_principal rv (nd_node_id nd) = Some q" "p_hmac_in_id q = Some k"
    and mac: "psa_mac_compute E k msg = (0, t)"
  shows "tbft_node_verify_auth E rv (nd_node_id nd) msg
    (field (nat (tbft_node_auth_slot_index rv (nd_node_id nd)) * TBFT_HMAC_SIZE) TBFT_HMAC_SIZE (tbft_node_gen_auth c E nd msg)) ts"
proof -
  have len: "length t = 32" and ver: "psa_mac_verify E k msg t" using E mac by (auto simp: mac_ok_def)
  have slot: "nat (tbft_node_auth_slot_index rv (nd_node_id nd)) = slot_of (nd_node_id nd) (nd_node_id rv)"
    using rcv(2) by (auto simp: tbft_node_auth_slot_index_def slot_of_def)
  have "field (slot_of (nd_node_id nd) (nd_node_id rv) * 32) 32 (tbft_node_gen_auth c E nd msg) = slot_mac E nd msg (nd_node_id rv)"
    using gen_auth_slot [OF E snd rcv(1,2)] .
  moreover have "slot_mac E nd msg (nd_node_id rv) = t"
    using keys(1,2) mac len by (simp add: slot_mac_def tbft_principal_gen_mac_out_def mac_result_def)
  ultimately show ?thesis
    using keys(3,4) ver snd(1) rcv(3)
    by (simp add: slot tbft_node_verify_auth_def tbft_principal_verify_mac_in_with_replay_check_def
        tbft_principal_verify_mac_in_def tbft_node_is_replica_def)
qed

section \<open>Request identifiers\<close>

text \<open>The \<open>k\<close>-th request identifier that a freshly initialised node allocates.\<close>

definition rid_nth :: "node \<Rightarrow> nat \<Rightarrow> u64" where
  "rid_nth nd k = fst (tbft_node_new_rid (((\<lambda>nd. snd (tbft_node_new_rid nd)) ^^ k) nd))"

lemma new_rid_iterate:
  "((\<lambda>nd. snd (tbft_node_new_rid nd)) ^^ k) nd = nd\<lparr> nd_rid_counter := nd_rid_counter nd + of_nat k \<rparr>"
  by (induction k) (simp_all add: tbft_node_new_rid_def Let_def add.assoc)

lemma rid_parts:
  assumes "take_bit 48 r = (r :: u64)" "take_bit 16 i = (i :: u64)"
  shows "take_bit 48 (push_bit 48 i OR r) = r" "drop_bit 48 (push_bit 48 i OR r) = i"
proof -
  show "take_bit 48 (push_bit 48 i OR r) = r"
    using assms(1) by (simp add: take_bit_or take_bit_push_bit)
  have "drop_bit 48 r = drop_bit 48 (take_bit 48 r)" by (simp only: assms(1))
  then have "drop_bit 48 r = 0" by (simp add: drop_bit_take_bit)
  moreover have "drop_bit 48 (push_bit 48 i) = i"
  proof (rule bit_word_eqI)
    fix n assume "n < LENGTH(64)"
    have "bit i n \<longleftrightarrow> n < 16 \<and> bit i n" by (subst (1 2) assms(2) [symmetric]) (auto simp: bit_take_bit_iff)
    then show "bit (drop_bit 48 (push_bit 48 i)) n = bit i n"
      by (auto simp: bit_drop_bit_eq bit_push_bit_iff)
  qed
  ultimately show "drop_bit 48 (push_bit 48 i OR r) = i" by (simp add: drop_bit_or)
qed

text \<open>Request identifiers are unique.  As long as node identifiers fit in 16 bits, the first
  \<open>2 ^ 48 - 1\<close> identifiers of all nodes are pairwise different, across nodes as well.\<close>

lemma request_ids_unique:
  assumes "nd_rid_counter nd = 0" "nd_rid_counter nd' = 0"
    and "0 \<le> nd_node_id nd" "nd_node_id nd < 2 ^ 16" "0 \<le> nd_node_id nd'" "nd_node_id nd' < 2 ^ 16"
    and "k < 2 ^ 48 - 1" "k' < 2 ^ 48 - 1"
  shows "rid_nth nd k = rid_nth nd' k' \<longleftrightarrow> nd_node_id nd = nd_node_id nd' \<and> k = k'"
proof -
  have small: "take_bit 48 (of_nat (Suc n) :: u64) = of_nat (Suc n) \<and> unat (of_nat (Suc n) :: u64) = Suc n"
    if "n < 2 ^ 48 - 1" for n
  proof -
    have "Suc n < 2 ^ 48" using that by simp
    then have "take_bit 48 (Suc n) = Suc n" "take_bit 64 (Suc n) = Suc n" by (simp_all add: take_bit_nat_eq_self)
    moreover have "unat (of_nat (Suc n) :: u64) = take_bit 64 (Suc n)" by (subst unat_of_nat) (simp add: take_bit_eq_mod)
    ultimately show ?thesis by (metis of_nat_take_bit)
  qed
  have id16: "take_bit 16 (word_of_int i :: u64) = word_of_int i \<and> uint (word_of_int i :: u64) = i"
    if "0 \<le> i" "i < 2 ^ 16" for i
  proof -
    have "take_bit 16 i = i" using that by (simp add: take_bit_int_eq_self)
    moreover have "uint (word_of_int i :: u64) = i" using that by (simp add: uint_word_of_int)
    ultimately show ?thesis by (metis of_int_take_bit)
  qed
  have rid: "rid_nth n j = push_bit 48 (word_of_int (nd_node_id n)) OR of_nat (Suc j)"
    if "nd_rid_counter n = 0" for n j
    unfolding rid_nth_def new_rid_iterate using that by (simp add: tbft_node_new_rid_def Let_def add.commute)
  note p = rid_parts [OF conjunct1 [OF small [OF assms(7)]] conjunct1 [OF id16 [OF assms(3,4)]]]
  note p' = rid_parts [OF conjunct1 [OF small [OF assms(8)]] conjunct1 [OF id16 [OF assms(5,6)]]]
  show ?thesis
  proof
    assume eq: "rid_nth nd k = rid_nth nd' k'"
    have "of_nat (Suc k) = (of_nat (Suc k') :: u64)" using p(1) p'(1) eq rid assms(1,2) by metis
    then have "k = k'" using small [OF assms(7)] small [OF assms(8)] by (metis nat.inject)
    moreover have "(word_of_int (nd_node_id nd) :: u64) = word_of_int (nd_node_id nd')"
      using p(2) p'(2) eq rid assms(1,2) by metis
    then have "nd_node_id nd = nd_node_id nd'" using id16 [OF assms(3,4)] id16 [OF assms(5,6)] by metis
    ultimately show "nd_node_id nd = nd_node_id nd' \<and> k = k'" by simp
  next
    assume "nd_node_id nd = nd_node_id nd' \<and> k = k'"
    then show "rid_nth nd k = rid_nth nd' k'" by (simp add: rid assms(1,2))
  qed
qed

section \<open>Witnesses\<close>

text \<open>Four replicas of the toy PSA; replica \<open>i\<close> shares the key \<open>[i + j]\<close> with replica \<open>j\<close>.\<close>

definition toy_node :: "int \<Rightarrow> node" where
  "toy_node i = (the (tbft_node_init default_config (\<lambda>n. n = 2) True i 1 4 5 0))
     \<lparr> nd_principals := map (\<lambda>j. Some ((tbft_principal_init j [])
         \<lparr> p_hmac_in_id := Some [word_of_int (i + j)], p_hmac_out_id := Some [word_of_int (i + j)] \<rparr>)) [0, 1, 2, 3, 4] \<rparr>"

lemma toy_node_simps [simp]:
  "nd_node_id (toy_node i) = i" "nd_num_replicas (toy_node i) = 4" "nd_num_principals (toy_node i) = 5"
  "nd_rid_counter (toy_node i) = 0" "nd_threshold (toy_node i) = 3" "nd_max_faulty (toy_node i) = 1"
  by (simp_all add: toy_node_def tbft_node_init_def tbft_itimer_init_def upt_rec i32_id)

lemma toy_node_principal:
  "nd_principal (toy_node i) 1 = Some ((tbft_principal_init 1 [])
     \<lparr> p_hmac_in_id := Some [word_of_int (i + 1)], p_hmac_out_id := Some [word_of_int (i + 1)] \<rparr>)"
  "nd_principal (toy_node i) 2 = Some ((tbft_principal_init 2 [])
     \<lparr> p_hmac_in_id := Some [word_of_int (i + 2)], p_hmac_out_id := Some [word_of_int (i + 2)] \<rparr>)"
  by (simp_all add: toy_node_def nd_principal_def)

lemma authenticator_roundtrip_witness:
  "tbft_node_verify_auth toy_psa (toy_node 2) 1 [7]
    (field (nat (tbft_node_auth_slot_index (toy_node 2) 1) * 32) 32 (tbft_node_gen_auth default_config toy_psa (toy_node 1) [7])) 99"
  using authenticator_roundtrip [OF toy_laws(1), where nd = "toy_node 1" and c = default_config and rv = "toy_node 2" and
      k = "[3]" and msg = "[7]" and t = "toy_tag [3] [7]" and ts = 99]
  by (simp add: tbft_node_is_replica_def toy_node_principal toy_psa_def)

lemma request_ids_unique_witness: "rid_nth (toy_node 1) 5 \<noteq> rid_nth (toy_node 2) 5 \<and> rid_nth (toy_node 1) 5 \<noteq> rid_nth (toy_node 1) 6"
  using request_ids_unique [of "toy_node 1" "toy_node 2" 5 5] request_ids_unique [of "toy_node 1" "toy_node 1" 5 6] by simp

end
