(* ===== verification/RQueue.thy ===== *)
theory RQueue
  imports Message
begin

text \<open>
  The request queues of a replica, \<open>rqueue_init\<close>, \<open>rqueue_push\<close>, \<open>rqueue_front\<close> and \<open>rqueue_pop\<close>
  of \<open>src/tbft_replica.c\<close>: a ring of \<open>TBFT_RQUEUE_MAX\<close> entries with a head, a tail and a count.
  The locale \<open>fifo\<close> is the contract of a bounded first-in first-out queue; what a client of it gets
  is proved there once, and the ring buffer interprets it.
\<close>

section \<open>State and operations\<close>

record rq_entry =
  rqe_buf :: bytes
  rqe_len :: int
  rqe_ro :: bool
  rqe_used :: bool

record rqueue =
  rq_entries :: "rq_entry list"
  rq_head :: nat
  rq_tail :: nat
  rq_count :: nat

definition rqueue_init :: "config \<Rightarrow> rqueue" where
  "rqueue_init c = \<lparr> rq_entries = replicate (TBFT_RQUEUE_MAX c)
       \<lparr> rqe_buf = replicate (TBFT_MAX_MESSAGE_SIZE c) 0, rqe_len = 0, rqe_ro = False, rqe_used = False \<rparr>,
     rq_head = 0, rq_tail = 0, rq_count = 0 \<rparr>"

definition rqueue_push :: "config \<Rightarrow> rqueue \<Rightarrow> bytes \<Rightarrow> int \<Rightarrow> bool \<Rightarrow> bool \<times> rqueue" where
  "rqueue_push c q buf len ro =
     (if TBFT_RQUEUE_MAX c \<le> rq_count q then (False, q)
      else if len < 0 \<or> int (TBFT_MAX_MESSAGE_SIZE c) < len then (False, q)
      else let e = rq_entries q ! rq_tail q;
               e = e\<lparr> rqe_buf := put 0 (field 0 (nat len) buf) (rqe_buf e), rqe_len := len,
                      rqe_ro := ro, rqe_used := True \<rparr>
        in (True, q\<lparr> rq_entries := (rq_entries q)[rq_tail q := e],
             rq_tail := (rq_tail q + 1) mod TBFT_RQUEUE_MAX c, rq_count := rq_count q + 1 \<rparr>))"

text \<open>The pointer to the entry, as the entry.\<close>

definition rqueue_front :: "rqueue \<Rightarrow> rq_entry option" where
  "rqueue_front q = (if rq_count q = 0 then None else Some (rq_entries q ! rq_head q))"

definition rqueue_pop :: "config \<Rightarrow> rqueue \<Rightarrow> rqueue" where
  "rqueue_pop c q =
     (if rq_count q = 0 then q
      else q\<lparr> rq_entries := (rq_entries q)[rq_head q := (rq_entries q ! rq_head q)\<lparr> rqe_used := False \<rparr>],
             rq_head := (rq_head q + 1) mod TBFT_RQUEUE_MAX c, rq_count := rq_count q - 1 \<rparr>)"

text \<open>The entry at distance \<open>i\<close> from the head, as the scans over a queue address it.\<close>

definition rq_nth :: "config \<Rightarrow> rqueue \<Rightarrow> nat \<Rightarrow> rq_entry" where
  "rq_nth c q i = rq_entries q ! ((rq_head q + i) mod TBFT_RQUEUE_MAX c)"

section \<open>The contract of a bounded queue\<close>

datatype 'e fifo_op = Push 'e | Pop

locale fifo =
  fixes good :: "'q \<Rightarrow> bool" and elem_ok :: "'e \<Rightarrow> bool" and contents :: "'q \<Rightarrow> 'e list" and cap :: nat
    and enq :: "'e \<Rightarrow> 'q \<Rightarrow> bool \<times> 'q" and first :: "'q \<Rightarrow> 'e option" and deq :: "'q \<Rightarrow> 'q"
  assumes room: "\<lbrakk> good q; elem_ok e; length (contents q) < cap \<rbrakk> \<Longrightarrow>
        fst (enq e q) \<and> good (snd (enq e q)) \<and> contents (snd (enq e q)) = contents q @ [e]"
    and full: "\<lbrakk> good q; elem_ok e; cap \<le> length (contents q) \<rbrakk> \<Longrightarrow> enq e q = (False, q)"
    and first: "good q \<Longrightarrow> first q = (case contents q of [] \<Rightarrow> None | e # _ \<Rightarrow> Some e)"
    and deq: "good q \<Longrightarrow> good (deq q) \<and> contents (deq q) = tl (contents q)"
    and bounded: "good q \<Longrightarrow> length (contents q) \<le> cap"
begin

fun step :: "'e fifo_op \<Rightarrow> 'q \<Rightarrow> 'q" where
  "step (Push e) q = snd (enq e q)"
| "step Pop q = deq q"

fun accepted :: "'e fifo_op list \<Rightarrow> 'q \<Rightarrow> 'e list" where
  "accepted [] q = []"
| "accepted (Push e # os) q = (if fst (enq e q) then [e] else []) @ accepted os (step (Push e) q)"
| "accepted (Pop # os) q = accepted os (step Pop q)"

fun delivered :: "'e fifo_op list \<Rightarrow> 'q \<Rightarrow> 'e list" where
  "delivered [] q = []"
| "delivered (Push e # os) q = delivered os (step (Push e) q)"
| "delivered (Pop # os) q = (case first q of None \<Rightarrow> [] | Some e \<Rightarrow> [e]) @ delivered os (step Pop q)"

lemma enq_cases:
  assumes "good q" "elem_ok e"
  shows "good (snd (enq e q)) \<and>
    contents (snd (enq e q)) = contents q @ (if fst (enq e q) then [e] else []) \<and>
    (fst (enq e q) \<longleftrightarrow> length (contents q) < cap)"
  using room [OF assms] full [OF assms] assms by (cases "length (contents q) < cap") auto

lemma conservation:
  assumes "good q" "\<And>e. Push e \<in> set os \<Longrightarrow> elem_ok e"
  shows "good (fold step os q) \<and>
    contents q @ accepted os q = delivered os q @ contents (fold step os q) \<and>
    length (contents (fold step os q)) \<le> cap"
  using assms
proof (induction os arbitrary: q)
  case Nil
  then show ?case using bounded by simp
next
  case (Cons op os)
  show ?case
  proof (cases op)
    case (Push e)
    then have "elem_ok e" using Cons.prems(2) by simp
    then show ?thesis using Cons.IH [of "snd (enq e q)"] enq_cases [of q e] Cons.prems Push by auto
  next
    case Pop
    then show ?thesis using Cons.IH [of "deq q"] deq [of q] first [of q] Cons.prems
      by (cases "contents q") auto
  qed
qed

end

section \<open>The ring buffer\<close>

definition rq_good :: "config \<Rightarrow> rqueue \<Rightarrow> bool" where
  "rq_good c q \<longleftrightarrow> 0 < TBFT_RQUEUE_MAX c \<and> length (rq_entries q) = TBFT_RQUEUE_MAX c \<and>
     rq_head q < TBFT_RQUEUE_MAX c \<and> rq_count q \<le> TBFT_RQUEUE_MAX c \<and>
     rq_tail q = (rq_head q + rq_count q) mod TBFT_RQUEUE_MAX c \<and>
     list_all (\<lambda>e. length (rqe_buf e) = TBFT_MAX_MESSAGE_SIZE c) (rq_entries q)"

text \<open>What an entry carries, and the queue as the list of it.\<close>

definition rqe_val :: "rq_entry \<Rightarrow> bytes \<times> bool" where
  "rqe_val e = (take (nat (rqe_len e)) (rqe_buf e), rqe_ro e)"

definition rq_list :: "config \<Rightarrow> rqueue \<Rightarrow> (bytes \<times> bool) list" where
  "rq_list c q = map (\<lambda>i. rqe_val (rq_nth c q i)) [0 ..< rq_count q]"

definition rq_enq :: "config \<Rightarrow> bytes \<times> bool \<Rightarrow> rqueue \<Rightarrow> bool \<times> rqueue" where
  "rq_enq c e q = rqueue_push c q (fst e) (int (length (fst e))) (snd e)"

definition rq_first :: "rqueue \<Rightarrow> (bytes \<times> bool) option" where
  "rq_first q = map_option rqe_val (rqueue_front q)"

definition rq_elem_ok :: "config \<Rightarrow> bytes \<times> bool \<Rightarrow> bool" where
  "rq_elem_ok c e \<longleftrightarrow> length (fst e) \<le> TBFT_MAX_MESSAGE_SIZE c"

lemma length_rq_list [simp]: "length (rq_list c q) = rq_count q"
  by (simp add: rq_list_def)

lemma mod_add_neq:
  assumes "i < j" "j < m"
  shows "(h + i) mod m \<noteq> (h + j) mod (m :: nat)"
proof
  assume "(h + i) mod m = (h + j) mod m"
  then have "m dvd (h + j) - (h + i)" using assms by (metis add_le_cancel_left less_imp_le mod_eq_dvd_iff_nat)
  then show False using assms by (auto dest: dvd_imp_le)
qed

lemma rq_good_init: "0 < TBFT_RQUEUE_MAX c \<Longrightarrow> rq_good c (rqueue_init c) \<and> rq_list c (rqueue_init c) = []"
  by (simp add: rq_good_def rqueue_init_def rq_list_def list_all_length)

lemma rq_push_shape:
  assumes "rq_good c q" "rq_elem_ok c e" "rq_count q < TBFT_RQUEUE_MAX c"
  shows "rq_enq c e q = (True, q\<lparr> rq_entries := (rq_entries q)[rq_tail q :=
      (rq_entries q ! rq_tail q)\<lparr> rqe_buf := put 0 (fst e) (rqe_buf (rq_entries q ! rq_tail q)),
        rqe_len := int (length (fst e)), rqe_ro := snd e, rqe_used := True \<rparr>],
      rq_tail := (rq_tail q + 1) mod TBFT_RQUEUE_MAX c, rq_count := rq_count q + 1 \<rparr>)"
  using assms by (simp add: rq_enq_def rqueue_push_def rq_elem_ok_def field_eq_take_drop Let_def)

lemma rq_tail_len:
  "rq_good c q \<Longrightarrow> rq_tail q < length (rq_entries q) \<and>
     length (rqe_buf (rq_entries q ! rq_tail q)) = TBFT_MAX_MESSAGE_SIZE c"
  by (simp add: rq_good_def list_all_length)

lemma rq_room:
  assumes "rq_good c q" "rq_elem_ok c e" "length (rq_list c q) < TBFT_RQUEUE_MAX c"
  shows "fst (rq_enq c e q)" (is ?ok)
    "rq_good c (snd (rq_enq c e q))" (is ?good)
    "rq_list c (snd (rq_enq c e q)) = rq_list c q @ [e]" (is ?list)
proof -
  note lt = rq_tail_len [OF assms(1)] and shape = rq_push_shape [OF assms(1,2)]
  have n: "rq_count q < TBFT_RQUEUE_MAX c" using assms(3) by simp
  show ?ok using shape n by simp
  show ?good using assms n lt shape
    by (auto simp: rq_good_def rq_elem_ok_def list_all_length nth_list_update mod_simps add_ac)
  have tl: "rq_tail q = (rq_head q + rq_count q) mod TBFT_RQUEUE_MAX c"
    and len: "length (rq_entries q) = TBFT_RQUEUE_MAX c" and pos: "0 < TBFT_RQUEUE_MAX c"
    using assms(1) by (simp_all add: rq_good_def)
  have old: "rq_tail q \<noteq> (rq_head q + i) mod TBFT_RQUEUE_MAX c" if "i < rq_count q" for i
    using mod_add_neq [OF that n, of "rq_head q"] tl by simp
  have new: "take (length (fst e)) (put 0 (fst e) b) = fst e" for b by (simp add: put_def)
  show ?list
    using shape n lt len old
    by (auto simp: rq_list_def rq_nth_def rqe_val_def tl [symmetric] nth_list_update pos new)
qed

lemma rq_deq:
  assumes "rq_good c q"
  shows "rq_good c (rqueue_pop c q) \<and> rq_list c (rqueue_pop c q) = tl (rq_list c q)"
proof (cases "rq_count q = 0")
  case True
  then show ?thesis using assms by (simp add: rqueue_pop_def rq_list_def)
next
  case False
  then obtain k where k: "rq_count q = Suc k" by (cases "rq_count q") auto
  have len: "length (rq_entries q) = TBFT_RQUEUE_MAX c" and h: "rq_head q < TBFT_RQUEUE_MAX c"
    and cnt: "k < TBFT_RQUEUE_MAX c" using assms k by (simp_all add: rq_good_def)
  have good: "rq_good c (rqueue_pop c q)" using assms k
    by (auto simp: rq_good_def rqueue_pop_def list_all_length nth_list_update mod_simps)
  have "rq_head q \<noteq> (rq_head q + Suc i) mod TBFT_RQUEUE_MAX c" if "i < k" for i
    using mod_add_neq [of 0 "Suc i" "TBFT_RQUEUE_MAX c" "rq_head q"] that cnt h by simp
  then have "rq_list c (rqueue_pop c q) = map (\<lambda>i. rqe_val (rq_nth c q (Suc i))) [0 ..< k]"
    by (auto simp: rq_list_def rqueue_pop_def k rq_nth_def mod_simps)
  also have "\<dots> = tl (rq_list c q)"
    by (simp add: rq_list_def k upt_conv_Cons map_Suc_upt [symmetric] del: upt_Suc)
  finally show ?thesis using good by simp
qed

lemma rq_first_list:
  assumes "rq_good c q"
  shows "rq_first q = (case rq_list c q of [] \<Rightarrow> None | e # _ \<Rightarrow> Some e)"
proof (cases "rq_count q")
  case 0
  then show ?thesis by (simp add: rq_first_def rqueue_front_def rq_list_def)
next
  case (Suc k)
  then have "rq_list c q = rqe_val (rq_nth c q 0) # map (\<lambda>i. rqe_val (rq_nth c q i)) [1 ..< Suc k]"
    by (simp add: rq_list_def upt_conv_Cons del: upt_Suc)
  moreover have "rq_nth c q 0 = rq_entries q ! rq_head q"
    using assms by (simp add: rq_nth_def rq_good_def)
  ultimately show ?thesis using Suc by (simp add: rq_first_def rqueue_front_def)
qed

interpretation rq: fifo "rq_good c" "rq_elem_ok c" "rq_list c" "TBFT_RQUEUE_MAX c" "rq_enq c" rq_first "rqueue_pop c"
proof unfold_locales
  fix q e assume "rq_good c q" "rq_elem_ok c e" "TBFT_RQUEUE_MAX c \<le> length (rq_list c q)"
  then show "rq_enq c e q = (False, q)" by (simp add: rq_enq_def rqueue_push_def)
next
  fix q assume "rq_good c q"
  then show "length (rq_list c q) \<le> TBFT_RQUEUE_MAX c" by (simp add: rq_good_def)
qed (simp_all only: rq_room rq_deq rq_first_list simp_thms)

text \<open>C36: the request queue is a bounded first-in first-out queue: from the initialised ring, after
  any sequence of pushes and pops the requests taken out followed by the requests still in are
  exactly the requests whose push was accepted, in their order, and never more than
  \<open>TBFT_RQUEUE_MAX\<close> are in.\<close>

theorem rqueue_fifo:
  assumes "0 < TBFT_RQUEUE_MAX c" "\<And>e. Push e \<in> set os \<Longrightarrow> length (fst e) \<le> TBFT_MAX_MESSAGE_SIZE c"
  shows "rq.accepted c os (rqueue_init c) =
      rq.delivered c os (rqueue_init c) @ rq_list c (fold (rq.step c) os (rqueue_init c)) \<and>
    length (rq_list c (fold (rq.step c) os (rqueue_init c))) \<le> TBFT_RQUEUE_MAX c"
  using rq.conservation [of c "rqueue_init c" os] rq_good_init [OF assms(1)] assms(2)
  by (simp add: rq_elem_ok_def)

definition tiny_queue_config :: config where
  "tiny_queue_config = default_config\<lparr> TBFT_RQUEUE_MAX := 2, TBFT_MAX_MESSAGE_SIZE := 4 \<rparr>"

lemma rqueue_fifo_witness:
  "rq.accepted tiny_queue_config [Push ([1], False), Push ([2], True), Push ([3], False), Pop, Push ([4, 5], False)]
      (rqueue_init tiny_queue_config) =
    rq.delivered tiny_queue_config [Push ([1], False), Push ([2], True), Push ([3], False), Pop, Push ([4, 5], False)]
      (rqueue_init tiny_queue_config) @
    rq_list tiny_queue_config (fold (rq.step tiny_queue_config)
      [Push ([1], False), Push ([2], True), Push ([3], False), Pop, Push ([4, 5], False)]
      (rqueue_init tiny_queue_config)) \<and>
   length (rq_list tiny_queue_config (fold (rq.step tiny_queue_config)
      [Push ([1], False), Push ([2], True), Push ([3], False), Pop, Push ([4, 5], False)]
      (rqueue_init tiny_queue_config))) \<le> TBFT_RQUEUE_MAX tiny_queue_config"
  by (rule rqueue_fifo) (auto simp: tiny_queue_config_def)

end
