(* ===== verification/Replica.thy ===== *)
theory Replica
  imports Agreement_Region Checkpoint_Region View_Info State_Fetch Node RQueue
begin

text \<open>
  The replica, \<open>src/tbft_replica.h\<close> and \<open>tbft_replica.c\<close>: its state, the guards on sequence numbers
  and views, the messages it builds, execution and stability.  An operation takes the build
  configuration \<open>c\<close>, the environment \<open>E\<close> and the replica and returns the replica.  The environment
  holds PSA Crypto, the clock (one reading per call of an operation, so the calls of
  \<open>esp_timer_get_time()\<close> inside one handler agree), the random source and whether a timer can be
  armed.  \<open>r_trace\<close> is a history variable: the datagrams handed to the transport, the replies handed
  to the reply callback and the calls of the execution callback, in their order.  A message is the
  content of the receive buffer with the number of bytes received.  Sequence numbers and views are
  \<open>int64_t\<close> whose overflow is undefined; they are mathematical integers here.
\<close>

section \<open>State\<close>

record env =
  e_psa :: psa
  e_now :: int
  e_timer_ok :: bool
  e_random :: "int \<Rightarrow> bytes"

abbreviation e_hash :: "env \<Rightarrow> bytes \<Rightarrow> bytes option" where
  "e_hash E \<equiv> psa_hash_compute (e_psa E)"

text \<open>The execution callback takes the request, the non-deterministic choices, the client and the
  read-only flag; it returns its status, the bytes written to the reply buffer, the reply length and
  the application state it leaves.  The callback for non-deterministic choices takes the sequence
  number, the buffer and its maximal length; it returns the buffer and the length.\<close>

type_synonym exec_cb = "bytes \<Rightarrow> bytes \<Rightarrow> int \<Rightarrow> bool \<Rightarrow> app_state \<Rightarrow> int \<times> bytes \<times> int \<times> app_state"
type_synonym ndet_cb = "int \<Rightarrow> bytes \<Rightarrow> int \<Rightarrow> bytes \<times> int"

datatype event =
    Sent bytes int
  | Reply_cb bytes int
  | Exec_cb int bytes int

record replica =
  r_node :: node
  r_seqno :: int
  r_last_assigned_cid :: int
  r_last_assigned_rid :: u64
  r_last_stable :: int
  r_quorum_last_stable :: int
  r_last_ckpt_throttle_us :: int
  r_last_fetch_throttle_us :: int
  r_last_catchup_completed_us :: int
  r_last_prepared :: int
  r_last_executed :: int
  r_last_tentative_execute :: int
  r_pending_fill_seqno :: int
  r_fill_started_at_us :: int
  r_last_received_rid :: "u64 list"
  r_last_executed_rid :: "u64 list"
  r_last_forwarded_rid :: "u64 list"
  r_rqueue :: rqueue
  r_ro_rqueue :: rqueue
  r_ar :: agreement_region
  r_cr :: checkpoint_region
  r_sr :: special_region
  r_state :: app_state
  r_vi :: view_info
  r_vtimer :: itimer
  r_stimer :: itimer
  r_vtimer_period_us :: int
  r_stimer_period_us :: int
  r_exec_cb :: "exec_cb option"
  r_comp_ndet_cb :: "ndet_cb option"
  r_recv_reply_cb :: bool
  r_ndet_max_len :: int
  r_ndet_buf :: bytes
  r_out_buf :: bytes
  r_running :: bool
  r_yield_counter :: int
  r_consecutive_mac_failures :: int
  r_view_installed_us :: int
  r_view_start_executed :: int
  r_evt_vtimer :: bool
  r_evt_stimer :: bool
  r_catchup_us :: int
  r_trace :: "event list"

section \<open>Guards and small helpers\<close>

definition TBFT_REQUEST_RO_FLAG :: int where "TBFT_REQUEST_RO_FLAG = 1"
definition TBFT_YIELD_THRESHOLD :: int where "TBFT_YIELD_THRESHOLD = 16"
definition TBFT_VC_BACKOFF_MAX_MULT :: int where "TBFT_VC_BACKOFF_MAX_MULT = 60"

definition tbft_replica_in_window :: "config \<Rightarrow> replica \<Rightarrow> int \<Rightarrow> bool" where
  "tbft_replica_in_window c r seqno \<longleftrightarrow>
     r_last_stable r < seqno \<and> seqno \<le> r_last_stable r + int (TBFT_WINDOW_SIZE c)"

abbreviation r_view :: "replica \<Rightarrow> int" where "r_view r \<equiv> nd_view (r_node r)"
abbreviation r_id :: "replica \<Rightarrow> int" where "r_id r \<equiv> nd_node_id (r_node r)"

definition tbft_replica_is_primary :: "replica \<Rightarrow> bool" where
  "tbft_replica_is_primary r \<longleftrightarrow> r_id r = tbft_node_primary (r_node r) (r_view r)"

text \<open>The arrays of request identifiers; an access past their end is undefined in C, the model then
  reads zero and writes nothing.\<close>

definition rid_at :: "u64 list \<Rightarrow> int \<Rightarrow> u64" where
  "rid_at xs i = (if 0 \<le> i \<and> nat i < length xs then xs ! nat i else 0)"

definition rid_raise :: "u64 list \<Rightarrow> int \<Rightarrow> u64 \<Rightarrow> u64 list" where
  "rid_raise xs i rid = (if 0 \<le> i \<and> rid_at xs i < rid then xs[nat i := rid] else xs)"

definition tbft_replica_reset_forwarded_requests :: "replica \<Rightarrow> replica" where
  "tbft_replica_reset_forwarded_requests r = r\<lparr> r_last_forwarded_rid :=
     map (\<lambda>i. if int i < nd_num_principals (r_node r) then rid_at (r_last_executed_rid r) (int i)
              else r_last_forwarded_rid r ! i) [0 ..< length (r_last_forwarded_rid r)] \<rparr>"

definition tbft_replica_has_pending_requests :: "replica \<Rightarrow> bool" where
  "tbft_replica_has_pending_requests r =
     (if vi_in_progress (r_vi r) then True
      else if tbft_replica_is_primary r
      then list_ex (\<lambda>i. rid_at (r_last_executed_rid r) i < rid_at (r_last_received_rid r) i)
             [0 .. nd_num_principals (r_node r) - 1]
      else list_ex (\<lambda>i. rid_at (r_last_executed_rid r) i < rid_at (r_last_forwarded_rid r) i)
             [0 .. nd_num_principals (r_node r) - 1])"

definition vtimer_cb :: "replica \<Rightarrow> replica" where "vtimer_cb r = r\<lparr> r_evt_vtimer := True \<rparr>"
definition stimer_cb :: "replica \<Rightarrow> replica" where "stimer_cb r = r\<lparr> r_evt_stimer := True \<rparr>"

text \<open>Arming and stopping the view-change timer.\<close>

definition start_vtimer :: "env \<Rightarrow> int \<Rightarrow> replica \<Rightarrow> replica" where
  "start_vtimer E us r = r\<lparr> r_vtimer := tbft_itimer_start (e_timer_ok E) (r_vtimer r) us \<rparr>"

definition stop_vtimer :: "replica \<Rightarrow> replica" where
  "stop_vtimer r = r\<lparr> r_vtimer := tbft_itimer_stop (r_vtimer r) \<rparr>"

text \<open>The idiom: arm the timer with a period if requests are pending, else stop it.\<close>

definition rearm_vtimer :: "env \<Rightarrow> int \<Rightarrow> replica \<Rightarrow> replica" where
  "rearm_vtimer E us r =
     (if tbft_replica_has_pending_requests r then start_vtimer E us r else stop_vtimer r)"

text \<open>The period after \<open>gap\<close> views, doubled per view, at least once and at most six times, and
  capped; half of the period the timer was last armed with, at least the base period.\<close>

definition backoff_period :: "replica \<Rightarrow> int \<Rightarrow> int" where
  "backoff_period r gap =
     (let shift = i32 gap; shift = (if shift < 1 then 1 else shift); shift = (if 6 < shift then 6 else shift);
          period = r_vtimer_period_us r * 2 ^ nat shift
      in if r_vtimer_period_us r * TBFT_VC_BACKOFF_MAX_MULT < period
         then r_vtimer_period_us r * TBFT_VC_BACKOFF_MAX_MULT else period)"

definition half_period :: "replica \<Rightarrow> int" where
  "half_period r =
     (let half = it_period_us (r_vtimer r) sdiv 2
      in if half < r_vtimer_period_us r then r_vtimer_period_us r else half)"

definition emit :: "event \<Rightarrow> replica \<Rightarrow> replica" where
  "emit e r = r\<lparr> r_trace := r_trace r @ [e] \<rparr>"

text \<open>\<open>tbft_node_send\<close> as the replica calls it, its result ignored.\<close>

definition send_to :: "bytes \<Rightarrow> int \<Rightarrow> replica \<Rightarrow> replica" where
  "send_to buf dest r = (if nd_transport (r_node r) then emit (Sent buf dest) r else r)"

text \<open>Send the first \<open>n\<close> bytes of the build buffer.\<close>

definition send_out :: "int \<Rightarrow> int \<Rightarrow> replica \<Rightarrow> replica" where
  "send_out n dest r = send_to (take (nat n) (r_out_buf r)) dest r"

definition count_fresh_keys :: "replica \<Rightarrow> int" where
  "count_fresh_keys r = int (length (filter (\<lambda>i. i \<noteq> r_id r \<and>
     (case nd_principal (r_node r) i of None \<Rightarrow> False | Some p \<Rightarrow> p_keys_fresh p))
     [0 .. nd_num_replicas (r_node r) - 1]))"

section \<open>Prepare and commit messages\<close>

text \<open>The two messages share their layout.  \<open>put_auth\<close> writes the authenticator over the first
  \<open>n\<close> bytes behind them; the size field is set before the authenticator is computed.\<close>

definition put_auth :: "config \<Rightarrow> env \<Rightarrow> node \<Rightarrow> nat \<Rightarrow> bytes \<Rightarrow> bytes" where
  "put_auth c E nd n buf = put n (tbft_node_gen_auth c (e_psa E) nd (take n buf)) buf"

definition build_vote :: "config \<Rightarrow> env \<Rightarrow> node \<Rightarrow> tbft_msg_tag \<Rightarrow> int \<Rightarrow> digest \<Rightarrow> bytes \<Rightarrow> bytes" where
  "build_vote c E nd tag n d buf =
     (let buf = wr_i16 0 (tag_val tag) buf; buf = wr_i16 2 0 buf; buf = wr_i64 8 (e_now E) buf;
          buf = wr_i64 16 (nd_view nd) buf; buf = wr_i64 24 n buf; buf = put 32 d buf;
          buf = wr_i32 64 (nd_node_id nd) buf;
          buf = wr_i32 4 (tbft_msg_align (int (sz_prepare + TBFT_AUTH_SIZE c))) buf
      in put_auth c E nd sz_prepare buf)"

definition tbft_replica_send_prepare :: "config \<Rightarrow> env \<Rightarrow> int \<Rightarrow> replica \<Rightarrow> replica" where
  "tbft_replica_send_prepare c E n r =
     (if tbft_replica_is_primary r then r
      else case ar_load_pp c (r_ar r) n of
        (None, _) \<Rightarrow> r
      | (Some pp, _) \<Rightarrow>
          let r = r\<lparr> r_out_buf := build_vote c E (r_node r) TBFT_MSG_PREPARE n (pp_digest pp) (r_out_buf r) \<rparr>;
              sz = hdr_size (r_out_buf r);
              (ok, ar) = ar_add_my_prepare c (r_ar r) n (r_out_buf r) sz (r_id r);
              r = r\<lparr> r_ar := ar \<rparr>
          in if \<not> ok then r else send_out sz TBFT_ALL_REPLICAS r)"

definition tbft_replica_send_commit :: "config \<Rightarrow> env \<Rightarrow> int \<Rightarrow> int \<Rightarrow> replica \<Rightarrow> replica" where
  "tbft_replica_send_commit c E n dest r =
     (case ar_load_pp c (r_ar r) n of
        (None, _) \<Rightarrow> r
      | (Some pp, _) \<Rightarrow>
          let r = r\<lparr> r_out_buf := build_vote c E (r_node r) TBFT_MSG_COMMIT n (pp_digest pp) (r_out_buf r) \<rparr>;
              sz = hdr_size (r_out_buf r);
              r = r\<lparr> r_ar := snd (ar_add_my_commit c (r_ar r) n (r_out_buf r) sz (r_id r)) \<rparr>;
              r = (if ar_in_range c (r_ar r) n
                   then r\<lparr> r_ar := ar_upd (r_ar r) n (\<lambda>sl. sl\<lparr> sl_commit_sent_us := e_now E \<rparr>) \<rparr> else r)
          in send_out sz dest r)"

section \<open>Starting a fetch\<close>

text \<open>A Fetch message for one node of the partition tree.\<close>

definition send_fetch :: "int \<Rightarrow> int \<Rightarrow> replica \<Rightarrow> replica" where
  "send_fetch level index r =
     (let buf = r_out_buf r;
          buf = wr_i16 0 (tag_val TBFT_MSG_FETCH) buf; buf = wr_i16 2 0 buf;
          buf = wr_i64 16 (r_last_stable r) buf; buf = wr_i64 24 (as_fetch_seqno (r_state r)) buf;
          buf = wr_i32 32 level buf; buf = wr_i32 36 index buf; buf = wr_i32 40 (r_id r) buf;
          buf = wr_i32 4 (tbft_msg_align (int sz_fetch)) buf;
          r = r\<lparr> r_out_buf := buf \<rparr>
      in send_out (hdr_size buf) (as_fetch_replier (r_state r)) r)"

text \<open>Every request taken from the queue is marked done, so the loop ends.\<close>

definition fetch_todo :: "replica \<Rightarrow> nat" where
  "fetch_todo r = length (filter (\<lambda>q. \<not> fr_done q) (as_fetch_queue (r_state r)))"

lemma fetch_queue_next_Some:
  "fetch_queue_next qs i = Some j \<Longrightarrow> i \<le> j \<and> j - i < length qs \<and> \<not> fr_done (qs ! (j - i))"
proof (induction qs i rule: fetch_queue_next.induct)
  case (2 q qs i)
  then show ?case by (cases "fr_done q") (auto simp: nth_Cons' Suc_diff_le)
qed simp

lemma length_filter_done:
  "j < length qs \<Longrightarrow> \<not> fr_done (qs ! j) \<Longrightarrow>
   length (filter (\<lambda>q. \<not> fr_done q) (qs[j := (qs ! j)\<lparr> fr_done := True \<rparr>])) < length (filter (\<lambda>q. \<not> fr_done q) qs)"
  by (induction qs arbitrary: j) (auto simp: nth_Cons' split: nat.splits)

lemma next_fetch_req_todo:
  assumes "tbft_state_next_fetch_req st = (Some q, st')"
  shows "length (filter (\<lambda>q. \<not> fr_done q) (as_fetch_queue st')) < length (filter (\<lambda>q. \<not> fr_done q) (as_fetch_queue st))"
  using assms fetch_queue_next_Some [of "as_fetch_queue st" 0]
  by (auto simp: tbft_state_next_fetch_req_def Let_def length_filter_done split: option.splits if_splits)

lemma send_fetch_state [simp]: "r_state (send_fetch l i r) = r_state r"
  by (simp add: send_fetch_def send_out_def send_to_def emit_def Let_def)

function fetch_send_loop :: "replica \<Rightarrow> replica" where
  "fetch_send_loop r =
     (case tbft_state_next_fetch_req (r_state r) of
        (None, st) \<Rightarrow> r\<lparr> r_state := st \<rparr>
      | (Some (level, index), st) \<Rightarrow> fetch_send_loop (send_fetch level index (r\<lparr> r_state := st \<rparr>)))"
  by pat_completeness auto
termination
  by (relation "measure fetch_todo") (auto simp: fetch_todo_def dest!: next_fetch_req_todo [OF sym])

declare fetch_send_loop.simps [simp del]

definition tbft_replica_start_fetch :: "config \<Rightarrow> env \<Rightarrow> int \<Rightarrow> int \<Rightarrow> replica \<Rightarrow> replica" where
  "tbft_replica_start_fetch c E seqno replier r =
     fetch_send_loop (r\<lparr> r_state := tbft_state_start_fetch c (e_now E) (r_state r) seqno replier \<rparr>)"

section \<open>Stability\<close>

text \<open>\<open>tbft_replica_mark_stable\<close> with its two outcomes: the local state has another digest than the
  quorum's, or the checkpoint is installed; \<open>voted\<close> says that a quorum confirmed it.\<close>

definition mark_stable_mismatch :: "config \<Rightarrow> env \<Rightarrow> int \<Rightarrow> replica \<Rightarrow> replica" where
  "mark_stable_mismatch c E seqno r =
     (if \<not> as_in_fetch (r_state r) \<or> as_fetch_seqno (r_state r) < seqno
      then if e_now E - r_last_fetch_throttle_us r < 500000 then r
           else tbft_replica_start_fetch c E seqno (tbft_node_primary (r_node r) (r_view r))
                  (r\<lparr> r_last_fetch_throttle_us := e_now E \<rparr>)
      else r)"

definition mark_stable_install :: "config \<Rightarrow> env \<Rightarrow> int \<Rightarrow> bool \<Rightarrow> replica \<Rightarrow> replica" where
  "mark_stable_install c E seqno voted r =
     (let r = r\<lparr> r_state := tbft_state_mark_stable c (r_state r) seqno, r_last_stable := seqno \<rparr>;
          r = (if voted then r\<lparr> r_quorum_last_stable := seqno \<rparr> else r);
          r = (if r_last_prepared r < seqno then r\<lparr> r_last_prepared := seqno \<rparr> else r);
          r = (if r_last_executed r < seqno then r\<lparr> r_last_executed := seqno \<rparr> else r);
          r = (if 0 < r_pending_fill_seqno r \<and> r_pending_fill_seqno r \<le> seqno
               then r\<lparr> r_pending_fill_seqno := 0, r_fill_started_at_us := 0 \<rparr> else r);
          r = r\<lparr> r_ar := ar_truncate c (r_ar r) (seqno + 1), r_cr := cr_truncate c (r_cr r) seqno \<rparr>
      in rearm_vtimer E (half_period r) r)"

definition tbft_replica_mark_stable :: "config \<Rightarrow> env \<Rightarrow> int \<Rightarrow> replica \<Rightarrow> replica" where
  "tbft_replica_mark_stable c E seqno r =
     (if seqno \<le> r_last_stable r then r
      else case cr_winning_digest c (r_cr r) seqno of
        Some winning \<Rightarrow>
          if \<not> tbft_digest_equal winning (tbft_state_root_digest (r_state r))
          then mark_stable_mismatch c E seqno r
          else mark_stable_install c E seqno True r
      | None \<Rightarrow> mark_stable_install c E seqno False r)"

section \<open>Execution\<close>

text \<open>Execution stops at a gap and asks for it to be filled.\<close>

definition fill_wanted :: "env \<Rightarrow> int \<Rightarrow> replica \<Rightarrow> replica" where
  "fill_wanted E n r =
     (if \<not> vi_in_progress (r_vi r) \<and> r_pending_fill_seqno r \<noteq> n
      then r\<lparr> r_pending_fill_seqno := n, r_fill_started_at_us := e_now E \<rparr> else r)"

text \<open>The request and the choices embedded in a stored pre-prepare.\<close>

definition pp_request :: "bytes \<Rightarrow> bytes" where
  "pp_request pp = field sz_pre_prepare (nat (pp_rset_size pp)) pp"

definition pp_ndet :: "bytes \<Rightarrow> bytes" where
  "pp_ndet pp = field (sz_pre_prepare + nat (pp_rset_size pp)) (nat (pp_non_det_size pp)) pp"

text \<open>The reply to an executed request: checked length, header, signature, hand-over and sending.\<close>

definition reply_header :: "replica \<Rightarrow> int \<Rightarrow> bytes \<Rightarrow> int \<Rightarrow> int \<Rightarrow> bytes" where
  "reply_header r n req rep_len aligned =
     (let buf = r_out_buf r;
          buf = wr_i16 0 (tag_val TBFT_MSG_REPLY) buf; buf = wr_i16 2 0 buf; buf = wr_i64 8 0 buf;
          buf = wr_i64 16 (r_view r) buf; buf = wr_i64 24 n buf; buf = wr_i32 32 (req_cid req) buf;
          buf = wr_u64 36 (req_rid req) buf; buf = wr_i32 44 rep_len buf
      in wr_i32 4 aligned buf)"

definition exec_reply :: "config \<Rightarrow> env \<Rightarrow> int \<Rightarrow> bytes \<Rightarrow> int \<Rightarrow> replica \<Rightarrow> replica" where
  "exec_reply c E n req rep_len r =
     (let aligned = tbft_msg_align (i32 (int sz_reply + rep_len)); cap = int (TBFT_MAX_MESSAGE_SIZE c);
          total = aligned + int TBFT_SIG_SIZE in
      if rep_len < 0 then r
      else if cap < total mod 2 ^ 32 then r
      else let r = r\<lparr> r_out_buf := reply_header r n req rep_len aligned \<rparr> in
        if cap < total then r
        else let (rc, sig) = tbft_node_gen_sig (e_psa E) (r_node r) (take (nat aligned) (r_out_buf r))
                               (field (nat aligned) TBFT_SIG_SIZE (r_out_buf r));
                 r = r\<lparr> r_out_buf := put (nat aligned) sig (r_out_buf r) \<rparr>
          in if rc \<noteq> 0 then r
             else send_out total (req_cid req)
               (if r_recv_reply_cb r then emit (Reply_cb (take (nat total) (r_out_buf r)) (req_cid req)) r
                else r))"

text \<open>The call of the execution callback; the result says whether the loop goes on.\<close>

definition exec_request :: "config \<Rightarrow> env \<Rightarrow> int \<Rightarrow> bytes \<Rightarrow> replica \<Rightarrow> bool \<times> replica" where
  "exec_request c E n pp r =
     (case r_exec_cb r of
        None \<Rightarrow> (True, r)
      | Some cb \<Rightarrow>
          if pp_rset_size pp < int sz_request then (True, r)
          else let req = pp_request pp; ro = (hdr_extra req AND TBFT_REQUEST_RO_FLAG) \<noteq> 0;
                   buf0 = replicate (TBFT_MAX_MESSAGE_SIZE c) 0 in
            case cb req (pp_ndet pp) (req_cid req) ro (r_state r) of
              (rc, payload, rep_len, st) \<Rightarrow>
                let r = emit (Exec_cb n req rc)
                          (r\<lparr> r_out_buf := put sz_reply payload buf0, r_state := st \<rparr>)
                in if rc \<noteq> 0 then (False, r) else (True, exec_reply c E n req rep_len r))"

definition build_checkpoint :: "config \<Rightarrow> env \<Rightarrow> node \<Rightarrow> int \<Rightarrow> digest \<Rightarrow> bytes \<Rightarrow> bytes" where
  "build_checkpoint c E nd n d buf =
     (let buf = wr_i16 0 (tag_val TBFT_MSG_CHECKPOINT) buf; buf = wr_i16 2 0 buf;
          buf = wr_i64 8 (e_now E) buf; buf = wr_i64 16 n buf; buf = put 24 d buf;
          buf = wr_i32 56 (nd_node_id nd) buf;
          buf = wr_i32 4 (tbft_msg_align (int (sz_checkpoint + TBFT_AUTH_SIZE c))) buf
      in put_auth c E nd sz_checkpoint buf)"

definition exec_checkpoint :: "config \<Rightarrow> env \<Rightarrow> int \<Rightarrow> replica \<Rightarrow> replica" where
  "exec_checkpoint c E n r =
     (let r = r\<lparr> r_state := tbft_state_checkpoint c (e_hash E) (r_state r) n \<rparr>;
          r = r\<lparr> r_out_buf := build_checkpoint c E (r_node r) n (tbft_state_root_digest (r_state r)) (r_out_buf r) \<rparr>;
          sz = hdr_size (r_out_buf r);
          (self_stable, cr) = cr_store c (r_cr r) n (r_id r) (r_out_buf r) sz;
          r = send_out sz TBFT_ALL_REPLICAS (r\<lparr> r_cr := cr \<rparr>)
      in if self_stable then tbft_replica_mark_stable c E n r else r)"

text \<open>Whether the stored pre-prepare and the winning commit agree.\<close>

definition commit_matches :: "replica \<Rightarrow> int \<Rightarrow> bytes \<Rightarrow> bool" where
  "commit_matches r n pp =
     (case cert_cvalue (sl_commit (ar_slice (r_ar r) n)) of
        None \<Rightarrow> True
      | Some cm \<Rightarrow> tbft_digest_equal (pp_digest pp) (cm_digest cm))"

text \<open>What follows the callback: the request identifier, the marker, and the checkpoint.\<close>

definition exec_finish :: "config \<Rightarrow> env \<Rightarrow> int \<Rightarrow> bytes \<Rightarrow> replica \<Rightarrow> replica" where
  "exec_finish c E n pp r =
     (let r = (if int sz_request \<le> pp_rset_size pp
               then r\<lparr> r_last_executed_rid := rid_raise (r_last_executed_rid r)
                        (req_cid (pp_request pp)) (req_rid (pp_request pp)) \<rparr> else r);
          r = r\<lparr> r_last_executed := n \<rparr>
      in if n smod int (TBFT_CHECKPOINT_INTERVAL c) = 0 then exec_checkpoint c E n r else r)"

text \<open>One round of the loop at \<open>n\<close>.\<close>

definition exec_one :: "config \<Rightarrow> env \<Rightarrow> int \<Rightarrow> replica \<Rightarrow> bool \<times> replica" where
  "exec_one c E n r =
     (if \<not> ar_committed c (r_ar r) n then (False, fill_wanted E n r)
      else case ar_load_pp c (r_ar r) n of
        (None, _) \<Rightarrow> (False, fill_wanted E n r)
      | (Some pp, _) \<Rightarrow>
          if \<not> commit_matches r n pp then (False, fill_wanted E n r)
          else case exec_request c E n pp r of
            (go, r) \<Rightarrow> if \<not> go then (False, r) else (True, exec_finish c E n pp r))"

section \<open>The execution loop ends\<close>

text \<open>Sending, replying and fetching change the build buffer, the trace and the application state,
  and nothing else.\<close>

definition io_only :: "replica \<Rightarrow> replica \<Rightarrow> bool" where
  "io_only r r' \<longleftrightarrow> r' = r\<lparr> r_out_buf := r_out_buf r', r_trace := r_trace r', r_state := r_state r' \<rparr>"

lemma io_only_refl: "io_only r r"
  by (cases r) (simp add: io_only_def)

lemma io_only_trans: "io_only r r' \<Longrightarrow> io_only r' r'' \<Longrightarrow> io_only r r''"
  by (cases r; cases r'; cases r'') (simp add: io_only_def)

lemma io_only_fields:
  assumes "io_only r r'"
  shows "r_node r' = r_node r" "r_seqno r' = r_seqno r" "r_last_assigned_cid r' = r_last_assigned_cid r"
    "r_last_assigned_rid r' = r_last_assigned_rid r" "r_last_stable r' = r_last_stable r"
    "r_quorum_last_stable r' = r_quorum_last_stable r" "r_last_prepared r' = r_last_prepared r"
    "r_last_executed r' = r_last_executed r" "r_last_executed_rid r' = r_last_executed_rid r"
    "r_last_received_rid r' = r_last_received_rid r" "r_last_forwarded_rid r' = r_last_forwarded_rid r"
    "r_rqueue r' = r_rqueue r" "r_ro_rqueue r' = r_ro_rqueue r" "r_ar r' = r_ar r" "r_cr r' = r_cr r"
    "r_sr r' = r_sr r" "r_vi r' = r_vi r" "r_exec_cb r' = r_exec_cb r"
    "r_consecutive_mac_failures r' = r_consecutive_mac_failures r"
    "r_pending_fill_seqno r' = r_pending_fill_seqno r" "r_vtimer r' = r_vtimer r"
    "r_recv_reply_cb r' = r_recv_reply_cb r" "r_vtimer_period_us r' = r_vtimer_period_us r"
  using assms by (cases r, cases r', simp add: io_only_def)+

lemma io_only_emit: "io_only r r' \<Longrightarrow> io_only r (emit e r')"
  by (cases r; cases r') (simp add: io_only_def emit_def)

lemma io_only_send_to: "io_only r r' \<Longrightarrow> io_only r (send_to b d r')"
  by (simp add: send_to_def io_only_emit)

lemma io_only_out_buf: "io_only r r' \<Longrightarrow> io_only r (r'\<lparr> r_out_buf := b \<rparr>)"
  by (cases r; cases r') (simp add: io_only_def)

lemma io_only_state: "io_only r r' \<Longrightarrow> io_only r (r'\<lparr> r_state := st \<rparr>)"
  by (cases r; cases r') (simp add: io_only_def)

lemma io_only_send_out: "io_only r r' \<Longrightarrow> io_only r (send_out n d r')"
  by (simp add: send_out_def io_only_send_to)

lemma io_only_send_fetch: "io_only r r' \<Longrightarrow> io_only r (send_fetch l i r')"
  by (simp add: send_fetch_def Let_def io_only_out_buf io_only_send_out)

lemmas io_intros = io_only_refl io_only_emit io_only_out_buf io_only_state io_only_send_out io_only_send_fetch io_only_send_to

lemma io_only_fetch_loop: "io_only r (fetch_send_loop r)"
proof (induction r rule: fetch_send_loop.induct)
  case (1 r)
  show ?case
  proof (cases "tbft_state_next_fetch_req (r_state r)")
    case (Pair q st)
    show ?thesis
    proof (cases q)
      case None
      then show ?thesis using Pair by (simp add: fetch_send_loop.simps [of r] io_intros)
    next
      case (Some li)
      obtain l i where li: "li = (l, i)" by (cases li)
      have "io_only r (send_fetch l i (r\<lparr> r_state := st \<rparr>))" by (intro io_intros)
      then show ?thesis using "1.IH" [OF Pair [symmetric] Some li [symmetric]] Pair Some li
        by (simp add: fetch_send_loop.simps [of r]) (rule io_only_trans)
    qed
  qed
qed

lemma io_only_start_fetch: "io_only r (tbft_replica_start_fetch c E n q r)"
  unfolding tbft_replica_start_fetch_def
  by (rule io_only_trans [OF io_only_state [OF io_only_refl] io_only_fetch_loop])

lemma io_only_exec_reply: "io_only r r' \<Longrightarrow> io_only r (exec_reply c E n req rep_len r')"
  by (simp add: exec_reply_def Let_def io_intros split: prod.split)

lemma io_only_exec_request: "io_only r (snd (exec_request c E n pp r))"
  by (simp add: exec_request_def Let_def io_intros io_only_exec_reply split: option.split prod.split)

lemma timer_fields [simp]:
  "r_last_prepared (rearm_vtimer E us r) = r_last_prepared r"
  "r_last_executed (rearm_vtimer E us r) = r_last_executed r"
  "r_last_stable (rearm_vtimer E us r) = r_last_stable r"
  by (simp_all add: rearm_vtimer_def start_vtimer_def stop_vtimer_def)

lemma mark_stable_prepared: "n \<le> r_last_prepared r \<Longrightarrow> r_last_prepared (tbft_replica_mark_stable c E n r) = r_last_prepared r"
  by (simp add: tbft_replica_mark_stable_def mark_stable_mismatch_def mark_stable_install_def Let_def
      io_only_fields [OF io_only_start_fetch] split: option.split)

lemma exec_checkpoint_prepared:
  assumes "n \<le> r_last_prepared r"
  shows "r_last_prepared (exec_checkpoint c E n r) = r_last_prepared r"
proof -
  have "r_last_prepared (send_out sz d r') = r_last_prepared r'" for sz d r'
    by (rule io_only_fields [OF io_only_send_out [OF io_only_refl]])
  then show ?thesis using assms
    by (simp add: exec_checkpoint_def Let_def mark_stable_prepared split: prod.split)
qed

lemma exec_one_True:
  assumes "exec_one c E n r = (True, r')"
  obtains pp l where "ar_committed c (r_ar r) n" "ar_load_pp c (r_ar r) n = (Some pp, l)"
    "commit_matches r n pp" "fst (exec_request c E n pp r)"
    "r' = exec_finish c E n pp (snd (exec_request c E n pp r))"
  using assms by (auto simp: exec_one_def split: if_splits option.splits prod.splits)

lemma exec_one_prepared:
  assumes "exec_one c E n r = (True, r')" "n \<le> r_last_prepared r"
  shows "r_last_prepared r' = r_last_prepared r"
proof -
  obtain pp where r': "r' = exec_finish c E n pp (snd (exec_request c E n pp r))"
    using assms(1) by (rule exec_one_True)
  have "r_last_prepared (snd (exec_request c E n pp r)) = r_last_prepared r"
    by (rule io_only_fields [OF io_only_exec_request])
  with assms(2) show ?thesis by (simp add: r' exec_finish_def Let_def exec_checkpoint_prepared)
qed

function exec_loop :: "config \<Rightarrow> env \<Rightarrow> int \<Rightarrow> replica \<Rightarrow> replica" where
  "exec_loop c E n r =
     (if r_last_prepared r < n then r
      else case exec_one c E n r of (go, r') \<Rightarrow> if go then exec_loop c E (n + 1) r' else r')"
  by pat_completeness auto
termination
  by (relation "measure (\<lambda>(c, E, n, r). nat (r_last_prepared r + 1 - n))")
    (auto dest!: exec_one_prepared [OF sym])

declare exec_loop.simps [simp del]

definition tbft_replica_execute_committed :: "config \<Rightarrow> env \<Rightarrow> replica \<Rightarrow> replica" where
  "tbft_replica_execute_committed c E r =
     (let r = exec_loop c E (r_last_executed r + 1) r
      in rearm_vtimer E (r_vtimer_period_us r) r)"

end
