(* ===== verification/Replica_Normal.thy ===== *)
theory Replica_Normal
  imports Replica
begin

text \<open>
  The normal case of the protocol in \<open>src/tbft_replica.c\<close>: requests are queued by the primary and
  ordered by pre-prepares, pre-prepares are checked and answered by prepares, prepares and commits
  are collected, checkpoints become stable, and a pre-prepare is sent again on demand.  Each handler
  is one definition, its guards in the order of the code.
\<close>

section \<open>Proposing requests\<close>

text \<open>The source queue of a request: the read-write queue is \<open>True\<close>.\<close>

definition src_queue :: "bool \<Rightarrow> replica \<Rightarrow> rqueue" where
  "src_queue rw r = (if rw then r_rqueue r else r_ro_rqueue r)"

definition src_pop :: "config \<Rightarrow> bool \<Rightarrow> replica \<Rightarrow> replica" where
  "src_pop c rw r = (if rw then r\<lparr> r_rqueue := rqueue_pop c (r_rqueue r) \<rparr>
     else r\<lparr> r_ro_rqueue := rqueue_pop c (r_ro_rqueue r) \<rparr>)"

text \<open>The next queue with a request, starting at \<open>rw\<close>.\<close>

definition next_request :: "bool \<Rightarrow> replica \<Rightarrow> (bool \<times> rq_entry) option" where
  "next_request rw r =
     (case rqueue_front (src_queue rw r) of
        Some e \<Rightarrow> Some (rw, e)
      | None \<Rightarrow> map_option (\<lambda>e. (\<not> rw, e)) (rqueue_front (src_queue (\<not> rw) r)))"

definition already_assigned :: "replica \<Rightarrow> rq_entry \<Rightarrow> bool" where
  "already_assigned r e \<longleftrightarrow>
     req_cid (rqe_buf e) = r_last_assigned_cid r \<and> req_rid (rqe_buf e) = r_last_assigned_rid r"

definition drop_duplicate :: "config \<Rightarrow> bool \<times> rq_entry \<Rightarrow> replica \<Rightarrow> (bool \<times> rq_entry) option \<times> replica" where
  "drop_duplicate c src r =
     (if \<not> already_assigned r (snd src) then (Some src, r)
      else let r = src_pop c (fst src) r
        in case next_request (fst src) r of
             None \<Rightarrow> (None, r)
           | Some src' \<Rightarrow> if already_assigned r (snd src') then (None, src_pop c (fst src') r)
                          else (Some src', r))"

text \<open>The pre-prepare, built in the cleared buffer: header, request, choices, authenticator.\<close>

definition build_pp :: "config \<Rightarrow> env \<Rightarrow> node \<Rightarrow> int \<Rightarrow> digest \<Rightarrow> bytes \<Rightarrow> bytes \<Rightarrow> bytes" where
  "build_pp c E nd n d req ndet =
     (let buf = replicate (TBFT_MAX_MESSAGE_SIZE c) 0;
          buf = wr_i16 0 (tag_val TBFT_MSG_PRE_PREPARE) buf; buf = wr_i16 2 0 buf;
          buf = wr_i64 8 (e_now E) buf; buf = wr_i64 16 (nd_view nd) buf; buf = wr_i64 24 n buf;
          buf = put 32 d buf; buf = wr_i32 64 (int (length req)) buf; buf = wr_i16 68 (int (length ndet)) buf;
          buf = put sz_pre_prepare req buf; buf = put (sz_pre_prepare + length req) ndet buf;
          auth_off = sz_pre_prepare + length req + length ndet;
          buf = wr_i32 4 (tbft_msg_align (int (auth_off + TBFT_AUTH_SIZE c))) buf
      in put_auth c E nd auth_off buf)"

text \<open>After the pre-prepare is stored: broadcast it, then the primary's own prepare.\<close>

definition broadcast_proposal :: "config \<Rightarrow> env \<Rightarrow> digest \<Rightarrow> replica \<Rightarrow> replica" where
  "broadcast_proposal c E d r =
     (let r = send_out (hdr_size (r_out_buf r)) TBFT_ALL_REPLICAS r;
          r = r\<lparr> r_out_buf := build_vote c E (r_node r) TBFT_MSG_PREPARE (r_seqno r) d (r_out_buf r) \<rparr>;
          sz = hdr_size (r_out_buf r);
          r = r\<lparr> r_ar := snd (ar_add_my_prepare c (r_ar r) (r_seqno r) (r_out_buf r) sz (r_id r)) \<rparr>
      in send_out sz TBFT_ALL_REPLICAS r)"

text \<open>The proposal of the chosen request: window, digest, choices, size, building, storing.\<close>

definition propose :: "config \<Rightarrow> env \<Rightarrow> bool \<times> rq_entry \<Rightarrow> replica \<Rightarrow> replica" where
  "propose c E src r =
     (if \<not> tbft_replica_in_window c r (r_seqno r) then r
      else let e = snd src; req = take (nat (rqe_len e)) (rqe_buf e);
               d = tbft_msg_digest (e_hash E) req;
               (ndet_buf, ndet_len) = (case r_comp_ndet_cb r of None \<Rightarrow> (r_ndet_buf r, 0)
                  | Some cb \<Rightarrow> cb (r_seqno r) (r_ndet_buf r) (r_ndet_max_len r));
               ndet_len = (if INT16_MAX < ndet_len then INT16_MAX else ndet_len);
               r = r\<lparr> r_ndet_buf := ndet_buf \<rparr>;
               needed = (int sz_pre_prepare + rqe_len e + ndet_len + int (TBFT_AUTH_SIZE c)) mod 2 ^ 32;
               aligned_needed = ((needed + 7) mod 2 ^ 32) AND NOT 7
        in if int (TBFT_MAX_MESSAGE_SIZE c) < aligned_needed then src_pop c (fst src) r
           else let r = r\<lparr> r_out_buf := build_pp c E (r_node r) (r_seqno r) d req (take (nat ndet_len) ndet_buf) \<rparr>;
                    (ok, ar) = ar_store_pp c (e_now E) (r_ar r) (r_seqno r) (r_out_buf r) (hdr_size (r_out_buf r));
                    r = r\<lparr> r_ar := ar \<rparr>
             in if \<not> ok then (src_pop c (fst src) r)\<lparr> r_last_assigned_cid := - 1 \<rparr>
                else let r = broadcast_proposal c E d r;
                         r = r\<lparr> r_last_assigned_cid := req_cid (rqe_buf e), r_last_assigned_rid := req_rid (rqe_buf e) \<rparr>;
                         r = src_pop c (fst src) r;
                         r = r\<lparr> r_seqno := r_seqno r + 1 \<rparr>
                  in rearm_vtimer E (r_vtimer_period_us r) r)"

definition tbft_replica_send_pre_prepare :: "config \<Rightarrow> env \<Rightarrow> replica \<Rightarrow> replica" where
  "tbft_replica_send_pre_prepare c E r =
     (if \<not> tbft_replica_is_primary r then r
      else if vi_in_progress (r_vi r) then r
      else if count_fresh_keys r < nd_threshold (r_node r) - 1 then r
      else case next_request True r of
        None \<Rightarrow> stop_vtimer r
      | Some src \<Rightarrow>
          (case drop_duplicate c src (start_vtimer E (half_period r) r) of
             (None, r) \<Rightarrow> r
           | (Some src, r) \<Rightarrow> propose c E src r))"

section \<open>Requests\<close>

text \<open>A request of a backup goes to the primary.\<close>

definition forward_request :: "env \<Rightarrow> bytes \<Rightarrow> int \<Rightarrow> replica \<Rightarrow> replica" where
  "forward_request E msg len r =
     (let r = send_to (take (nat len) msg) (tbft_node_primary (r_node r) (r_view r)) r;
          r = r\<lparr> r_last_forwarded_rid := rid_raise (r_last_forwarded_rid r) (req_cid msg) (req_rid msg) \<rparr>
      in if rid_at (r_last_executed_rid r) (req_cid msg) < rid_at (r_last_forwarded_rid r) (req_cid msg)
            \<and> \<not> tbft_itimer_is_running (r_vtimer r)
         then start_vtimer E (r_vtimer_period_us r) r else r)"

definition queued :: "config \<Rightarrow> rqueue \<Rightarrow> bytes \<Rightarrow> bool" where
  "queued c q msg \<longleftrightarrow> list_ex (\<lambda>i. req_cid (rqe_buf (rq_nth c q i)) = req_cid msg \<and>
     req_rid (rqe_buf (rq_nth c q i)) = req_rid msg) [0 ..< rq_count q]"

text \<open>The request at the start of a buffer of \<open>avail\<close> bytes, and its signature, are in bounds and
  the signature is the client's.\<close>

definition request_sig_ok :: "env \<Rightarrow> node \<Rightarrow> bytes \<Rightarrow> bool" where
  "request_sig_ok E nd msg =
     (let sig_offset = sz_request + nat (req_command_size msg)
      in tbft_node_verify_sig (e_psa E) nd (req_cid msg) (take sig_offset msg) (field sig_offset TBFT_SIG_SIZE msg))"

definition tbft_replica_handle_request :: "config \<Rightarrow> env \<Rightarrow> bytes \<Rightarrow> int \<Rightarrow> replica \<Rightarrow> replica" where
  "tbft_replica_handle_request c E msg len r =
     (if len < int sz_request then r
      else if req_command_size msg < 0 \<or>
        (int (TBFT_MAX_MESSAGE_SIZE c) - int sz_request - int TBFT_SIG_SIZE) mod 2 ^ 32 < req_command_size msg then r
      else if req_cid msg < 0 \<or> nd_num_principals (r_node r) \<le> req_cid msg then r
      else if len < int sz_request + req_command_size msg + int TBFT_SIG_SIZE then r
      else if \<not> request_sig_ok E (r_node r) msg then r
      else let r = r\<lparr> r_last_received_rid := rid_raise (r_last_received_rid r) (req_cid msg) (req_rid msg) \<rparr>
        in if \<not> tbft_replica_is_primary r then forward_request E msg len r
           else if vi_in_progress (r_vi r) then r
           else let ro = (hdr_extra msg AND TBFT_REQUEST_RO_FLAG) \<noteq> 0
             in if queued c (src_queue (\<not> ro) r) msg then r
                else let (ok, q) = rqueue_push c (src_queue (\<not> ro) r) msg len ro
                  in if \<not> ok then r
                     else tbft_replica_send_pre_prepare c E
                       (if ro then r\<lparr> r_ro_rqueue := q \<rparr> else r\<lparr> r_rqueue := q \<rparr>))"

section \<open>Pre-prepares\<close>

text \<open>The markers follow a stable checkpoint and the regions are truncated to the window above it.\<close>

definition raise_markers :: "int \<Rightarrow> replica \<Rightarrow> replica" where
  "raise_markers n r =
     (let r = (if r_last_prepared r < n then r\<lparr> r_last_prepared := n \<rparr> else r)
      in if r_last_executed r < n then r\<lparr> r_last_executed := n \<rparr> else r)"

definition truncate_regions :: "config \<Rightarrow> int \<Rightarrow> replica \<Rightarrow> replica" where
  "truncate_regions c n r = r\<lparr> r_cr := cr_truncate c (r_cr r) n,
     r_ar := (ar_truncate c (r_ar r) (n + 1))\<lparr> ar_head := n + 1 \<rparr> \<rparr>"

text \<open>A view is installed: the clock, the execution marker and the primary are recorded.\<close>

definition install_view :: "env \<Rightarrow> int \<Rightarrow> replica \<Rightarrow> replica" where
  "install_view E v r =
     tbft_replica_reset_forwarded_requests
       (r\<lparr> r_node := (r_node r)\<lparr> nd_view := v, nd_cur_primary := tbft_node_primary (r_node r) v \<rparr>,
           r_view_installed_us := e_now E, r_view_start_executed := r_last_executed r \<rparr>)"

text \<open>The view change is over: its state is reset for the view \<open>v\<close>.\<close>

definition reset_vi :: "config \<Rightarrow> int \<Rightarrow> replica \<Rightarrow> replica" where
  "reset_vi c v r = (case vi_reset c (r_vi r) (r_sr r) v of (vi, sr) \<Rightarrow> r\<lparr> r_vi := vi, r_sr := sr \<rparr>)"

definition end_view_change :: "replica \<Rightarrow> replica" where
  "end_view_change r = r\<lparr> r_vi := (r_vi r)\<lparr> vi_in_progress := False \<rparr> \<rparr>"

definition pp_advance_view :: "config \<Rightarrow> env \<Rightarrow> int \<Rightarrow> replica \<Rightarrow> replica" where
  "pp_advance_view c E v r =
     (let r = install_view E v r;
          r = raise_markers (r_last_stable r) r;
          r = truncate_regions c (r_last_stable r) r;
          r = stop_vtimer r;
          r = end_view_change (reset_vi c (r_view r + 1) r)
      in rearm_vtimer E (r_vtimer_period_us r) r)"

text \<open>The checks of the embedded request: digest, length, tag, command size, client, padding and
  the client's signature.\<close>

definition pp_request_ok :: "env \<Rightarrow> node \<Rightarrow> bytes \<Rightarrow> bool" where
  "pp_request_ok E nd msg =
     (let rset = pp_rset_size msg; req = drop sz_pre_prepare msg;
          sig_off = int sz_request + req_command_size req
      in if rset = 0 then False
         else if \<not> tbft_digest_equal (pp_digest msg) (tbft_msg_digest (e_hash E) (pp_request msg)) then False
         else if rset < int (sz_request + TBFT_SIG_SIZE) then False
         else if hdr_tag req \<noteq> tag_val TBFT_MSG_REQUEST then False
         else if req_command_size req < 0 \<or> rset - int sz_request - int TBFT_SIG_SIZE < req_command_size req then False
         else if req_cid req < 0 \<or> nd_num_principals nd \<le> req_cid req then False
         else if rset < sig_off + int TBFT_SIG_SIZE \<or> 7 < rset - sig_off - int TBFT_SIG_SIZE then False
         else request_sig_ok E nd req)"

text \<open>The authenticator of a pre-prepare: \<open>None\<close> when it is missing or has no slot for this replica.\<close>

definition pp_auth_ok :: "env \<Rightarrow> node \<Rightarrow> int \<Rightarrow> bytes \<Rightarrow> bool option" where
  "pp_auth_ok E nd primary msg =
     (let off = sz_pre_prepare + nat (pp_rset_size msg) + nat (pp_non_det_size msg);
          slot = tbft_node_auth_slot_index nd primary
      in if slot < 0 then None
         else Some (tbft_node_verify_auth (e_psa E) nd primary (take off msg)
                (field (off + nat slot * TBFT_HMAC_SIZE) TBFT_HMAC_SIZE msg) (hdr_timestamp_us msg)))"

text \<open>What follows the authenticator check.\<close>

definition accept_pp :: "config \<Rightarrow> env \<Rightarrow> bytes \<Rightarrow> int \<Rightarrow> replica \<Rightarrow> replica" where
  "accept_pp c E msg len r =
     (if \<not> pp_request_ok E (r_node r) msg then r
      else let req = drop sz_pre_prepare msg;
               r = r\<lparr> r_last_received_rid := rid_raise (r_last_received_rid r) (req_cid req) (req_rid req) \<rparr>;
               (ok, ar) = ar_store_pp c (e_now E) (r_ar r) (pp_seqno msg) msg len;
               r = r\<lparr> r_ar := ar \<rparr>
        in if \<not> ok then r
           else let r = (if r_seqno r < pp_seqno msg + 1 then r\<lparr> r_seqno := pp_seqno msg + 1 \<rparr> else r)
             in tbft_replica_send_prepare c E (pp_seqno msg) r)"

definition mac_failed :: "replica \<Rightarrow> replica" where
  "mac_failed r = r\<lparr> r_consecutive_mac_failures := r_consecutive_mac_failures r + 1 \<rparr>"

definition mac_passed :: "replica \<Rightarrow> replica" where
  "mac_passed r = r\<lparr> r_consecutive_mac_failures := 0 \<rparr>"

definition tbft_replica_handle_pre_prepare :: "config \<Rightarrow> env \<Rightarrow> bytes \<Rightarrow> int \<Rightarrow> replica \<Rightarrow> replica" where
  "tbft_replica_handle_pre_prepare c E msg len r =
     (let expected_primary = tbft_node_primary (r_node r) (pp_view msg) in
      if len < int sz_pre_prepare then r
      else if pp_view msg < r_view r then r
      else if pp_view msg = r_view r \<and> r_id r = expected_primary then r
      else if \<not> tbft_replica_in_window c r (pp_seqno msg) then r
      else if pp_rset_size msg < 0 \<or> pp_non_det_size msg < 0 then r
      else if len < int sz_pre_prepare + pp_rset_size msg + pp_non_det_size msg + int (TBFT_AUTH_SIZE c) then r
      else case pp_auth_ok E (r_node r) expected_primary msg of
        None \<Rightarrow> r
      | Some False \<Rightarrow> mac_failed r
      | Some True \<Rightarrow>
          let r = mac_passed r;
              r = (if r_view r < pp_view msg then pp_advance_view c E (pp_view msg) r else r)
          in accept_pp c E msg len r)"

section \<open>Prepares and commits\<close>

text \<open>The MAC of a message whose authenticator follows \<open>n\<close> bytes of body.\<close>

definition body_auth_ok :: "env \<Rightarrow> node \<Rightarrow> int \<Rightarrow> nat \<Rightarrow> bytes \<Rightarrow> bool" where
  "body_auth_ok E nd sender n msg =
     tbft_node_verify_auth (e_psa E) nd sender (take n msg)
       (field (n + nat (tbft_node_auth_slot_index nd sender) * TBFT_HMAC_SIZE) TBFT_HMAC_SIZE msg)
       (hdr_timestamp_us msg)"

text \<open>A stored pre-prepare for \<open>n\<close> has another digest than \<open>d\<close>.\<close>

definition pp_mismatch :: "config \<Rightarrow> agreement_region \<Rightarrow> int \<Rightarrow> digest \<Rightarrow> bool" where
  "pp_mismatch c ar n d =
     (case ar_load_pp c ar n of
        (None, _) \<Rightarrow> False
      | (Some pp, l) \<Rightarrow> int sz_pre_prepare \<le> l \<and> \<not> tbft_digest_equal (pp_digest pp) d)"

text \<open>What follows an accepted prepare, and an accepted commit.\<close>

definition after_prepare :: "config \<Rightarrow> env \<Rightarrow> int \<Rightarrow> replica \<Rightarrow> replica" where
  "after_prepare c E n r =
     (if \<not> ar_prepared c (r_ar r) n then r
      else let r = (if r_last_prepared r < n then r\<lparr> r_last_prepared := n \<rparr> else r);
               r = (if \<not> tbft_bitmap_test (cert_bmap (sl_commit (ar_slice (r_ar r) n))) (r_id r)
                    then tbft_replica_send_commit c E n TBFT_ALL_REPLICAS r else r)
        in if ar_committed c (r_ar r) n then tbft_replica_execute_committed c E r else r)"

definition tbft_replica_handle_prepare :: "config \<Rightarrow> env \<Rightarrow> bytes \<Rightarrow> int \<Rightarrow> replica \<Rightarrow> replica" where
  "tbft_replica_handle_prepare c E msg len r =
     (let n = prep_seqno msg; sender = prep_id msg in
      if len < int (sz_prepare + TBFT_AUTH_SIZE c) then r
      else if prep_view msg \<noteq> r_view r then r
      else if \<not> tbft_replica_in_window c r n then r
      else if sender < 0 \<or> nd_num_replicas (r_node r) \<le> sender then r
      else if sender = r_id r then r
      else if tbft_node_auth_slot_index (r_node r) sender < 0 then r
      else if \<not> body_auth_ok E (r_node r) sender sz_prepare msg then mac_failed r
      else let r = mac_passed r in
        if pp_mismatch c (r_ar r) n (prep_digest msg) then r
        else if fst (ar_load_pp c (r_ar r) n) = None then r
        else if tbft_bitmap_test (cert_bmap (pc_pc (sl_prepared (ar_slice (r_ar r) n)))) sender then r
        else let (ok, ar) = ar_add_prepare c (r_ar r) n msg len sender; r = r\<lparr> r_ar := ar \<rparr>
          in if \<not> ok then r else after_prepare c E n r)"

definition after_commit :: "config \<Rightarrow> env \<Rightarrow> int \<Rightarrow> replica \<Rightarrow> replica" where
  "after_commit c E n r =
     (let r = (if ar_prepared c (r_ar r) n \<and> \<not> ar_committed c (r_ar r) n \<and>
                  500000 \<le> e_now E - sl_commit_sent_us (ar_slice (r_ar r) n)
               then tbft_replica_send_commit c E n TBFT_ALL_REPLICAS r else r)
      in if ar_committed c (r_ar r) n then tbft_replica_execute_committed c E r else r)"

definition tbft_replica_handle_commit :: "config \<Rightarrow> env \<Rightarrow> bytes \<Rightarrow> int \<Rightarrow> replica \<Rightarrow> replica" where
  "tbft_replica_handle_commit c E msg len r =
     (let n = cm_seqno msg; sender = cm_id msg in
      if len < int (sz_commit + TBFT_AUTH_SIZE c) then r
      else if cm_view msg \<noteq> r_view r then r
      else if \<not> tbft_replica_in_window c r n then r
      else if sender < 0 \<or> nd_num_replicas (r_node r) \<le> sender then r
      else if sender = r_id r then r
      else if tbft_node_auth_slot_index (r_node r) sender < 0 then r
      else if \<not> body_auth_ok E (r_node r) sender sz_commit msg then mac_failed r
      else let r = mac_passed r in
        if pp_mismatch c (r_ar r) n (cm_digest msg) then r
        else if tbft_bitmap_test (cert_bmap (sl_commit (ar_slice (r_ar r) n))) sender then r
        else let (ok, ar) = ar_add_commit c (r_ar r) n msg len sender; r = r\<lparr> r_ar := ar \<rparr>
          in if \<not> ok then r else after_commit c E n r)"

section \<open>Checkpoints and fill requests\<close>

definition tbft_replica_handle_checkpoint :: "config \<Rightarrow> env \<Rightarrow> bytes \<Rightarrow> int \<Rightarrow> replica \<Rightarrow> replica" where
  "tbft_replica_handle_checkpoint c E msg len r =
     (let n = ckpt_seqno msg; sender = ckpt_id msg in
      if len < int (sz_checkpoint + TBFT_AUTH_SIZE c) then r
      else if n \<le> 0 \<or> n smod int (TBFT_CHECKPOINT_INTERVAL c) \<noteq> 0 then r
      else if sender < 0 \<or> nd_num_replicas (r_node r) \<le> sender then r
      else if sender = r_id r then r
      else if tbft_node_auth_slot_index (r_node r) sender < 0 then r
      else if \<not> body_auth_ok E (r_node r) sender sz_checkpoint msg then mac_failed r
      else let r = mac_passed r; (stable_now, cr) = cr_store c (r_cr r) n sender msg len; r = r\<lparr> r_cr := cr \<rparr>
        in if stable_now then tbft_replica_mark_stable c E n r else r)"

definition tbft_replica_handle_fill_request :: "config \<Rightarrow> env \<Rightarrow> bytes \<Rightarrow> int \<Rightarrow> replica \<Rightarrow> replica" where
  "tbft_replica_handle_fill_request c E msg len r =
     (if len < int sz_fill_request then r
      else if fill_view msg \<noteq> r_view r then r
      else if fill_id msg < 0 \<or> nd_num_replicas (r_node r) \<le> fill_id msg \<or> fill_id msg = r_id r then r
      else case nd_principal (r_node r) (fill_id msg) of
        None \<Rightarrow> r
      | Some p \<Rightarrow>
          if \<not> p_keys_fresh p then r
          else if \<not> tbft_principal_verify_mac_in (e_psa E) p (take (sz_fill_request - 32) msg) (fill_mac msg) then r
          else case ar_load_pp c (r_ar r) (fill_seqno msg) of
            (None, _) \<Rightarrow> r
          | (Some pp, l) \<Rightarrow> send_to (take (nat l) pp) (fill_id msg) r)"

end
