(* ===== verification/Replica_View.thy ===== *)
theory Replica_View
  imports Replica_Normal
begin

text \<open>
  Session keys and view changes in \<open>src/tbft_replica.c\<close>: \<open>send_new_key\<close> and \<open>handle_new_key\<close>,
  \<open>send_view_change\<close>, \<open>handle_view_change\<close> with the construction of the New_view by the new
  primary, and \<open>handle_new_view\<close>.
\<close>

section \<open>Session keys\<close>

definition nk_slot_off :: "nat \<Rightarrow> nat" where
  "nk_slot_off slot = sz_new_key + slot * sz_new_key_slot"

definition key_unset :: "bytes \<Rightarrow> bool" where
  "key_unset k \<longleftrightarrow> list_all (\<lambda>b. b = 0) k"

text \<open>One round of the loop over the replicas, on the slot index, the buffer and the node: an
  existing key is sent again with the ciphertext it was first sent with.\<close>

definition nk_slot_for :: "env \<Rightarrow> int \<Rightarrow> nat \<times> bytes \<times> node \<Rightarrow> nat \<times> bytes \<times> node" where
  "nk_slot_for E i st = (case st of (slot, buf, nd) \<Rightarrow>
     if i = nd_node_id nd then st
     else case nd_principal nd i of
       None \<Rightarrow> st
     | Some p \<Rightarrow>
         let off = nk_slot_off slot;
             finish = (\<lambda>key p buf. (Suc slot, wr_i32 off i buf,
                         nd_set_principal nd i (tbft_principal_set_out_key (e_psa E) p key)))
         in if key_unset (p_hmac_out_key p)
            then let key = e_random E i;
                     (rc, ct) = tbft_principal_encrypt_new_key (e_psa E) p key (field (off + 4) TBFT_SIG_SIZE buf);
                     buf = put (off + 4) ct buf
                 in if rc \<noteq> 0 \<or> length ct \<noteq> TBFT_SIG_SIZE then (slot, buf, nd)
                    else finish key (p\<lparr> p_last_sent_new_key_ciphertext := ct \<rparr>) buf
            else finish (p_hmac_out_key p) p (put (off + 4) (p_last_sent_new_key_ciphertext p) buf))"

definition tbft_replica_send_new_key :: "config \<Rightarrow> env \<Rightarrow> replica \<Rightarrow> replica" where
  "tbft_replica_send_new_key c E r =
     (let n = nd_num_replicas (r_node r); cap = int (TBFT_MAX_MESSAGE_SIZE c) in
      if cap < (int sz_new_key + (n - 1) * int sz_new_key_slot) mod 2 ^ 32 then r
      else let buf = r_out_buf r;
               buf = wr_i16 0 (tag_val TBFT_MSG_NEW_KEY) buf; buf = wr_i16 2 0 buf;
               buf = wr_i64 8 (e_now E) buf; buf = wr_i32 16 (r_id r) buf; buf = wr_i32 20 0 buf;
               (slots, buf, nd) = fold (nk_slot_for E) [0 .. n - 1] (0, buf, r_node r);
               r = r\<lparr> r_node := nd, r_out_buf := buf \<rparr>
        in if slots = 0 then r
           else let sz = tbft_msg_align (int (nk_slot_off slots));
                    buf = wr_i32 4 sz (wr_i32 20 (int slots) buf);
                    r = r\<lparr> r_out_buf := buf \<rparr>
             in if cap < (sz + int TBFT_SIG_SIZE) mod 2 ^ 32 then r
                else let (rc, sig) = tbft_node_gen_sig (e_psa E) (r_node r) (take (nat sz) buf)
                                       (field (nat sz) TBFT_SIG_SIZE buf);
                         r = r\<lparr> r_out_buf := put (nat sz) sig buf \<rparr>
                  in if rc \<noteq> 0 then r else send_out (sz + int TBFT_SIG_SIZE) TBFT_ALL_REPLICAS r)"

text \<open>The body of a signed message is \<open>hdr.size\<close> bytes, its signature follows.\<close>

definition body_signed :: "env \<Rightarrow> node \<Rightarrow> int \<Rightarrow> nat \<Rightarrow> bytes \<Rightarrow> int \<Rightarrow> bool" where
  "body_signed E nd sender min_size msg len =
     (let body = hdr_size msg in
      if body < int min_size \<or> len < body then False
      else if len < body + int TBFT_SIG_SIZE then False
      else tbft_node_verify_sig (e_psa E) nd sender (take (nat body) msg) (field (nat body) TBFT_SIG_SIZE msg))"

definition tbft_replica_handle_new_key :: "config \<Rightarrow> env \<Rightarrow> bytes \<Rightarrow> int \<Rightarrow> replica \<Rightarrow> replica" where
  "tbft_replica_handle_new_key c E msg len r =
     (let sender = nk_id msg; nd = r_node r in
      if len < int sz_new_key then r
      else if sender < 0 \<or> nd_num_replicas nd \<le> sender then r
      else if sender = r_id r then r
      else if nk_n_keys msg \<le> 0 \<or> nd_num_replicas nd < nk_n_keys msg then r
      else case nd_principal nd sender of
        None \<Rightarrow> r
      | Some p \<Rightarrow>
          if len < int sz_new_key + nk_n_keys msg * int sz_new_key_slot then r
          else case List.find (\<lambda>s. nks_recipient_id (nk_slot_off s) msg = r_id r) [0 ..< nat (nk_n_keys msg)] of
            None \<Rightarrow> r
          | Some s \<Rightarrow>
              let ct = nks_ciphertext (nk_slot_off s) msg in
              if p_keys_fresh p \<and> p_last_new_key_ciphertext p = ct then r
              else if \<not> body_signed E nd sender sz_new_key msg len then r
              else if \<not> nd_local_set nd then r
              else case nd_principal nd (r_id r) of
                None \<Rightarrow> r
              | Some local \<Rightarrow>
                  (case tbft_principal_decrypt_new_key (e_psa E) local ct of
                     (rc, key) \<Rightarrow>
                       if rc \<noteq> 0 then r
                       else r\<lparr> r_node := nd_set_principal nd sender
                              ((tbft_principal_set_in_key (e_psa E) p key)\<lparr> p_last_new_key_ciphertext := ct \<rparr>) \<rparr>))"

section \<open>Starting a view change\<close>

text \<open>The prepared requests listed in a View_change: the loop over the sequence numbers, which stops
  when the message is full.\<close>

fun vc_list_prepared :: "config \<Rightarrow> replica \<Rightarrow> int \<Rightarrow> int list \<Rightarrow> int \<Rightarrow> nat \<Rightarrow> bytes \<Rightarrow> int \<times> nat \<times> bytes" where
  "vc_list_prepared c r max_reqs [] n ptr buf = (n, ptr, buf)"
| "vc_list_prepared c r max_reqs (s # ss) n ptr buf =
     (if ar_in_range c (r_ar r) s \<and> ar_prepared c (r_ar r) s
      then if int (TBFT_WINDOW_SIZE c) \<le> n \<or> max_reqs \<le> n then (n, ptr, buf)
           else case fst (ar_load_pp c (r_ar r) s) of
             None \<Rightarrow> vc_list_prepared c r max_reqs ss n ptr buf
           | Some pp \<Rightarrow> vc_list_prepared c r max_reqs ss (n + 1) (ptr + sz_vc_req_info)
               (put (ptr + 16) (pp_digest pp) (wr_i64 (ptr + 8) (r_view r) (wr_i64 ptr s buf)))
      else vc_list_prepared c r max_reqs ss n ptr buf)"

definition vc_report_ls :: "config \<Rightarrow> replica \<Rightarrow> int" where
  "vc_report_ls c r =
     (if r_last_stable r + int (TBFT_WINDOW_SIZE c) < r_last_executed r
      then r_last_executed r - int (TBFT_WINDOW_SIZE c) else r_last_stable r)"

definition build_vc :: "config \<Rightarrow> int \<Rightarrow> replica \<Rightarrow> bytes" where
  "build_vc c target r =
     (let buf = r_out_buf r;
          buf = wr_i16 0 (tag_val TBFT_MSG_VIEW_CHANGE) buf; buf = wr_i16 2 0 buf;
          buf = wr_i64 16 target buf; buf = wr_i64 24 (vc_report_ls c r) buf; buf = wr_i32 40 (r_id r) buf;
          (n_ckpts, ptr, buf) = (if 0 < r_last_stable r
             then (1, sz_view_change + sz_vc_ckpt, put (sz_view_change + 8) (tbft_state_root_digest (r_state r))
                    (wr_i64 sz_view_change (r_last_stable r) buf))
             else (0, sz_view_change, buf));
          budget = int (TBFT_MAX_MESSAGE_SIZE c) - int TBFT_SIG_SIZE;
          max_reqs = (if int ptr < budget then (budget - int ptr) div int sz_vc_req_info else 0);
          (n_reqs, ptr, buf) = vc_list_prepared c r max_reqs [r_last_stable r + 1 .. r_last_prepared r] 0 ptr buf
      in wr_i32 4 (tbft_msg_align (int ptr)) (wr_i32 36 n_reqs (wr_i32 32 n_ckpts buf)))"

text \<open>Building, signing, sending and collecting the own View_change; then the timer backs off.\<close>

definition vc_emit :: "config \<Rightarrow> env \<Rightarrow> int \<Rightarrow> replica \<Rightarrow> replica" where
  "vc_emit c E target r =
     (if int (TBFT_MAX_MESSAGE_SIZE c) < int (sz_view_change + sz_vc_ckpt + TBFT_SIG_SIZE) then r
      else let r = r\<lparr> r_out_buf := build_vc c target r \<rparr>; body = hdr_size (r_out_buf r); total = body + int TBFT_SIG_SIZE
        in if int (TBFT_MAX_MESSAGE_SIZE c) < total then r
           else let (rc, sig) = tbft_node_gen_sig (e_psa E) (r_node r) (take (nat body) (r_out_buf r))
                                  (field (nat body) TBFT_SIG_SIZE (r_out_buf r));
                    r = r\<lparr> r_out_buf := put (nat body) sig (r_out_buf r) \<rparr>
             in if rc \<noteq> 0 then r
                else let r = send_out total TBFT_ALL_REPLICAS r;
                         r = (if vi_received (r_vi r) ! nat (r_id r) then r
                              else case vi_collect_vc c (r_vi r) (r_sr r) (r_id r) (r_out_buf r) total of
                                (_, vi, sr) \<Rightarrow> r\<lparr> r_vi := vi, r_sr := sr \<rparr>)
                  in start_vtimer E (backoff_period r (target - r_view r)) r)"

definition tbft_replica_send_view_change :: "config \<Rightarrow> env \<Rightarrow> replica \<Rightarrow> replica" where
  "tbft_replica_send_view_change c E r =
     (if 20 \<le> r_consecutive_mac_failures r
      then start_vtimer E (r_vtimer_period_us r * 4)
             ((tbft_replica_send_new_key c E r)\<lparr> r_consecutive_mac_failures := 0 \<rparr>)
      else if r_last_stable r = 0 \<and> r_last_executed r = 0 \<and> r_view r < 3 \<and>
              (e_now E - r_view_installed_us r) sdiv 1000000 < 90
      then start_vtimer E (r_vtimer_period_us r * 8) r
      else let target = (if r_view r + 1 < vi_target_view (r_vi r) then vi_target_view (r_vi r) else r_view r + 1);
               r = (if vi_target_view (r_vi r) \<noteq> target then reset_vi c target r else r);
               r = r\<lparr> r_vi := (r_vi r)\<lparr> vi_in_progress := True \<rparr> \<rparr>
        in vc_emit c E target r)"

section \<open>Collecting view changes and sending the New_view\<close>

text \<open>The sequence number to assign next never falls behind the replica's progress.\<close>

definition progress_seqno :: "replica \<Rightarrow> int" where
  "progress_seqno r =
     (let s = r_last_stable r; s = (if s < r_last_prepared r then r_last_prepared r else s)
      in if s < r_last_executed r then r_last_executed r else s)"

definition raise_seqno :: "replica \<Rightarrow> replica" where
  "raise_seqno r = (if r_seqno r < progress_seqno r + 1 then r\<lparr> r_seqno := progress_seqno r + 1 \<rparr> else r)"

text \<open>The timer of a view a replica has moved to: it backs off with the number of views skipped.\<close>

definition backoff_restart :: "env \<Rightarrow> int \<Rightarrow> replica \<Rightarrow> replica" where
  "backoff_restart E gap r =
     (let r = stop_vtimer r
      in if tbft_replica_has_pending_requests r then start_vtimer E (backoff_period r gap) r else r)"

text \<open>A View_change that was not collected but is for a higher view moves the replica there.\<close>

definition vc_sync_view :: "config \<Rightarrow> env \<Rightarrow> int \<Rightarrow> replica \<Rightarrow> replica" where
  "vc_sync_view c E v r =
     (let old_view = r_view r; r = raise_seqno (install_view E v r);
          r = raise_markers (r_last_stable r) r;
          r = truncate_regions c (r_last_stable r) r
      in backoff_restart E (v - old_view) r)"

text \<open>The prepared requests that the stored View_change of a replica lists.\<close>

definition vc_listed :: "config \<Rightarrow> special_region \<Rightarrow> int \<Rightarrow> (int \<times> digest) list" where
  "vc_listed c sr i =
     (case sr_load_vc c sr i of
        (None, _) \<Rightarrow> []
      | (Some vc, l) \<Rightarrow>
          let W = int (TBFT_WINDOW_SIZE c); reqs = int sz_view_change + vc_n_ckpts vc * int sz_vc_ckpt in
          if vc_n_ckpts vc < 0 \<or> vc_n_reqs vc < 0 then []
          else if W < vc_n_ckpts vc \<or> W < vc_n_reqs vc then []
          else if l < reqs + vc_n_reqs vc * int sz_vc_req_info then []
          else map (\<lambda>j. (vcr_seqno (nat reqs + j * sz_vc_req_info) vc, vcr_digest (nat reqs + j * sz_vc_req_info) vc))
                 [0 ..< nat (vc_n_reqs vc)])"

text \<open>Counting equal entries in the array \<open>counts\<close>.\<close>

definition nv_count_one :: "config \<Rightarrow> int \<Rightarrow> int \<Rightarrow> int \<times> digest \<Rightarrow> (int \<times> digest \<times> int) list \<Rightarrow> (int \<times> digest \<times> int) list" where
  "nv_count_one c min_s max_s q counts =
     (if fst q < min_s \<or> max_s < fst q then counts
      else case List.find (\<lambda>k. fst (counts ! k) = fst q \<and> tbft_digest_equal (fst (snd (counts ! k))) (snd q))
                  [0 ..< length counts] of
        Some k \<Rightarrow> counts[k := (fst (counts ! k), fst (snd (counts ! k)), snd (snd (counts ! k)) + 1)]
      | None \<Rightarrow> if length counts < TBFT_WINDOW_SIZE c then counts @ [(fst q, snd q, 1)] else counts)"

definition nv_counts :: "config \<Rightarrow> replica \<Rightarrow> int \<Rightarrow> int \<Rightarrow> (int \<times> digest \<times> int) list" where
  "nv_counts c r min_s max_s =
     fold (\<lambda>i counts. if \<not> vi_received (r_vi r) ! nat i then counts
             else fold (nv_count_one c min_s max_s) (vc_listed c (r_sr r) i) counts)
       [0 .. nd_num_replicas (r_node r) - 1] []"

text \<open>Appending the proofs that enough View_changes list, up to the end of the buffer.\<close>

fun nv_add_proofs :: "int \<Rightarrow> int \<Rightarrow> int \<Rightarrow> (int \<times> digest \<times> int) list \<Rightarrow> nat \<Rightarrow> nat \<Rightarrow> bytes \<Rightarrow> nat \<times> nat \<times> bytes" where
  "nv_add_proofs body_end f last_view [] n ptr buf = (n, ptr, buf)"
| "nv_add_proofs body_end f last_view ((seqno, d, cnt) # counts) n ptr buf =
     (if 2 * f + 1 \<le> cnt
      then if body_end < int (ptr + sz_vc_req_info) then (n, ptr, buf)
           else nv_add_proofs body_end f last_view counts (Suc n) (ptr + sz_vc_req_info)
                  (put (ptr + 16) d (wr_i64 (ptr + 8) last_view (wr_i64 ptr seqno buf)))
      else nv_add_proofs body_end f last_view counts n ptr buf)"

definition build_nv :: "config \<Rightarrow> env \<Rightarrow> replica \<Rightarrow> bytes" where
  "build_nv c E r =
     (let (min_s, max_s) = vi_compute_min_max c (r_vi r); counts = nv_counts c r min_s max_s;
          buf = r_out_buf r;
          buf = wr_i16 0 (tag_val TBFT_MSG_NEW_VIEW) buf; buf = wr_i16 2 0 buf; buf = wr_i64 8 (e_now E) buf;
          buf = wr_i64 16 (vi_target_view (r_vi r)) buf; buf = wr_i64 24 min_s buf; buf = wr_i64 32 max_s buf;
          buf = wr_i32 44 1 buf;
          f = (nd_num_replicas (r_node r) - 1) sdiv 3;
          (n, ptr, buf) = nv_add_proofs (int (TBFT_MAX_MESSAGE_SIZE c) - int TBFT_SIG_SIZE) f
             (if 0 < r_view r then r_view r - 1 else 0) counts 0 sz_new_view buf
      in wr_i32 4 (tbft_msg_align (int ptr)) (wr_i32 40 (int n) buf))"

text \<open>Installing the view of a New_view message, its own or a received one: the next sequence number
  above the minimum, the local progress and the proofs; the stable point; the window.\<close>

definition nv_start_seq :: "bytes \<Rightarrow> replica \<Rightarrow> int" where
  "nv_start_seq msg r =
     (let s = nv_min msg; s = (if s < r_last_prepared r then r_last_prepared r else s);
          s = (if s < r_last_executed r then r_last_executed r else s)
      in if 0 < nv_n_prep msg
         then fold (\<lambda>p s. let q = vcr_seqno (sz_new_view + p * sz_vc_req_info) msg in if s < q then q else s)
                [0 ..< nat (nv_n_prep msg)] s
         else s)"

definition nv_install :: "config \<Rightarrow> env \<Rightarrow> int \<Rightarrow> bytes \<Rightarrow> replica \<Rightarrow> replica" where
  "nv_install c E v msg r =
     (let r = install_view E v r; m = nv_min msg;
          r = r\<lparr> r_seqno := nv_start_seq msg r + 1 \<rparr>;
          r = (if r_last_stable r < m then r\<lparr> r_last_stable := m \<rparr> else r);
          r = r\<lparr> r_state := tbft_state_mark_stable c (r_state r) m \<rparr>;
          r = raise_markers m r;
          r = truncate_regions c m r
      in if ar_head (r_ar r) + int (TBFT_WINDOW_SIZE c) \<le> r_seqno r
         then r\<lparr> r_ar := ar_truncate c (r_ar r) (r_seqno r) \<rparr> else r)"

text \<open>The new primary with a quorum: build, sign, send, and install locally.\<close>

definition vc_become_primary :: "config \<Rightarrow> env \<Rightarrow> replica \<Rightarrow> replica" where
  "vc_become_primary c E r =
     (let r = r\<lparr> r_out_buf := build_nv c E r \<rparr>; body = hdr_size (r_out_buf r); total = body + int TBFT_SIG_SIZE in
      if int (TBFT_MAX_MESSAGE_SIZE c) < total mod 2 ^ 32 then r
      else let (rc, sig) = tbft_node_gen_sig (e_psa E) (r_node r) (take (nat body) (r_out_buf r))
                             (field (nat body) TBFT_SIG_SIZE (r_out_buf r));
               r = r\<lparr> r_out_buf := put (nat body) sig (r_out_buf r) \<rparr>
        in if rc \<noteq> 0 then r
           else let r = send_out total TBFT_ALL_REPLICAS r;
                    r = nv_install c E (vi_target_view (r_vi r)) (r_out_buf r) r;
                    r = stop_vtimer r;
                    r = end_view_change (reset_vi c (r_view r + 1) r)
             in rearm_vtimer E (r_vtimer_period_us r) r)"

text \<open>A collected View_change for a view above the target (\<open>vi_collect_vc\<close> has then already moved
  the target).\<close>

definition vc_retarget :: "config \<Rightarrow> env \<Rightarrow> bytes \<Rightarrow> int \<Rightarrow> int \<Rightarrow> replica \<Rightarrow> replica" where
  "vc_retarget c E msg len old_view r =
     (let r = reset_vi c (vc_v msg) r;
          r = (case vi_collect_vc c (r_vi r) (r_sr r) (vc_id msg) msg len of (_, vi, sr) \<Rightarrow> r\<lparr> r_vi := vi, r_sr := sr \<rparr>)
      in if vc_v msg = vi_target_view (r_vi r) \<and> vi_has_quorum (r_vi r)
         then backoff_restart E (vc_v msg - old_view)
                (r\<lparr> r_vi := (r_vi r)\<lparr> vi_target_view := vc_v msg, vi_in_progress := False \<rparr> \<rparr>)
         else r)"

definition tbft_replica_handle_view_change :: "config \<Rightarrow> env \<Rightarrow> bytes \<Rightarrow> int \<Rightarrow> replica \<Rightarrow> replica" where
  "tbft_replica_handle_view_change c E msg len r =
     (let sender = vc_id msg in
      if len < int sz_view_change then r
      else if sender < 0 \<or> nd_num_replicas (r_node r) \<le> sender then r
      else if \<not> body_signed E (r_node r) sender sz_view_change msg len then r
      else case vi_collect_vc c (r_vi r) (r_sr r) sender msg len of
        (collected, vi, sr) \<Rightarrow>
          let old_view = r_view r; r = r\<lparr> r_vi := vi, r_sr := sr \<rparr> in
          if \<not> collected then (if r_view r < vc_v msg then vc_sync_view c E (vc_v msg) r else r)
          else if vi_target_view (r_vi r) < vc_v msg then vc_retarget c E msg len old_view r
          else if tbft_node_primary (r_node r) (vi_target_view (r_vi r)) = r_id r \<and> vi_has_quorum (r_vi r)
               then vc_become_primary c E r
               else r)"

section \<open>Installing a New_view\<close>

definition tbft_replica_handle_new_view :: "config \<Rightarrow> env \<Rightarrow> bytes \<Rightarrow> int \<Rightarrow> replica \<Rightarrow> replica" where
  "tbft_replica_handle_new_view c E msg len r =
     (if len < int sz_new_view then r
      else if nv_v msg < r_view r then r
      else if nv_has_sig msg = 0 then r
      else if \<not> body_signed E (r_node r) (tbft_node_primary (r_node r) (nv_v msg)) sz_new_view msg len then r
      else if \<not> vi_verify_nv c (r_vi r) (r_sr r) msg len then r
      else let proofs_size = i32 (nv_n_prep msg * int sz_vc_req_info) in
        if 0 < proofs_size \<and> hdr_size msg < i32 (int sz_new_view + proofs_size) then r
        else if nv_n_prep msg < 0 \<or> int (TBFT_WINDOW_SIZE c) < nv_n_prep msg then r
        else let old_view = r_view r;
                 r = nv_install c E (nv_v msg) msg r;
                 r = stop_vtimer r;
                 r = end_view_change (reset_vi c (nv_v msg + 1) r)
          in rearm_vtimer E (backoff_period r (nv_v msg - old_view)) r)"

end
