(* ===== verification/Replica_Fetch.thy ===== *)
theory Replica_Fetch
  imports Replica_View
begin

text \<open>
  Status messages and state transfer in \<open>src/tbft_replica.c\<close>: a replica that is behind catches up
  with the view and fetches the state, a replica that is ahead resends what the other one misses,
  and the two sides of the fetch protocol.  The function-local \<open>static last_catchup_us\<close> of
  \<open>handle_status\<close> is the field \<open>r_catchup_us\<close>.
\<close>

section \<open>Status\<close>

definition status_fetch_target :: "config \<Rightarrow> bytes \<Rightarrow> int" where
  "status_fetch_target c msg =
     (let I = int (TBFT_CHECKPOINT_INTERVAL c); t = st_last_stable msg
      in if t = 0 \<and> 0 < st_last_executed msg
         then let t = st_last_executed msg sdiv I * I in if t = 0 then I else t
         else t)"

text \<open>The view of the sender is higher: move there, fetch when behind, back off.\<close>

definition status_catch_up :: "config \<Rightarrow> env \<Rightarrow> bytes \<Rightarrow> replica \<Rightarrow> replica" where
  "status_catch_up c E msg r =
     (let old_view = r_view r; r = install_view E (st_view msg) r;
          r = (if vi_in_progress (r_vi r) then end_view_change (reset_vi c (st_view msg + 1) r) else r);
          r = truncate_regions c (r_last_stable r) r;
          r = raise_seqno r;
          target = status_fetch_target c msg;
          r = (if r_last_stable r < target \<and> \<not> as_in_fetch (r_state r)
               then if r_last_catchup_completed_us r = 0 \<or> 10000000 < e_now E - r_last_catchup_completed_us r
                    then tbft_replica_start_fetch c E target (tbft_node_primary (r_node r) (st_view msg))
                           (r\<lparr> r_last_fetch_throttle_us := e_now E \<rparr>)
                    else r
               else r);
          period = backoff_period r (st_view msg - old_view)
      in rearm_vtimer E period (stop_vtimer r))"

definition status_fetch :: "config \<Rightarrow> env \<Rightarrow> bytes \<Rightarrow> replica \<Rightarrow> replica" where
  "status_fetch c E msg r =
     (let target = status_fetch_target c msg in
      if r_last_executed r < st_last_executed msg \<and> r_last_stable r < target \<and>
         (\<not> as_in_fetch (r_state r) \<or> as_fetch_seqno (r_state r) < target) \<and>
         int (TBFT_CHECKPOINT_INTERVAL c) < st_last_executed msg - r_last_executed r
      then if 500000 \<le> e_now E - r_last_fetch_throttle_us r
           then tbft_replica_start_fetch c E target (st_id msg) (r\<lparr> r_last_fetch_throttle_us := e_now E \<rparr>)
           else r
      else r)"

text \<open>Sending the pre-prepares and commits the peer lacks.\<close>

definition resend_seqno :: "config \<Rightarrow> env \<Rightarrow> int \<Rightarrow> int \<Rightarrow> replica \<Rightarrow> replica" where
  "resend_seqno c E dest n r =
     (if \<not> tbft_replica_in_window c r n then r
      else let r = (case ar_load_pp c (r_ar r) n of
                      (Some pp, l) \<Rightarrow> if 0 < l then send_to (take (nat l) pp) dest r else r
                    | (None, _) \<Rightarrow> r)
        in tbft_replica_send_commit c E n dest r)"

definition status_resend :: "config \<Rightarrow> env \<Rightarrow> bytes \<Rightarrow> replica \<Rightarrow> replica" where
  "status_resend c E msg r =
     (let W = int (TBFT_WINDOW_SIZE c); peer = st_last_executed msg in
      if st_view msg = r_view r \<and> peer < r_last_executed r \<and> r_last_executed r \<le> peer + W * 4
      then let threshold = (if peer + 1 = r_last_executed r then 200000 else 500000) in
        if threshold \<le> e_now E - r_catchup_us r
        then fold (resend_seqno c E (st_id msg)) [peer + 1 .. r_last_executed r] (r\<lparr> r_catchup_us := e_now E \<rparr>)
        else r
      else r)"

text \<open>Sending the checkpoints above the stable point of the peer, one per interval.\<close>

definition resend_checkpoint :: "config \<Rightarrow> env \<Rightarrow> int \<Rightarrow> int \<Rightarrow> replica \<Rightarrow> replica" where
  "resend_checkpoint c E dest n r =
     (case tbft_state_get_checkpoint_digest c (r_state r) n of
        None \<Rightarrow> r
      | Some d \<Rightarrow>
          let r = r\<lparr> r_out_buf := build_checkpoint c E (r_node r) n d (r_out_buf r) \<rparr>
          in send_out (hdr_size (r_out_buf r)) dest r)"

definition status_checkpoints :: "config \<Rightarrow> env \<Rightarrow> bytes \<Rightarrow> replica \<Rightarrow> replica" where
  "status_checkpoints c E msg r =
     (let I = int (TBFT_CHECKPOINT_INTERVAL c) in
      if st_last_stable msg < 0 then r
      else let first = st_last_stable msg div I + 1; last = r_last_executed r div I
        in fold (\<lambda>k. resend_checkpoint c E (st_id msg) (k * I)) [first .. last] r)"

definition handle_status :: "config \<Rightarrow> env \<Rightarrow> bytes \<Rightarrow> int \<Rightarrow> replica \<Rightarrow> replica" where
  "handle_status c E msg len r =
     (if len < int sz_status then r
      else if st_id msg < 0 \<or> nd_num_replicas (r_node r) \<le> st_id msg then r
      else if st_id msg = r_id r then r
      else if st_view msg < r_view r then r
      else if r_view r < st_view msg \<and> 10 < st_view msg - r_view r \<and>
              st_last_stable msg < r_last_stable r + int (TBFT_WINDOW_SIZE c) then r
      else let r = (if r_view r < st_view msg then status_catch_up c E msg r else r);
               r = status_fetch c E msg r
        in if e_now E - r_last_ckpt_throttle_us r < 500000 then r
           else status_checkpoints c E msg
                  (status_resend c E msg (r\<lparr> r_last_ckpt_throttle_us := e_now E \<rparr>)))"

section \<open>Serving a fetch\<close>

definition build_data :: "config \<Rightarrow> app_state \<Rightarrow> int \<Rightarrow> int \<Rightarrow> int \<Rightarrow> bytes \<Rightarrow> bytes" where
  "build_data c st seqno level index buf =
     (let buf = wr_i16 0 (tag_val TBFT_MSG_DATA) buf; buf = wr_i16 2 0 buf; buf = wr_i64 16 seqno buf;
          buf = wr_i32 24 index buf; buf = put 32 (part_digest (ptree_node (as_ptree st) (nat level) (nat index))) buf;
          buf = put sz_data (state_block c st index) buf
      in wr_i32 4 (tbft_msg_align (int (sz_data + TBFT_BLOCK_SIZE c))) buf)"

definition build_meta_data :: "app_state \<Rightarrow> int \<Rightarrow> int \<Rightarrow> int \<Rightarrow> nat \<Rightarrow> int \<Rightarrow> bytes \<Rightarrow> bytes" where
  "build_meta_data st seqno level index count first_child buf =
     (let buf = wr_i16 0 (tag_val TBFT_MSG_META_DATA) buf; buf = wr_i16 2 0 buf; buf = wr_i64 16 seqno buf;
          buf = wr_i32 24 level buf; buf = wr_i32 28 index buf; buf = wr_i32 32 (int count) buf;
          buf = fold (\<lambda>k buf. let p = ptree_node (as_ptree st) (nat (level + 1)) (nat (first_child + int k));
                                 off = sz_meta_data + k * sz_part_info
                             in wr_i32 (off + 32) (i32 (part_version p)) (put off (part_digest p) buf))
                  [0 ..< count] buf
      in wr_i32 4 (tbft_msg_align (int (sz_meta_data + count * sz_part_info))) buf)"

definition tbft_replica_handle_fetch :: "config \<Rightarrow> bytes \<Rightarrow> int \<Rightarrow> replica \<Rightarrow> replica" where
  "tbft_replica_handle_fetch c msg len r =
     (let level = fetch_level msg; index = fetch_index msg; st = r_state r;
          levels = int (pt_levels (as_ptree st)); cap = TBFT_MAX_MESSAGE_SIZE c in
      if len < int sz_fetch then r
      else if fetch_id msg < 0 \<or> nd_num_replicas (r_node r) \<le> fetch_id msg then r
      else if level < 0 \<or> index < 0 then r
      else if levels \<le> level then r
      else if level = levels - 1
      then if as_num_blocks st \<le> index then r
           else if cap < sz_data + TBFT_BLOCK_SIZE c then r
           else let r = r\<lparr> r_out_buf := build_data c st (fetch_c msg) level index (r_out_buf r) \<rparr>
             in send_out (hdr_size (r_out_buf r)) (fetch_id msg) r
      else let pchildren = int (pt_children (as_ptree st));
               n_children = ptree_nodes_at_level (nat (level + 1)) pchildren;
               first_child = i32 (index * pchildren);
               count = (if n_children < i32 (first_child + pchildren) then i32 (n_children - first_child) else pchildren)
        in if count \<le> 0 then r
           else if cap < sz_meta_data + nat count * sz_part_info then r
           else let r = r\<lparr> r_out_buf := build_meta_data st (fetch_c msg) level index (nat count) first_child (r_out_buf r) \<rparr>
             in send_out (hdr_size (r_out_buf r)) (fetch_id msg) r)"

section \<open>Receiving the state\<close>

text \<open>A finished fetch: the checkpoint is marked stable and the sequence number moves past it.\<close>

definition fetch_finished :: "config \<Rightarrow> env \<Rightarrow> int \<Rightarrow> replica \<Rightarrow> replica" where
  "fetch_finished c E fetched r =
     (let r = tbft_replica_mark_stable c E fetched r;
          r = (if r_seqno r \<le> fetched then r\<lparr> r_seqno := fetched + 1 \<rparr> else r)
      in r\<lparr> r_last_catchup_completed_us := e_now E \<rparr>)"

definition tbft_replica_handle_meta_data :: "config \<Rightarrow> env \<Rightarrow> bytes \<Rightarrow> int \<Rightarrow> replica \<Rightarrow> replica" where
  "tbft_replica_handle_meta_data c E msg len r =
     (if \<not> tbft_state_in_fetch (r_state r) then r
      else if len < int sz_meta_data then r
      else if md_n_parts msg < 0 \<or> int (TBFT_P_CHILDREN c) < md_n_parts msg then r
      else if len < int sz_meta_data + md_n_parts msg * int sz_part_info then r
      else let r = r\<lparr> r_state := tbft_state_handle_meta_data c (r_state r) msg (drop sz_meta_data msg) (md_n_parts msg) \<rparr>
        in if md_level msg = 0 \<and> as_n_data_pending (r_state r) = 0 \<and> list_all fr_done (as_fetch_queue (r_state r))
           then let fetched = as_fetch_seqno (r_state r)
             in fetch_finished c E fetched (r\<lparr> r_state := tbft_state_fetch_complete (r_state r) \<rparr>)
           else fetch_send_loop r)"

definition tbft_replica_handle_data :: "config \<Rightarrow> env \<Rightarrow> bytes \<Rightarrow> int \<Rightarrow> replica \<Rightarrow> replica" where
  "tbft_replica_handle_data c E msg len r =
     (if \<not> tbft_state_in_fetch (r_state r) then r
      else if len < int (sz_data + TBFT_BLOCK_SIZE c) then r
      else let fetch_seqno = as_fetch_seqno (r_state r);
               r = r\<lparr> r_state := tbft_state_handle_data c (e_hash E) (r_state r) msg (drop sz_data msg) \<rparr>
        in if \<not> tbft_state_in_fetch (r_state r) then fetch_finished c E fetch_seqno r else r)"

end
