(* ===== verification/Replica_Run.thy ===== *)
theory Replica_Run
  imports Replica_Fetch
begin

text \<open>
  The life of a replica, \<open>tbft_replica_init\<close> and \<open>tbft_replica_run\<close> of \<open>src/tbft_replica.c\<close>.  The
  event loop is one definition per block of its body, composed by \<open>loop_body\<close>; what the environment
  supplies to a round (the clock, the tick count, the received datagram) is the record \<open>round_in\<close>.
  The initial key barrier reads a list of such rounds.  Delays, logging and the task watchdog have no
  effect on the state and are left out.
\<close>

section \<open>Initialisation\<close>

text \<open>Which of the resources are granted: the transport attempts, the timers, the allocations of the
  state and the event group.\<close>

record resources =
  res_transport :: "nat \<Rightarrow> bool"
  res_atimer :: bool
  res_alloc :: "nat \<Rightarrow> bool"
  res_vtimer :: bool
  res_stimer :: bool
  res_evt_group :: bool

definition blank_timer :: itimer where
  "blank_timer = \<lparr> it_handle = False, it_cb = False, it_running = False, it_period_us = 0, it_active = False \<rparr>"

definition replica_fields :: "config \<Rightarrow> node \<Rightarrow> int \<Rightarrow> int \<Rightarrow> app_state \<Rightarrow> replica" where
  "replica_fields c nd f n st =
     (let nids = TBFT_MAX_NUM_REPLICAS c + TBFT_MAX_NUM_CLIENTS c;
          num_clients = (if nd_num_principals nd - n < 1 then 1 else nd_num_principals nd - n) in \<lparr>
     r_node = nd, r_seqno = 1, r_last_assigned_cid = - 1, r_last_assigned_rid = - 1,
     r_last_stable = 0, r_quorum_last_stable = 0, r_last_ckpt_throttle_us = 0,
     r_last_fetch_throttle_us = 0, r_last_catchup_completed_us = 0, r_last_prepared = 0,
     r_last_executed = 0, r_last_tentative_execute = 0, r_pending_fill_seqno = 0, r_fill_started_at_us = 0,
     r_last_received_rid = replicate nids 0, r_last_executed_rid = replicate nids 0,
     r_last_forwarded_rid = replicate nids 0,
     r_rqueue = rqueue_init c, r_ro_rqueue = rqueue_init c,
     r_ar = ar_init c (2 * f) (2 * f + 1), r_cr = cr_init c n (2 * f + 1), r_sr = sr_init c n num_clients,
     r_state = st, r_vi = vi_init c n (2 * f + 1), r_vtimer = blank_timer, r_stimer = blank_timer,
     r_vtimer_period_us = TBFT_VIEW_CHANGE_TIMEOUT_US c, r_stimer_period_us = TBFT_STATUS_TIMEOUT_US c,
     r_exec_cb = None, r_comp_ndet_cb = None, r_recv_reply_cb = False, r_ndet_max_len = 0,
     r_ndet_buf = replicate (TBFT_NDET_BUF_SIZE c) 0, r_out_buf = replicate (TBFT_MAX_MESSAGE_SIZE c) 0,
     r_running = False, r_yield_counter = 0, r_consecutive_mac_failures = 0, r_view_installed_us = 0,
     r_view_start_executed = 0, r_evt_vtimer = False, r_evt_stimer = False, r_catchup_us = 0, r_trace = [] \<rparr>)"

definition tbft_replica_init ::
  "config \<Rightarrow> resources \<Rightarrow> int \<Rightarrow> int \<Rightarrow> int \<Rightarrow> int \<Rightarrow> int \<Rightarrow> bytes \<Rightarrow> exec_cb option \<Rightarrow> ndet_cb option \<Rightarrow> int \<Rightarrow> bool
     \<Rightarrow> replica option" where
  "tbft_replica_init c res node_id f num_replicas num_nodes auth_timeout_us state_mem exec_cb comp_ndet_cb
       ndet_max_len recv_reply_cb =
     (case tbft_node_init c (res_transport res) (res_atimer res) node_id f num_replicas num_nodes auth_timeout_us of
        None \<Rightarrow> None
      | Some nd \<Rightarrow>
          case tbft_state_init c (res_alloc res) state_mem of
            None \<Rightarrow> None
          | Some st \<Rightarrow>
              let r = (replica_fields c nd f num_replicas st)\<lparr> r_exec_cb := exec_cb,
                        r_comp_ndet_cb := comp_ndet_cb,
                        r_ndet_max_len := (if int (TBFT_NDET_BUF_SIZE c) < ndet_max_len
                                           then int (TBFT_NDET_BUF_SIZE c) else ndet_max_len),
                        r_recv_reply_cb := recv_reply_cb \<rparr>;
                  (vt_ok, vt) = tbft_itimer_init (res_vtimer res) True (r_vtimer r);
                  (st_ok, stt) = tbft_itimer_init (res_stimer res) True (r_stimer r)
              in if \<not> vt_ok \<or> \<not> st_ok then None
                 else if \<not> res_evt_group res then None
                 else Some (r\<lparr> r_vtimer := vt, r_stimer := stt \<rparr>))"

definition tbft_replica_free :: "replica \<Rightarrow> replica" where
  "tbft_replica_free r = r\<lparr> r_running := False, r_vtimer := tbft_itimer_free (r_vtimer r),
     r_stimer := tbft_itimer_free (r_stimer r), r_node := tbft_node_free (r_node r) \<rparr>"

section \<open>Dispatch\<close>

text \<open>A message that needs a session key is dropped while the key of its sender is not fresh.\<close>

definition key_fresh :: "node \<Rightarrow> int \<Rightarrow> bool" where
  "key_fresh nd i = (case nd_principal nd i of None \<Rightarrow> False | Some p \<Rightarrow> p_keys_fresh p)"

definition drop_unkeyed :: "node \<Rightarrow> bytes \<Rightarrow> bool" where
  "drop_unkeyed nd msg =
     (let tag = hdr_tag msg; known = (\<lambda>i. 0 \<le> i \<and> i < nd_num_replicas nd) in
      if tag = tag_val TBFT_MSG_PRE_PREPARE
      then let primary = tbft_node_primary nd (pp_view msg) in primary \<noteq> nd_node_id nd \<and> \<not> key_fresh nd primary
      else if tag = tag_val TBFT_MSG_PREPARE then known (prep_id msg) \<and> \<not> key_fresh nd (prep_id msg)
      else if tag = tag_val TBFT_MSG_COMMIT then known (cm_id msg) \<and> \<not> key_fresh nd (cm_id msg)
      else if tag = tag_val TBFT_MSG_CHECKPOINT then known (ckpt_id msg) \<and> \<not> key_fresh nd (ckpt_id msg)
      else False)"

definition dispatch :: "config \<Rightarrow> env \<Rightarrow> bytes \<Rightarrow> int \<Rightarrow> replica \<Rightarrow> replica" where
  "dispatch c E msg n r =
     (let tag = hdr_tag msg in
      if tag = tag_val TBFT_MSG_REQUEST then tbft_replica_handle_request c E msg n r
      else if tag = tag_val TBFT_MSG_PRE_PREPARE then tbft_replica_handle_pre_prepare c E msg n r
      else if tag = tag_val TBFT_MSG_PREPARE then tbft_replica_handle_prepare c E msg n r
      else if tag = tag_val TBFT_MSG_COMMIT then tbft_replica_handle_commit c E msg n r
      else if tag = tag_val TBFT_MSG_CHECKPOINT then tbft_replica_handle_checkpoint c E msg n r
      else if tag = tag_val TBFT_MSG_VIEW_CHANGE then tbft_replica_handle_view_change c E msg n r
      else if tag = tag_val TBFT_MSG_NEW_VIEW then tbft_replica_handle_new_view c E msg n r
      else if tag = tag_val TBFT_MSG_FETCH then tbft_replica_handle_fetch c msg n r
      else if tag = tag_val TBFT_MSG_META_DATA then tbft_replica_handle_meta_data c E msg n r
      else if tag = tag_val TBFT_MSG_DATA then tbft_replica_handle_data c E msg n r
      else if tag = tag_val TBFT_MSG_NEW_KEY then tbft_replica_handle_new_key c E msg n r
      else if tag = tag_val TBFT_MSG_STATUS then handle_status c E msg n r
      else if tag = tag_val TBFT_MSG_FILL_REQUEST then tbft_replica_handle_fill_request c E msg n r
      else r)"

text \<open>The receive block of the loop; \<open>n\<close> is the result of \<open>tbft_node_recv\<close>.\<close>

definition loop_receive :: "config \<Rightarrow> env \<Rightarrow> bytes \<Rightarrow> int \<Rightarrow> replica \<Rightarrow> replica" where
  "loop_receive c E msg n r =
     (if n < 0 then r
      else if n < int sz_hdr then r
      else if n < hdr_size msg then r
      else if int (TBFT_MAX_MESSAGE_SIZE c) < hdr_size msg \<or> hdr_size msg \<le> 0 then r
      else if drop_unkeyed (r_node r) msg then r
      else dispatch c E msg n r)"

section \<open>The blocks of the event loop\<close>

record round_in =
  in_env :: env
  in_tick :: int
  in_recv :: int
  in_msg :: bytes

definition loop_yield :: "replica \<Rightarrow> replica" where
  "loop_yield r =
     (let r = r\<lparr> r_yield_counter := r_yield_counter r + 1 \<rparr>
      in if TBFT_YIELD_THRESHOLD \<le> r_yield_counter r then r\<lparr> r_yield_counter := 0 \<rparr> else r)"

text \<open>The periodic New_key; \<open>last_nk\<close> is the local variable \<open>last_nk_send\<close>, ticks are milliseconds.\<close>

definition loop_rebroadcast :: "config \<Rightarrow> env \<Rightarrow> int \<Rightarrow> int \<times> replica \<Rightarrow> int \<times> replica" where
  "loop_rebroadcast c E tick st =
     (case st of (last_nk, r) \<Rightarrow>
        let interval = (if nd_threshold (r_node r) - 1 \<le> count_fresh_keys r then 60000 else 5000)
        in if interval \<le> tick - last_nk then (tick, tbft_replica_send_new_key c E r) else st)"

definition loop_dead_primary :: "config \<Rightarrow> env \<Rightarrow> replica \<Rightarrow> replica" where
  "loop_dead_primary c E r =
     (if \<not> tbft_replica_is_primary r \<and> \<not> vi_in_progress (r_vi r)
      then if 90 * 1000 * 1000 < e_now E - r_view_installed_us r \<and> \<not> as_in_fetch (r_state r) \<and>
              r_last_executed r \<le> r_view_start_executed r
           then tbft_replica_send_view_change c E r else r
      else r)"

definition loop_vtimer :: "config \<Rightarrow> env \<Rightarrow> bool \<Rightarrow> replica \<Rightarrow> replica" where
  "loop_vtimer c E fired r =
     (if nd_threshold (r_node r) - 1 \<le> count_fresh_keys r \<and> fired then tbft_replica_send_view_change c E r
      else if fired then rearm_vtimer E (r_vtimer_period_us r) r
      else r)"

definition build_status :: "env \<Rightarrow> replica \<Rightarrow> bytes" where
  "build_status E r =
     (let buf = r_out_buf r;
          buf = wr_i16 0 (tag_val TBFT_MSG_STATUS) buf; buf = wr_i16 2 0 buf;
          buf = wr_i32 4 (tbft_msg_align (int sz_status)) buf;
          buf = wr_i64 16 (r_view r) buf; buf = wr_i64 24 (r_quorum_last_stable r) buf;
          buf = wr_i64 32 (r_last_prepared r) buf; buf = wr_i64 40 (r_last_executed r) buf;
          buf = wr_i32 48 (r_id r) buf; buf = wr_i32 52 0 buf
      in wr_i64 8 (e_now E) buf)"

definition loop_stimer :: "env \<Rightarrow> bool \<Rightarrow> replica \<Rightarrow> replica" where
  "loop_stimer E fired r =
     (if fired
      then let r = r\<lparr> r_out_buf := build_status E r \<rparr>; r = send_out (hdr_size (r_out_buf r)) TBFT_ALL_REPLICAS r
        in r\<lparr> r_stimer := tbft_itimer_start (e_timer_ok E) (r_stimer r) (r_stimer_period_us r) \<rparr>
      else r)"

text \<open>The bits of the event group are read and cleared.\<close>

definition loop_events :: "config \<Rightarrow> env \<Rightarrow> replica \<Rightarrow> replica" where
  "loop_events c E r =
     (let r = loop_dead_primary c E r; vt = r_evt_vtimer r; st = r_evt_stimer r;
          r = r\<lparr> r_evt_vtimer := False, r_evt_stimer := False \<rparr>
      in loop_stimer E st (loop_vtimer c E vt r))"

definition loop_fetch_timeout :: "config \<Rightarrow> env \<Rightarrow> replica \<Rightarrow> replica" where
  "loop_fetch_timeout c E r =
     (if tbft_state_in_fetch (r_state r) \<and> tbft_state_fetch_timedout (e_now E) (r_state r)
      then let n = nd_num_replicas (r_node r); q = (as_fetch_replier (r_state r) + 1) smod n;
               q = (if q = r_id r then (q + 1) smod n else q)
        in tbft_replica_start_fetch c E (as_fetch_seqno (r_state r)) q r
      else r)"

section \<open>Filling gaps\<close>

definition build_fill :: "env \<Rightarrow> replica \<Rightarrow> principal option \<Rightarrow> bytes" where
  "build_fill E r p =
     (let buf = put 0 (replicate sz_fill_request 0) (r_out_buf r);
          buf = wr_i16 0 (tag_val TBFT_MSG_FILL_REQUEST) buf; buf = wr_i16 2 0 buf;
          buf = wr_i32 4 (tbft_msg_align (int sz_fill_request)) buf; buf = wr_i64 8 (e_now E) buf;
          buf = wr_i64 16 (r_view r) buf; buf = wr_i64 24 (r_pending_fill_seqno r) buf; buf = wr_i32 32 (r_id r) buf
      in case p of
           None \<Rightarrow> buf
         | Some p \<Rightarrow> put 40 (snd (tbft_principal_gen_mac_out (e_psa E) p (take 40 buf) (field 40 32 buf))) buf)"

text \<open>Layer 1: ask the primary for the pre-prepare, every 500 ms.\<close>

definition fill_ask :: "env \<Rightarrow> replica \<Rightarrow> replica" where
  "fill_ask E r =
     (let r = r\<lparr> r_ar := ar_upd (r_ar r) (r_pending_fill_seqno r) (\<lambda>sl. sl\<lparr> sl_fill_sent_us := e_now E \<rparr>) \<rparr>;
          primary = tbft_node_primary (r_node r) (r_view r);
          r = r\<lparr> r_out_buf := build_fill E r (nd_principal (r_node r) primary) \<rparr>
      in send_out (hdr_size (r_out_buf r)) primary r)"

definition fill_clear :: "replica \<Rightarrow> replica" where
  "fill_clear r = r\<lparr> r_pending_fill_seqno := 0, r_fill_started_at_us := 0 \<rparr>"

text \<open>Layer 2, after ten seconds: a prepared gap leads to a view change, or to new keys when the MACs
  keep failing; any other gap is given up.\<close>

definition fill_expire :: "config \<Rightarrow> env \<Rightarrow> replica \<Rightarrow> replica" where
  "fill_expire c E r =
     (if ar_prepared c (r_ar r) (r_pending_fill_seqno r)
      then if 20 \<le> r_consecutive_mac_failures r
           then fill_clear ((tbft_replica_send_new_key c E r)\<lparr> r_consecutive_mac_failures := 0 \<rparr>)
           else let r = fill_clear r
             in if \<not> vi_in_progress (r_vi r) then tbft_replica_send_view_change c E r else r
      else fill_clear r)"

definition loop_fill :: "config \<Rightarrow> env \<Rightarrow> replica \<Rightarrow> replica" where
  "loop_fill c E r =
     (let n = r_pending_fill_seqno r; now = e_now E in
      if 0 < n
      then if r_last_executed r < n \<and> tbft_replica_in_window c r n
        then let elapsed = (if 0 < r_fill_started_at_us r then now - r_fill_started_at_us r else 0);
                 pp_stored = (case ar_load_pp c (r_ar r) n of (None, _) \<Rightarrow> False | (Some _, l) \<Rightarrow> 0 < l);
                 r = (if \<not> pp_stored \<and> 500000 \<le> now - sl_fill_sent_us (ar_slice (r_ar r) n) then fill_ask E r else r);
                 r = (if pp_stored \<and> ar_prepared c (r_ar r) n \<and> \<not> ar_committed c (r_ar r) n \<and>
                         500000 \<le> now - sl_commit_sent_us (ar_slice (r_ar r) n)
                      then tbft_replica_send_commit c E n TBFT_ALL_REPLICAS r else r)
          in if 10 * 1000 * 1000 \<le> elapsed then fill_expire c E r else r
        else fill_clear r
      else r)"

section \<open>The event loop\<close>

definition loop_body :: "config \<Rightarrow> round_in \<Rightarrow> int \<times> replica \<Rightarrow> int \<times> replica" where
  "loop_body c i st =
     (let E = in_env i; (last_nk, r) = loop_rebroadcast c E (in_tick i) (fst st, loop_yield (snd st));
          r = loop_events c E r;
          r = loop_fetch_timeout c E r;
          r = loop_fill c E r
      in (last_nk, loop_receive c E (in_msg i) (tbft_node_recv (in_recv i) (r_node r)) r))"

text \<open>The key barrier: until the deadline, each round drains up to 16 datagrams and sends the own key
  again every three seconds; it ends early when \<open>2f\<close> keys are there.\<close>

fun barrier_drain :: "config \<Rightarrow> env \<Rightarrow> (int \<times> bytes) list \<Rightarrow> replica \<Rightarrow> replica" where
  "barrier_drain c E [] r = r"
| "barrier_drain c E ((n, msg) # ms) r =
     (let n = tbft_node_recv n (r_node r) in
      if n < int sz_hdr then r
      else barrier_drain c E ms
        (if hdr_size msg \<le> n \<and> hdr_tag msg = tag_val TBFT_MSG_NEW_KEY
         then tbft_replica_handle_new_key c E msg n r else r))"

fun key_barrier :: "config \<Rightarrow> int \<Rightarrow> (env \<times> int \<times> (int \<times> bytes) list) list \<Rightarrow> int \<Rightarrow> replica \<Rightarrow> replica" where
  "key_barrier c deadline [] last_nk r = r"
| "key_barrier c deadline ((E, tick, ms) # rs) last_nk r =
     (if deadline \<le> tick then r
      else if 2 * nd_max_faulty (r_node r) \<le> count_fresh_keys r then r
      else let r = barrier_drain c E (take 16 ms) r
        in if 3000 \<le> tick - last_nk
           then key_barrier c deadline rs tick (tbft_replica_send_new_key c E r)
           else key_barrier c deadline rs last_nk r)"

text \<open>A run: the first New_key, the barrier, and one round of the loop per input, while \<open>running\<close> is
  set.  The loop has no other exit, so a run is a prefix of it.\<close>

definition tbft_replica_run ::
  "config \<Rightarrow> env \<Rightarrow> int \<Rightarrow> (env \<times> int \<times> (int \<times> bytes) list) list \<Rightarrow> int \<Rightarrow> round_in list \<Rightarrow> replica \<Rightarrow> replica" where
  "tbft_replica_run c E0 tick0 barrier tick1 rounds r =
     (let r = tbft_replica_send_new_key c E0 (r\<lparr> r_running := True \<rparr>);
          r = key_barrier c (tick0 + 60000) barrier tick0 r
      in snd (fold (\<lambda>i st. if r_running (snd st) then loop_body c i st else st) rounds (tick1, r)))"

end
