(* ===== verification/Replica_Inv.thy ===== *)
theory Replica_Inv
  imports Replica_Run
begin

text \<open>
  Execution order.  \<open>core\<close> is what the order of executions is about: the execution marker, the stable
  marker and the sequence numbers whose execution the callback accepted.  Most operations keep it;
  the others advance it: the markers never decrease and what is executed lies between the old and
  the new execution marker, in increasing order.  The lemmas go through the operations bottom up and
  end with the event loop.
\<close>

section \<open>The core and how it advances\<close>

fun exec_seqno :: "event \<Rightarrow> int list" where
  "exec_seqno (Exec_cb n req rc) = (if rc = 0 then [n] else [])"
| "exec_seqno (Sent b d) = []"
| "exec_seqno (Reply_cb b d) = []"

definition executed :: "event list \<Rightarrow> int list" where
  "executed es = concat (map exec_seqno es)"

lemma executed_simps [simp]:
  "executed [] = []" "executed (es @ fs) = executed es @ executed fs" "executed [e] = exec_seqno e"
  by (simp_all add: executed_def)

definition core :: "replica \<Rightarrow> int \<times> int \<times> int list" where
  "core r = (r_last_executed r, r_last_stable r, executed (r_trace r))"

fun advance :: "int \<times> int \<times> int list \<Rightarrow> int \<times> int \<times> int list \<Rightarrow> bool" where
  "advance (e, s, xs) (e', s', xs') \<longleftrightarrow> e \<le> e' \<and> s \<le> s' \<and>
     (\<exists>ns. xs' = xs @ ns \<and> sorted_wrt (<) ns \<and> set ns \<subseteq> {e <.. e'})"

lemma advance_refl [simp]: "advance k k"
  by (cases k) simp

lemma advance_trans:
  assumes "advance k l" "advance l m"
  shows "advance k m"
proof -
  obtain e s xs e' s' xs' e'' s'' xs'' where
    k: "k = (e, s, xs)" "l = (e', s', xs')" "m = (e'', s'', xs'')"
    by (cases k; cases l; cases m) auto
  with assms obtain ns ns' where "xs' = xs @ ns" "sorted_wrt (<) ns" "set ns \<subseteq> {e <.. e'}"
    "xs'' = xs' @ ns'" "sorted_wrt (<) ns'" "set ns' \<subseteq> {e' <.. e''}" "e \<le> e'" "e' \<le> e''" "s \<le> s'" "s' \<le> s''"
    by auto
  moreover have "x < y" if "x \<in> set ns" "y \<in> set ns'" for x y
    using calculation(3,6) that by (metis greaterThanAtMost_iff le_less_trans subsetD)
  ultimately show ?thesis unfolding k advance.simps
    by (intro conjI exI [of _ "ns @ ns'"]) (auto simp: sorted_wrt_append)
qed

definition adv :: "replica \<Rightarrow> replica \<Rightarrow> bool" where
  "adv r r' \<longleftrightarrow> advance (core r) (core r')"

lemma adv_refl [simp]: "adv r r" by (simp add: adv_def)

lemma adv_trans: "adv r r' \<Longrightarrow> adv r' r'' \<Longrightarrow> adv r r''"
  unfolding adv_def by (rule advance_trans)

lemma adv_core: "core r' = core r \<Longrightarrow> adv r r'" by (simp add: adv_def)

text \<open>Operations that keep the core.\<close>

named_theorems core_simps

lemma core_io [core_simps]:
  "core (r\<lparr> r_out_buf := b \<rparr>) = core r" "core (r\<lparr> r_state := st \<rparr>) = core r"
  "core (r\<lparr> r_node := nd \<rparr>) = core r" "core (r\<lparr> r_ar := ar \<rparr>) = core r" "core (r\<lparr> r_cr := cr \<rparr>) = core r"
  "core (r\<lparr> r_vi := vi \<rparr>) = core r" "core (r\<lparr> r_sr := sr \<rparr>) = core r" "core (r\<lparr> r_vtimer := t \<rparr>) = core r"
  "core (r\<lparr> r_stimer := t \<rparr>) = core r" "core (r\<lparr> r_rqueue := q \<rparr>) = core r" "core (r\<lparr> r_ro_rqueue := q \<rparr>) = core r"
  "core (r\<lparr> r_seqno := n \<rparr>) = core r" "core (r\<lparr> r_last_prepared := n \<rparr>) = core r"
  "core (r\<lparr> r_quorum_last_stable := n \<rparr>) = core r" "core (r\<lparr> r_last_fetch_throttle_us := n \<rparr>) = core r"
  "core (r\<lparr> r_last_ckpt_throttle_us := n \<rparr>) = core r" "core (r\<lparr> r_last_catchup_completed_us := n \<rparr>) = core r"
  "core (r\<lparr> r_catchup_us := n \<rparr>) = core r" "core (r\<lparr> r_ndet_buf := b \<rparr>) = core r"
  "core (r\<lparr> r_pending_fill_seqno := n \<rparr>) = core r" "core (r\<lparr> r_fill_started_at_us := n \<rparr>) = core r"
  "core (r\<lparr> r_last_received_rid := x \<rparr>) = core r" "core (r\<lparr> r_last_executed_rid := x \<rparr>) = core r"
  "core (r\<lparr> r_last_forwarded_rid := x \<rparr>) = core r" "core (r\<lparr> r_last_assigned_cid := n \<rparr>) = core r"
  "core (r\<lparr> r_last_assigned_rid := w \<rparr>) = core r" "core (r\<lparr> r_consecutive_mac_failures := n \<rparr>) = core r"
  "core (r\<lparr> r_view_installed_us := n \<rparr>) = core r" "core (r\<lparr> r_view_start_executed := n \<rparr>) = core r"
  "core (r\<lparr> r_evt_vtimer := v \<rparr>) = core r" "core (r\<lparr> r_evt_stimer := v \<rparr>) = core r"
  "core (r\<lparr> r_yield_counter := n \<rparr>) = core r" "core (r\<lparr> r_running := v \<rparr>) = core r"
  by (simp_all add: core_def)

lemma core_emit [core_simps]: "exec_seqno e = [] \<Longrightarrow> core (emit e r) = core r"
  by (simp add: core_def emit_def)

lemma core_send_to [core_simps]: "core (send_to b d r) = core r"
  by (simp add: send_to_def core_simps)

lemma core_send_out [core_simps]: "core (send_out n d r) = core r"
  by (simp add: send_out_def core_simps)

lemma core_timers [core_simps]:
  "core (start_vtimer E us r) = core r" "core (stop_vtimer r) = core r" "core (rearm_vtimer E us r) = core r"
  by (simp_all add: start_vtimer_def stop_vtimer_def rearm_vtimer_def core_simps)

lemma core_send_prepare [core_simps]: "core (tbft_replica_send_prepare c E n r) = core r"
  by (simp add: tbft_replica_send_prepare_def Let_def core_simps split: option.split prod.split)

lemma core_send_commit [core_simps]: "core (tbft_replica_send_commit c E n d r) = core r"
  by (simp add: tbft_replica_send_commit_def Let_def core_simps split: option.split prod.split)

lemma core_send_fetch [core_simps]: "core (send_fetch l i r) = core r"
  by (simp add: send_fetch_def Let_def core_simps)

lemma core_fetch_loop [core_simps]: "core (fetch_send_loop r) = core r"
proof (induction r rule: fetch_send_loop.induct)
  case (1 r)
  then show ?case
    by (simp add: fetch_send_loop.simps [of r] core_simps split: prod.split option.split)
qed

lemma core_start_fetch [core_simps]: "core (tbft_replica_start_fetch c E n q r) = core r"
  by (simp add: tbft_replica_start_fetch_def core_simps)

lemma core_exec_reply [core_simps]: "core (exec_reply c E n req l r) = core r"
  by (simp add: exec_reply_def Let_def core_simps split: prod.split)

lemma core_fill_wanted [core_simps]: "core (fill_wanted E n r) = core r"
  by (simp add: fill_wanted_def core_simps)

section \<open>Stability and execution\<close>

lemma core_marks:
  "core (r\<lparr> r_last_executed := n \<rparr>) = (n, r_last_stable r, executed (r_trace r))"
  "core (r\<lparr> r_last_stable := n \<rparr>) = (r_last_executed r, n, executed (r_trace r))"
  by (simp_all add: core_def)

lemma core_fields:
  assumes "core r' = core r"
  shows "r_last_executed r' = r_last_executed r" "r_last_stable r' = r_last_stable r"
    "executed (r_trace r') = executed (r_trace r)"
  using assms by (simp_all add: core_def)

lemma core_mark_stable_install:
  "core (mark_stable_install c E n voted r) = (max (r_last_executed r) n, n, executed (r_trace r))"
  unfolding mark_stable_install_def Let_def core_simps
  by (cases voted) (auto simp: core_def)

lemma core_mark_stable_mismatch [core_simps]: "core (mark_stable_mismatch c E n r) = core r"
  by (simp add: mark_stable_mismatch_def core_simps)

lemma core_mark_stable:
  obtains "core (tbft_replica_mark_stable c E n r) = core r"
  | "r_last_stable r < n"
    "core (tbft_replica_mark_stable c E n r) = (max (r_last_executed r) n, n, executed (r_trace r))"
proof -
  have "tbft_replica_mark_stable c E n r = r \<or> tbft_replica_mark_stable c E n r = mark_stable_mismatch c E n r \<or>
      r_last_stable r < n \<and> (\<exists>v. tbft_replica_mark_stable c E n r = mark_stable_install c E n v r)"
    by (auto simp: tbft_replica_mark_stable_def split: option.split)
  then show thesis
    using that by (auto simp: core_simps core_mark_stable_install)
qed

lemma adv_mark_stable: "adv r (tbft_replica_mark_stable c E n r)"
  by (rule core_mark_stable [of c E n r]) (simp_all add: adv_def core_def)

lemma core_exec_request:
  "core (snd (exec_request c E n pp r)) = core r \<or>
   fst (exec_request c E n pp r) \<and>
     core (snd (exec_request c E n pp r)) = (r_last_executed r, r_last_stable r, executed (r_trace r) @ [n])"
proof (cases "r_exec_cb r")
  case (Some cb)
  have "core (emit (Exec_cb n req rc) r') = (r_last_executed r', r_last_stable r',
      executed (r_trace r') @ (if rc = 0 then [n] else []))" for req rc r'
    by (simp add: core_def emit_def)
  then show ?thesis using Some
    by (auto simp: exec_request_def Let_def core_simps split: prod.split) (simp add: core_def)
qed (simp add: exec_request_def)

lemma core_exec_checkpoint:
  assumes "r_last_executed r = n"
  shows "adv r (exec_checkpoint c E n r) \<and> r_last_executed (exec_checkpoint c E n r) = n"
proof -
  have same: "core (send_out sz d (r\<lparr> r_state := st, r_out_buf := b, r_cr := cr \<rparr>)) = core r" for sz d st b cr
    by (simp add: core_simps)
  have "adv r (tbft_replica_mark_stable c E n r') \<and> r_last_executed (tbft_replica_mark_stable c E n r') = n"
    if "core r' = core r" for r'
    using core_mark_stable [of c E n r'] adv_mark_stable [of r' c E n] that assms
    by (auto simp: adv_def core_def)
  moreover have "adv r r' \<and> r_last_executed r' = n" if "core r' = core r" for r'
    using that assms by (simp add: adv_def core_def)
  ultimately show ?thesis
    by (simp add: exec_checkpoint_def Let_def same split: prod.split)
qed

lemma adv_exec_one:
  assumes "n = r_last_executed r + 1"
  shows "adv r (snd (exec_one c E n r)) \<and>
    (fst (exec_one c E n r) \<longrightarrow> r_last_executed (snd (exec_one c E n r)) = n)"
proof (cases "exec_one c E n r")
  case (Pair go r')
  show ?thesis
  proof (cases go)
    case False
    then have "core r' = core r" using Pair core_exec_request [of c E n _ r]
      by (auto simp: exec_one_def core_simps split: if_splits option.splits prod.splits) (metis fst_conv snd_conv)+
    then show ?thesis using Pair False by (simp add: adv_core)
  next
    case True
    with Pair obtain pp where r': "r' = exec_finish c E n pp (snd (exec_request c E n pp r))"
      by (auto elim: exec_one_True)
    let ?s = "snd (exec_request c E n pp r)"
    let ?t = "if int sz_request \<le> pp_rset_size pp
               then ?s\<lparr> r_last_executed_rid := rid_raise (r_last_executed_rid ?s)
                        (req_cid (pp_request pp)) (req_rid (pp_request pp)) \<rparr> else ?s"
    have t: "core ?t = core ?s" by (simp add: core_simps)
    have le: "r_last_executed (?t\<lparr> r_last_executed := n \<rparr>) = n" by simp
    have "adv r (?t\<lparr> r_last_executed := n \<rparr>)"
      using core_exec_request [of c E n pp r] assms core_fields [OF t]
      by (auto simp: adv_def core_marks) (auto simp: core_def)
    moreover have "r' = (if n smod int (TBFT_CHECKPOINT_INTERVAL c) = 0
        then exec_checkpoint c E n (?t\<lparr> r_last_executed := n \<rparr>) else ?t\<lparr> r_last_executed := n \<rparr>)"
      unfolding r' exec_finish_def Let_def by (rule refl)
    ultimately show ?thesis
      using core_exec_checkpoint [OF le, of c E] Pair True le by (auto intro: adv_trans)
  qed
qed

lemma adv_exec_loop: "n = r_last_executed r + 1 \<Longrightarrow> adv r (exec_loop c E n r)"
proof (induction c E n r rule: exec_loop.induct)
  case (1 c E n r)
  obtain go r' where one: "exec_one c E n r = (go, r')" by fastforce
  show ?case
  proof (cases "r_last_prepared r < n \<or> \<not> go")
    case True
    then show ?thesis using one adv_exec_one [OF "1.prems", of c E]
      by (auto simp: exec_loop.simps [of c E n r])
  next
    case False
    then have step: "adv r r'" "n + 1 = r_last_executed r' + 1"
      using one adv_exec_one [OF "1.prems", of c E] by auto
    have "exec_loop c E n r = exec_loop c E (n + 1) r'"
      using False one by (simp add: exec_loop.simps [of c E n r])
    moreover have "adv r' (exec_loop c E (n + 1) r')"
      using "1.IH" [OF _ one [symmetric]] False step by simp
    ultimately show ?thesis using step by (auto intro: adv_trans)
  qed
qed

lemma adv_execute_committed: "adv r (tbft_replica_execute_committed c E r)"
proof -
  have "adv r (exec_loop c E (r_last_executed r + 1) r)" by (rule adv_exec_loop) simp
  then show ?thesis by (simp add: tbft_replica_execute_committed_def Let_def adv_def core_simps)
qed

section \<open>The normal case\<close>

lemma core_src_pop [core_simps]: "core (src_pop c rw r) = core r"
  by (simp add: src_pop_def core_simps)

lemma core_drop_duplicate: "drop_duplicate c src r = (q, r') \<Longrightarrow> core r' = core r"
  by (auto simp: drop_duplicate_def Let_def core_simps split: if_splits option.splits)

lemma core_broadcast_proposal [core_simps]: "core (broadcast_proposal c E d r) = core r"
  by (simp add: broadcast_proposal_def Let_def core_simps)

lemma core_propose [core_simps]: "core (propose c E src r) = core r"
  by (simp add: propose_def Let_def core_simps split: prod.split)

lemma core_send_pre_prepare [core_simps]: "core (tbft_replica_send_pre_prepare c E r) = core r"
proof -
  have "core (snd (drop_duplicate c src r')) = core r'" for src r'
    by (rule core_drop_duplicate [of c src r' "fst (drop_duplicate c src r')"]) simp
  then show ?thesis
    by (auto simp: tbft_replica_send_pre_prepare_def core_simps split: option.split prod.split) (metis core_simps snd_conv)+
qed

lemma core_handle_request [core_simps]: "core (tbft_replica_handle_request c E msg len r) = core r"
  by (simp add: tbft_replica_handle_request_def forward_request_def Let_def core_simps split: prod.split)

lemma core_views [core_simps]:
  "core (tbft_replica_reset_forwarded_requests r) = core r" "core (install_view E v r) = core r"
  "core (truncate_regions c n r) = core r" "core (reset_vi c v r) = core r" "core (end_view_change r) = core r"
  "core (mac_failed r) = core r" "core (mac_passed r) = core r"
  by (simp_all add: tbft_replica_reset_forwarded_requests_def install_view_def truncate_regions_def
      reset_vi_def end_view_change_def mac_failed_def mac_passed_def core_def split: prod.split)

lemma core_raise_markers: "core (raise_markers n r) = (max (r_last_executed r) n, r_last_stable r, executed (r_trace r))"
  by (simp add: raise_markers_def core_def)

lemma adv_raise_markers: "adv r (raise_markers n r)"
  by (simp add: adv_def core_raise_markers) (simp add: core_def)

lemma adv_step: "adv r r' \<Longrightarrow> core r'' = core r' \<Longrightarrow> adv r r''"
  by (simp add: adv_def)

lemma adv_pp_advance_view: "adv r (pp_advance_view c E v r)"
  unfolding pp_advance_view_def Let_def
  by (rule adv_step [OF adv_trans [OF adv_core adv_raise_markers]]) (simp_all add: core_simps)

lemma core_accept_pp [core_simps]: "core (accept_pp c E msg len r) = core r"
  by (simp add: accept_pp_def Let_def core_simps split: prod.split)

lemma adv_handle_pre_prepare: "adv r (tbft_replica_handle_pre_prepare c E msg len r)"
proof -
  have "adv r (accept_pp c E msg len (if b then pp_advance_view c E v (mac_passed r) else mac_passed r))" for b v
  proof (rule adv_step)
    show "adv r (if b then pp_advance_view c E v (mac_passed r) else mac_passed r)"
      using adv_pp_advance_view [of "mac_passed r" c E v] by (simp add: adv_def core_simps)
  qed (simp add: core_simps)
  then show ?thesis
    by (auto simp: tbft_replica_handle_pre_prepare_def Let_def adv_core core_simps split: option.split bool.split)
qed

lemma adv_after_prepare: "adv r (after_prepare c E n r)"
proof -
  have "adv r (tbft_replica_execute_committed c E r')" if "core r' = core r" for r'
    using adv_execute_committed [of r' c E] that by (simp add: adv_def)
  then show ?thesis by (simp add: after_prepare_def Let_def adv_core core_simps)
qed

lemma adv_after_commit: "adv r (after_commit c E n r)"
proof -
  have "adv r (tbft_replica_execute_committed c E r')" if "core r' = core r" for r'
    using adv_execute_committed [of r' c E] that by (simp add: adv_def)
  then show ?thesis by (simp add: after_commit_def Let_def adv_core core_simps)
qed

lemma adv_handle_prepare: "adv r (tbft_replica_handle_prepare c E msg len r)"
proof -
  have "adv r (after_prepare c E n r')" if "core r' = core r" for r' n
    using adv_after_prepare [of r' c E n] that by (simp add: adv_def)
  then show ?thesis
    by (simp add: tbft_replica_handle_prepare_def Let_def adv_core core_simps split: prod.split)
qed

lemma adv_handle_commit: "adv r (tbft_replica_handle_commit c E msg len r)"
proof -
  have "adv r (after_commit c E n r')" if "core r' = core r" for r' n
    using adv_after_commit [of r' c E n] that by (simp add: adv_def)
  then show ?thesis
    by (simp add: tbft_replica_handle_commit_def Let_def adv_core core_simps split: prod.split)
qed

lemma adv_handle_checkpoint: "adv r (tbft_replica_handle_checkpoint c E msg len r)"
proof -
  have "adv r (tbft_replica_mark_stable c E n r')" if "core r' = core r" for r' n
    using adv_mark_stable [of r' c E n] that by (simp add: adv_def)
  then show ?thesis
    by (simp add: tbft_replica_handle_checkpoint_def Let_def adv_core core_simps split: prod.split)
qed

lemma core_handle_fill_request [core_simps]: "core (tbft_replica_handle_fill_request c E msg len r) = core r"
  by (simp add: tbft_replica_handle_fill_request_def core_simps split: option.split prod.split)

section \<open>Keys and view changes\<close>

lemma core_send_new_key [core_simps]: "core (tbft_replica_send_new_key c E r) = core r"
  by (simp add: tbft_replica_send_new_key_def Let_def core_simps split: prod.split)

lemma core_handle_new_key [core_simps]: "core (tbft_replica_handle_new_key c E msg len r) = core r"
  by (simp add: tbft_replica_handle_new_key_def Let_def core_simps split: prod.split option.split)

lemma core_vc_emit [core_simps]: "core (vc_emit c E v r) = core r"
  by (simp add: vc_emit_def Let_def core_simps split: prod.split)

lemma core_send_view_change [core_simps]: "core (tbft_replica_send_view_change c E r) = core r"
  by (simp add: tbft_replica_send_view_change_def Let_def core_simps)

lemma core_raise_seqno [core_simps]: "core (raise_seqno r) = core r"
  by (simp add: raise_seqno_def core_simps)

lemma core_backoff_restart [core_simps]: "core (backoff_restart E g r) = core r"
  by (simp add: backoff_restart_def Let_def core_simps)

lemma adv_vc_sync_view: "adv r (vc_sync_view c E v r)"
  unfolding vc_sync_view_def Let_def
  by (rule adv_step [OF adv_trans [OF adv_core adv_raise_markers]]) (simp_all add: core_simps)

lemma adv_nv_install: "adv r (nv_install c E v msg r)"
proof -
  let ?r1 = "(install_view E v r)\<lparr> r_seqno := nv_start_seq msg (install_view E v r) + 1 \<rparr>"
  let ?r2 = "if r_last_stable ?r1 < nv_min msg then ?r1\<lparr> r_last_stable := nv_min msg \<rparr> else ?r1"
  let ?r3 = "?r2\<lparr> r_state := tbft_state_mark_stable c (r_state ?r2) (nv_min msg) \<rparr>"
  let ?r4 = "raise_markers (nv_min msg) ?r3"
  have "adv r ?r1" by (rule adv_core) (simp add: core_simps)
  moreover have "adv ?r1 ?r2" by (simp add: adv_def core_def)
  moreover have "adv ?r2 ?r3" by (rule adv_core) (simp only: core_simps)
  moreover have "adv ?r3 ?r4" by (rule adv_raise_markers)
  ultimately have "adv r ?r4" by (blast intro: adv_trans)
  moreover have "core (nv_install c E v msg r) = core ?r4"
    unfolding nv_install_def Let_def by (simp only: core_simps if_distrib [of core] if_cancel)
  ultimately show ?thesis by (rule adv_step)
qed

lemma adv_vc_become_primary: "adv r (vc_become_primary c E r)"
proof -
  have "adv r (nv_install c E v msg r')" if "core r' = core r" for r' v msg
    using adv_nv_install [of r' c E v msg] that by (simp add: adv_def)
  then have "adv r (rearm_vtimer E us (end_view_change (reset_vi c w (stop_vtimer (nv_install c E v msg r')))))"
    if "core r' = core r" for r' us w v msg
    using that by (simp add: adv_def core_simps)
  then show ?thesis
    unfolding vc_become_primary_def Let_def by (simp add: adv_core core_simps split: prod.split)
qed

lemma core_vc_retarget [core_simps]: "core (vc_retarget c E msg len v r) = core r"
  by (simp add: vc_retarget_def Let_def core_simps split: prod.split)

lemma adv_handle_view_change: "adv r (tbft_replica_handle_view_change c E msg len r)"
proof -
  have "adv r (vc_sync_view c E v r')" "adv r (vc_become_primary c E r')" if "core r' = core r" for r' v
    using adv_vc_sync_view [of r' c E v] adv_vc_become_primary [of r' c E] that by (simp_all add: adv_def)
  then show ?thesis
    unfolding tbft_replica_handle_view_change_def Let_def by (simp add: adv_core core_simps split: prod.split)
qed

lemma adv_handle_new_view: "adv r (tbft_replica_handle_new_view c E msg len r)"
proof -
  have "adv r (rearm_vtimer E us (end_view_change (reset_vi c w (stop_vtimer (nv_install c E v msg r)))))" for us w v
    using adv_nv_install [of r c E v msg] by (simp add: adv_def core_simps)
  then show ?thesis
    unfolding tbft_replica_handle_new_view_def Let_def by (simp add: adv_core)
qed

section \<open>Status and state transfer\<close>

lemma core_status_catch_up [core_simps]: "core (status_catch_up c E msg r) = core r"
  unfolding status_catch_up_def Let_def by (simp add: core_simps)

lemma core_status_fetch [core_simps]: "core (status_fetch c E msg r) = core r"
  by (simp add: status_fetch_def Let_def core_simps)

lemma core_fold: "(\<And>x r. core (f x r) = core r) \<Longrightarrow> core (fold f xs r) = core r"
  by (induction xs arbitrary: r) auto

lemma core_resend_seqno [core_simps]: "core (resend_seqno c E d n r) = core r"
  by (simp add: resend_seqno_def Let_def core_simps split: prod.split option.split)

lemma core_resend_checkpoint [core_simps]: "core (resend_checkpoint c E d n r) = core r"
  by (simp add: resend_checkpoint_def Let_def core_simps split: option.split)

lemma core_status_resend [core_simps]: "core (status_resend c E msg r) = core r"
  by (simp add: status_resend_def Let_def core_simps core_fold)

lemma core_status_checkpoints [core_simps]: "core (status_checkpoints c E msg r) = core r"
  by (simp add: status_checkpoints_def Let_def core_simps core_fold)

lemma core_handle_status [core_simps]: "core (handle_status c E msg len r) = core r"
  by (simp add: handle_status_def Let_def core_simps)

lemma core_handle_fetch [core_simps]: "core (tbft_replica_handle_fetch c msg len r) = core r"
  by (simp add: tbft_replica_handle_fetch_def Let_def core_simps)

lemma adv_fetch_finished: "adv r (fetch_finished c E n r)"
  using adv_mark_stable [of r c E n] by (simp add: fetch_finished_def Let_def adv_def core_simps)

lemma adv_handle_meta_data: "adv r (tbft_replica_handle_meta_data c E msg len r)"
proof -
  have "adv r (fetch_finished c E n r')" if "core r' = core r" for r' n
    using adv_fetch_finished [of r' c E n] that by (simp add: adv_def)
  then show ?thesis
    unfolding tbft_replica_handle_meta_data_def Let_def by (simp add: adv_core core_simps)
qed

lemma adv_handle_data: "adv r (tbft_replica_handle_data c E msg len r)"
proof -
  have "adv r (fetch_finished c E n r')" if "core r' = core r" for r' n
    using adv_fetch_finished [of r' c E n] that by (simp add: adv_def)
  then show ?thesis
    unfolding tbft_replica_handle_data_def Let_def by (simp add: adv_core core_simps)
qed

section \<open>The event loop\<close>

lemmas adv_handlers = adv_handle_pre_prepare adv_handle_prepare adv_handle_commit adv_handle_checkpoint
  adv_handle_view_change adv_handle_new_view adv_handle_meta_data adv_handle_data

lemma adv_loop_receive: "adv r (loop_receive c E msg n r)"
  by (simp add: loop_receive_def dispatch_def Let_def adv_handlers adv_core core_simps)

lemma core_loop_blocks [core_simps]:
  "core (loop_yield r) = core r" "core (snd (loop_rebroadcast c E tick (nk, r))) = core r"
  "core (loop_events c E r) = core r" "core (loop_fetch_timeout c E r) = core r"
  by (simp_all add: loop_yield_def loop_rebroadcast_def loop_events_def loop_dead_primary_def loop_vtimer_def
      loop_stimer_def loop_fetch_timeout_def Let_def core_simps)

lemma core_fill_blocks [core_simps]:
  "core (fill_clear r) = core r" "core (fill_ask E r) = core r" "core (fill_expire c E r) = core r"
  by (simp_all add: fill_clear_def fill_ask_def fill_expire_def Let_def core_simps)

lemma core_loop_fill [core_simps]: "core (loop_fill c E r) = core r"
  unfolding loop_fill_def Let_def by (simp add: core_simps)

lemma adv_loop_body: "adv r (snd (loop_body c i (nk, r)))"
proof -
  obtain nk' r1 where r1: "loop_rebroadcast c (in_env i) (in_tick i) (nk, loop_yield r) = (nk', r1)" by fastforce
  have "core r1 = core r"
    using core_loop_blocks(2) [of c "in_env i" "in_tick i" nk "loop_yield r"] r1 by (simp add: core_simps)
  then have "core (loop_fill c (in_env i) (loop_fetch_timeout c (in_env i) (loop_events c (in_env i) r1))) = core r"
    by (simp add: core_simps)
  then show ?thesis
    using adv_loop_receive r1 by (auto simp: loop_body_def Let_def intro: adv_trans adv_core)
qed

lemma core_barrier_drain [core_simps]: "core (barrier_drain c E ms r) = core r"
  by (induction c E ms r rule: barrier_drain.induct) (simp_all add: Let_def core_simps)

lemma core_key_barrier [core_simps]: "core (key_barrier c d rs nk r) = core r"
  by (induction c d rs nk r rule: key_barrier.induct) (simp_all add: Let_def core_simps)

lemma adv_rounds: "adv r (snd (fold (\<lambda>i st. if r_running (snd st) then loop_body c i st else st) rounds (nk, r)))"
proof (induction rounds arbitrary: nk r)
  case (Cons i rounds)
  obtain nk' r' where r': "(if r_running r then loop_body c i (nk, r) else (nk, r)) = (nk', r')" by fastforce
  then have "adv r r'" using adv_loop_body [of r c i nk] by (auto split: if_splits)
  then show ?case using Cons.IH [of r' nk'] r' by (auto intro: adv_trans)
qed simp

lemma adv_run: "adv r (tbft_replica_run c E0 t0 barrier t1 rounds r)"
  unfolding tbft_replica_run_def Let_def
  by (rule adv_trans [OF adv_core adv_rounds]) (simp add: core_simps)

end
