(* ===== verification/Config_File.thy ===== *)
theory Config_File
  imports Config "HOL-Library.Monad_Syntax"
begin

text \<open>
  The configuration file of \<open>src/tbft_libbyz.c\<close>, \<open>parse_config\<close>: the conversions \<open>%Ns\<close> and \<open>%d\<close> of
  \<open>fscanf\<close>, the node lines of the two transports, the validation, and the search for the local node.
  A file is the string of its characters, \<open>None\<close> if it cannot be opened; a failed parse is \<open>None\<close>.
  Which transport the build has is the flag \<open>udp\<close>, the address of the device is the argument \<open>local\<close>:
  the IP address or the formatted base MAC, \<open>None\<close> if the driver does not deliver it.  The overflow of
  \<open>%d\<close>, undefined in C, is not modelled: numbers are mathematical integers.
\<close>

section \<open>Scanning\<close>

definition is_space :: "char \<Rightarrow> bool" where
  "is_space ch \<longleftrightarrow> ch = CHR '' '' \<or> 9 \<le> (of_char ch :: nat) \<and> (of_char ch :: nat) \<le> 13"

definition is_digit :: "char \<Rightarrow> bool" where
  "is_digit ch \<longleftrightarrow> 48 \<le> (of_char ch :: nat) \<and> (of_char ch :: nat) \<le> 57"

text \<open>The conversion \<open>%ks\<close>: white space is skipped, then up to \<open>k\<close> other characters are read.\<close>

definition scan_str :: "nat \<Rightarrow> string \<Rightarrow> (string \<times> string) option" where
  "scan_str k s =
     (let s = dropWhile is_space s; t = take k (takeWhile (\<lambda>ch. \<not> is_space ch) s)
      in if t = [] then None else Some (t, drop (length t) s))"

definition digits_val :: "string \<Rightarrow> int" where
  "digits_val ds = foldl (\<lambda>v ch. v * 10 + (int (of_char ch) - 48)) 0 ds"

text \<open>The conversion \<open>%d\<close>.\<close>

definition scan_int :: "string \<Rightarrow> (int \<times> string) option" where
  "scan_int s =
     (let s = dropWhile is_space s; neg = (s \<noteq> [] \<and> hd s = CHR ''-'');
          s = (if s \<noteq> [] \<and> (hd s = CHR ''-'' \<or> hd s = CHR ''+'') then tl s else s);
          ds = takeWhile is_digit s
      in if ds = [] then None else Some (if neg then - digits_val ds else digits_val ds, drop (length ds) s))"

section \<open>The configuration\<close>

record node_entry =
  ne_hostname :: string
  ne_ip :: string
  ne_port :: int
  ne_mac_str :: string
  ne_pubkey_path :: string

record byz_config =
  bc_service_name :: string
  bc_f :: int
  bc_auth_timeout_ms :: int
  bc_num_nodes :: int
  bc_num_replicas :: int
  bc_mcast_ip :: string
  bc_nodes :: "node_entry list"
  bc_vc_timeout_ms :: int
  bc_status_timeout_ms :: int
  bc_recovery_timeout_ms :: int
  bc_local_node_id :: int

definition parse_node :: "bool \<Rightarrow> string \<Rightarrow> (node_entry \<times> string) option" where
  "parse_node udp s =
     do { (host, s) \<leftarrow> scan_str 63 s;
          (field2, s) \<leftarrow> scan_str 31 s;
          let is_mac = CHR '':'' \<in> set field2;
          if is_mac = udp then None
          else if is_mac
          then do { (key, s) \<leftarrow> scan_str 127 s;
                    Some (\<lparr> ne_hostname = host, ne_ip = [], ne_port = 0, ne_mac_str = field2, ne_pubkey_path = key \<rparr>, s) }
          else do { (port, s) \<leftarrow> scan_int s;
                    (key, s) \<leftarrow> scan_str 127 s;
                    if port < 1 \<or> 65535 < port then None
                    else Some (\<lparr> ne_hostname = host, ne_ip = field2, ne_port = port, ne_mac_str = [],
                                 ne_pubkey_path = key \<rparr>, s) } }"

fun parse_nodes :: "bool \<Rightarrow> nat \<Rightarrow> string \<Rightarrow> (node_entry list \<times> string) option" where
  "parse_nodes udp 0 s = Some ([], s)"
| "parse_nodes udp (Suc n) s =
     do { (e, s) \<leftarrow> parse_node udp s; (es, s) \<leftarrow> parse_nodes udp n s; Some (e # es, s) }"

text \<open>A replica is a node whose host name starts with \<open>node\<close>.\<close>

definition is_replica_entry :: "node_entry \<Rightarrow> bool" where
  "is_replica_entry e \<longleftrightarrow> take 4 (ne_hostname e) = ''node''"

definition count_replicas :: "node_entry list \<Rightarrow> int" where
  "count_replicas es = int (length (filter is_replica_entry es))"

section \<open>The local node\<close>

text \<open>A character of a zero-terminated array, and \<open>tolower\<close>.\<close>

definition char_at :: "string \<Rightarrow> nat \<Rightarrow> char" where
  "char_at s i = (if i < length s then s ! i else CHR 0x00)"

definition lower :: "char \<Rightarrow> char" where
  "lower ch = (if 65 \<le> (of_char ch :: nat) \<and> (of_char ch :: nat) \<le> 90 then char_of ((of_char ch :: nat) + 32) else ch)"

definition mac_match :: "string \<Rightarrow> string \<Rightarrow> bool" where
  "mac_match a b \<longleftrightarrow> list_all (\<lambda>i. lower (char_at a i) = lower (char_at b i)) [0 ..< 17]"

definition entry_matches :: "bool \<Rightarrow> string \<Rightarrow> node_entry \<Rightarrow> bool" where
  "entry_matches udp addr e \<longleftrightarrow>
     (if udp then ne_ip e \<noteq> [] \<and> ne_ip e = addr else ne_mac_str e \<noteq> [] \<and> mac_match (ne_mac_str e) addr)"

text \<open>The index of the first node with the local address, \<open>-1\<close> if there is none.\<close>

definition detect_local :: "bool \<Rightarrow> string option \<Rightarrow> node_entry list \<Rightarrow> int" where
  "detect_local udp local es =
     (case local of
        None \<Rightarrow> - 1
      | Some addr \<Rightarrow>
          (case List.find (\<lambda>i. entry_matches udp addr (es ! i)) [0 ..< length es] of None \<Rightarrow> - 1 | Some i \<Rightarrow> int i))"

section \<open>The parser\<close>

definition parse_config :: "config \<Rightarrow> bool \<Rightarrow> string option \<Rightarrow> string option \<Rightarrow> byz_config option" where
  "parse_config c udp local file =
     do { s \<leftarrow> file;
          (service, s) \<leftarrow> scan_str 63 s;
          (f, s) \<leftarrow> scan_int s;
          (auth, s) \<leftarrow> scan_int s;
          (n, s) \<leftarrow> scan_int s;
          (mcast, s) \<leftarrow> scan_str 31 s;
          if f < 1 \<or> int (TBFT_MAX_FAULTY c) < f then None
          else if n < 3 * f + 1 then None
          else if int (TBFT_MAX_NUM_REPLICAS c + TBFT_MAX_NUM_CLIENTS c) < n then None
          else do {
            (es, s) \<leftarrow> parse_nodes udp (nat n) s;
            if count_replicas es < 1 then None
            else if int (TBFT_MAX_NUM_REPLICAS c) < count_replicas es then None
            else do {
              (vc, s) \<leftarrow> scan_int s;
              (status, s) \<leftarrow> scan_int s;
              (recovery, s) \<leftarrow> scan_int s;
              if auth \<le> 0 \<or> vc \<le> 0 \<or> status \<le> 0 \<or> recovery \<le> 0 then None
              else Some \<lparr> bc_service_name = service, bc_f = f, bc_auth_timeout_ms = auth, bc_num_nodes = n,
                     bc_num_replicas = count_replicas es, bc_mcast_ip = mcast, bc_nodes = es,
                     bc_vc_timeout_ms = vc, bc_status_timeout_ms = status, bc_recovery_timeout_ms = recovery,
                     bc_local_node_id = detect_local udp local es \<rparr> } } }"

section \<open>Writing a configuration\<close>

text \<open>The file format of the documentation, as a printer.\<close>

function dec :: "nat \<Rightarrow> string" where
  "dec n = (if n < 10 then [char_of (48 + n)] else dec (n div 10) @ [char_of (48 + n mod 10)])"
  by pat_completeness auto
termination
  by (relation "measure id") auto

declare dec.simps [simp del]

definition word_item :: "string \<Rightarrow> string" where
  "word_item w = w @ '' ''"

definition num_item :: "int \<Rightarrow> string" where
  "num_item n = dec (nat n) @ '' ''"

definition show_node :: "bool \<Rightarrow> node_entry \<Rightarrow> string" where
  "show_node udp e =
     (if udp then word_item (ne_hostname e) @ word_item (ne_ip e) @ num_item (ne_port e) @ word_item (ne_pubkey_path e)
      else word_item (ne_hostname e) @ word_item (ne_mac_str e) @ word_item (ne_pubkey_path e))"

definition show_config :: "bool \<Rightarrow> byz_config \<Rightarrow> string" where
  "show_config udp cfg =
     word_item (bc_service_name cfg) @ num_item (bc_f cfg) @ num_item (bc_auth_timeout_ms cfg) @
     num_item (bc_num_nodes cfg) @ word_item (bc_mcast_ip cfg) @ concat (map (show_node udp) (bc_nodes cfg)) @
     num_item (bc_vc_timeout_ms cfg) @ num_item (bc_status_timeout_ms cfg) @ num_item (bc_recovery_timeout_ms cfg)"

text \<open>What can be written: words that fit their field, numbers in range, a count that fits the build.\<close>

definition word_ok :: "nat \<Rightarrow> string \<Rightarrow> bool" where
  "word_ok k w \<longleftrightarrow> w \<noteq> [] \<and> length w \<le> k \<and> list_all (\<lambda>ch. \<not> is_space ch) w"

definition entry_ok :: "bool \<Rightarrow> node_entry \<Rightarrow> bool" where
  "entry_ok udp e \<longleftrightarrow> word_ok 63 (ne_hostname e) \<and> word_ok 127 (ne_pubkey_path e) \<and>
     (if udp then word_ok 31 (ne_ip e) \<and> CHR '':'' \<notin> set (ne_ip e) \<and> 1 \<le> ne_port e \<and> ne_port e \<le> 65535 \<and> ne_mac_str e = []
      else word_ok 31 (ne_mac_str e) \<and> CHR '':'' \<in> set (ne_mac_str e) \<and> ne_port e = 0 \<and> ne_ip e = [])"

definition byz_config_ok :: "config \<Rightarrow> bool \<Rightarrow> byz_config \<Rightarrow> bool" where
  "byz_config_ok c udp cfg \<longleftrightarrow>
     word_ok 63 (bc_service_name cfg) \<and> word_ok 31 (bc_mcast_ip cfg) \<and>
     1 \<le> bc_f cfg \<and> bc_f cfg \<le> int (TBFT_MAX_FAULTY c) \<and> bc_num_nodes cfg = int (length (bc_nodes cfg)) \<and>
     3 * bc_f cfg + 1 \<le> bc_num_nodes cfg \<and> bc_num_nodes cfg \<le> int (TBFT_MAX_NUM_REPLICAS c + TBFT_MAX_NUM_CLIENTS c) \<and>
     list_all (entry_ok udp) (bc_nodes cfg) \<and> bc_num_replicas cfg = count_replicas (bc_nodes cfg) \<and>
     1 \<le> bc_num_replicas cfg \<and> bc_num_replicas cfg \<le> int (TBFT_MAX_NUM_REPLICAS c) \<and>
     0 < bc_auth_timeout_ms cfg \<and> 0 < bc_vc_timeout_ms cfg \<and> 0 < bc_status_timeout_ms cfg \<and> 0 < bc_recovery_timeout_ms cfg"

section \<open>Reading back what was written\<close>

lemma dec_digits: "list_all is_digit (dec n) \<and> dec n \<noteq> []"
proof (induction n rule: dec.induct)
  case (1 n)
  have "is_digit (char_of (48 + n))" if "n < 10" for n :: nat using that by (simp add: is_digit_def)
  then show ?case using "1" by (subst (1 2) dec.simps) simp
qed

lemma dec_val: "digits_val (dec n) = int n"
proof (induction n rule: dec.induct)
  case (1 n)
  have d: "int (of_char (char_of (48 + n) :: char)) = 48 + int n" if "n < 10" for n :: nat
    using that by simp
  show ?case
  proof (cases "n < 10")
    case False
    then have "digits_val (dec n) = int (n div 10) * 10 + int (n mod 10)"
      using "1" d [of "n mod 10"] by (subst dec.simps) (simp add: digits_val_def)
    then show ?thesis by (simp add: zdiv_int zmod_int)
  qed (use d [of n] in \<open>subst dec.simps, simp add: digits_val_def\<close>)
qed

lemma take_drop_while:
  assumes "list_all P xs" "\<not> P y"
  shows "takeWhile P (xs @ y # ys) = xs" "dropWhile (\<lambda>z. \<not> P z) (xs @ y # ys) = (if xs = [] then dropWhile (\<lambda>z. \<not> P z) ys else xs @ y # ys)"
  using assms by (induction xs) auto

lemma space_blank [simp]: "is_space CHR '' ''"
  by (simp add: is_space_def)

lemma scan_word: "word_ok k w \<Longrightarrow> scan_str k (word_item w @ rest) = Some (w, CHR '' '' # rest)"
proof -
  assume w: "word_ok k w"
  have drop: "dropWhile is_space (w @ CHR '' '' # rest) = w @ CHR '' '' # rest"
    using w by (cases w) (auto simp: word_ok_def)
  have "takeWhile (\<lambda>ch. \<not> is_space ch) (w @ CHR '' '' # rest) = w"
    using w by (intro take_drop_while(1)) (auto simp: word_ok_def)
  moreover have "take k w = w" "w \<noteq> []" "k \<noteq> 0" using w by (cases k; auto simp: word_ok_def)+
  ultimately show ?thesis using drop by (simp add: scan_str_def word_item_def Let_def)
qed

lemma scan_blank: "scan_str k (CHR '' '' # s) = scan_str k s" "scan_int (CHR '' '' # s) = scan_int s"
  by (simp_all add: scan_str_def scan_int_def)

lemma scan_num: "0 \<le> n \<Longrightarrow> scan_int (num_item n @ rest) = Some (n, CHR '' '' # rest)"
proof -
  assume n: "0 \<le> n"
  let ?d = "dec (nat n)"
  obtain x xs where d: "?d = x # xs" "is_digit x" using dec_digits [of "nat n"] by (cases ?d) auto
  then have x: "\<not> is_space x" "x \<noteq> CHR ''-''" "x \<noteq> CHR ''+''" by (auto simp: is_digit_def is_space_def)
  have drop: "dropWhile is_space (?d @ CHR '' '' # rest) = ?d @ CHR '' '' # rest" using d x by simp
  have "takeWhile is_digit (?d @ CHR '' '' # rest) = ?d"
    using dec_digits [of "nat n"] by (intro take_drop_while(1)) (auto simp: is_digit_def)
  then have t: "takeWhile is_digit (x # xs @ CHR '' '' # rest) = x # xs" using d by simp
  have "digits_val (x # xs) = n" using dec_val [of "nat n"] d n by simp
  then show ?thesis using drop d x t by (simp add: scan_int_def num_item_def Let_def)
qed

lemma scan_after [simp]:
  "word_ok k w \<Longrightarrow> scan_str k (CHR '' '' # word_item w @ rest) = Some (w, CHR '' '' # rest)"
  "0 \<le> n \<Longrightarrow> scan_int (CHR '' '' # num_item n @ rest) = Some (n, CHR '' '' # rest)"
  by (simp_all add: scan_blank scan_word scan_num)

lemma parse_shown_node:
  "entry_ok udp e \<Longrightarrow> parse_node udp (CHR '' '' # show_node udp e @ rest) = Some (e, CHR '' '' # rest)"
  by (cases e) (auto simp: parse_node_def show_node_def entry_ok_def Let_def split: if_splits)

lemma parse_shown_nodes:
  "list_all (entry_ok udp) es \<Longrightarrow>
   parse_nodes udp (length es) (CHR '' '' # concat (map (show_node udp) es) @ rest) = Some (es, CHR '' '' # rest)"
  by (induction es) (simp_all add: parse_shown_node)

lemma parse_shown_config:
  assumes "byz_config_ok c udp cfg"
  shows "parse_config c udp local (Some (show_config udp cfg)) =
    Some (cfg\<lparr> bc_local_node_id := detect_local udp local (bc_nodes cfg) \<rparr>)"
proof -
  have n: "nat (bc_num_nodes cfg) = length (bc_nodes cfg)" using assms by (simp add: byz_config_ok_def)
  have "scan_int (CHR '' '' # num_item (bc_recovery_timeout_ms cfg)) = Some (bc_recovery_timeout_ms cfg, '' '')"
    using scan_after(2) [of "bc_recovery_timeout_ms cfg" "[]"] assms by (simp add: byz_config_ok_def)
  then show ?thesis
    using assms parse_shown_nodes [of udp "bc_nodes cfg"]
    by (cases cfg) (simp add: parse_config_def show_config_def byz_config_ok_def scan_word n [simplified] Let_def)
qed

text \<open>C37: configurations round trip.  A valid configuration written in the documented format, for
  either transport, parses to itself, with the local node set to the first node that has the address
  of the device.\<close>

theorem config_roundtrip:
  assumes "byz_config_ok c udp cfg"
  shows "parse_config c udp local (Some (show_config udp cfg)) =
    Some (cfg\<lparr> bc_local_node_id := detect_local udp local (bc_nodes cfg) \<rparr>)"
  using assms by (rule parse_shown_config)

definition config_bounds :: "config \<Rightarrow> byz_config \<Rightarrow> bool" where
  "config_bounds c cfg \<longleftrightarrow>
     1 \<le> bc_f cfg \<and> bc_f cfg \<le> int (TBFT_MAX_FAULTY c) \<and> 3 * bc_f cfg + 1 \<le> bc_num_nodes cfg \<and>
     bc_num_nodes cfg \<le> int (TBFT_MAX_NUM_REPLICAS c + TBFT_MAX_NUM_CLIENTS c) \<and>
     bc_num_nodes cfg = int (length (bc_nodes cfg)) \<and>
     1 \<le> bc_num_replicas cfg \<and> bc_num_replicas cfg \<le> min (bc_num_nodes cfg) (int (TBFT_MAX_NUM_REPLICAS c)) \<and>
     0 < bc_auth_timeout_ms cfg \<and> 0 < bc_vc_timeout_ms cfg \<and> 0 < bc_status_timeout_ms cfg \<and>
     0 < bc_recovery_timeout_ms cfg \<and> - 1 \<le> bc_local_node_id cfg \<and> bc_local_node_id cfg < bc_num_nodes cfg"

lemma parse_nodes_length: "parse_nodes udp n s = Some (es, s') \<Longrightarrow> length es = n"
  by (induction n arbitrary: s es s') (auto split: Option.bind_splits)

lemma detect_local_range: "- 1 \<le> detect_local udp local es \<and> detect_local udp local es < max 0 (int (length es))"
  by (auto simp: detect_local_def find_Some_iff split: option.split)

lemma parse_config_bounds':
  assumes "parse_config c udp local file = Some cfg"
  shows "config_bounds c cfg"
proof -
  have es: "count_replicas es \<le> int (length es) \<and> - 1 \<le> detect_local udp local es \<and>
      detect_local udp local es < max 0 (int (length es))" for es
    using detect_local_range by (simp add: count_replicas_def)
  from assms obtain es n s t where nodes: "parse_nodes udp (nat n) s = Some (es, t)"
    and "bc_nodes cfg = es" "bc_num_nodes cfg = n" "bc_num_replicas cfg = count_replicas es"
      "bc_local_node_id cfg = detect_local udp local es"
      "1 \<le> bc_f cfg \<and> bc_f cfg \<le> int (TBFT_MAX_FAULTY c) \<and> 3 * bc_f cfg + 1 \<le> n \<and>
       n \<le> int (TBFT_MAX_NUM_REPLICAS c + TBFT_MAX_NUM_CLIENTS c) \<and>
       1 \<le> count_replicas es \<and> count_replicas es \<le> int (TBFT_MAX_NUM_REPLICAS c) \<and>
       0 < bc_auth_timeout_ms cfg \<and> 0 < bc_vc_timeout_ms cfg \<and> 0 < bc_status_timeout_ms cfg \<and>
       0 < bc_recovery_timeout_ms cfg"
    by (auto simp: parse_config_def not_le not_less split: Option.bind_splits if_splits)
  with parse_nodes_length [OF nodes] es [of es] show ?thesis by (simp add: config_bounds_def)
qed

text \<open>C38: the parser accepts only configurations the build can hold: the fault bound is between one and
  that of the build, there are at least \<open>3f + 1\<close> nodes and no more than the tables hold, the replicas
  fit the replica table, the node table has the announced length, all timeouts are positive, and the
  local node is in the table or \<open>-1\<close>.\<close>

theorem parse_config_bounds:
  assumes "parse_config c udp local file = Some cfg"
  shows "config_bounds c cfg"
  using assms by (rule parse_config_bounds')

section \<open>Witnesses\<close>

text \<open>A deployment of four replicas and one client over UDP.\<close>

definition sample_entry :: "string \<Rightarrow> char \<Rightarrow> node_entry" where
  "sample_entry host d = \<lparr> ne_hostname = host, ne_ip = ''10.0.0.'' @ [d], ne_port = 3660, ne_mac_str = [],
     ne_pubkey_path = ''/keys/pub'' @ [d] \<rparr>"

definition sample_config :: byz_config where
  "sample_config = \<lparr> bc_service_name = ''wallet'', bc_f = 1, bc_auth_timeout_ms = 1000, bc_num_nodes = 5,
     bc_num_replicas = 4, bc_mcast_ip = ''234.5.6.8'',
     bc_nodes = [sample_entry ''node0'' CHR ''1'', sample_entry ''node1'' CHR ''2'', sample_entry ''node2'' CHR ''3'',
       sample_entry ''node3'' CHR ''4'', sample_entry ''client'' CHR ''5''],
     bc_vc_timeout_ms = 5000, bc_status_timeout_ms = 1000, bc_recovery_timeout_ms = 2500, bc_local_node_id = 1 \<rparr>"

lemma sample_config_ok: "byz_config_ok default_config True sample_config"
  by (simp add: byz_config_ok_def sample_config_def sample_entry_def entry_ok_def word_ok_def is_space_def
      count_replicas_def is_replica_entry_def TBFT_MAX_FAULTY_def)

lemma sample_detect: "detect_local True (Some ''10.0.0.2'') (bc_nodes sample_config) = 1"
  by (simp add: detect_local_def sample_config_def sample_entry_def entry_matches_def upt_rec)

lemma config_roundtrip_witness:
  "parse_config default_config True (Some ''10.0.0.2'') (Some (show_config True sample_config)) = Some sample_config"
  using config_roundtrip [OF sample_config_ok, of "Some ''10.0.0.2''"] sample_detect
  by (simp add: sample_config_def)

lemma parse_config_bounds_witness:
  "\<exists>cfg. parse_config default_config True None (Some (show_config True sample_config)) = Some cfg \<and>
     config_bounds default_config cfg"
  using parse_shown_config [OF sample_config_ok] parse_config_bounds by blast

end
