(* ===== verification/Libbyz.thy ===== *)
theory Libbyz
  imports Config_File Replica_Run
begin

text \<open>
  The public interface, \<open>src/tbft_libbyz.c\<close>: setting up the principals, the client, and the entry points
  of a replica.  The module's singletons are the record \<open>byz\<close>; \<open>by_sent\<close> is a history variable.  What
  the client receives is a list of triples: the reading of the clock, the result of the transport and
  the buffer; an exhausted list is a network that stays silent until the deadline.  Files are a map
  from paths to contents, and the parsing of addresses (\<open>inet_pton\<close>, \<open>sscanf\<close>) is a parameter.
\<close>

section \<open>Principals\<close>

definition load_key_file :: "(string \<Rightarrow> bytes option) \<Rightarrow> string \<Rightarrow> bytes option" where
  "load_key_file fs path = (case fs path of None \<Rightarrow> None | Some b \<Rightarrow> if b = [] then None else Some b)"

text \<open>Freeing the first \<open>n\<close> principals.\<close>

definition clear_principals :: "nat \<Rightarrow> node \<Rightarrow> node" where
  "clear_principals n nd = nd\<lparr> nd_principals :=
     map (\<lambda>j. if j < n then None else nd_principals nd ! j) [0 ..< length (nd_principals nd)] \<rparr>"

definition keypair_self_test :: bytes where
  "keypair_self_test = map of_char ''keypair_self_test''"

text \<open>The local node: the pointer is set, and a loaded key pair is tested by signing.\<close>

definition setup_local :: "psa \<Rightarrow> nat \<Rightarrow> principal \<Rightarrow> node \<Rightarrow> bool \<times> node" where
  "setup_local P i p nd =
     (let nd = nd\<lparr> nd_local_set := True \<rparr> in
      if p_priv_sign_id p = None then (True, nd)
      else let (rc, sig) = tbft_principal_sign P p keypair_self_test (replicate TBFT_SIG_SIZE 0)
        in if rc \<noteq> 0 then (False, clear_principals (Suc i) nd)
           else if \<not> tbft_principal_verify_sig P p keypair_self_test sig then (False, clear_principals (Suc i) nd)
           else (True, nd))"

definition setup_one ::
  "psa \<Rightarrow> (nat \<Rightarrow> bool) \<Rightarrow> (string \<Rightarrow> bytes option) \<Rightarrow> (node_entry \<Rightarrow> bytes option) \<Rightarrow> string option \<Rightarrow> int \<Rightarrow> nat \<Rightarrow> node_entry \<Rightarrow> node
     \<Rightarrow> bool \<times> node" where
  "setup_one P al fs addr_of priv local_id i e nd =
     (if \<not> al i then (False, clear_principals i nd)
      else case addr_of e of
        None \<Rightarrow> (False, nd)
      | Some addr \<Rightarrow>
          (case load_key_file fs (ne_pubkey_path e) of
             None \<Rightarrow> (False, clear_principals i nd)
           | Some der \<Rightarrow>
               let (rc, p) = tbft_principal_load_pub_key P (tbft_principal_init (int i) addr) der in
               if rc \<noteq> 0 then (False, clear_principals i nd)
               else let nd = nd_set_principal nd (int i) p in
                 if int i = local_id
                 then (case priv of
                         None \<Rightarrow> (True, nd)
                       | Some path \<Rightarrow>
                           (case load_key_file fs path of
                              None \<Rightarrow> setup_local P i p nd
                            | Some der \<Rightarrow>
                                let (rc, p) = tbft_principal_load_priv_key P p der; nd = nd_set_principal nd (int i) p
                                in if rc \<noteq> 0 then (False, clear_principals (Suc i) nd) else setup_local P i p nd))
                 else (True, nd)))"

fun setup_loop ::
  "psa \<Rightarrow> (nat \<Rightarrow> bool) \<Rightarrow> (string \<Rightarrow> bytes option) \<Rightarrow> (node_entry \<Rightarrow> bytes option) \<Rightarrow> string option \<Rightarrow> int \<Rightarrow> nat \<Rightarrow> node_entry list \<Rightarrow> node
     \<Rightarrow> bool \<times> node" where
  "setup_loop P al fs addr_of priv local_id i [] nd = (True, nd)"
| "setup_loop P al fs addr_of priv local_id i (e # es) nd =
     (case setup_one P al fs addr_of priv local_id i e nd of
        (ok, nd) \<Rightarrow> if \<not> ok then (False, nd) else setup_loop P al fs addr_of priv local_id (Suc i) es nd)"

definition setup_principals ::
  "psa \<Rightarrow> (nat \<Rightarrow> bool) \<Rightarrow> (string \<Rightarrow> bytes option) \<Rightarrow> (node_entry \<Rightarrow> bytes option) \<Rightarrow> byz_config \<Rightarrow> string option \<Rightarrow> int \<Rightarrow> node
     \<Rightarrow> bool \<times> node" where
  "setup_principals P al fs addr_of cfg priv local_id nd =
     setup_loop P al fs addr_of priv local_id 0 (take (nat (bc_num_nodes cfg)) (bc_nodes cfg)) nd"

section \<open>Requests and replies of the caller\<close>

record byz_buf =
  bb_contents :: "bytes option"
  bb_size :: int

text \<open>\<open>fresh\<close> is the memory that \<open>malloc\<close> returns.\<close>

definition Byz_alloc_request :: "bytes option \<Rightarrow> int \<Rightarrow> byz_buf \<Rightarrow> int \<times> byz_buf" where
  "Byz_alloc_request fresh sz req =
     (let req = req\<lparr> bb_contents := fresh \<rparr> in if fresh = None then (- 1, req) else (0, req\<lparr> bb_size := sz \<rparr>))"

definition Byz_free_request :: "byz_buf \<Rightarrow> byz_buf" where
  "Byz_free_request req = (if bb_contents req = None then req else req\<lparr> bb_contents := None, bb_size := 0 \<rparr>)"

definition Byz_free_reply :: "byz_buf \<Rightarrow> byz_buf" where
  "Byz_free_reply rep = (if bb_contents rep = None then rep else rep\<lparr> bb_contents := None, bb_size := 0 \<rparr>)"

section \<open>State\<close>

record reply_slot =
  rs_buf :: bytes
  rs_len :: int
  rs_valid :: bool

record byz =
  by_replica :: "replica option"
  by_client :: "node option"
  by_is_replica :: bool
  by_replies :: "reply_slot list"
  by_reply_count :: int
  by_out :: bytes
  by_sent :: "(bytes \<times> int) list"

definition reply_slot_zero :: "config \<Rightarrow> reply_slot" where
  "reply_slot_zero c = \<lparr> rs_buf = replicate (TBFT_MAX_MESSAGE_SIZE c) 0, rs_len = 0, rs_valid = False \<rparr>"

definition byz_start :: "config \<Rightarrow> byz" where
  "byz_start c = \<lparr> by_replica = None, by_client = None, by_is_replica = False,
     by_replies = replicate (TBFT_MAX_NUM_REPLICAS c) (reply_slot_zero c), by_reply_count = 0,
     by_out = replicate (TBFT_MAX_MESSAGE_SIZE c) 0, by_sent = [] \<rparr>"

definition Byz_reset_client :: "config \<Rightarrow> byz \<Rightarrow> byz" where
  "Byz_reset_client c b = b\<lparr> by_replies := replicate (TBFT_MAX_NUM_REPLICAS c) (reply_slot_zero c), by_reply_count := 0 \<rparr>"

text \<open>What the device offers to an initialisation.\<close>

record device =
  dv_psa :: psa
  dv_udp :: bool
  dv_local :: "string option"
  dv_files :: "string \<Rightarrow> bytes option"
  dv_addr :: "node_entry \<Rightarrow> bytes option"
  dv_alloc :: bool
  dv_principal_alloc :: "nat \<Rightarrow> bool"
  dv_res :: resources
  dv_now :: int
  dv_timer_ok :: bool

definition Byz_detect_local_id :: "config \<Rightarrow> device \<Rightarrow> string option \<Rightarrow> int" where
  "Byz_detect_local_id c D file =
     (case parse_config c (dv_udp D) (dv_local D) file of None \<Rightarrow> - 1 | Some cfg \<Rightarrow> bc_local_node_id cfg)"

section \<open>The client\<close>

definition Byz_init_client :: "config \<Rightarrow> device \<Rightarrow> string option \<Rightarrow> string option \<Rightarrow> int \<Rightarrow> byz \<Rightarrow> int \<times> byz" where
  "Byz_init_client c D file priv local_id b =
     (case parse_config c (dv_udp D) (dv_local D) file of
        None \<Rightarrow> (- 1, b)
      | Some cfg \<Rightarrow>
          let local_id = (if local_id = - 1 then bc_num_replicas cfg else local_id) in
          if local_id < bc_num_replicas cfg \<or> bc_num_nodes cfg \<le> local_id then (- 1, b)
          else if \<not> dv_alloc D then (- 1, b\<lparr> by_client := None \<rparr>)
          else case tbft_node_init c (res_transport (dv_res D)) (res_atimer (dv_res D)) local_id (bc_f cfg)
                      (bc_num_replicas cfg) (bc_num_nodes cfg) (bc_auth_timeout_ms cfg * 1000) of
                 None \<Rightarrow> (- 1, b\<lparr> by_client := None \<rparr>)
               | Some nd \<Rightarrow>
                   let (ok, nd) = setup_principals (dv_psa D) (dv_principal_alloc D) (dv_files D) (dv_addr D) cfg priv local_id nd
                   in if \<not> ok then (- 1, b\<lparr> by_client := None \<rparr>)
                      else (0, Byz_reset_client c (b\<lparr> by_client := Some nd, by_is_replica := False \<rparr>)))"

subsection \<open>Receiving a reply\<close>

type_synonym net = "(int \<times> int \<times> bytes) list"

definition expected_rid :: "node \<Rightarrow> u64" where
  "expected_rid nd = push_bit 48 (word_of_int (nd_node_id nd)) OR nd_rid_counter nd"

text \<open>The replica whose key verifies the signature behind the body.\<close>

definition reply_signer :: "psa \<Rightarrow> node \<Rightarrow> bytes \<Rightarrow> int \<Rightarrow> int option" where
  "reply_signer P nd buf n =
     (let body = hdr_size buf in
      if body < int sz_reply \<or> n < body then None
      else if n < body + int TBFT_SIG_SIZE then None
      else List.find (\<lambda>i. tbft_node_verify_sig P nd i (take (nat body) buf) (field (nat body) TBFT_SIG_SIZE buf))
             [0 .. nd_num_replicas nd - 1])"

text \<open>Storing a reply in the slot of its sender; a duplicate and an oversized reply are ignored.\<close>

definition store_reply :: "config \<Rightarrow> int \<Rightarrow> bytes \<Rightarrow> int \<Rightarrow> byz \<Rightarrow> bool \<times> byz" where
  "store_reply c i buf n b =
     (let s = by_replies b ! nat i in
      if rs_valid s \<and> rep_rid (rs_buf s) = rep_rid buf then (False, b)
      else let b = (if rs_valid s then b\<lparr> by_replies := (by_replies b)[nat i := s\<lparr> rs_valid := False \<rparr>],
                                         by_reply_count := by_reply_count b - 1 \<rparr> else b)
        in if int (TBFT_MAX_MESSAGE_SIZE c) < n then (False, b)
           else (True, b\<lparr> by_replies := (by_replies b)[nat i := \<lparr> rs_buf = put 0 (take (nat n) buf) (rs_buf s),
                            rs_len = n, rs_valid = True \<rparr>], by_reply_count := by_reply_count b + 1 \<rparr>))"

text \<open>The payload of a stored reply lies in the message.\<close>

definition reply_fits :: "reply_slot \<Rightarrow> bool" where
  "reply_fits s \<longleftrightarrow> \<not> (rep_reply_size (rs_buf s) < 0 \<or> rs_len s < int sz_reply \<or>
     rs_len s - int sz_reply < rep_reply_size (rs_buf s))"

definition reply_payload :: "reply_slot \<Rightarrow> bytes" where
  "reply_payload s = field sz_reply (nat (rep_reply_size (rs_buf s))) (rs_buf s)"

definition reply_candidate :: "u64 \<Rightarrow> int \<Rightarrow> reply_slot \<Rightarrow> bool" where
  "reply_candidate rid len s \<longleftrightarrow>
     rs_valid s \<and> rep_rid (rs_buf s) = rid \<and> rep_reply_size (rs_buf s) = len \<and> reply_fits s"

text \<open>The number of stored replies that agree with a candidate.\<close>

definition reply_votes :: "psa \<Rightarrow> node \<Rightarrow> u64 \<Rightarrow> reply_slot list \<Rightarrow> reply_slot \<Rightarrow> int" where
  "reply_votes P nd rid slots s =
     int (length (filter (\<lambda>j. let t = slots ! nat j in reply_candidate rid (rep_reply_size (rs_buf s)) t \<and>
            tbft_msg_digest (psa_hash_compute P) (reply_payload s) = tbft_msg_digest (psa_hash_compute P) (reply_payload t))
          [0 .. nd_num_replicas nd - 1]))"

text \<open>The candidate with the most votes, the first of equals.\<close>

definition best_reply :: "psa \<Rightarrow> node \<Rightarrow> u64 \<Rightarrow> int \<Rightarrow> reply_slot list \<Rightarrow> int \<times> bytes" where
  "best_reply P nd rid len slots =
     fold (\<lambda>i (best, win). let s = slots ! nat i in
             if \<not> reply_candidate rid len s then (best, win)
             else let cnt = reply_votes P nd rid slots s
               in if best < cnt then (cnt, reply_payload s) else (best, win))
       [0 .. nd_num_replicas nd - 1] (0, [])"

text \<open>One round of \<open>Byz_recv_reply\<close> on a received message: \<open>None\<close> goes on, otherwise the return code and
  the contents of the reply.\<close>

definition recv_one :: "config \<Rightarrow> device \<Rightarrow> node \<Rightarrow> int \<Rightarrow> bytes \<Rightarrow> byz \<Rightarrow> (int \<times> bytes) option \<times> byz" where
  "recv_one c D nd n buf b =
     (if n < int sz_reply then (None, b)
      else if hdr_tag buf \<noteq> tag_val TBFT_MSG_REPLY then (None, b)
      else if rep_cid buf \<noteq> nd_node_id nd \<or> rep_rid buf \<noteq> expected_rid nd then (None, b)
      else case reply_signer (dv_psa D) nd buf n of
        None \<Rightarrow> (None, b)
      | Some i \<Rightarrow>
          (case store_reply c i buf n b of
             (stored, b) \<Rightarrow>
               if \<not> stored then (None, b)
               else (case best_reply (dv_psa D) nd (rep_rid buf) (rep_reply_size buf) (by_replies b) of
                       (match, win) \<Rightarrow>
                         if nd_max_faulty nd + 1 \<le> match
                         then if \<not> dv_alloc D then (Some (- 1, []), b) else (Some (0, win), Byz_reset_client c b)
                         else (None, b))))"

text \<open>The loop of \<open>Byz_recv_reply\<close>: the return code, the contents of the reply, and what is left of
  the network's input.\<close>

fun recv_loop :: "config \<Rightarrow> device \<Rightarrow> node \<Rightarrow> int \<Rightarrow> net \<Rightarrow> byz \<Rightarrow> int \<times> bytes \<times> net \<times> byz" where
  "recv_loop c D nd deadline [] b = (- 1, [], [], Byz_reset_client c b)"
| "recv_loop c D nd deadline ((now, n, buf) # ins) b =
     (if deadline \<le> now then (- 1, [], (now, n, buf) # ins, Byz_reset_client c b)
      else case recv_one c D nd (tbft_node_recv n nd) buf b of
             (None, b) \<Rightarrow> recv_loop c D nd deadline ins b
           | (Some (rc, rep), b) \<Rightarrow> (rc, rep, ins, b))"

definition Byz_recv_reply :: "config \<Rightarrow> device \<Rightarrow> int \<Rightarrow> net \<Rightarrow> byz \<Rightarrow> int \<times> bytes \<times> net \<times> byz" where
  "Byz_recv_reply c D now ins b =
     (case by_client b of
        None \<Rightarrow> (- 1, [], ins, b)
      | Some nd \<Rightarrow> recv_loop c D nd (now + TBFT_CLIENT_REPLY_TIMEOUT_MS c * 1000) ins b)"

subsection \<open>Sending a request\<close>

text \<open>Up to 64 waiting messages are taken from the network first; at a reply the client collects
  replies.\<close>

fun drain_loop :: "config \<Rightarrow> device \<Rightarrow> node \<Rightarrow> nat \<Rightarrow> net \<Rightarrow> byz \<Rightarrow> net \<times> byz" where
  "drain_loop c D nd 0 ins b = (ins, b)"
| "drain_loop c D nd (Suc k) [] b = ([], b)"
| "drain_loop c D nd (Suc k) ((now, n, buf) # ins) b =
     (let drained = tbft_node_recv n nd in
      if drained \<le> 0 then (ins, b)
      else if int sz_hdr \<le> drained \<and> hdr_tag buf = tag_val TBFT_MSG_REPLY
           then (case Byz_recv_reply c D now ins b of (_, _, ins, b) \<Rightarrow> drain_loop c D nd k ins b)
           else drain_loop c D nd k ins b)"

definition build_request :: "config \<Rightarrow> psa \<Rightarrow> node \<Rightarrow> u64 \<Rightarrow> int \<Rightarrow> bool \<Rightarrow> bytes \<Rightarrow> bytes \<Rightarrow> bytes" where
  "build_request c P nd rid now ro cmd buf =
     (let buf = wr_i16 0 (tag_val TBFT_MSG_REQUEST) buf; buf = wr_i16 2 (if ro then 1 else 0) buf;
          buf = wr_i32 48 (nd_node_id nd) buf; buf = wr_u64 52 rid buf; buf = wr_i32 60 TBFT_ALL_REPLICAS buf;
          buf = wr_i32 64 (int (length cmd)) buf; buf = put 16 (tbft_msg_digest (psa_hash_compute P) cmd) buf;
          buf = wr_i32 4 (tbft_msg_align (int (sz_request + length cmd + TBFT_SIG_SIZE))) buf;
          buf = wr_i64 8 now buf
      in put (sz_request + length cmd) (replicate TBFT_SIG_SIZE 0) (put sz_request cmd buf))"

text \<open>The signature, when the client has a private key.\<close>

definition sign_request :: "psa \<Rightarrow> node \<Rightarrow> nat \<Rightarrow> bytes \<Rightarrow> int \<times> bytes" where
  "sign_request P nd off buf =
     (case nd_principal nd (nd_node_id nd) of
        Some p \<Rightarrow>
          if nd_local_set nd \<and> p_priv_sign_id p \<noteq> None
          then let (rc, sig) = tbft_node_gen_sig P nd (take off buf) (field off TBFT_SIG_SIZE buf) in (rc, put off sig buf)
          else (0, buf)
      | None \<Rightarrow> (0, buf))"

text \<open>\<open>send_ok\<close> says whether the transport sends a positive number of bytes.\<close>

definition Byz_send_request ::
  "config \<Rightarrow> device \<Rightarrow> bool \<Rightarrow> bytes \<Rightarrow> bool \<Rightarrow> int \<Rightarrow> net \<Rightarrow> byz \<Rightarrow> int \<times> net \<times> byz" where
  "Byz_send_request c D send_ok cmd ro now ins b =
     (case by_client b of
        None \<Rightarrow> (- 1, ins, b)
      | Some nd \<Rightarrow>
          let (ins, b) = (if \<not> by_is_replica b then drain_loop c D nd 64 ins b else (ins, b));
              (rid, nd) = tbft_node_new_rid nd; b = b\<lparr> by_client := Some nd \<rparr>;
              off = sz_request + length cmd; total = off + TBFT_SIG_SIZE in
          if TBFT_MAX_MESSAGE_SIZE c < total then (- 1, ins, b)
          else let (rc, buf) = sign_request (dv_psa D) nd off (build_request c (dv_psa D) nd rid now ro cmd (by_out b));
                   b = b\<lparr> by_out := buf \<rparr>
            in if rc \<noteq> 0 then (- 1, ins, b)
               else let sz = nat (hdr_size buf);
                        buf = (if total < sz then put total (replicate (sz - total) 0) buf else buf);
                        b = b\<lparr> by_out := buf \<rparr>
                 in if \<not> nd_transport nd \<or> \<not> send_ok then (- 1, ins, b)
                    else (0, ins, b\<lparr> by_sent := by_sent b @ [(take sz buf, TBFT_ALL_REPLICAS)] \<rparr>))"

definition Byz_invoke ::
  "config \<Rightarrow> device \<Rightarrow> bool \<Rightarrow> bytes \<Rightarrow> bool \<Rightarrow> int \<Rightarrow> net \<Rightarrow> byz \<Rightarrow> int \<times> bytes \<times> net \<times> byz" where
  "Byz_invoke c D send_ok cmd ro now ins b =
     (case Byz_send_request c D send_ok cmd ro now ins b of
        (rc, ins, b) \<Rightarrow> if rc \<noteq> 0 then (rc, [], ins, b) else Byz_recv_reply c D now ins b)"

text \<open>Retries; each attempt has its own clock and its own outcome of the transport.  The pauses between
  the attempts, doubled from one second up to ten, only pass time.\<close>

fun retry_invoke ::
  "config \<Rightarrow> device \<Rightarrow> bytes \<Rightarrow> bool \<Rightarrow> (bool \<times> int) list \<Rightarrow> int \<Rightarrow> net \<Rightarrow> byz \<Rightarrow> int \<times> bytes \<times> net \<times> byz" where
  "retry_invoke c D cmd ro [] attempt ins b = (- 1, [], ins, b)"
| "retry_invoke c D cmd ro ((send_ok, now) # as) attempt ins b =
     (case Byz_invoke c D send_ok cmd ro now ins b of
        (rc, rep, ins, b) \<Rightarrow> if rc = 0 then (attempt, rep, ins, b) else retry_invoke c D cmd ro as (attempt + 1) ins b)"

definition Byz_invoke_with_retry ::
  "config \<Rightarrow> device \<Rightarrow> bytes \<Rightarrow> bool \<Rightarrow> int \<Rightarrow> (bool \<times> int) list \<Rightarrow> net \<Rightarrow> byz \<Rightarrow> int \<times> bytes \<times> net \<times> byz" where
  "Byz_invoke_with_retry c D cmd ro max_attempts as ins b =
     (if max_attempts < 1 then (- 1, [], ins, b)
      else retry_invoke c D cmd ro (take (nat max_attempts) as) 1 ins b)"

section \<open>The replica\<close>

text \<open>The adapter between the callback of the application and that of the replica.\<close>

definition exec_adapter :: "exec_cb option \<Rightarrow> exec_cb" where
  "exec_adapter cb req ndet cid ro st =
     (case cb of
        None \<Rightarrow> (- 1, [], 0, st)
      | Some f \<Rightarrow> (case f req ndet cid ro st of (rc, out, len, st) \<Rightarrow> (rc, out, if rc = 0 then len else 0, st)))"

text \<open>The periods of the configuration file, with the defaults for what is not positive.\<close>

definition set_periods :: "config \<Rightarrow> byz_config \<Rightarrow> replica \<Rightarrow> replica" where
  "set_periods c cfg r =
     (let vt = bc_vc_timeout_ms cfg * 1000; st = bc_status_timeout_ms cfg * 1000; ft = bc_recovery_timeout_ms cfg * 1000
      in r\<lparr> r_vtimer_period_us := (if vt \<le> 0 then 5000000 else vt),
            r_stimer_period_us := (if st \<le> 0 then 1000000 else st),
            r_state := (r_state r)\<lparr> as_fetch_timeout_us := (if ft \<le> 0 then TBFT_RECOVERY_TIMEOUT_US c else ft) \<rparr> \<rparr>)"

text \<open>After the principals are ready the timers are reset and the status timer is armed.\<close>

definition boot_replica :: "device \<Rightarrow> node \<Rightarrow> replica \<Rightarrow> replica" where
  "boot_replica D nd r =
     (let r = r\<lparr> r_node := nd, r_vtimer := tbft_itimer_stop (r_vtimer r), r_stimer := tbft_itimer_stop (r_stimer r) \<rparr>
      in r\<lparr> r_stimer := tbft_itimer_start (dv_timer_ok D) (r_stimer r) (r_stimer_period_us r),
            r_view_installed_us := dv_now D, r_view_start_executed := r_last_executed r \<rparr>)"

definition Byz_init_replica ::
  "config \<Rightarrow> device \<Rightarrow> string option \<Rightarrow> string option \<Rightarrow> int \<Rightarrow> bytes \<Rightarrow> exec_cb option \<Rightarrow> ndet_cb option \<Rightarrow> int \<Rightarrow> bool
     \<Rightarrow> byz \<Rightarrow> int \<times> byz" where
  "Byz_init_replica c D file priv local_id mem exec_cb ndet_cb ndet_max_len recv_reply_cb b =
     (case parse_config c (dv_udp D) (dv_local D) file of
        None \<Rightarrow> (- 1, b)
      | Some cfg \<Rightarrow>
          if local_id < 0 \<and> bc_local_node_id cfg < 0 then (- 1, b)
          else let local_id = (if local_id < 0 then bc_local_node_id cfg else local_id) in
            if local_id < 0 \<or> bc_num_replicas cfg \<le> local_id then (- 1, b)
            else if \<not> dv_alloc D then (- 1, b\<lparr> by_replica := None \<rparr>)
            else case tbft_replica_init c (dv_res D) local_id (bc_f cfg) (bc_num_replicas cfg) (bc_num_nodes cfg)
                        (bc_auth_timeout_ms cfg * 1000) mem (Some (exec_adapter exec_cb)) ndet_cb ndet_max_len recv_reply_cb of
                   None \<Rightarrow> (- 1, b\<lparr> by_replica := None \<rparr>)
                 | Some r \<Rightarrow>
                     let r = set_periods c cfg r;
                         (ok, nd) = setup_principals (dv_psa D) (dv_principal_alloc D) (dv_files D) (dv_addr D) cfg priv local_id (r_node r)
                     in if \<not> ok then (- 1, b\<lparr> by_replica := None \<rparr>)
                        else (0, b\<lparr> by_replica := Some (boot_replica D nd r), by_is_replica := True \<rparr>))"

text \<open>Announcing a write to the state: \<open>base\<close> is the address of the state, \<open>addr\<close> the address of the
  write, both 32 bits wide.\<close>

definition Byz_modify :: "config \<Rightarrow> int \<Rightarrow> int \<Rightarrow> int \<Rightarrow> byz \<Rightarrow> byz" where
  "Byz_modify c base addr sz b =
     (case by_replica b of
        None \<Rightarrow> b
      | Some r \<Rightarrow>
          let mem_size = int (length (as_mem (r_state r))) in
          if addr = 0 \<or> sz \<le> 0 then b
          else if addr < base \<or> mem_size < sz \<or> mem_size - sz < addr - base then b
          else b\<lparr> by_replica := Some (r\<lparr> r_state := tbft_state_cow c base (r_state r) addr sz \<rparr>) \<rparr>)"

definition Byz_modify1 :: "config \<Rightarrow> int \<Rightarrow> int \<Rightarrow> byz \<Rightarrow> byz" where
  "Byz_modify1 c base addr b =
     (case by_replica b of
        None \<Rightarrow> b
      | Some r \<Rightarrow>
          let end' = (base + int (length (as_mem (r_state r)))) mod 2 ^ 32 in
          if addr < base \<or> end' \<le> addr then b
          else b\<lparr> by_replica := Some (r\<lparr> r_state := tbft_state_cow_single c (r_state r)
                   (i32 ((addr - base) div int (TBFT_BLOCK_SIZE c))) \<rparr>) \<rparr>)"

definition Byz_replica_run ::
  "config \<Rightarrow> env \<Rightarrow> int \<Rightarrow> (env \<times> int \<times> (int \<times> bytes) list) list \<Rightarrow> int \<Rightarrow> round_in list \<Rightarrow> byz \<Rightarrow> byz" where
  "Byz_replica_run c E0 tick0 barrier tick1 rounds b =
     (case by_replica b of
        None \<Rightarrow> b
      | Some r \<Rightarrow> b\<lparr> by_replica := Some (tbft_replica_run c E0 tick0 barrier tick1 rounds r) \<rparr>)"

text \<open>What a successful initialisation has done.\<close>

lemma Byz_init_replica_cases:
  assumes "Byz_init_replica c D file priv local_id mem exec_cb ndet_cb nl rb b = (0, b')"
  obtains cfg l r nd where "parse_config c (dv_udp D) (dv_local D) file = Some cfg" "0 \<le> l" "l < bc_num_replicas cfg"
    "tbft_replica_init c (dv_res D) l (bc_f cfg) (bc_num_replicas cfg) (bc_num_nodes cfg)
       (bc_auth_timeout_ms cfg * 1000) mem (Some (exec_adapter exec_cb)) ndet_cb nl rb = Some r"
    "setup_principals (dv_psa D) (dv_principal_alloc D) (dv_files D) (dv_addr D) cfg priv l (r_node r) = (True, nd)"
    "by_replica b' = Some (boot_replica D nd (set_periods c cfg r))"
proof -
  obtain cfg where cfg: "parse_config c (dv_udp D) (dv_local D) file = Some cfg"
    using assms by (auto simp: Byz_init_replica_def split: option.splits)
  define l where "l = (if local_id < 0 then bc_local_node_id cfg else local_id)"
  obtain r where l: "0 \<le> l" "l < bc_num_replicas cfg" and
    r: "tbft_replica_init c (dv_res D) l (bc_f cfg) (bc_num_replicas cfg) (bc_num_nodes cfg)
       (bc_auth_timeout_ms cfg * 1000) mem (Some (exec_adapter exec_cb)) ndet_cb nl rb = Some r"
    using assms by (simp add: Byz_init_replica_def cfg Let_def l_def [symmetric] split: option.splits if_splits)
  obtain ok nd where nd: "setup_principals (dv_psa D) (dv_principal_alloc D) (dv_files D) (dv_addr D) cfg priv l (r_node r) = (ok, nd)" by fastforce
  have "r_node (set_periods c cfg r) = r_node r" by (simp add: set_periods_def Let_def)
  then have "ok \<and> by_replica b' = Some (boot_replica D nd (set_periods c cfg r))"
    using assms l by (auto simp: Byz_init_replica_def cfg Let_def l_def [symmetric] r nd split: if_splits)
  then show thesis using that [OF cfg l r] nd by simp
qed

section \<open>What the initialisation keeps\<close>

lemma clear_principals_fields [simp]:
  "nd_num_replicas (clear_principals n nd) = nd_num_replicas nd" "nd_max_faulty (clear_principals n nd) = nd_max_faulty nd"
  "nd_node_id (clear_principals n nd) = nd_node_id nd" "nd_num_principals (clear_principals n nd) = nd_num_principals nd"
  "nd_transport (clear_principals n nd) = nd_transport nd"
  by (simp_all add: clear_principals_def)

definition same_identity :: "node \<Rightarrow> node \<Rightarrow> bool" where
  "same_identity nd nd' \<longleftrightarrow> nd_num_replicas nd' = nd_num_replicas nd \<and> nd_max_faulty nd' = nd_max_faulty nd \<and>
     nd_node_id nd' = nd_node_id nd \<and> nd_num_principals nd' = nd_num_principals nd \<and> nd_transport nd' = nd_transport nd"

lemma setup_local_identity: "same_identity nd (snd (setup_local P i p nd))"
  by (simp add: setup_local_def same_identity_def Let_def split: prod.split)

lemma setup_one_identity: "same_identity nd (snd (setup_one P al fs addr_of priv l i e nd))"
proof -
  have "same_identity nd (snd (setup_local P i p (nd_set_principal nd' j q)))" if "same_identity nd nd'" for p nd' j q
    using setup_local_identity [of "nd_set_principal nd' j q" P i p] that
    by (simp add: same_identity_def nd_set_principal_def)
  from this [of nd] this [of "nd_set_principal nd j q" for j q] show ?thesis
    by (simp add: setup_one_def Let_def split: option.split prod.split)
      (simp add: same_identity_def nd_set_principal_def)
qed

lemma setup_loop_identity: "same_identity nd (snd (setup_loop P al fs addr_of priv l i es nd))"
proof (induction es arbitrary: i nd)
  case (Cons e es)
  obtain ok nd' where one: "setup_one P al fs addr_of priv l i e nd = (ok, nd')" by fastforce
  then have "same_identity nd nd'" using setup_one_identity [of nd P al fs addr_of priv l i e] by simp
  with Cons.IH [of nd' "Suc i"] one show ?case by (simp add: same_identity_def)
qed (simp add: same_identity_def)

lemma node_init_identity:
  assumes "tbft_node_init c tr at l f n m au = Some nd"
  shows "nd_max_faulty nd = f" "nd_num_replicas nd = n" "nd_node_id nd = l" "nd_transport nd"
  using assms by (auto simp: tbft_node_init_def Let_def split: if_splits prod.splits)

lemma setup_identity:
  "setup_principals P al fs addr_of cfg priv l nd = (ok, nd') \<Longrightarrow> same_identity nd nd'"
  unfolding setup_principals_def by (metis setup_loop_identity snd_conv)

end
