(* ===== verification/Replica_Order.thy ===== *)
theory Replica_Order
  imports Replica_Inv State_Examples Libbyz
begin

text \<open>
  What the event loop guarantees about executions: their order, the certificate behind each of them,
  and that execution catches up with what is committed.
\<close>

section \<open>Order of executions\<close>

lemma init_core: "tbft_replica_init c res i f n m t mem cb nb nl rb = Some r \<Longrightarrow> core r = (0, 0, [])"
  by (auto simp: tbft_replica_init_def replica_fields_def Let_def core_def split: option.splits prod.splits if_splits)

lemma boot_core [simp]: "core (boot_replica D nd (set_periods c cfg r)) = core r"
  by (simp add: boot_replica_def set_periods_def core_def Let_def)

lemma byz_init_core:
  assumes "Byz_init_replica c D file priv local_id mem cb nb nl rb b0 = (0, b)"
  shows "\<exists>r. by_replica b = Some r \<and> core r = (0, 0, [])"
proof (rule Byz_init_replica_cases [OF assms])
  fix cfg l r0 nd
  assume "tbft_replica_init c (dv_res D) l (bc_f cfg) (bc_num_replicas cfg) (bc_num_nodes cfg)
      (bc_auth_timeout_ms cfg * 1000) mem (Some (exec_adapter cb)) nb nl rb = Some r0"
    "by_replica b = Some (boot_replica D nd (set_periods c cfg r0))"
  then show ?thesis using init_core by simp
qed



definition all_resources :: resources where
  "all_resources = \<lparr> res_transport = (\<lambda>_. True), res_atimer = True, res_alloc = (\<lambda>_. True), res_vtimer = True,
     res_stimer = True, res_evt_group = True \<rparr>"

definition quiet_env :: env where
  "quiet_env = \<lparr> e_psa = toy_psa, e_now = 0, e_timer_ok = True, e_random = (\<lambda>_. replicate 32 7) \<rparr>"

text \<open>A device whose files hold one byte of key material each.\<close>

definition sample_device :: device where
  "sample_device = \<lparr> dv_psa = toy_psa, dv_udp = True, dv_local = None, dv_files = (\<lambda>path. Some [of_char (last path)]),
     dv_addr = (\<lambda>_. Some []), dv_alloc = True, dv_principal_alloc = (\<lambda>_. True), dv_res = all_resources, dv_now = 0, dv_timer_ok = True \<rparr>"

definition sample_file :: "string option" where
  "sample_file = Some (show_config True sample_config)"

lemma sample_config_ok': "byz_config_ok small_config True sample_config"
  by (simp add: byz_config_ok_def sample_config_def sample_entry_def entry_ok_def word_ok_def is_space_def small_config_def
      count_replicas_def is_replica_entry_def TBFT_MAX_FAULTY_def)

lemma sample_parsed:
  "parse_config small_config True None sample_file = Some (sample_config\<lparr> bc_local_node_id := - 1 \<rparr>)"
  by (simp add: sample_file_def parse_shown_config [OF sample_config_ok'] detect_local_def)

lemma sample_boot:
  "\<exists>b. Byz_init_replica small_config sample_device sample_file None 0 [1, 2] cb nb nl rb (byz_start small_config) = (0, b)"
  using sample_parsed
  by (simp add: Byz_init_replica_def sample_device_def sample_config_def sample_entry_def tbft_replica_init_def replica_fields_def
      all_resources_def tbft_node_init_def tbft_itimer_init_def small_state_init upt_rec setup_principals_def setup_one_def
      setup_local_def load_key_file_def tbft_principal_load_pub_key_def import_rsa_key_def toy_psa_def set_periods_def
      tbft_principal_init_def nd_set_principal_def Let_def)


section \<open>The certificate behind an execution\<close>

text \<open>A pre-prepare is certified at \<open>n\<close>: it is the stored one, and the commit certificate of \<open>n\<close>
  records a quorum of votes for its digest.\<close>

definition certified :: "config \<Rightarrow> agreement_region \<Rightarrow> int \<Rightarrow> bytes \<Rightarrow> bool" where
  "certified c ar n pp \<longleftrightarrow> fst (ar_load_pp c ar n) = Some pp \<and>
     (\<exists>V. cert_holds c (commit_kind c) (sl_commit (ar_slice ar n)) V \<and>
          ar_commit_threshold ar \<le> int (card (voters V (pp_digest pp))))"

lemma committed_certified:
  assumes inv: "ar_inv c (r_ar r)" and com: "ar_committed c (r_ar r) n"
    and pp: "fst (ar_load_pp c (r_ar r) n) = Some pp" and match: "commit_matches r n pp"
  shows "certified c (r_ar r) n pp"
proof -
  let ?ct = "sl_commit (ar_slice (r_ar r) n)"
  from ar_slice_in [OF inv, of n] obtain V where V: "cert_holds c (commit_kind c) ?ct V"
    and t: "cert_complete_threshold ?ct = ar_commit_threshold (r_ar r)"
    by (auto simp: ar_slice_ok_def slice_ok_def)
  from com obtain cm where cm: "cert_cvalue ?ct = Some cm"
    by (auto simp: ar_committed_def cert_is_complete_def split: if_splits)
  with match have "pp_digest pp = cm_digest cm" by (simp add: commit_matches_def)
  with cm have "cert_winner (commit_kind c) ?ct = Some (pp_digest pp)"
    by (simp add: cert_winner_def commit_kind_def cm_digest_def)
  from cert_winner_voters [OF V this] V pp t show ?thesis by (auto simp: certified_def)
qed

lemma load_pp_range: "fst (ar_load_pp c ar n) = Some pp \<Longrightarrow> ar_in_range c ar n"
  by (auto simp: ar_load_pp_def split: if_splits)

lemma fresh_no_pp: "prepared_cert_pp (sl_prepared (ar_fresh c ar)) = None"
  by (simp add: ar_fresh_def slice_init_def prepared_cert_init_def prepared_cert_pp_def)

lemma certified_truncate:
  assumes "ar_inv c ar" "certified c (ar_truncate c ar h) n pp"
  shows "certified c ar n pp"
proof -
  have range: "ar_in_range c (ar_truncate c ar h) n"
    using assms(2) load_pp_range by (auto simp: certified_def)
  note slice = ar_slice_truncate [OF assms(1) range]
  have "ar_in_range c ar n"
    using assms(2) slice fresh_no_pp [of c ar] by (auto simp: certified_def ar_load_pp_def split: if_splits)
  then show ?thesis using assms(2) slice range by (simp add: certified_def ar_load_pp_def)
qed

text \<open>The calls of the execution callback in a trace; most operations make none.\<close>

definition execs :: "replica \<Rightarrow> (int \<times> bytes \<times> int) list" where
  "execs r = concat (map (\<lambda>e. case e of Exec_cb n req rc \<Rightarrow> [(n, req, rc)] | _ \<Rightarrow> []) (r_trace r))"

named_theorems execs_simps

lemma execs_upd [execs_simps]:
  "execs (r\<lparr> r_out_buf := b \<rparr>) = execs r" "execs (r\<lparr> r_state := st \<rparr>) = execs r" "execs (r\<lparr> r_cr := cr \<rparr>) = execs r"
  "execs (r\<lparr> r_ar := ar \<rparr>) = execs r" "execs (r\<lparr> r_vtimer := t \<rparr>) = execs r"
  "execs (r\<lparr> r_last_executed := n \<rparr>) = execs r" "execs (r\<lparr> r_last_executed_rid := x \<rparr>) = execs r"
  "execs (r\<lparr> r_last_fetch_throttle_us := n \<rparr>) = execs r" "execs (r\<lparr> r_last_prepared := n \<rparr>) = execs r"
  "execs (r\<lparr> r_last_stable := n \<rparr>) = execs r" "execs (r\<lparr> r_quorum_last_stable := n \<rparr>) = execs r"
  "execs (r\<lparr> r_pending_fill_seqno := n \<rparr>) = execs r" "execs (r\<lparr> r_fill_started_at_us := n \<rparr>) = execs r"
  by (simp_all add: execs_def)

lemma execs_emit [execs_simps]:
  "execs (emit (Sent b d) r) = execs r" "execs (emit (Reply_cb b d) r) = execs r"
  "execs (emit (Exec_cb n req rc) r) = execs r @ [(n, req, rc)]"
  by (simp_all add: execs_def emit_def)

lemma execs_send [execs_simps]: "execs (send_to b d r) = execs r" "execs (send_out n d r) = execs r"
  by (simp_all add: send_out_def send_to_def execs_simps)

lemma execs_fetch_loop [execs_simps]: "execs (fetch_send_loop r) = execs r"
proof (induction r rule: fetch_send_loop.induct)
  case (1 r)
  then show ?case
    by (simp add: fetch_send_loop.simps [of r] execs_simps send_fetch_def Let_def split: prod.split option.split)
qed

lemma execs_stability [execs_simps]:
  "execs (tbft_replica_start_fetch c E n q r) = execs r" "execs (rearm_vtimer E us r) = execs r"
  "execs (mark_stable_mismatch c E n r) = execs r" "execs (mark_stable_install c E n v r) = execs r"
  by (simp_all add: tbft_replica_start_fetch_def rearm_vtimer_def start_vtimer_def stop_vtimer_def
      mark_stable_mismatch_def mark_stable_install_def Let_def execs_simps)

lemma execs_mark_stable [execs_simps]: "execs (tbft_replica_mark_stable c E n r) = execs r"
  by (simp add: tbft_replica_mark_stable_def execs_simps split: option.split)

lemma execs_exec_parts [execs_simps]:
  "execs (exec_reply c E n req l r) = execs r" "execs (fill_wanted E n r) = execs r"
  "execs (exec_checkpoint c E n r) = execs r" "execs (exec_finish c E n pp r) = execs r"
  by (simp_all add: exec_reply_def fill_wanted_def exec_checkpoint_def exec_finish_def Let_def execs_simps
      split: prod.split)

lemma execs_exec_request:
  "execs (snd (exec_request c E n pp r)) = execs r \<or>
   (\<exists>rc. execs (snd (exec_request c E n pp r)) = execs r @ [(n, pp_request pp, rc)])"
  by (auto simp: exec_request_def Let_def execs_simps split: option.split prod.split)

text \<open>What one round does to the agreement region.\<close>

lemma ar_install: "r_ar (mark_stable_install c E n v r) = ar_truncate c (r_ar r) (n + 1)"
  by (simp add: mark_stable_install_def Let_def rearm_vtimer_def start_vtimer_def stop_vtimer_def)

lemma ar_mismatch: "r_ar (mark_stable_mismatch c E n r) = r_ar r"
  by (simp add: mark_stable_mismatch_def io_only_fields [OF io_only_start_fetch])

lemma mark_stable_cases:
  obtains "tbft_replica_mark_stable c E n r = r" | "tbft_replica_mark_stable c E n r = mark_stable_mismatch c E n r"
  | v where "r_last_stable r < n" "tbft_replica_mark_stable c E n r = mark_stable_install c E n v r"
proof (cases "n \<le> r_last_stable r")
  case False
  then show thesis
  proof (cases "cr_winning_digest c (r_cr r) n")
    case None
    then show thesis using False that(3) [of False] by (simp add: tbft_replica_mark_stable_def)
  next
    case (Some d)
    then show thesis using False that(2) that(3) [of True]
      by (cases "tbft_digest_equal d (tbft_state_root_digest (r_state r))") (simp_all add: tbft_replica_mark_stable_def)
  qed
qed (simp add: that(1) tbft_replica_mark_stable_def)

lemma ar_mark_stable:
  "r_ar (tbft_replica_mark_stable c E n r) = r_ar r \<or> r_ar (tbft_replica_mark_stable c E n r) = ar_truncate c (r_ar r) (n + 1)"
  by (rule mark_stable_cases [of c E n r]) (simp_all add: ar_install ar_mismatch)

lemma ar_exec_checkpoint:
  "r_ar (exec_checkpoint c E n r) = r_ar r \<or> r_ar (exec_checkpoint c E n r) = ar_truncate c (r_ar r) (n + 1)"
proof -
  have send: "r_ar (send_out sz d r') = r_ar r'" for sz d r'
    by (rule io_only_fields [OF io_only_send_out [OF io_only_refl]])
  have "r_ar (tbft_replica_mark_stable c E n r') = r_ar r \<or> r_ar (tbft_replica_mark_stable c E n r') = ar_truncate c (r_ar r) (n + 1)"
    if "r_ar r' = r_ar r" for r' using ar_mark_stable [of c E n r'] that by simp
  then show ?thesis by (simp add: exec_checkpoint_def Let_def send split: prod.split)
qed

lemma ar_exec_one:
  obtains "r_ar (snd (exec_one c E n r)) = r_ar r" | "r_ar (snd (exec_one c E n r)) = ar_truncate c (r_ar r) (n + 1)"
proof -
  have req: "r_ar (snd (exec_request c E n pp r)) = r_ar r" for pp
    by (rule io_only_fields [OF io_only_exec_request])
  have fin: "r_ar (exec_finish c E n pp r') = r_ar r' \<or> r_ar (exec_finish c E n pp r') = ar_truncate c (r_ar r') (n + 1)" for pp r'
  proof -
    obtain x where x: "exec_finish c E n pp r' = (if n smod int (TBFT_CHECKPOINT_INTERVAL c) = 0 then exec_checkpoint c E n x else x)"
      "r_ar x = r_ar r'" by (auto simp: exec_finish_def Let_def)
    then show ?thesis using ar_exec_checkpoint [of c E n x] by simp
  qed
  have "r_ar (fill_wanted E n r) = r_ar r" by (simp add: fill_wanted_def)
  moreover have "r_ar (snd (exec_one c E n r)) = r_ar r \<or> r_ar (snd (exec_one c E n r)) = ar_truncate c (r_ar r) (n + 1)"
  proof (cases "exec_one c E n r")
    case (Pair go r')
    then show ?thesis using req fin calculation
      by (auto simp: exec_one_def split: if_splits option.splits prod.splits) (metis snd_conv)+
  qed
  ultimately show thesis using that by blast
qed

lemma exec_one_execs:
  "execs (snd (exec_one c E n r)) = execs r \<or>
   (\<exists>rc pp. execs (snd (exec_one c E n r)) = execs r @ [(n, pp_request pp, rc)] \<and>
      ar_committed c (r_ar r) n \<and> fst (ar_load_pp c (r_ar r) n) = Some pp \<and> commit_matches r n pp)"
proof (cases "ar_committed c (r_ar r) n")
  case com: True
  show ?thesis
  proof (cases "ar_load_pp c (r_ar r) n")
    case (Pair q l)
    show ?thesis
    proof (cases q)
      case (Some pp)
      show ?thesis
      proof (cases "commit_matches r n pp")
        case True
        then show ?thesis using execs_exec_request [of c E n pp r] com Pair Some
          by (auto simp: exec_one_def execs_simps split: prod.split)
      qed (simp add: exec_one_def com Pair Some execs_simps)
    qed (simp add: exec_one_def com Pair execs_simps)
  qed
qed (simp add: exec_one_def execs_simps)

definition backed :: "config \<Rightarrow> agreement_region \<Rightarrow> int \<times> bytes \<times> int \<Rightarrow> bool" where
  "backed c ar e \<longleftrightarrow> (\<exists>pp. certified c ar (fst e) pp \<and> fst (snd e) = pp_request pp)"

lemma exec_loop_backed:
  assumes "ar_inv c (r_ar r)"
  shows "\<exists>ys. execs (exec_loop c E n r) = execs r @ ys \<and> (\<forall>e \<in> set ys. backed c (r_ar r) e)"
  using assms
proof (induction c E n r rule: exec_loop.induct)
  case (1 c E n r)
  obtain go r' where one: "exec_one c E n r = (go, r')" by fastforce
  have first: "\<exists>ys. execs r' = execs r @ ys \<and> (\<forall>e \<in> set ys. backed c (r_ar r) e)"
    using exec_one_execs [of c E n r] committed_certified [OF "1.prems"] one by (fastforce simp: backed_def)
  show ?case
  proof (cases "r_last_prepared r < n \<or> \<not> go")
    case True
    then show ?thesis using first one by (auto simp: exec_loop.simps [of c E n r])
  next
    case False
    then have step: "exec_loop c E n r = exec_loop c E (n + 1) r'" using one by (simp add: exec_loop.simps [of c E n r])
    have ar: "r_ar r' = r_ar r \<or> r_ar r' = ar_truncate c (r_ar r) (n + 1)"
      by (rule ar_exec_one [of c E n r]) (simp_all add: one)
    then have inv: "ar_inv c (r_ar r')" using "1.prems" by (auto intro: ar_truncate_inv)
    have old: "backed c (r_ar r) e" if "backed c (r_ar r') e" for e
    proof -
      from that obtain pp where "certified c (r_ar r') (fst e) pp" "fst (snd e) = pp_request pp" by (auto simp: backed_def)
      moreover from this(1) ar have "certified c (r_ar r) (fst e) pp" using certified_truncate [OF "1.prems"] by metis
      ultimately show ?thesis by (auto simp: backed_def)
    qed
    from "1.IH" [OF _ one [symmetric]] False inv
    obtain ys where "execs (exec_loop c E (n + 1) r') = execs r' @ ys" "\<forall>e \<in> set ys. backed c (r_ar r') e" by auto
    with first step old show ?thesis by fastforce
  qed
qed

text \<open>Nothing is executed without a certificate.  Every request that \<open>execute_committed\<close> hands to
  the application, at any sequence number, is the request of the pre-prepare stored for it, and the
  commit certificate stored for it records votes of a quorum (the commit threshold of the region,
  \<open>2f + 1\<close>) of distinct replicas for the digest of that pre-prepare.\<close>

theorem executions_certified:
  assumes "ar_inv c (r_ar r)"
  shows "\<exists>ys. execs (tbft_replica_execute_committed c E r) = execs r @ ys \<and>
    (\<forall>(n, req, rc) \<in> set ys. \<exists>pp V. fst (ar_load_pp c (r_ar r) n) = Some pp \<and> req = pp_request pp \<and>
       cert_holds c (commit_kind c) (sl_commit (ar_slice (r_ar r) n)) V \<and>
       ar_commit_threshold (r_ar r) \<le> int (card (voters V (pp_digest pp))))"
proof -
  from exec_loop_backed [OF assms, of E "r_last_executed r + 1"] obtain ys where
    ys: "execs (exec_loop c E (r_last_executed r + 1) r) = execs r @ ys" "\<forall>e \<in> set ys. backed c (r_ar r) e" by blast
  have "execs (tbft_replica_execute_committed c E r) = execs r @ ys"
    by (simp add: tbft_replica_execute_committed_def Let_def execs_simps ys(1))
  moreover have "\<exists>pp V. fst (ar_load_pp c (r_ar r) n) = Some pp \<and> req = pp_request pp \<and>
       cert_holds c (commit_kind c) (sl_commit (ar_slice (r_ar r) n)) V \<and>
       ar_commit_threshold (r_ar r) \<le> int (card (voters V (pp_digest pp)))" if "(n, req, rc) \<in> set ys" for n req rc
    using bspec [OF ys(2) that] by (auto simp: backed_def certified_def)
  ultimately show ?thesis by blast
qed

section \<open>Execution catches up\<close>

definition cb_accepts :: "replica \<Rightarrow> bool" where
  "cb_accepts r \<longleftrightarrow> (case r_exec_cb r of None \<Rightarrow> True | Some cb \<Rightarrow> \<forall>req ndet i ro st. fst (cb req ndet i ro st) = 0)"

lemma exec_request_accepts:
  assumes "cb_accepts r"
  shows "fst (exec_request c E n pp r)"
proof (cases "r_exec_cb r")
  case (Some cb)
  then have "fst (cb req ndet i ro st) = 0" for req ndet i ro st using assms by (simp add: cb_accepts_def)
  then show ?thesis using Some by (auto simp: exec_request_def Let_def split: prod.split) (metis fst_conv)
qed (simp add: exec_request_def)

text \<open>The sequence number \<open>n\<close> can be executed: committed, stored, and matching.\<close>

definition executable :: "config \<Rightarrow> agreement_region \<Rightarrow> int \<Rightarrow> bool" where
  "executable c ar n \<longleftrightarrow> ar_committed c ar n \<and> (\<exists>pp. fst (ar_load_pp c ar n) = Some pp \<and>
     (case cert_cvalue (sl_commit (ar_slice ar n)) of None \<Rightarrow> True | Some cm \<Rightarrow> tbft_digest_equal (pp_digest pp) (cm_digest cm)))"

lemma executable_truncate:
  assumes inv: "ar_inv c ar" and ex: "executable c ar m" and "h \<le> m"
  shows "executable c (ar_truncate c ar h) m"
proof -
  have range: "ar_in_range c ar m" using ex by (auto simp: executable_def ar_committed_def split: if_splits)
  then have range': "ar_in_range c (ar_truncate c ar h) m" using assms(3) by (auto simp: ar_in_range_def)
  with ex range ar_slice_truncate [OF inv range'] show ?thesis
    by (simp add: executable_def ar_committed_def ar_load_pp_def)
qed

lemma exec_cb_mark_stable: "r_exec_cb (tbft_replica_mark_stable c E n r) = r_exec_cb r"
proof (rule mark_stable_cases [of c E n r])
  fix v assume "tbft_replica_mark_stable c E n r = mark_stable_install c E n v r"
  then show ?thesis by (simp add: mark_stable_install_def Let_def rearm_vtimer_def start_vtimer_def stop_vtimer_def)
qed (simp_all add: mark_stable_mismatch_def io_only_fields [OF io_only_start_fetch])

lemma exec_cb_finish: "r_exec_cb (exec_finish c E n pp r) = r_exec_cb r"
proof -
  have send: "r_exec_cb (send_out sz d r') = r_exec_cb r'" for sz d r'
    by (rule io_only_fields [OF io_only_send_out [OF io_only_refl]])
  show ?thesis by (simp add: exec_finish_def exec_checkpoint_def Let_def send exec_cb_mark_stable split: prod.split)
qed

lemma exec_one_accepts:
  assumes "executable c (r_ar r) n" "cb_accepts r"
  shows "fst (exec_one c E n r) \<and> cb_accepts (snd (exec_one c E n r))"
proof -
  from assms(1) obtain pp l where ex: "ar_committed c (r_ar r) n" "ar_load_pp c (r_ar r) n = (Some pp, l)"
    "commit_matches r n pp" by (cases "ar_load_pp c (r_ar r) n") (auto simp: executable_def commit_matches_def)
  obtain r1 where r1: "exec_request c E n pp r = (True, r1)"
    using exec_request_accepts [OF assms(2), of c E n pp] by (cases "exec_request c E n pp r") simp
  then have "r_exec_cb r1 = r_exec_cb r" using io_only_fields(18) [OF io_only_exec_request, of c E n pp r] by simp
  with ex r1 assms(2) show ?thesis by (simp add: exec_one_def cb_accepts_def exec_cb_finish)
qed

lemma exec_loop_catches_up:
  assumes "ar_inv c (r_ar r)" "cb_accepts r" "n = r_last_executed r + 1" "n \<le> r_last_prepared r + 1"
    "\<forall>m. n \<le> m \<and> m \<le> r_last_prepared r \<longrightarrow> executable c (r_ar r) m"
  shows "r_last_executed (exec_loop c E n r) = r_last_prepared r"
  using assms
proof (induction c E n r rule: exec_loop.induct)
  case (1 c E n r)
  show ?case
  proof (cases "r_last_prepared r < n")
    case True
    then have "exec_loop c E n r = r" by (simp add: exec_loop.simps [of c E n r])
    then show ?thesis using "1.prems"(3,4) True by simp
  next
    case False
    then have ex: "executable c (r_ar r) n" using "1.prems"(5) by simp
    obtain r' where one: "exec_one c E n r = (True, r')" and cb: "cb_accepts r'"
      using exec_one_accepts [OF ex "1.prems"(2), of E] by (cases "exec_one c E n r") auto
    have lp: "r_last_prepared r' = r_last_prepared r" using exec_one_prepared [OF one] False by simp
    have le: "r_last_executed r' = n" using adv_exec_one [OF "1.prems"(3), of c E] one by simp
    have ar: "r_ar r' = r_ar r \<or> r_ar r' = ar_truncate c (r_ar r) (n + 1)"
      by (rule ar_exec_one [of c E n r]) (simp_all add: one)
    then have inv: "ar_inv c (r_ar r')" using "1.prems"(1) by (auto intro: ar_truncate_inv)
    have "executable c (r_ar r') m" if "n + 1 \<le> m" "m \<le> r_last_prepared r" for m
      using ar executable_truncate [OF "1.prems"(1), of m "n + 1"] "1.prems"(5) that by auto
    then have "r_last_executed (exec_loop c E (n + 1) r') = r_last_prepared r'"
      using "1.IH" [OF False one [symmetric] _ inv cb] le lp False by simp
    then show ?thesis using False one lp by (simp add: exec_loop.simps [of c E n r])
  qed
qed

text \<open>C13: execution catches up.  When every sequence number above the execution marker up to
  \<open>last_prepared\<close> is committed with a stored pre-prepare that the commits match, and the application
  accepts requests, one call of \<open>execute_committed\<close> executes all of them: the marker ends at
  \<open>last_prepared\<close>, also when checkpoints on the way truncate the region.\<close>

theorem execution_catches_up:
  assumes "ar_inv c (r_ar r)" "cb_accepts r" "r_last_executed r \<le> r_last_prepared r"
    and "\<forall>m. r_last_executed r < m \<and> m \<le> r_last_prepared r \<longrightarrow> executable c (r_ar r) m"
  shows "r_last_executed (tbft_replica_execute_committed c E r) = r_last_prepared r"
proof -
  have "r_last_executed (exec_loop c E (r_last_executed r + 1) r) = r_last_prepared r"
    by (rule exec_loop_catches_up) (use assms in auto)
  then show ?thesis by (simp add: tbft_replica_execute_committed_def Let_def)
qed

section \<open>A replica with a committed request\<close>

text \<open>For the witnesses: an initialised replica in which slot 1 holds a pre-prepare with a request of 68
  bytes and commits of the replicas 0, 1 and 2, with an application that accepts everything.\<close>

definition request_pp :: bytes where
  "request_pp = wr_i32 64 68 (put 32 tbft_digest_zero (replicate 140 0))"

definition committed_slice :: agreement_slice where
  "committed_slice = (slice_init default_config 2 3)\<lparr>
     sl_prepared := snd (prepared_cert_add_pp default_config 0 (prepared_cert_init default_config 2) request_pp 140),
     sl_commit := cert_adds default_config (commit_kind default_config) (cert_init default_config (commit_kind default_config) 3)
       (map (\<lambda>i. (sample_commit tbft_digest_zero, 72, i)) [0, 1, 2]) \<rparr>"

definition committed_ar :: agreement_region where
  "committed_ar = ar_upd (ar_init default_config 2 3) 1 (\<lambda>_. committed_slice)"

definition agreeable :: exec_cb where
  "agreeable req ndet i ro st = (0, [], 0, st)"

lemma request_pp_fields: "length request_pp = 140" "pp_digest request_pp = tbft_digest_zero" "pp_rset_size request_pp = 68"
  by (simp_all add: request_pp_def pp_digest_def pp_rset_size_def tbft_digest_zero_def wire_simps) (simp add: i32_def)

lemma request_pp_stored:
  "prepared_cert_pp (sl_prepared committed_slice) = Some (put 0 request_pp (replicate 1440 0))"
  "prepared_inv default_config (sl_prepared committed_slice)"
  "cert_complete_threshold (pc_pc (sl_prepared committed_slice)) = 2"
proof -
  have "snd (prepared_cert_add_pp default_config 0 (prepared_cert_init default_config 2) request_pp 140) =
      prepared_cert_store_pp 0 (prepared_cert_init default_config 2) request_pp 140"
    by (simp add: prepared_cert_add_pp_def prepared_cert_init_def TBFT_PP_MAX_SIZE_def)
  then have eq: "sl_prepared committed_slice = prepared_cert_store_pp 0 (prepared_cert_init default_config 2) request_pp 140"
    by (simp add: committed_slice_def)
  show "prepared_cert_pp (sl_prepared committed_slice) = Some (put 0 request_pp (replicate 1440 0))"
    by (simp add: eq prepared_cert_pp_def prepared_cert_store_pp_def prepared_cert_init_def request_pp_fields TBFT_PP_MAX_SIZE_def)
  show "prepared_inv default_config (sl_prepared committed_slice)"
    using store_pp_holds [OF prepared_init_holds, of 140 default_config request_pp 0 2]
    by (auto simp: eq request_pp_fields TBFT_PP_MAX_SIZE_def dest: prepared_holds_inv)
  show "cert_complete_threshold (pc_pc (sl_prepared committed_slice)) = 2"
    by (simp add: eq prepared_cert_store_pp_def prepared_cert_init_def cert_init_def)
qed

lemma committed_cert:
  "\<exists>V. cert_holds default_config (commit_kind default_config) (sl_commit committed_slice) V"
  "cert_complete_threshold (sl_commit committed_slice) = 3"
  "\<exists>v. cert_cvalue (sl_commit committed_slice) = Some v \<and> cm_digest v = tbft_digest_zero"
proof -
  let ?k = "commit_kind default_config"
  let ?xs = "map (\<lambda>i. (sample_commit tbft_digest_zero, 72 :: int, i)) [0, 1, 2]"
  have len: "length tbft_digest_zero = 32" by (simp add: tbft_digest_zero_def)
  have q: "int (card {0, 1, 2 :: int}) = 3" by simp
  have sl: "sl_commit committed_slice = cert_adds default_config ?k (cert_init default_config ?k 3) ?xs"
    by (simp add: committed_slice_def del: cert_adds_simps)
  have ok: "\<forall>x \<in> set ?xs. cert_input_ok x" by (simp add: cert_input_ok_def sample_commit_length len)
  show "\<exists>V. cert_holds default_config ?k (sl_commit committed_slice) V"
    unfolding sl using cert_adds_log [OF cert_init_holds [of default_config ?k 3] _ ok] kinds_ok by blast
  show "cert_complete_threshold (sl_commit committed_slice) = 3"
    unfolding sl cert_adds_threshold by (simp add: cert_init_def)
  have "\<exists>v. cert_cvalue (cert_adds default_config ?k (cert_init default_config ?k 3) ?xs) = Some v \<and>
      length v = ck_slot_size ?k \<and> hdr_tag v = tag_val (ck_tag ?k) \<and> field (ck_digest_offset ?k) 32 v = tbft_digest_zero"
    by (rule cert_collected [where F = "{}" and Q = "{0, 1, 2}"])
      (auto simp: cert_input_ok_def sample_commit_claim sample_commit_length len TBFT_MAX_FAULTY_def)
  then show "\<exists>v. cert_cvalue (sl_commit committed_slice) = Some v \<and> cm_digest v = tbft_digest_zero"
    unfolding sl by (auto simp: commit_kind_def cm_digest_def)
qed

lemma committed_ar_facts:
  "ar_inv default_config committed_ar"
  "ar_slice committed_ar 1 = committed_slice"
  "ar_load_pp default_config committed_ar 1 = (Some (put 0 request_pp (replicate 1440 0)), pc_pp_len (sl_prepared committed_slice))"
  "executable default_config committed_ar 1"
proof -
  let ?ar = "ar_init default_config 2 3"
  have inv: "ar_inv default_config ?ar" by (rule ar_init_inv) (simp_all add: default_config_ok INT32_MAX_def)
  have ok: "ar_slice_ok default_config ?ar committed_slice"
    using committed_cert(1,2) request_pp_stored(2,3) by (simp add: ar_slice_ok_def slice_ok_def ar_init_def)
  show "ar_inv default_config committed_ar" unfolding committed_ar_def by (rule ar_upd_inv [OF inv ok])
  show sl: "ar_slice committed_ar 1 = committed_slice"
    using ar_slot_less [OF inv, of 1] inv
    by (simp add: committed_ar_def ar_upd_def ar_slice_def ar_slot_def ar_inv_def)
  have range: "ar_in_range default_config committed_ar 1"
    by (simp add: ar_in_range_def committed_ar_def ar_upd_def ar_init_def)
  show load: "ar_load_pp default_config committed_ar 1 =
      (Some (put 0 request_pp (replicate 1440 0)), pc_pp_len (sl_prepared committed_slice))"
    using range by (simp add: ar_load_pp_def sl request_pp_stored)
  have "pp_digest (put 0 request_pp (replicate 1440 0)) = tbft_digest_zero"
    using field_put_prefix [of 32 32 140 request_pp "replicate 1440 0"] request_pp_fields(1,2) by (simp add: pp_digest_def)
  with committed_cert(3) range load show "executable default_config committed_ar 1"
    by (auto simp: executable_def ar_committed_def cert_is_complete_def sl)
qed

definition ready_replica :: "replica \<Rightarrow> replica" where
  "ready_replica r = r\<lparr> r_ar := committed_ar, r_last_prepared := 1, r_last_executed := 0, r_exec_cb := Some agreeable \<rparr>"

lemma ready_accepts: "cb_accepts (ready_replica r)"
  by (simp add: cb_accepts_def ready_replica_def agreeable_def)

lemma execution_catches_up_witness:
  "\<forall>r. r_last_executed (tbft_replica_execute_committed default_config quiet_env (ready_replica r)) = 1"
proof
  fix r
  have one: "executable default_config committed_ar m" if "0 < m" "m \<le> 1" for m :: int
    using committed_ar_facts(4) that by (metis int_one_le_iff_zero_less order_antisym)
  have "r_last_executed (tbft_replica_execute_committed default_config quiet_env (ready_replica r)) =
      r_last_prepared (ready_replica r)"
    by (rule execution_catches_up [OF _ ready_accepts])
      (use committed_ar_facts(1,4) one in \<open>simp_all add: ready_replica_def\<close>)
  then show "r_last_executed (tbft_replica_execute_committed default_config quiet_env (ready_replica r)) = 1"
    by (simp add: ready_replica_def)
qed

lemma executions_certified_witness:
  "\<forall>r. \<exists>ys. execs (tbft_replica_execute_committed default_config quiet_env (ready_replica r)) = execs (ready_replica r) @ ys \<and>
    (\<forall>(n, req, rc) \<in> set ys. \<exists>pp V. fst (ar_load_pp default_config committed_ar n) = Some pp \<and> req = pp_request pp \<and>
       cert_holds default_config (commit_kind default_config) (sl_commit (ar_slice committed_ar n)) V \<and>
       3 \<le> int (card (voters V (pp_digest pp))))"
proof
  fix r
  have ar: "r_ar (ready_replica r) = committed_ar" by (simp add: ready_replica_def)
  moreover have "ar_commit_threshold committed_ar = 3" by (simp add: committed_ar_def ar_upd_def ar_init_def)
  ultimately show "\<exists>ys. execs (tbft_replica_execute_committed default_config quiet_env (ready_replica r)) = execs (ready_replica r) @ ys \<and>
    (\<forall>(n, req, rc) \<in> set ys. \<exists>pp V. fst (ar_load_pp default_config committed_ar n) = Some pp \<and> req = pp_request pp \<and>
       cert_holds default_config (commit_kind default_config) (sl_commit (ar_slice committed_ar n)) V \<and>
       3 \<le> int (card (voters V (pp_digest pp))))"
    using executions_certified [of default_config "ready_replica r" quiet_env] committed_ar_facts(1) by simp
qed

end
