(* ===== verification/Replica_WF.thy ===== *)
theory Replica_WF
  imports Replica_Order
begin

text \<open>
  Well-formedness of the replica: the representation invariants of the two regions, of the request
  queues and of the build buffer hold in every state the event loop reaches.  With it, what is proved
  of the regions holds of the replica's regions at every execution.
\<close>

section \<open>The invariant\<close>

text \<open>The build fits its own votes into a message, and messages are far below the integer ranges.\<close>

definition cfg_fits :: "config \<Rightarrow> bool" where
  "cfg_fits c \<longleftrightarrow> cfg_ok c \<and> int (TBFT_WINDOW_SIZE c) \<le> INT32_MAX \<and> TBFT_MAX_MESSAGE_SIZE c \<le> 65536 \<and>
     sz_prepare + TBFT_AUTH_SIZE c + 8 \<le> TBFT_MAX_MESSAGE_SIZE c \<and> 0 < TBFT_RQUEUE_MAX c"

definition rq_fits :: "config \<Rightarrow> rqueue \<Rightarrow> bool" where
  "rq_fits c q \<longleftrightarrow> rq_good c q \<and> list_all (\<lambda>e. 0 \<le> rqe_len e \<and> rqe_len e \<le> int (TBFT_MAX_MESSAGE_SIZE c)) (rq_entries q)"

text \<open>The callback for the choices returns a length, not an error.\<close>

definition ndet_ok :: "ndet_cb option \<Rightarrow> bool" where
  "ndet_ok cb \<longleftrightarrow> (case cb of None \<Rightarrow> True | Some f \<Rightarrow> \<forall>n b m. 0 \<le> snd (f n b m))"

text \<open>What is claimed of a run, with its parameters: the hash function, the senders, sequence
  numbers and digests of the Commit messages received so far, the identifier of the replica, and the sizes
  of a commit quorum and of the group.  A commit certificate records only the replica's own vote and votes received; the
  digest of a stored pre-prepare is the hash of its request; an executed request is claimed by a
  quorum.\<close>

record claims =
  k_hash :: "bytes \<Rightarrow> bytes option"
  k_heard :: "(int \<times> int \<times> digest) set"
  k_id :: int
  k_quorum :: int
  k_group :: int

definition vote_known :: "claims \<Rightarrow> int \<Rightarrow> digest \<Rightarrow> bool" where
  "vote_known K i d \<longleftrightarrow> i = k_id K \<or> (\<exists>n. (i, n, d) \<in> k_heard K)"

text \<open>Every vote that a commit certificate records satisfies \<open>P\<close>.\<close>

definition votes_ok :: "config \<Rightarrow> (int \<Rightarrow> digest \<Rightarrow> bool) \<Rightarrow> cert \<Rightarrow> bool" where
  "votes_ok c P ct \<longleftrightarrow> (\<exists>V. cert_holds c (commit_kind c) ct V \<and> (\<forall>i d. V i = Some d \<longrightarrow> P i d))"

definition vouched :: "config \<Rightarrow> claims \<Rightarrow> cert \<Rightarrow> bool" where
  "vouched c K = votes_ok c (vote_known K)"

definition pp_sound :: "claims \<Rightarrow> bytes \<Rightarrow> bool" where
  "pp_sound K pp \<longleftrightarrow> pp_digest pp = tbft_msg_digest (k_hash K) (pp_request pp)"

definition slice_good :: "config \<Rightarrow> claims \<Rightarrow> agreement_slice \<Rightarrow> bool" where
  "slice_good c K sl \<longleftrightarrow> vouched c K (sl_commit sl) \<and>
     (0 < pc_pp_len (sl_prepared sl) \<longrightarrow> pp_sound K (pc_pp_buf (sl_prepared sl)))"

definition ar_good :: "config \<Rightarrow> claims \<Rightarrow> agreement_region \<Rightarrow> bool" where
  "ar_good c K ar \<longleftrightarrow> ar_inv c ar \<and> ar_commit_threshold ar = k_quorum K \<and> (\<forall>sl \<in> set (ar_slices ar). slice_good c K sl)"

definition quorum_for :: "claims \<Rightarrow> bytes \<Rightarrow> bool" where
  "quorum_for K req \<longleftrightarrow> (\<exists>Q. k_quorum K \<le> int (card Q) \<and> (\<forall>i \<in> Q. vote_known K i (tbft_msg_digest (k_hash K) req)))"

definition wf :: "config \<Rightarrow> claims \<Rightarrow> replica \<Rightarrow> bool" where
  "wf c K r \<longleftrightarrow> cfg_fits c \<and> hash_len_ok (k_hash K) \<and> ar_good c K (r_ar r) \<and> cr_inv c (r_cr r) \<and>
     rq_fits c (r_rqueue r) \<and> rq_fits c (r_ro_rqueue r) \<and>
     TBFT_MAX_MESSAGE_SIZE c \<le> length (r_out_buf r) \<and> 0 \<le> r_last_executed r \<and> ndet_ok (r_comp_ndet_cb r) \<and>
     r_id r = k_id K \<and> list_all (\<lambda>e. quorum_for K (fst (snd e))) (execs r)"

named_theorems wf_simps

lemma wf_upd [wf_simps]:
  "wf c K (r\<lparr> r_state := st \<rparr>) = wf c K r"
  "wf c K (r\<lparr> r_vi := vi \<rparr>) = wf c K r" "wf c K (r\<lparr> r_sr := sr \<rparr>) = wf c K r" "wf c K (r\<lparr> r_vtimer := t \<rparr>) = wf c K r"
  "wf c K (r\<lparr> r_stimer := t \<rparr>) = wf c K r" "wf c K (r\<lparr> r_seqno := n \<rparr>) = wf c K r" "wf c K (r\<lparr> r_last_prepared := n \<rparr>) = wf c K r"
  "wf c K (r\<lparr> r_last_stable := n \<rparr>) = wf c K r"
  "wf c K (r\<lparr> r_quorum_last_stable := n \<rparr>) = wf c K r" "wf c K (r\<lparr> r_last_fetch_throttle_us := n \<rparr>) = wf c K r"
  "wf c K (r\<lparr> r_last_ckpt_throttle_us := n \<rparr>) = wf c K r" "wf c K (r\<lparr> r_last_catchup_completed_us := n \<rparr>) = wf c K r"
  "wf c K (r\<lparr> r_catchup_us := n \<rparr>) = wf c K r" "wf c K (r\<lparr> r_ndet_buf := b \<rparr>) = wf c K r"
  "wf c K (r\<lparr> r_pending_fill_seqno := n \<rparr>) = wf c K r" "wf c K (r\<lparr> r_fill_started_at_us := n \<rparr>) = wf c K r"
  "wf c K (r\<lparr> r_last_received_rid := x \<rparr>) = wf c K r" "wf c K (r\<lparr> r_last_executed_rid := x \<rparr>) = wf c K r"
  "wf c K (r\<lparr> r_last_forwarded_rid := x \<rparr>) = wf c K r" "wf c K (r\<lparr> r_last_assigned_cid := n \<rparr>) = wf c K r"
  "wf c K (r\<lparr> r_last_assigned_rid := w \<rparr>) = wf c K r" "wf c K (r\<lparr> r_consecutive_mac_failures := n \<rparr>) = wf c K r"
  "wf c K (r\<lparr> r_view_installed_us := n \<rparr>) = wf c K r" "wf c K (r\<lparr> r_view_start_executed := n \<rparr>) = wf c K r"
  "wf c K (r\<lparr> r_evt_vtimer := v \<rparr>) = wf c K r" "wf c K (r\<lparr> r_evt_stimer := v \<rparr>) = wf c K r"
  "wf c K (r\<lparr> r_yield_counter := n \<rparr>) = wf c K r" "wf c K (r\<lparr> r_running := v \<rparr>) = wf c K r" 
  "wf c K (emit (Sent b d) r) = wf c K r" "wf c K (emit (Reply_cb b d) r) = wf c K r"
  by (simp_all add: wf_def emit_def execs_def)

lemma wf_set [wf_simps]:
  "wf c K r \<Longrightarrow> ar_good c K ar \<Longrightarrow> wf c K (r\<lparr> r_ar := ar \<rparr>)"
  "wf c K r \<Longrightarrow> cr_inv c cr \<Longrightarrow> wf c K (r\<lparr> r_cr := cr \<rparr>)"
  "wf c K r \<Longrightarrow> rq_fits c q \<Longrightarrow> wf c K (r\<lparr> r_rqueue := q \<rparr>)"
  "wf c K r \<Longrightarrow> rq_fits c q \<Longrightarrow> wf c K (r\<lparr> r_ro_rqueue := q \<rparr>)"
  "wf c K r \<Longrightarrow> TBFT_MAX_MESSAGE_SIZE c \<le> length b \<Longrightarrow> wf c K (r\<lparr> r_out_buf := b \<rparr>)"
  "wf c K r \<Longrightarrow> 0 \<le> n \<Longrightarrow> wf c K (r\<lparr> r_last_executed := n \<rparr>)"
  "wf c K r \<Longrightarrow> nd_node_id nd = r_id r \<Longrightarrow> wf c K (r\<lparr> r_node := nd \<rparr>)"
  "wf c K r \<Longrightarrow> quorum_for K req \<Longrightarrow> wf c K (emit (Exec_cb n req rc) r)"
  by (simp_all add: wf_def execs_def emit_def)

lemma wfD:
  assumes "wf c K r"
  shows "cfg_fits c" "ar_good c K (r_ar r)" "cr_inv c (r_cr r)" "rq_fits c (r_rqueue r)" "rq_fits c (r_ro_rqueue r)"
    "TBFT_MAX_MESSAGE_SIZE c \<le> length (r_out_buf r)" "0 \<le> r_last_executed r" "ndet_ok (r_comp_ndet_cb r)"
    "r_id r = k_id K" "hash_len_ok (k_hash K)" "ar_inv c (r_ar r)" "cfg_ok c"
  using assms by (simp_all add: wf_def ar_good_def cfg_fits_def)

section \<open>The build buffer\<close>

text \<open>Writing never shortens a buffer.\<close>

lemma length_put_ge: "length b \<le> length (put off xs b)"
  by (simp add: put_def)

lemma length_wr_ge:
  "length b \<le> length (wr_i16 off v b)" "length b \<le> length (wr_i32 off v b)" "length b \<le> length (wr_i64 off v b)"
  "length b \<le> length (wr_u64 off w b)"
  by (simp_all add: wr_i16_def wr_i32_def wr_i64_def wr_u64_def length_put_ge)

lemma grow_trans [intro, wf_simps]:
  "n \<le> length b \<Longrightarrow> n \<le> length (put off xs b)" "n \<le> length b \<Longrightarrow> n \<le> length (wr_i16 off v b)"
  "n \<le> length b \<Longrightarrow> n \<le> length (wr_i32 off v b)" "n \<le> length b \<Longrightarrow> n \<le> length (wr_i64 off v b)"
  "n \<le> length b \<Longrightarrow> n \<le> length (wr_u64 off w b)"
  by (rule order_trans, assumption, rule length_put_ge length_wr_ge)+

lemma hdr_size_written:
  assumes "16 \<le> n" "n \<le> length b"
  shows "hdr_size (put n xs (wr_i32 4 v b)) = i32 v"
proof -
  have "n \<le> length (wr_i32 4 v b)" using assms(2) by (rule grow_trans)
  with assms show ?thesis by (simp add: hdr_size_def wire_simps)
qed

lemma build_vote_buf:
  assumes "cfg_fits c" "TBFT_MAX_MESSAGE_SIZE c \<le> length b"
  shows "TBFT_MAX_MESSAGE_SIZE c \<le> length (build_vote c E nd tag n d b)"
    "nat (hdr_size (build_vote c E nd tag n d b)) \<le> length (build_vote c E nd tag n d b)"
    "72 \<le> nat (hdr_size (build_vote c E nd tag n d b))"
proof -
  show len: "TBFT_MAX_MESSAGE_SIZE c \<le> length (build_vote c E nd tag n d b)"
    unfolding build_vote_def Let_def put_auth_def by (intro grow_trans assms)
  have sz: "tbft_msg_align (int (sz_prepare + TBFT_AUTH_SIZE c)) \<le> int (TBFT_MAX_MESSAGE_SIZE c)"
    "72 \<le> tbft_msg_align (int (sz_prepare + TBFT_AUTH_SIZE c))"
    using assms(1) msg_align_spec [of "int (sz_prepare + TBFT_AUTH_SIZE c)"] by (simp_all add: cfg_fits_def)
  have off: "72 \<le> length b" using assms by (simp add: cfg_fits_def)
  then have "hdr_size (build_vote c E nd tag n d b) = i32 (tbft_msg_align (int (sz_prepare + TBFT_AUTH_SIZE c)))"
    unfolding build_vote_def Let_def put_auth_def
    by (intro hdr_size_written grow_trans) simp_all
  with sz assms(1) have "hdr_size (build_vote c E nd tag n d b) \<le> int (TBFT_MAX_MESSAGE_SIZE c)"
    "72 \<le> nat (hdr_size (build_vote c E nd tag n d b))"
    by (simp_all add: i32_id cfg_fits_def INT32_MAX_def)
  with len show "nat (hdr_size (build_vote c E nd tag n d b)) \<le> length (build_vote c E nd tag n d b)"
    "72 \<le> nat (hdr_size (build_vote c E nd tag n d b))" by linarith+
qed

lemma build_checkpoint_buf:
  assumes "cfg_fits c" "TBFT_MAX_MESSAGE_SIZE c \<le> length b"
  shows "TBFT_MAX_MESSAGE_SIZE c \<le> length (build_checkpoint c E nd n d b)"
    "nat (hdr_size (build_checkpoint c E nd n d b)) \<le> length (build_checkpoint c E nd n d b)"
proof -
  show len: "TBFT_MAX_MESSAGE_SIZE c \<le> length (build_checkpoint c E nd n d b)"
    unfolding build_checkpoint_def Let_def put_auth_def by (intro grow_trans assms)
  have sz: "tbft_msg_align (int (sz_checkpoint + TBFT_AUTH_SIZE c)) \<le> int (TBFT_MAX_MESSAGE_SIZE c)"
    "0 \<le> tbft_msg_align (int (sz_checkpoint + TBFT_AUTH_SIZE c))"
    using assms(1) msg_align_spec [of "int (sz_checkpoint + TBFT_AUTH_SIZE c)"] by (simp_all add: cfg_fits_def)
  have off: "64 \<le> length b" using assms by (simp add: cfg_fits_def)
  then have "hdr_size (build_checkpoint c E nd n d b) = i32 (tbft_msg_align (int (sz_checkpoint + TBFT_AUTH_SIZE c)))"
    unfolding build_checkpoint_def Let_def put_auth_def
    by (intro hdr_size_written grow_trans) simp_all
  with sz assms(1) have "hdr_size (build_checkpoint c E nd n d b) \<le> int (TBFT_MAX_MESSAGE_SIZE c)"
    by (simp add: i32_id cfg_fits_def INT32_MAX_def)
  with len show "nat (hdr_size (build_checkpoint c E nd n d b)) \<le> length (build_checkpoint c E nd n d b)" by linarith
qed

text \<open>Writing to the build buffer and sending from it.\<close>

lemma wf_out_buf [wf_simps]: "wf c K r \<Longrightarrow> TBFT_MAX_MESSAGE_SIZE c \<le> length (put off xs (r_out_buf r))"
  by (auto simp: wf_def)

lemma wf_sends [wf_simps]:
  "wf c K (send_to b d r) = wf c K r" "wf c K (send_out n d r) = wf c K r"
  by (simp_all add: send_out_def send_to_def wf_simps)

lemma wf_timers [wf_simps]:
  "wf c K (start_vtimer E us r) = wf c K r" "wf c K (stop_vtimer r) = wf c K r" "wf c K (rearm_vtimer E us r) = wf c K r"
  by (simp_all add: start_vtimer_def stop_vtimer_def rearm_vtimer_def wf_simps)

section \<open>The regions and queues\<close>

lemma ar_good_slice: "ar_good c K ar \<Longrightarrow> slice_good c K (ar_slice ar n)"
  using ar_slot_less [of c ar n] by (auto simp: ar_good_def ar_slice_def ar_inv_def)

lemma ar_good_upd:
  assumes "ar_good c K ar" "ar_slice_ok c ar (f (ar_slice ar n))" "slice_good c K (f (ar_slice ar n))"
  shows "ar_good c K (ar_upd ar n f)"
  using assms ar_upd_inv [of c ar f n] unfolding ar_good_def
  by (auto simp: ar_upd_def dest!: set_update_subset_insert [THEN subsetD])

lemma slice_good_fresh: "slice_good c K (ar_fresh c ar)"
  using cert_init_holds [of c "commit_kind c"]
  by (force simp: slice_good_def vouched_def votes_ok_def ar_fresh_def slice_init_def prepared_cert_init_def)

lemma ar_good_truncate [wf_simps]:
  assumes "ar_good c K ar"
  shows "ar_good c K (ar_truncate c ar h)"
proof -
  have inv: "ar_inv c ar" using assms by (simp add: ar_good_def)
  have "slice_good c K sl" if "sl \<in> set (ar_slices (ar_truncate c ar h))" for sl
  proof -
    from that obtain j where "j < TBFT_WINDOW_SIZE c" "sl = ar_slices (ar_truncate c ar h) ! j"
      by (auto simp: in_set_conv_nth length_truncate [OF inv])
    then show ?thesis using truncate_slices [OF inv, of j h] assms slice_good_fresh
      by (auto simp: ar_good_def ar_inv_def)
  qed
  then show ?thesis using assms ar_truncate_inv [OF inv, of h] by (auto simp: ar_good_def ar_truncate_def Let_def)
qed

text \<open>The conditions under which an operation keeps the claims.\<close>

fun op_good :: "claims \<Rightarrow> ar_op \<Rightarrow> bool" where
  "op_good K (Store_pp now n m l) \<longleftrightarrow> pp_sound K m \<and> 72 + nat (pp_rset_size m) \<le> nat l"
| "op_good K (Add_commit n m l i) \<longleftrightarrow> (hdr_tag m = tag_val TBFT_MSG_COMMIT \<longrightarrow> vote_known K i (cm_digest m))"
| "op_good K (Add_my_commit n m l i) \<longleftrightarrow> i = k_id K"
| "op_good K op \<longleftrightarrow> True"

lemma pp_sound_prefix:
  assumes "pp_sound K m" "72 + nat (pp_rset_size m) \<le> nat l" "nat l \<le> length m"
  shows "pp_sound K (put 0 (take (nat l) m) b)"
proof -
  have "field off k (put 0 (take (nat l) m) b) = field off k m" if "off + k \<le> nat l" for off k
    using that assms(3) by (rule field_put_prefix)
  with assms show ?thesis
    by (simp add: pp_sound_def pp_digest_def pp_request_def pp_rset_size_def rd_i32_def)
qed

lemma votes_ok_add:
  assumes "votes_ok c P ct" "nat l \<le> length m" "hdr_tag m = tag_val TBFT_MSG_COMMIT \<Longrightarrow> P i (cm_digest m)"
  shows "votes_ok c P (snd (cert_add c (commit_kind c) ct m l i))"
    "votes_ok c P (snd (cert_add_mine c (commit_kind c) ct m l i))"
proof -
  let ?k = "commit_kind c"
  from assms(1) obtain V where V: "cert_holds c ?k ct V" "\<forall>i d. V i = Some d \<longrightarrow> P i d"
    by (auto simp: votes_ok_def)
  have m: "cert_msg_ok ?k m l" using assms(2) by simp
  have more: "votes_ok c P ct'"
    if "extract_msg_digest m l (ck_tag ?k) (ck_digest_offset ?k) = Some d" "cert_holds c ?k ct' (V(i \<mapsto> d))" for ct' d
  proof -
    have "P i d" using that(1) assms(3)
      by (auto simp: extract_msg_digest_def commit_kind_def cm_digest_def split: if_splits)
    then show ?thesis using that(2) V(2) unfolding votes_ok_def by (metis fun_upd_apply option.inject)
  qed
  have "votes_ok c P ct'" if "cert_add c ?k ct m l i = (True, ct')" for ct'
    by (rule cert_add_cases [OF V(1) m that]) (erule (1) more)
  then show "votes_ok c P (snd (cert_add c ?k ct m l i))"
    by (cases "cert_add c ?k ct m l i"; cases "fst (cert_add c ?k ct m l i)") (auto simp: assms(1) dest: cert_add_False)
  have "votes_ok c P ct'" if "cert_add_mine c ?k ct m l i = (True, ct')" for ct'
    by (rule cert_add_mine_cases [OF V(1) m that]) (erule (1) more)
  then show "votes_ok c P (snd (cert_add_mine c ?k ct m l i))"
    by (cases "cert_add_mine c ?k ct m l i"; cases "fst (cert_add_mine c ?k ct m l i)") (auto simp: assms(1) dest: cert_add_mine_False)
qed

lemma vouched_add:
  assumes "vouched c K ct" "nat l \<le> length m"
  shows "hdr_tag m = tag_val TBFT_MSG_COMMIT \<longrightarrow> vote_known K i (cm_digest m) \<Longrightarrow>
      vouched c K (snd (cert_add c (commit_kind c) ct m l i))"
    and "i = k_id K \<Longrightarrow> vouched c K (snd (cert_add_mine c (commit_kind c) ct m l i))"
  using votes_ok_add [OF assms(1) [unfolded vouched_def] assms(2), of i] by (simp_all add: vouched_def vote_known_def)

lemma op_slice_good:
  assumes "slice_good c K sl" "op_ok c op" "op_good K op"
  shows "slice_good c K (op_slice c op sl)"
  using assms vouched_add [of c K "sl_commit sl"] pp_sound_prefix [of K]
  by (cases op) (auto simp: slice_good_def prepared_cert_add_pp_def prepared_cert_store_pp_def
      prepared_cert_add_prepare_def prepared_cert_add_my_prepare_def split: if_splits prod.splits)

lemma ar_step_good:
  assumes "ar_good c K ar" "op_ok c op" "op_good K op"
  shows "ar_good c K (ar_step c op ar)"
proof (cases "op_seqno op")
  case None
  then show ?thesis using assms by (cases op) (auto simp: wf_simps)
next
  case (Some n)
  have "ar_slice_ok c ar (op_slice c op (ar_slice ar n))"
    using ar_slice_in [of c ar n] op_slice_ok [OF assms(2)] assms(1) by (simp add: ar_slice_ok_def ar_good_def)
  then show ?thesis
    using ar_step_upd [OF Some] ar_good_upd [OF assms(1)] op_slice_good [OF ar_good_slice [OF assms(1)] assms(2,3)] assms(1)
    by simp
qed

lemma region_ops_good [wf_simps]:
  assumes "ar_good c K ar"
  shows "nat l \<le> length m \<Longrightarrow> ar_good c K (snd (ar_add_prepare c ar n m l i))"
    "nat l \<le> length m \<Longrightarrow> ar_good c K (snd (ar_add_my_prepare c ar n m l i))"
    "nat l \<le> length m \<Longrightarrow> hdr_tag m = tag_val TBFT_MSG_COMMIT \<longrightarrow> vote_known K i (cm_digest m) \<Longrightarrow>
       ar_good c K (snd (ar_add_commit c ar n m l i))"
    "nat l \<le> length m \<Longrightarrow> i = k_id K \<Longrightarrow> ar_good c K (snd (ar_add_my_commit c ar n m l i))"
    "72 \<le> l \<Longrightarrow> l \<le> int (TBFT_MAX_MESSAGE_SIZE c) \<Longrightarrow> nat l \<le> length m \<Longrightarrow> pp_sound K m \<Longrightarrow>
       72 + nat (pp_rset_size m) \<le> nat l \<Longrightarrow> ar_good c K (snd (ar_store_pp c now ar n m l))"
  using ar_step_good [OF assms, of "Add_prepare n m l i"] ar_step_good [OF assms, of "Add_my_prepare n m l i"]
    ar_step_good [OF assms, of "Add_commit n m l i"] ar_step_good [OF assms, of "Add_my_commit n m l i"]
    ar_step_good [OF assms, of "Store_pp now n m l"]
  by (simp_all add: TBFT_PP_MAX_SIZE_def)

lemma wf_above [wf_simps]: "wf c K r \<Longrightarrow> r_last_executed r < n \<Longrightarrow> 0 \<le> n"
  by (simp add: wf_def)

lemmas region_wf [wf_simps] = wfD(2-7) cr_truncate_inv cr_store_inv

lemma ar_head_good [wf_simps]: "ar_good c K (ar\<lparr> ar_head := h \<rparr>) = ar_good c K ar"
  by (simp add: ar_good_def ar_inv_def ar_slice_ok_def)

lemma ar_upd_stamp_good [wf_simps]:
  assumes "ar_good c K ar"
  shows "ar_good c K (ar_upd ar n (\<lambda>sl. sl\<lparr> sl_commit_sent_us := t \<rparr>))"
    "ar_good c K (ar_upd ar n (\<lambda>sl. sl\<lparr> sl_fill_sent_us := t \<rparr>))"
proof -
  have "ar_slice_ok c ar (ar_slice ar n)" using assms ar_slice_in by (simp add: ar_good_def)
  then show "ar_good c K (ar_upd ar n (\<lambda>sl. sl\<lparr> sl_commit_sent_us := t \<rparr>))"
    "ar_good c K (ar_upd ar n (\<lambda>sl. sl\<lparr> sl_fill_sent_us := t \<rparr>))"
    using ar_good_slice [OF assms, of n]
    by (auto intro!: ar_good_upd [OF assms] simp: ar_slice_ok_def slice_ok_def slice_good_def)
qed

lemma rq_fits_pop [wf_simps]: "rq_fits c q \<Longrightarrow> rq_fits c (rqueue_pop c q)"
proof -
  assume q: "rq_fits c q"
  then have "rq_head q < length (rq_entries q)" by (simp add: rq_fits_def rq_good_def)
  with q have "0 \<le> rqe_len (rq_entries q ! rq_head q) \<and> rqe_len (rq_entries q ! rq_head q) \<le> int (TBFT_MAX_MESSAGE_SIZE c)"
    by (simp add: rq_fits_def list_all_length)
  with q have "list_all (\<lambda>e. 0 \<le> rqe_len e \<and> rqe_len e \<le> int (TBFT_MAX_MESSAGE_SIZE c)) (rq_entries (rqueue_pop c q))"
    by (simp add: rq_fits_def rqueue_pop_def list_all_update)
  then show ?thesis using q rq_deq [of c q] by (simp add: rq_fits_def)
qed

lemma rq_fits_push:
  assumes "rq_fits c q"
  shows "rq_fits c (snd (rqueue_push c q m l ro))"
proof (cases "TBFT_RQUEUE_MAX c \<le> rq_count q \<or> l < 0 \<or> int (TBFT_MAX_MESSAGE_SIZE c) < l")
  case False
  let ?e = "(field 0 (nat l) m, ro)"
  have "field 0 (nat l) (field 0 (nat l) m) = field 0 (nat l) m"
    by (simp add: field_eq_take_drop [of 0 "nat l" "field 0 (nat l) m"])
  then have "rqueue_push c q m l ro = rq_enq c ?e q" using False by (simp add: rq_enq_def rqueue_push_def Let_def)
  moreover have "rq_good c (snd (rq_enq c ?e q))"
    using assms False by (intro rq_room) (auto simp: rq_fits_def rq_elem_ok_def)
  moreover have "list_all (\<lambda>e. 0 \<le> rqe_len e \<and> rqe_len e \<le> int (TBFT_MAX_MESSAGE_SIZE c))
      (rq_entries (snd (rqueue_push c q m l ro)))"
    using assms False by (simp add: rqueue_push_def Let_def rq_fits_def list_all_update)
  ultimately show ?thesis by (simp add: rq_fits_def)
qed (use assms in \<open>auto simp: rqueue_push_def\<close>)

lemma rq_fits_front:
  "rq_fits c q \<Longrightarrow> rqueue_front q = Some e \<Longrightarrow> 0 \<le> rqe_len e \<and> rqe_len e \<le> int (TBFT_MAX_MESSAGE_SIZE c)"
  by (auto simp: rq_fits_def rqueue_front_def rq_good_def list_all_length split: if_splits)

section \<open>Votes, stability and execution\<close>

lemma vote_buf [wf_simps]:
  assumes "wf c K r"
  shows "TBFT_MAX_MESSAGE_SIZE c \<le> length (build_vote c E nd tag n d (r_out_buf r))"
    "TBFT_MAX_MESSAGE_SIZE c \<le> length (build_checkpoint c E nd n d (r_out_buf r))"
    "nat (hdr_size (build_vote c E nd tag n d (r_out_buf r))) \<le> length (build_vote c E nd tag n d (r_out_buf r))"
    "nat (hdr_size (build_checkpoint c E nd n d (r_out_buf r))) \<le> length (build_checkpoint c E nd n d (r_out_buf r))"
  using build_vote_buf [OF wfD(1,6) [OF assms]] build_checkpoint_buf [OF wfD(1,6) [OF assms]] by simp_all

lemma wf_send_prepare [wf_simps]: "wf c K r \<Longrightarrow> wf c K (tbft_replica_send_prepare c E n r)"
  by (simp add: tbft_replica_send_prepare_def Let_def wf_simps split_beta split: option.split)

lemma wf_send_commit [wf_simps]: "wf c K r \<Longrightarrow> wf c K (tbft_replica_send_commit c E n d r)"
  by (simp add: tbft_replica_send_commit_def Let_def wf_simps wfD(9) split_beta split: option.split)

lemma wf_send_fetch [wf_simps]: "wf c K r \<Longrightarrow> wf c K (send_fetch l i r)"
  by (simp add: send_fetch_def Let_def wf_simps)

lemma wf_fetch_loop [wf_simps]: "wf c K r \<Longrightarrow> wf c K (fetch_send_loop r)"
proof (induction r rule: fetch_send_loop.induct)
  case (1 r)
  then show ?case
    by (simp add: fetch_send_loop.simps [of r] wf_simps split: prod.split option.split)
qed

lemma wf_start_fetch [wf_simps]: "wf c K r \<Longrightarrow> wf c K (tbft_replica_start_fetch c E n q r)"
  by (simp add: tbft_replica_start_fetch_def wf_simps)

lemma wf_mark_stable [wf_simps]: "wf c K r \<Longrightarrow> wf c K (tbft_replica_mark_stable c E n r)"
proof (rule mark_stable_cases [of c E n r])
  fix v assume "wf c K r" "tbft_replica_mark_stable c E n r = mark_stable_install c E n v r"
  moreover from \<open>wf c K r\<close> have "wf c K (mark_stable_install c E n v r)"
    by (simp add: mark_stable_install_def Let_def wf_simps)
  ultimately show ?thesis by simp
qed (simp_all add: mark_stable_mismatch_def wf_simps)

lemma wf_exec_reply [wf_simps]: "wf c K r \<Longrightarrow> wf c K (exec_reply c E n req l r)"
proof -
  assume r: "wf c K r"
  then have b: "TBFT_MAX_MESSAGE_SIZE c \<le> length (reply_header r n req l a)" for a
    unfolding reply_header_def Let_def by (intro grow_trans wfD)
  then have "wf c K (r\<lparr> r_out_buf := put off sig (reply_header r n req l a) \<rparr>)" for off sig a
    using r by (intro wf_set grow_trans) auto
  then show ?thesis using r b by (simp add: exec_reply_def Let_def wf_simps split: prod.split)
qed

lemma wf_exec_request [wf_simps]:
  assumes r: "wf c K r" and q: "quorum_for K (pp_request pp)"
  shows "wf c K (snd (exec_request c E n pp r))"
proof -
  have "wf c K (r\<lparr> r_out_buf := put sz_reply payload (replicate (TBFT_MAX_MESSAGE_SIZE c) 0), r_state := st \<rparr>)" for payload st
    unfolding wf_simps using r by (intro wf_set grow_trans) auto
  then have "wf c K (emit (Exec_cb n (pp_request pp) rc)
      (r\<lparr> r_out_buf := put sz_reply payload (replicate (TBFT_MAX_MESSAGE_SIZE c) 0), r_state := st \<rparr>))" for payload st rc
    using q by (rule wf_set)
  then show ?thesis using r by (simp add: exec_request_def Let_def wf_simps split: prod.split option.split)
qed

lemma committed_votes:
  assumes ar: "ar_good c K (r_ar r)" and votes: "votes_ok c P (sl_commit (ar_slice (r_ar r) n))"
    and com: "ar_committed c (r_ar r) n" and pp: "ar_load_pp c (r_ar r) n = (Some pp, l)" and match: "commit_matches r n pp"
  shows "\<exists>Q. k_quorum K \<le> int (card Q) \<and> (\<forall>i \<in> Q. P i (tbft_msg_digest (k_hash K) (pp_request pp)))"
proof -
  let ?ct = "sl_commit (ar_slice (r_ar r) n)"
  from votes obtain V where V: "cert_holds c (commit_kind c) ?ct V" "\<And>i d. V i = Some d \<Longrightarrow> P i d"
    by (auto simp: votes_ok_def)
  have t: "cert_complete_threshold ?ct = k_quorum K"
    using ar ar_slice_in [of c "r_ar r" n] by (simp add: ar_good_def ar_slice_ok_def slice_ok_def)
  from pp have sound: "pp_sound K pp" using ar_good_slice [OF ar, of n]
    by (auto simp: ar_load_pp_def prepared_cert_pp_def slice_good_def split: if_splits)
  from com obtain cm where cm: "cert_cvalue ?ct = Some cm"
    by (auto simp: ar_committed_def cert_is_complete_def split: if_splits)
  with match have "pp_digest pp = cm_digest cm" by (simp add: commit_matches_def)
  with cm have "cert_winner (commit_kind c) ?ct = Some (pp_digest pp)"
    by (simp add: cert_winner_def commit_kind_def cm_digest_def)
  from cert_winner_voters [OF V(1) this] t have "k_quorum K \<le> int (card (voters V (pp_digest pp)))" by simp
  moreover have "\<forall>i \<in> voters V (pp_digest pp). P i (tbft_msg_digest (k_hash K) (pp_request pp))"
    using V(2) sound by (auto simp: voters_def pp_sound_def)
  ultimately show ?thesis by blast
qed

lemma committed_quorum:
  assumes "ar_good c K (r_ar r)" "ar_committed c (r_ar r) n" "ar_load_pp c (r_ar r) n = (Some pp, l)" "commit_matches r n pp"
  shows "quorum_for K (pp_request pp)"
  using committed_votes [OF assms(1) _ assms(2-4)] ar_good_slice [OF assms(1), of n]
  by (auto simp: quorum_for_def slice_good_def vouched_def)

lemma wf_fill_wanted [wf_simps]: "wf c K r \<Longrightarrow> wf c K (fill_wanted E n r)"
  by (simp add: fill_wanted_def wf_simps)

lemma wf_exec_finish [wf_simps]: "wf c K r \<Longrightarrow> 0 \<le> n \<Longrightarrow> wf c K (exec_finish c E n pp r)"
  by (simp add: exec_finish_def exec_checkpoint_def Let_def wf_simps split_beta)

lemma wf_exec_one [wf_simps]: "wf c K r \<Longrightarrow> 0 \<le> n \<Longrightarrow> wf c K (snd (exec_one c E n r))"
proof -
  assume r: "wf c K r" and n: "0 \<le> n"
  show ?thesis
  proof (cases "ar_load_pp c (r_ar r) n")
    case (Pair q l)
    have "quorum_for K (pp_request pp)" if "q = Some pp" "ar_committed c (r_ar r) n" "commit_matches r n pp" for pp
      using committed_quorum [OF wfD(2) [OF r] that(2) _ that(3)] Pair that(1) by simp
    with r n Pair show ?thesis by (auto simp: exec_one_def wf_simps split_beta split: option.split)
  qed
qed

lemma wf_exec_loop: "wf c K r \<Longrightarrow> 0 \<le> n \<Longrightarrow> wf c K (exec_loop c E n r)"
proof (induction c E n r rule: exec_loop.induct)
  case (1 c E n r)
  obtain go r' where one: "exec_one c E n r = (go, r')" by fastforce
  then have "wf c K r'" using wf_exec_one [OF "1.prems", of E] by simp
  then show ?case using "1.IH" [OF _ one [symmetric]] "1.prems" one by (simp add: exec_loop.simps [of c E n r])
qed

lemma wf_execute_committed [wf_simps]: "wf c K r \<Longrightarrow> wf c K (tbft_replica_execute_committed c E r)"
  using wf_exec_loop [of c K r "r_last_executed r + 1" E] wfD(7) [of c K r]
  by (simp add: tbft_replica_execute_committed_def Let_def wf_simps)

section \<open>The normal case\<close>

lemma wf_src_pop [wf_simps]: "wf c K r \<Longrightarrow> wf c K (src_pop c rw r)"
  by (simp add: src_pop_def wf_simps)

lemma wf_src_queue [wf_simps]: "wf c K r \<Longrightarrow> rq_fits c (src_queue rw r)"
  by (simp add: src_queue_def wf_simps)

lemma next_request_fits:
  "wf c K r \<Longrightarrow> next_request rw r = Some src \<Longrightarrow> 0 \<le> rqe_len (snd src) \<and> rqe_len (snd src) \<le> int (TBFT_MAX_MESSAGE_SIZE c)"
  using rq_fits_front [of c "src_queue rw r"] rq_fits_front [of c "src_queue (\<not> rw) r"] wf_src_queue [of c K r]
  by (auto simp: next_request_def split: option.splits)

lemma wf_drop_duplicate:
  assumes "wf c K r" "drop_duplicate c src r = (q, r')"
    "0 \<le> rqe_len (snd src) \<and> rqe_len (snd src) \<le> int (TBFT_MAX_MESSAGE_SIZE c)"
  shows "wf c K r' \<and> (\<forall>s. q = Some s \<longrightarrow> 0 \<le> rqe_len (snd s) \<and> rqe_len (snd s) \<le> int (TBFT_MAX_MESSAGE_SIZE c))"
  using assms next_request_fits [OF wf_src_pop [OF assms(1)]]
  by (auto simp: drop_duplicate_def Let_def wf_simps split: if_splits option.splits)

lemma wf_broadcast_proposal [wf_simps]: "wf c K r \<Longrightarrow> wf c K (broadcast_proposal c E d r)"
  by (simp add: broadcast_proposal_def Let_def wf_simps)

lemma build_pp_buf:
  assumes "cfg_fits c" and sz: "tbft_msg_align (int (sz_pre_prepare + length req + length ndet + TBFT_AUTH_SIZE c)) \<le> int (TBFT_MAX_MESSAGE_SIZE c)"
    and small: "int (length req) \<le> 65536" "int (length ndet) \<le> 65536"
    and b_def: "b = build_pp c E nd n d req ndet"
  shows "TBFT_MAX_MESSAGE_SIZE c \<le> length b" "nat (hdr_size b) \<le> length b" "72 \<le> hdr_size b"
    "hdr_size b \<le> int (TBFT_MAX_MESSAGE_SIZE c)" "72 + length req \<le> nat (hdr_size b)"
proof -
  let ?a = "int (sz_pre_prepare + length req + length ndet + TBFT_AUTH_SIZE c)"
  show len: "TBFT_MAX_MESSAGE_SIZE c \<le> length b"
    unfolding b_def build_pp_def Let_def put_auth_def by (intro grow_trans) simp
  have c: "TBFT_MAX_MESSAGE_SIZE c \<le> 65536" "int (TBFT_AUTH_SIZE c) \<le> 65536" using assms(1) by (simp_all add: cfg_fits_def)
  with small have a: "0 \<le> ?a" "?a \<le> 2147483640" "72 \<le> ?a" by simp_all
  note spec = msg_align_spec [OF a(1,2)]
  have le: "?a \<le> tbft_msg_align ?a" by (rule spec)
  with le a(3) sz have bound: "72 \<le> tbft_msg_align ?a" "tbft_msg_align ?a \<le> int (TBFT_MAX_MESSAGE_SIZE c)" by simp_all
  have "sz_pre_prepare + length req + length ndet \<le> TBFT_MAX_MESSAGE_SIZE c" using le sz by linarith
  then have "hdr_size b = i32 (tbft_msg_align ?a)"
    unfolding b_def build_pp_def Let_def put_auth_def by (intro hdr_size_written grow_trans) simp_all
  with bound c have "hdr_size b = tbft_msg_align ?a" by (simp add: i32_id)
  with bound len show "nat (hdr_size b) \<le> length b" "72 \<le> hdr_size b" "hdr_size b \<le> int (TBFT_MAX_MESSAGE_SIZE c)"
    "72 + length req \<le> nat (hdr_size b)"
    using le by simp_all
qed

text \<open>What the proposal says about its request.\<close>

lemma build_pp_fields:
  assumes "length d = 32" "length req \<le> 65536" "256 \<le> TBFT_MAX_MESSAGE_SIZE c"
  shows "pp_digest (build_pp c E nd n d req ndet) = d" "pp_rset_size (build_pp c E nd n d req ndet) = int (length req)"
    "pp_request (build_pp c E nd n d req ndet) = req" "pp_seqno (build_pp c E nd n d req ndet) = i64 n"
proof -
  let ?b0 = "wr_i16 68 (int (length ndet)) (wr_i32 64 (int (length req)) (put 32 d
      (wr_i64 24 n (wr_i64 16 (nd_view nd) (wr_i64 8 (e_now E) (wr_i16 2 0 (wr_i16 0 (tag_val TBFT_MSG_PRE_PREPARE)
        (replicate (TBFT_MAX_MESSAGE_SIZE c) 0))))))))"
  let ?b1 = "put 72 req ?b0"
  let ?b2 = "put (72 + length req) ndet ?b1"
  have len: "256 \<le> length ?b0" using assms(3) by (intro grow_trans) simp
  then have len1: "256 \<le> length ?b1" "72 + length req \<le> length ?b1" by (auto simp: length_put)
  then have len2: "256 \<le> length ?b2" "72 + length req + length ndet \<le> length ?b2" by (auto simp: length_put)
  obtain x v where b: "build_pp c E nd n d req ndet = put (72 + length req + length ndet) x (wr_i32 4 v ?b2)"
    unfolding build_pp_def Let_def put_auth_def by simp
  have "72 + length req + length ndet \<le> length (wr_i32 4 v ?b2)" using len2(2) by (rule grow_trans)
  then have low: "field o' k (build_pp c E nd n d req ndet) = field o' k ?b0" if "8 \<le> o'" "o' + k \<le> 72" for o' k
    using that len len1 len2 unfolding b by (simp add: field_put_other field_wr_other)
  have "field 72 (length req) (build_pp c E nd n d req ndet) = field 72 (length req) ?b2"
    unfolding b using len2 \<open>72 + length req + length ndet \<le> length (wr_i32 4 v ?b2)\<close>
    by (simp add: field_put_other field_wr_other)
  also have "\<dots> = req" using len len1 by (simp add: field_put_other field_put_same)
  finally have req: "field 72 (length req) (build_pp c E nd n d req ndet) = req" .
  have 0: "field 32 32 ?b0 = d" "rd_i32 64 ?b0 = int (length req)" "rd_i64 24 ?b0 = i64 n"
    using assms by (simp_all add: wire_simps i32_id)
  then show "pp_seqno (build_pp c E nd n d req ndet) = i64 n"
    using low [of 24 8] by (simp add: pp_seqno_def rd_i64_def)
  from 0 show dig: "pp_digest (build_pp c E nd n d req ndet) = d"
    using low [of 32 32] by (simp add: pp_digest_def)
  show sz: "pp_rset_size (build_pp c E nd n d req ndet) = int (length req)"
    using 0 low [of 64 4] by (simp add: pp_rset_size_def rd_i32_def)
  show "pp_request (build_pp c E nd n d req ndet) = req" using req by (simp add: pp_request_def sz)
qed

text \<open>The size check of \<open>propose\<close>, computed in \<open>uint32_t\<close>, does not wrap for a queued request.\<close>

lemma needed_exact:
  assumes "cfg_fits c" "0 \<le> l" "l \<le> int (TBFT_MAX_MESSAGE_SIZE c)" "0 \<le> k" "k \<le> INT16_MAX"
    "length req \<le> nat l" "length ndet \<le> nat k"
    and fits: "\<not> int (TBFT_MAX_MESSAGE_SIZE c) <
      (((int sz_pre_prepare + l + k + int (TBFT_AUTH_SIZE c)) mod 2 ^ 32 + 7) mod 2 ^ 32) AND NOT 7"
  shows "tbft_msg_align (int (sz_pre_prepare + length req + length ndet + TBFT_AUTH_SIZE c)) \<le> int (TBFT_MAX_MESSAGE_SIZE c)"
proof -
  let ?n = "int sz_pre_prepare + l + k + int (TBFT_AUTH_SIZE c)"
  let ?a = "int (sz_pre_prepare + length req + length ndet + TBFT_AUTH_SIZE c)"
  have c: "int (TBFT_MAX_MESSAGE_SIZE c) \<le> 65536" "int (TBFT_AUTH_SIZE c) \<le> 65536" using assms(1) by (simp_all add: cfg_fits_def)
  with assms(2-5) have n: "0 \<le> ?n" "?n \<le> 2147483640" "?n + 7 < 2 ^ 32" by (simp_all add: INT16_MAX_def)
  then have "(?n mod 2 ^ 32 + 7) mod 2 ^ 32 AND NOT 7 = (?n + 7) AND NOT 7" by simp
  also have "\<dots> = tbft_msg_align ?n" using n by (simp add: tbft_msg_align_def INT32_MAX_def)
  finally have "tbft_msg_align ?n \<le> int (TBFT_MAX_MESSAGE_SIZE c)" using fits by simp
  moreover have "?a \<le> ?n" "0 \<le> ?a" using assms(2,4,6,7) by simp_all
  then have "tbft_msg_align ?a \<le> tbft_msg_align ?n" using n by (simp add: msg_align_eq)
  ultimately show ?thesis by (rule order_trans [rotated])
qed

text \<open>The state in which the proposal is stored and waits to be broadcast.\<close>

lemma wf_stored_proposal:
  assumes r: "wf c K r" and e: "0 \<le> l \<and> l \<le> int (TBFT_MAX_MESSAGE_SIZE c)"
    and nk: "(case r_comp_ndet_cb r of None \<Rightarrow> (r_ndet_buf r, 0)
      | Some cb \<Rightarrow> cb (r_seqno r) (r_ndet_buf r) (r_ndet_max_len r)) = (nb, k)"
    and k': "k' = (if INT16_MAX < k then INT16_MAX else k)"
    and fits: "\<not> int (TBFT_MAX_MESSAGE_SIZE c) <
        (((int sz_pre_prepare + l + k' + int (TBFT_AUTH_SIZE c)) mod 2 ^ 32 + 7) mod 2 ^ 32) AND NOT 7"
    and b: "b = build_pp c E (r_node r) (r_seqno r) (tbft_msg_digest (k_hash K) (take (nat l) q)) (take (nat l) q) (take (nat k') nb)"
  shows "wf c K (r\<lparr> r_ndet_buf := nb, r_out_buf := b, r_ar := snd (ar_store_pp c now (r_ar r) (r_seqno r) b (hdr_size b)) \<rparr>)"
    "nat (hdr_size b) \<le> length b" "72 \<le> hdr_size b" "pp_seqno b = i64 (r_seqno r)"
proof -
  let ?req = "take (nat l) q"
  have "0 \<le> k" using wfD(8) [OF r] nk by (auto simp: ndet_ok_def split: option.splits) (metis snd_conv)
  then have k: "0 \<le> k'" "k' \<le> INT16_MAX" by (simp_all add: k' INT16_MAX_def)
  have c: "TBFT_MAX_MESSAGE_SIZE c \<le> 65536" "256 \<le> TBFT_MAX_MESSAGE_SIZE c"
    using wfD(1) [OF r] cfg_ok_simps(6) [OF wfD(12) [OF r]] by (simp_all add: cfg_fits_def)
  have req: "length ?req \<le> 65536" using e c by (simp add: min_le_iff_disj nat_le_iff)
  have small: "int (length ?req) \<le> 65536" "int (length (take (nat k') nb)) \<le> 65536"
    using k req by (auto simp: INT16_MAX_def)
  note sz = needed_exact [OF wfD(1) [OF r] conjunct1 [OF e] conjunct2 [OF e] k _ _ fits, of ?req "take (nat k') nb"]
  have "length (tbft_msg_digest (k_hash K) ?req) = 32" using wfD(10) [OF r] by simp
  note fields = build_pp_fields [OF this req c(2), of E "r_node r" "r_seqno r" "take (nat k') nb", folded b]
  have "pp_sound K b" by (simp only: pp_sound_def fields)
  then have "ar_good c K (snd (ar_store_pp c now (r_ar r) (r_seqno r) b (hdr_size b)))" "TBFT_MAX_MESSAGE_SIZE c \<le> length b"
    using build_pp_buf [OF wfD(1) [OF r] sz small b]
    by (auto intro!: region_ops_good(5) wfD(2) [OF r] simp: fields(2))
  then show "wf c K (r\<lparr> r_ndet_buf := nb, r_out_buf := b, r_ar := snd (ar_store_pp c now (r_ar r) (r_seqno r) b (hdr_size b)) \<rparr>)"
    using r by (simp add: wf_simps)
  show "nat (hdr_size b) \<le> length b" "72 \<le> hdr_size b" using build_pp_buf [OF wfD(1) [OF r] sz small b] by simp_all
  show "pp_seqno b = i64 (r_seqno r)" by (rule fields(4))
qed

lemma wf_propose:
  assumes r: "wf c K r" and e: "0 \<le> rqe_len (snd src) \<and> rqe_len (snd src) \<le> int (TBFT_MAX_MESSAGE_SIZE c)"
    and H: "e_hash E = k_hash K"
  shows "wf c K (propose c E src r)"
proof -
  obtain nb k where nk: "(case r_comp_ndet_cb r of None \<Rightarrow> (r_ndet_buf r, 0)
      | Some cb \<Rightarrow> cb (r_seqno r) (r_ndet_buf r) (r_ndet_max_len r)) = (nb, k)" by fastforce
  show ?thesis
    unfolding propose_def Let_def nk prod.case H
    using r wf_stored_proposal [OF r e nk refl _ refl] by (simp add: wf_simps split_beta)
qed

lemma wf_send_pre_prepare [wf_simps]:
  assumes r: "wf c K r" and H: "e_hash E = k_hash K"
  shows "wf c K (tbft_replica_send_pre_prepare c E r)"
proof -
  have "wf c K (case drop_duplicate c src (start_vtimer E us r) of (None, r) \<Rightarrow> r | (Some src, r) \<Rightarrow> propose c E src r)"
    if src: "next_request True r = Some src" for src us
  proof -
    obtain q r' where d: "drop_duplicate c src (start_vtimer E us r) = (q, r')" by fastforce
    have "wf c K (start_vtimer E us r)" using r by (simp add: wf_simps)
    from wf_drop_duplicate [OF this d next_request_fits [OF r src]]
    show ?thesis using d H by (auto intro: wf_propose split: option.split)
  qed
  then show ?thesis using r by (simp add: tbft_replica_send_pre_prepare_def wf_simps split: option.split)
qed

lemma wf_handle_request [wf_simps]:
  assumes r: "wf c K r" and H: "e_hash E = k_hash K"
  shows "wf c K (tbft_replica_handle_request c E msg len r)"
proof -
  have "rq_fits c (snd (rqueue_push c (src_queue rw r) msg len ro))" for rw ro
    by (rule rq_fits_push [OF wf_src_queue [OF r]])
  then have "wf c K (r\<lparr> r_last_received_rid := x, r_rqueue := snd (rqueue_push c (src_queue rw r) msg len ro) \<rparr>)"
    "wf c K (r\<lparr> r_last_received_rid := x, r_ro_rqueue := snd (rqueue_push c (src_queue rw r) msg len ro) \<rparr>)" for rw ro x
    using r by (simp_all add: wf_simps)
  moreover have "src_queue rw (r\<lparr> r_last_received_rid := x \<rparr>) = src_queue rw r" for rw x by (simp add: src_queue_def)
  ultimately show ?thesis using r H
    by (simp add: tbft_replica_handle_request_def forward_request_def Let_def wf_simps split_beta)
qed

text \<open>A received message: its bytes are in the buffer, and the buffer holds one message.\<close>

definition msg_fits :: "config \<Rightarrow> bytes \<Rightarrow> int \<Rightarrow> bool" where
  "msg_fits c msg len \<longleftrightarrow> nat len \<le> length msg \<and> len \<le> int (TBFT_MAX_MESSAGE_SIZE c)"

lemma wf_node_view [wf_simps]:
  "wf c K (r\<lparr> r_node := (r_node r)\<lparr> nd_view := v, nd_cur_primary := p \<rparr> \<rparr>) = wf c K r"
  by (simp add: wf_def execs_def)

lemma wf_views [wf_simps]:
  "wf c K (tbft_replica_reset_forwarded_requests r) = wf c K r" "wf c K (install_view E v r) = wf c K r"
  "wf c K (reset_vi c' v r) = wf c K r" "wf c K (end_view_change r) = wf c K r"
  "wf c K (mac_failed r) = wf c K r" "wf c K (mac_passed r) = wf c K r"
  by (simp_all add: tbft_replica_reset_forwarded_requests_def install_view_def
      reset_vi_def end_view_change_def mac_failed_def mac_passed_def wf_simps split: prod.split)

lemma wf_raise_markers [wf_simps]: "wf c K r \<Longrightarrow> wf c K (raise_markers n r)"
  by (simp add: raise_markers_def Let_def wf_simps)

lemma wf_truncate_regions [wf_simps]: "wf c K r \<Longrightarrow> wf c K (truncate_regions c n r)"
  by (simp add: truncate_regions_def wf_simps)

lemma wf_pp_advance_view [wf_simps]: "wf c K r \<Longrightarrow> wf c K (pp_advance_view c E v r)"
  by (simp add: pp_advance_view_def Let_def wf_simps)

lemma pp_request_ok_sound:
  assumes "pp_request_ok E nd msg" "e_hash E = k_hash K" "hash_len_ok (k_hash K)"
  shows "pp_sound K msg"
proof -
  have "length (pp_digest msg) = 32" by (simp add: pp_digest_def)
  with assms show ?thesis by (simp add: pp_request_ok_def Let_def pp_sound_def split: if_splits)
qed

lemma wf_accept_pp [wf_simps]:
  assumes "wf c K r" "msg_fits c msg len" "72 + pp_rset_size msg \<le> len" "0 \<le> pp_rset_size msg" "e_hash E = k_hash K"
  shows "wf c K (accept_pp c E msg len r)"
proof -
  have "ar_good c K (snd (ar_store_pp c now (r_ar r) n msg len))" if "pp_request_ok E nd msg" for now n nd
    using assms pp_request_ok_sound [OF that assms(5) wfD(10) [OF assms(1)]]
    by (intro region_ops_good wfD) (auto simp: msg_fits_def)
  with assms(1) show ?thesis by (simp add: accept_pp_def Let_def wf_simps split_beta)
qed

lemma wf_handle_pre_prepare [wf_simps]:
  "wf c K r \<Longrightarrow> msg_fits c msg len \<Longrightarrow> e_hash E = k_hash K \<Longrightarrow> wf c K (tbft_replica_handle_pre_prepare c E msg len r)"
  by (simp add: tbft_replica_handle_pre_prepare_def Let_def wf_simps split: option.split bool.split)

lemma wf_after_vote [wf_simps]:
  "wf c K r \<Longrightarrow> wf c K (after_prepare c E n r)" "wf c K r \<Longrightarrow> wf c K (after_commit c E n r)"
  by (simp_all add: after_prepare_def after_commit_def Let_def wf_simps)

text \<open>The sender, sequence number and digest of a Commit of a replica whose authenticator is accepted.\<close>

definition heard_from :: "env \<Rightarrow> node \<Rightarrow> bytes \<Rightarrow> (int \<times> int \<times> digest) list" where
  "heard_from E nd msg =
     (if hdr_tag msg = tag_val TBFT_MSG_COMMIT \<and> tbft_node_is_replica nd (cm_id msg) \<and>
         body_auth_ok E nd (cm_id msg) sz_commit msg
      then [(cm_id msg, cm_seqno msg, cm_digest msg)] else [])"

lemma wf_handle_votes [wf_simps]:
  assumes "wf c K r" "msg_fits c msg len"
  shows "wf c K (tbft_replica_handle_prepare c E msg len r)"
    "set (heard_from E (r_node r) msg) \<subseteq> k_heard K \<Longrightarrow> wf c K (tbft_replica_handle_commit c E msg len r)"
    "wf c K (tbft_replica_handle_checkpoint c E msg len r)"
proof -
  have known: "body_auth_ok E (r_node r) (cm_id msg) sz_commit msg \<Longrightarrow> 0 \<le> cm_id msg \<Longrightarrow>
      cm_id msg < nd_num_replicas (r_node r) \<Longrightarrow> hdr_tag msg = tag_val TBFT_MSG_COMMIT \<longrightarrow> vote_known K (cm_id msg) (cm_digest msg)" if "set (heard_from E (r_node r) msg) \<subseteq> k_heard K"
    using that by (auto simp: heard_from_def vote_known_def tbft_node_is_replica_def)
  have "ar_good c K (r_ar (mac_passed r))" "cr_inv c (r_cr (mac_passed r))" "nat len \<le> length msg"
    using assms by (simp_all add: wf_simps msg_fits_def)
  then show "wf c K (tbft_replica_handle_prepare c E msg len r)"
    "wf c K (tbft_replica_handle_checkpoint c E msg len r)"
    "set (heard_from E (r_node r) msg) \<subseteq> k_heard K \<Longrightarrow> wf c K (tbft_replica_handle_commit c E msg len r)"
    using assms(1) by (simp_all add: tbft_replica_handle_prepare_def tbft_replica_handle_commit_def
        tbft_replica_handle_checkpoint_def known Let_def wf_simps split_beta)
qed

lemma wf_handle_fill_request [wf_simps]: "wf c K r \<Longrightarrow> wf c K (tbft_replica_handle_fill_request c E msg len r)"
  by (simp add: tbft_replica_handle_fill_request_def wf_simps split: option.split prod.split)

section \<open>Keys and view changes\<close>

lemma set_principal_id [wf_simps]: "nd_node_id (nd_set_principal nd i p) = nd_node_id nd"
  by (simp add: nd_set_principal_def)

lemma nk_slot_for_keeps:
  assumes "n \<le> length (fst (snd st))"
  shows "n \<le> length (fst (snd (nk_slot_for E i st))) \<and> nd_node_id (snd (snd (nk_slot_for E i st))) = nd_node_id (snd (snd st))"
  using assms by (cases st) (auto simp: nk_slot_for_def Let_def set_principal_id split: option.split prod.split intro!: grow_trans)

lemma nk_slots_keep:
  "n \<le> length (fst (snd st)) \<Longrightarrow> n \<le> length (fst (snd (fold (nk_slot_for E) is st))) \<and>
     nd_node_id (snd (snd (fold (nk_slot_for E) is st))) = nd_node_id (snd (snd st))"
proof (induction "is" arbitrary: st)
  case (Cons i js)
  show ?case using Cons.IH [of "nk_slot_for E i st"] nk_slot_for_keeps [OF Cons.prems, of E i] by simp
qed simp

lemma wf_send_new_key [wf_simps]: "wf c K r \<Longrightarrow> wf c K (tbft_replica_send_new_key c E r)"
proof -
  assume r: "wf c K r"
  let ?b0 = "wr_i32 20 0 (wr_i32 16 (r_id r) (wr_i64 8 (e_now E) (wr_i16 2 0 (wr_i16 0 (tag_val TBFT_MSG_NEW_KEY) (r_out_buf r)))))"
  obtain slots buf nd where f: "fold (nk_slot_for E) [0 .. nd_num_replicas (r_node r) - 1] (0, ?b0, r_node r) = (slots, buf, nd)"
    by (metis prod_cases3)
  have "TBFT_MAX_MESSAGE_SIZE c \<le> length ?b0" using r by (simp add: wf_simps)
  then have "TBFT_MAX_MESSAGE_SIZE c \<le> length buf" "nd_node_id nd = r_id r"
    using nk_slots_keep [of "TBFT_MAX_MESSAGE_SIZE c" "(0, ?b0, r_node r)" E] f by (metis fst_conv snd_conv)+
  then show ?thesis using r
    unfolding tbft_replica_send_new_key_def Let_def f prod.case by (simp add: wf_simps split_beta)
qed

lemma wf_handle_new_key [wf_simps]: "wf c K r \<Longrightarrow> wf c K (tbft_replica_handle_new_key c E msg len r)"
  by (simp add: tbft_replica_handle_new_key_def Let_def wf_simps split: prod.split option.split)

lemma vc_list_grows: "m \<le> length buf \<Longrightarrow> m \<le> length (snd (snd (vc_list_prepared c r mx ss n ptr buf)))"
  by (induction c r mx ss n ptr buf rule: vc_list_prepared.induct) (auto simp: wf_simps split: option.split)

lemma wf_build_vc [wf_simps]: "wf c K r \<Longrightarrow> TBFT_MAX_MESSAGE_SIZE c \<le> length (build_vc c v r)"
  unfolding build_vc_def Let_def
  by (auto simp: split_beta wf_simps intro!: grow_trans vc_list_grows)

lemma wf_vc_emit [wf_simps]: "wf c K r \<Longrightarrow> wf c K (vc_emit c E v r)"
  by (simp add: vc_emit_def Let_def wf_simps split_beta)

lemma wf_send_view_change [wf_simps]: "wf c K r \<Longrightarrow> wf c K (tbft_replica_send_view_change c E r)"
  by (simp add: tbft_replica_send_view_change_def Let_def wf_simps)

lemma wf_raise_seqno [wf_simps]: "wf c K (raise_seqno r) = wf c K r"
  by (simp add: raise_seqno_def wf_simps)

lemma wf_backoff_restart [wf_simps]: "wf c K (backoff_restart E g r) = wf c K r"
  by (simp add: backoff_restart_def Let_def wf_simps)

lemma wf_vc_sync_view [wf_simps]: "wf c K r \<Longrightarrow> wf c K (vc_sync_view c E v r)"
  by (simp add: vc_sync_view_def Let_def wf_simps)

lemma wf_nv_install [wf_simps]: "wf c K r \<Longrightarrow> wf c K (nv_install c E v msg r)"
  by (simp add: nv_install_def Let_def wf_simps)

lemma nv_proofs_grow: "m \<le> length buf \<Longrightarrow> m \<le> length (snd (snd (nv_add_proofs e f lv cs n ptr buf)))"
  by (induction e f lv cs n ptr buf rule: nv_add_proofs.induct) (auto simp: wf_simps)

lemma wf_build_nv [wf_simps]: "wf c K r \<Longrightarrow> TBFT_MAX_MESSAGE_SIZE c \<le> length (build_nv c E r)"
  unfolding build_nv_def Let_def
  by (auto simp: split_beta wf_simps intro!: grow_trans nv_proofs_grow)

lemma wf_vc_become_primary [wf_simps]: "wf c K r \<Longrightarrow> wf c K (vc_become_primary c E r)"
  by (simp add: vc_become_primary_def Let_def wf_simps split_beta)

lemma wf_vc_retarget [wf_simps]: "wf c K r \<Longrightarrow> wf c K (vc_retarget c E msg len v r)"
  by (simp add: vc_retarget_def Let_def wf_simps split_beta)

lemma wf_handle_view_change [wf_simps]: "wf c K r \<Longrightarrow> wf c K (tbft_replica_handle_view_change c E msg len r)"
  by (simp add: tbft_replica_handle_view_change_def Let_def wf_simps split_beta)

lemma wf_handle_new_view [wf_simps]: "wf c K r \<Longrightarrow> wf c K (tbft_replica_handle_new_view c E msg len r)"
  by (simp add: tbft_replica_handle_new_view_def Let_def wf_simps)

section \<open>Status and state transfer\<close>

lemma wf_status_parts [wf_simps]:
  "wf c K r \<Longrightarrow> wf c K (status_catch_up c E msg r)" "wf c K r \<Longrightarrow> wf c K (status_fetch c E msg r)"
  by (simp_all add: status_catch_up_def status_fetch_def Let_def wf_simps)

lemma wf_fold: "(\<And>x r. wf c K r \<Longrightarrow> wf c K (f x r)) \<Longrightarrow> wf c K r \<Longrightarrow> wf c K (fold f xs r)"
  by (induction xs arbitrary: r) auto

lemma wf_resend [wf_simps]:
  "wf c K r \<Longrightarrow> wf c K (resend_seqno c E d n r)" "wf c K r \<Longrightarrow> wf c K (resend_checkpoint c E d n r)"
  by (simp_all add: resend_seqno_def resend_checkpoint_def Let_def wf_simps split_beta split: option.split)

lemma wf_status_resend [wf_simps]:
  "wf c K r \<Longrightarrow> wf c K (status_resend c E msg r)" "wf c K r \<Longrightarrow> wf c K (status_checkpoints c E msg r)"
  by (simp_all add: status_resend_def status_checkpoints_def Let_def wf_simps wf_fold)

lemma wf_handle_status [wf_simps]: "wf c K r \<Longrightarrow> wf c K (handle_status c E msg len r)"
  by (simp add: handle_status_def Let_def wf_simps)

lemma fold_grows:
  "(\<And>x b. m \<le> length b \<Longrightarrow> m \<le> length (f x b)) \<Longrightarrow> m \<le> length b \<Longrightarrow> m \<le> length (fold f xs b)"
  by (induction xs arbitrary: b) auto

lemma wf_handle_fetch [wf_simps]: "wf c K r \<Longrightarrow> wf c K (tbft_replica_handle_fetch c msg len r)"
proof -
  assume r: "wf c K r"
  then have "TBFT_MAX_MESSAGE_SIZE c \<le> length (build_data c st n l i (r_out_buf r))"
    "TBFT_MAX_MESSAGE_SIZE c \<le> length (build_meta_data st n l i k fc (r_out_buf r))" for st n l i k fc
    unfolding build_data_def build_meta_data_def Let_def by (auto intro!: grow_trans fold_grows dest: wfD(6))
  with r show ?thesis by (simp add: tbft_replica_handle_fetch_def Let_def wf_simps)
qed

lemma wf_handle_data [wf_simps]:
  "wf c K r \<Longrightarrow> wf c K (tbft_replica_handle_meta_data c E msg len r)"
  "wf c K r \<Longrightarrow> wf c K (tbft_replica_handle_data c E msg len r)"
  by (simp_all add: tbft_replica_handle_meta_data_def tbft_replica_handle_data_def fetch_finished_def Let_def wf_simps)

section \<open>The event loop\<close>

text \<open>A round: what \<open>tbft_node_recv\<close> returns is the number of bytes it has written, into a buffer of
  the message size; the hash function is the same in every round.\<close>

definition round_ok :: "config \<Rightarrow> claims \<Rightarrow> round_in \<Rightarrow> bool" where
  "round_ok c K i \<longleftrightarrow> msg_fits c (in_msg i) (in_recv i) \<and> e_hash (in_env i) = k_hash K"

lemma recv_fits:
  assumes "msg_fits c msg n"
  shows "msg_fits c msg (tbft_node_recv n nd)"
  using assms by (auto simp: tbft_node_recv_def msg_fits_def)

lemma wf_dispatch:
  assumes "wf c K r" "msg_fits c msg n" "e_hash E = k_hash K" "set (heard_from E (r_node r) msg) \<subseteq> k_heard K"
  shows "wf c K (loop_receive c E msg n r)"
proof -
  note votes = wf_handle_votes(2) [OF assms(1,2,4)]
  show ?thesis using assms(1-3) by (simp add: loop_receive_def dispatch_def Let_def votes wf_simps)
qed

lemma wf_loop_blocks [wf_simps]:
  assumes "wf c K r"
  shows "wf c K (loop_yield r)" "wf c K (snd (loop_rebroadcast c E tick (nk, r)))" "wf c K (loop_events c E r)"
    "wf c K (loop_fetch_timeout c E r)"
proof -
  have "TBFT_MAX_MESSAGE_SIZE c \<le> length (build_status E r')" if "wf c K r'" for r'
    using that unfolding build_status_def Let_def by (auto intro!: grow_trans dest: wfD(6))
  then have "wf c K (loop_stimer E b r')" if "wf c K r'" for r' b
    using that by (simp add: loop_stimer_def Let_def wf_simps)
  then show "wf c K (loop_events c E r)" using assms
    by (simp add: loop_events_def loop_dead_primary_def loop_vtimer_def Let_def wf_simps)
qed (use assms in \<open>simp_all add: loop_yield_def loop_rebroadcast_def loop_fetch_timeout_def Let_def wf_simps\<close>)

lemma wf_fill_blocks [wf_simps]:
  assumes "wf c K r"
  shows "wf c K (fill_clear r)" "wf c K (fill_ask E r)" "wf c K (fill_expire c E r)"
proof -
  have "TBFT_MAX_MESSAGE_SIZE c \<le> length (build_fill E r' p)" if "TBFT_MAX_MESSAGE_SIZE c \<le> length (r_out_buf r')" for r' p
    using that unfolding build_fill_def Let_def by (auto intro!: grow_trans split: option.split)
  then show "wf c K (fill_ask E r)" using assms by (simp add: fill_ask_def Let_def wf_simps)
qed (use assms in \<open>simp_all add: fill_clear_def fill_expire_def Let_def wf_simps\<close>)

lemma wf_loop_fill [wf_simps]: "wf c K r \<Longrightarrow> wf c K (loop_fill c E r)"
  by (simp add: loop_fill_def Let_def wf_simps)

text \<open>The replica at the receive of a round.\<close>

definition at_receive :: "config \<Rightarrow> round_in \<Rightarrow> int \<times> replica \<Rightarrow> replica" where
  "at_receive c i st =
     (let E = in_env i; r = snd (loop_rebroadcast c E (in_tick i) (fst st, loop_yield (snd st)))
      in loop_fill c E (loop_fetch_timeout c E (loop_events c E r)))"

lemma loop_body_receive:
  "snd (loop_body c i st) =
     loop_receive c (in_env i) (in_msg i) (tbft_node_recv (in_recv i) (r_node (at_receive c i st))) (at_receive c i st)"
  by (simp add: loop_body_def at_receive_def Let_def split_beta)

text \<open>The Commit messages accepted in a sequence of rounds.\<close>

fun heard_in :: "config \<Rightarrow> round_in list \<Rightarrow> int \<times> replica \<Rightarrow> (int \<times> int \<times> digest) list" where
  "heard_in c [] st = []"
| "heard_in c (i # is) st =
     (if r_running (snd st)
      then heard_from (in_env i) (r_node (at_receive c i st)) (in_msg i) @ heard_in c is (loop_body c i st)
      else heard_in c is st)"

lemma wf_loop_body:
  assumes "wf c K (snd st)" "round_ok c K i"
    "set (heard_from (in_env i) (r_node (at_receive c i st)) (in_msg i)) \<subseteq> k_heard K"
  shows "wf c K (snd (loop_body c i st))"
proof -
  have "wf c K (at_receive c i st)" using assms(1)
    by (simp add: at_receive_def Let_def wf_simps)
  then show ?thesis unfolding loop_body_receive using assms(2,3)
    by (intro wf_dispatch recv_fits) (auto simp: round_ok_def)
qed

lemma wf_key_barrier: "wf c K r \<Longrightarrow> wf c K (key_barrier c d rs nk r)"
proof (induction c d rs nk r rule: key_barrier.induct)
  case (2 c d E tick ms rs nk r)
  have "wf c K (barrier_drain c E ms r)" if "wf c K r" for ms r
    using that by (induction c E ms r rule: barrier_drain.induct) (simp_all add: Let_def wf_simps)
  then show ?case using "2" by (simp add: Let_def wf_simps)
qed simp

lemma wf_rounds:
  "wf c K (snd st) \<Longrightarrow> list_all (round_ok c K) rounds \<Longrightarrow> set (heard_in c rounds st) \<subseteq> k_heard K \<Longrightarrow>
   wf c K (snd (fold (\<lambda>i st. if r_running (snd st) then loop_body c i st else st) rounds st))"
proof (induction rounds arbitrary: st)
  case (Cons i rounds)
  show ?case
  proof (cases "r_running (snd st)")
    case True
    with Cons.prems wf_loop_body [of c K st i] show ?thesis by (simp add: Cons.IH)
  next
    case False
    with Cons.prems show ?thesis by (simp add: Cons.IH)
  qed
qed simp

text \<open>The replica when the event loop starts, and the Commit messages it accepts in a run.\<close>

definition loop_start :: "config \<Rightarrow> env \<Rightarrow> int \<Rightarrow> (env \<times> int \<times> (int \<times> bytes) list) list \<Rightarrow> replica \<Rightarrow> replica" where
  "loop_start c E0 tick0 barrier r =
     key_barrier c (tick0 + 60000) barrier tick0 (tbft_replica_send_new_key c E0 (r\<lparr> r_running := True \<rparr>))"

definition heard_commits ::
  "config \<Rightarrow> env \<Rightarrow> int \<Rightarrow> (env \<times> int \<times> (int \<times> bytes) list) list \<Rightarrow> int \<Rightarrow> round_in list \<Rightarrow> replica \<Rightarrow> (int \<times> int \<times> digest) list" where
  "heard_commits c E0 tick0 barrier tick1 rounds r = heard_in c rounds (tick1, loop_start c E0 tick0 barrier r)"

lemma wf_run:
  assumes "wf c K r" "list_all (round_ok c K) rounds" "set (heard_commits c E0 t0 barrier t1 rounds r) \<subseteq> k_heard K"
  shows "wf c K (tbft_replica_run c E0 t0 barrier t1 rounds r)"
proof -
  have "wf c K (loop_start c E0 t0 barrier r)"
    unfolding loop_start_def by (intro wf_key_barrier) (simp add: wf_simps assms(1))
  then show ?thesis using wf_rounds [of c K "(t1, loop_start c E0 t0 barrier r)" rounds] assms(2,3)
    by (simp add: tbft_replica_run_def loop_start_def heard_commits_def Let_def)
qed

lemma ar_good_init:
  assumes "cfg_fits c" "k_quorum K = ct"
  shows "ar_good c K (ar_init c pt ct)"
proof -
  have "ar_inv c (ar_init c pt ct)" using assms by (auto simp: cfg_fits_def intro: ar_init_inv)
  moreover have "slice_good c K (slice_init c pt ct)" using slice_good_fresh [of c K "ar_init c pt ct"]
    by (simp add: ar_fresh_def ar_init_def)
  ultimately show ?thesis using assms(2) by (simp add: ar_good_def) (simp add: ar_init_def)
qed

lemma wf_init:
  assumes "cfg_fits c" "hash_len_ok (k_hash K)" "ndet_ok nb" "k_id K = i" "k_quorum K = 2 * f + 1"
    and init: "tbft_replica_init c res i f n m t mem cb nb nl rb = Some r"
  shows "wf c K r"
proof -
  have "rq_fits c (rqueue_init c)"
    using rq_good_init [of c] assms(1) by (simp add: rq_fits_def cfg_fits_def) (simp add: rqueue_init_def list_all_length)
  moreover have "cr_inv c (cr_init c k ct)" for k ct
    using assms(1) by (auto simp: cfg_fits_def intro: cr_init_inv)
  moreover note ar_good_init [OF assms(1,5), of "2 * f"]
  moreover from init obtain nd where "tbft_node_init c (res_transport res) (res_atimer res) i f n m t = Some nd" "nd = r_node r"
    by (auto simp: tbft_replica_init_def replica_fields_def Let_def split: option.splits prod.splits if_splits)
  then have "r_id r = i" by (auto simp: tbft_node_init_def Let_def split: if_splits option.splits prod.splits dest!: arg_cong [where f = nd_node_id])
  ultimately show ?thesis using assms(1-4) init
    by (auto simp: tbft_replica_init_def replica_fields_def Let_def wf_def execs_def split: option.splits prod.splits if_splits)
qed

lemma wf_boot:
  assumes "wf c K r" "nd_node_id nd = r_id r"
  shows "wf c K (boot_replica D nd (set_periods c cfg r))"
  using assms by (simp add: wf_def boot_replica_def set_periods_def execs_def Let_def)

lemma wf_byz_init:
  assumes "cfg_fits c" "hash_len_ok (k_hash K)" "ndet_ok ndet_cb"
    and init: "Byz_init_replica c D file priv local_id mem exec_cb ndet_cb nl rb b0 = (0, b)"
    and r: "by_replica b = Some r" "k_id K = r_id r" "k_quorum K = 2 * nd_max_faulty (r_node r) + 1"
  shows "wf c K r"
proof (rule Byz_init_replica_cases [OF init])
  fix cfg l r0 nd
  assume r0: "tbft_replica_init c (dv_res D) l (bc_f cfg) (bc_num_replicas cfg) (bc_num_nodes cfg)
      (bc_auth_timeout_ms cfg * 1000) mem (Some (exec_adapter exec_cb)) ndet_cb nl rb = Some r0"
    and nd: "setup_principals (dv_psa D) (dv_principal_alloc D) (dv_files D) (dv_addr D) cfg priv l (r_node r0) = (True, nd)"
    and boot: "by_replica b = Some (boot_replica D nd (set_periods c cfg r0))"
  from boot r(1) have r': "r = boot_replica D nd (set_periods c cfg r0)" by simp
  then have node: "r_node r = nd" by (simp add: boot_replica_def Let_def)
  have "\<exists>nd0. tbft_node_init c (res_transport (dv_res D)) (res_atimer (dv_res D)) l (bc_f cfg) (bc_num_replicas cfg)
      (bc_num_nodes cfg) (bc_auth_timeout_ms cfg * 1000) = Some nd0 \<and> r_node r0 = nd0"
    using r0 by (auto simp: tbft_replica_init_def replica_fields_def Let_def split: option.splits prod.splits if_splits)
  with node_init_identity setup_identity [OF nd] have "nd_max_faulty nd = bc_f cfg" "nd_node_id nd = l" "r_id r0 = l"
    by (auto simp: same_identity_def)
  with r(2,3) node have "wf c K r0" by (intro wf_init [OF assms(1-3) _ _ r0]) auto
  then show "wf c K r" unfolding r' using \<open>nd_node_id nd = l\<close> \<open>r_id r0 = l\<close> by (intro wf_boot) auto
qed

text \<open>The claims of a run that starts in \<open>r\<close>.\<close>

definition claims_of :: "(bytes \<Rightarrow> bytes option) \<Rightarrow> (int \<times> int \<times> digest) list \<Rightarrow> replica \<Rightarrow> claims" where
  "claims_of H heard r = \<lparr> k_hash = H, k_heard = set heard, k_id = r_id r, k_quorum = 2 * nd_max_faulty (r_node r) + 1,
     k_group = nd_num_replicas (r_node r) \<rparr>"

lemma wf_deployed:
  assumes "cfg_fits c" "hash_len_ok H" "ndet_ok ndet_cb"
    and "Byz_init_replica c D file priv local_id mem exec_cb ndet_cb nl rb b0 = (0, b)"
    and "by_replica b = Some r"
    and "list_all (\<lambda>x. msg_fits c (in_msg x) (in_recv x) \<and> e_hash (in_env x) = H) rounds"
  shows "wf c (claims_of H (heard_commits c E0 t0 barrier t1 rounds r) r) (tbft_replica_run c E0 t0 barrier t1 rounds r)"
proof (rule wf_run)
  show "wf c (claims_of H (heard_commits c E0 t0 barrier t1 rounds r) r) r"
    by (rule wf_byz_init [OF assms(1) _ assms(3-5)]) (simp_all add: claims_of_def assms(2))
qed (use assms(6) in \<open>simp_all add: claims_of_def list_all_iff round_ok_def\<close>)

section \<open>Properties\<close>

text \<open>A request that is backed by a quorum: \<open>2f + 1\<close> distinct nodes, each of them the replica itself or
  one of those heard to commit to the hash of this request.\<close>

definition backed_by_quorum :: "(bytes \<Rightarrow> bytes option) \<Rightarrow> node \<Rightarrow> (int \<times> int \<times> digest) list \<Rightarrow> bytes \<Rightarrow> bool" where
  "backed_by_quorum H nd heard req \<longleftrightarrow> (\<exists>Q. 2 * nd_max_faulty nd + 1 \<le> int (card Q) \<and>
     (\<forall>j \<in> Q. j = nd_node_id nd \<or> (\<exists>n. (j, n, tbft_msg_digest H req) \<in> set heard)))"


definition replica_inv :: "config \<Rightarrow> int \<Rightarrow> replica \<Rightarrow> bool" where
  "replica_inv c i r \<longleftrightarrow> ar_inv c (r_ar r) \<and> cr_inv c (r_cr r) \<and> rq_good c (r_rqueue r) \<and> rq_good c (r_ro_rqueue r) \<and>
     TBFT_MAX_MESSAGE_SIZE c \<le> length (r_out_buf r) \<and> 0 \<le> r_last_executed r \<and> r_id r = i"


section \<open>Witnesses\<close>

lemma small_config_fits: "cfg_fits small_config"
  using small_config_ok
  by (simp add: cfg_fits_def) (simp add: small_config_def default_config_def INT32_MAX_def TBFT_AUTH_SIZE_def)

lemma toy_hash_len: "hash_len_ok (psa_hash_compute toy_psa)"
  by (auto simp: hash_len_ok_def toy_psa_def)

definition sample_round :: round_in where
  "sample_round = \<lparr> in_env = quiet_env, in_tick = 0, in_recv = 72, in_msg = 6 # replicate 303 0 \<rparr>"

lemma sample_round_ok:
  "msg_fits small_config (in_msg sample_round) (in_recv sample_round) \<and> e_hash (in_env sample_round) = psa_hash_compute toy_psa"
  by (simp add: msg_fits_def sample_round_def quiet_env_def small_config_def)

lemma sample_replica:
  "\<exists>b r. Byz_init_replica small_config sample_device sample_file None 0 [1, 2] None None 0 False (byz_start small_config) = (0, b) \<and>
     by_replica b = Some r"
  using sample_boot byz_init_core by blast



end
