(* ===== verification/Replica_Votes.thy ===== *)
theory Replica_Votes
  imports Replica_WF
begin

text \<open>
  The votes of one sequence number.  As long as no message moves the view, a commit certificate records
  the votes for its own sequence number only (\<open>ar_bound\<close>), a stored pre-prepare keeps its digest until
  the window has passed it (\<open>ar_keeps\<close>), and so the replica sends Commits for one digest per sequence
  number (\<open>vote_once\<close>).  The invariant of a run is \<open>bound\<close>; here it is shown for the updates of single
  fields, for messages sent, by the tags of what a replica builds, and for the own Commit.
\<close>

section \<open>Votes of a sequence number\<close>

text \<open>The Commits a replica has sent, and the votes that its certificates may record: \<open>n\<close> is the number
  of the slice, a message carries it as an \<open>int64_t\<close>.\<close>

fun commit_of :: "int \<Rightarrow> event \<Rightarrow> (int \<times> int \<times> digest) list" where
  "commit_of i (Sent b dest) = (if hdr_tag b = tag_val TBFT_MSG_COMMIT then [(i, cm_seqno b, cm_digest b)] else [])"
| "commit_of i e = []"

definition sent_commits :: "replica \<Rightarrow> (int \<times> int \<times> digest) list" where
  "sent_commits r = concat (map (commit_of (r_id r)) (r_trace r))"

definition voted :: "claims \<Rightarrow> replica \<Rightarrow> int \<Rightarrow> int \<Rightarrow> digest \<Rightarrow> bool" where
  "voted K r n i d \<longleftrightarrow> 0 \<le> i \<and> i < k_group K \<and> (i, i64 n, d) \<in> set (sent_commits r) \<union> k_heard K"

text \<open>The stored pre-prepare of slice \<open>n\<close> carries its tag and its number.\<close>

definition pp_named :: "int \<Rightarrow> prepared_cert \<Rightarrow> bool" where
  "pp_named n p \<longleftrightarrow> (0 < pc_pp_len p \<longrightarrow>
     hdr_tag (pc_pp_buf p) = tag_val TBFT_MSG_PRE_PREPARE \<and> pp_seqno (pc_pp_buf p) = i64 n)"

definition ar_bound :: "config \<Rightarrow> (int \<Rightarrow> int \<Rightarrow> digest \<Rightarrow> bool) \<Rightarrow> agreement_region \<Rightarrow> bool" where
  "ar_bound c P ar \<longleftrightarrow> (\<forall>n. ar_in_range c ar n \<longrightarrow>
     votes_ok c (P n) (sl_commit (ar_slice ar n)) \<and> pp_named n (sl_prepared (ar_slice ar n)))"

text \<open>The digest of a stored pre-prepare stays, until the head of the window passes it.\<close>

definition ar_keeps :: "config \<Rightarrow> agreement_region \<Rightarrow> agreement_region \<Rightarrow> bool" where
  "ar_keeps c ar ar' \<longleftrightarrow> ar_head ar \<le> ar_head ar' \<and>
     (\<forall>n pp. ar_head ar' \<le> n \<longrightarrow> fst (ar_load_pp c ar n) = Some pp \<longrightarrow>
        (\<exists>pp'. fst (ar_load_pp c ar' n) = Some pp' \<and> pp_digest pp' = pp_digest pp))"

text \<open>One digest \<open>g n\<close> for each sequence number that the replica has voted for; a number in the window
  has it from the stored pre-prepare.\<close>

definition vote_once :: "config \<Rightarrow> replica \<Rightarrow> bool" where
  "vote_once c r \<longleftrightarrow> 0 \<le> ar_head (r_ar r) \<and>
     (\<exists>g. \<forall>(i, m, d) \<in> set (sent_commits r). \<exists>n. 0 \<le> n \<and> n < ar_head (r_ar r) + int (TBFT_WINDOW_SIZE c) \<and>
        m = i64 n \<and> d = g n \<and>
        (ar_head (r_ar r) \<le> n \<longrightarrow> (\<exists>pp. fst (ar_load_pp c (r_ar r) n) = Some pp \<and> pp_digest pp = d)))"

definition seq_quorum :: "claims \<Rightarrow> replica \<Rightarrow> int \<Rightarrow> bytes \<Rightarrow> bool" where
  "seq_quorum K r n req \<longleftrightarrow>
     (\<exists>Q. k_quorum K \<le> int (card Q) \<and> (\<forall>i \<in> Q. voted K r n i (tbft_msg_digest (k_hash K) req)))"

definition node_ok :: "claims \<Rightarrow> node \<Rightarrow> bool" where
  "node_ok K nd \<longleftrightarrow> nd_transport nd \<and> nd_num_replicas nd = k_group K \<and> k_group K \<le> 64 \<and>
     0 \<le> nd_node_id nd \<and> nd_node_id nd < k_group K"

text \<open>A callback that keeps its reply within the message buffer.\<close>

definition replies_fit :: "config \<Rightarrow> exec_cb option \<Rightarrow> bool" where
  "replies_fit c cb \<longleftrightarrow> (case cb of None \<Rightarrow> True
     | Some f \<Rightarrow> \<forall>req nd i ro st. fst (snd (snd (f req nd i ro st))) \<le> int (TBFT_MAX_MESSAGE_SIZE c))"

definition bound :: "config \<Rightarrow> claims \<Rightarrow> replica \<Rightarrow> bool" where
  "bound c K r \<longleftrightarrow> node_ok K (r_node r) \<and> ar_bound c (voted K r) (r_ar r) \<and>
     list_all (\<lambda>(n, req, rc). seq_quorum K r n req) (execs r) \<and> vote_once c r \<and> replies_fit c (r_exec_cb r)"

lemma votes_ok_mono: "votes_ok c P ct \<Longrightarrow> (\<And>i d. P i d \<Longrightarrow> Q i d) \<Longrightarrow> votes_ok c Q ct"
  by (auto simp: votes_ok_def)

lemma ar_bound_mono: "ar_bound c P ar \<Longrightarrow> (\<And>n i d. P n i d \<Longrightarrow> Q n i d) \<Longrightarrow> ar_bound c Q ar"
  by (auto simp: ar_bound_def intro: votes_ok_mono)

section \<open>The agreement region\<close>

lemma load_pp_slice:
  "fst (ar_load_pp c ar n) = (if ar_in_range c ar n then prepared_cert_pp (sl_prepared (ar_slice ar n)) else None)"
  by (simp add: ar_load_pp_def)

lemma ar_keeps_refl: "ar_keeps c ar ar"
  by (simp add: ar_keeps_def)

lemma ar_keeps_trans: "ar_keeps c a b \<Longrightarrow> ar_keeps c b d \<Longrightarrow> ar_keeps c a d"
  unfolding ar_keeps_def by (smt (verit))

lemma ar_bound_same:
  assumes "ar_bound c P ar" "\<And>sl. sl_commit (f sl) = sl_commit sl" "\<And>sl. sl_prepared (f sl) = sl_prepared sl"
  shows "ar_bound c P (ar_upd ar n f)" "ar_keeps c ar (ar_upd ar n f)"
proof -
  have "sl_commit (ar_slice (ar_upd ar n f) m) = sl_commit (ar_slice ar m) \<and>
      sl_prepared (ar_slice (ar_upd ar n f) m) = sl_prepared (ar_slice ar m)" for m
    using assms(2,3) by (cases "ar_slot ar n < length (ar_slices ar)")
      (auto simp: ar_slice_def ar_upd_def ar_slot_def nth_list_update list_update_beyond)
  moreover have "ar_head (ar_upd ar n f) = ar_head ar" by (simp add: ar_upd_def)
  ultimately show "ar_bound c P (ar_upd ar n f)" "ar_keeps c ar (ar_upd ar n f)"
    using assms(1) by (simp_all add: ar_bound_def ar_keeps_def load_pp_slice)
qed

lemma ar_head_truncate: "ar_head (ar_truncate c ar h) = max (ar_head ar) h"
  by (simp add: ar_truncate_def Let_def)

lemma ar_bound_truncate:
  assumes "ar_bound c P ar" "ar_inv c ar"
  shows "ar_bound c P (ar_truncate c ar h)" "ar_keeps c ar (ar_truncate c ar h)"
proof -
  have "votes_ok c (P n) (sl_commit (ar_fresh c ar)) \<and> pp_named n (sl_prepared (ar_fresh c ar))" for n
    using cert_init_holds [of c "commit_kind c"]
    by (force simp: votes_ok_def ar_fresh_def slice_init_def pp_named_def prepared_cert_init_def)
  then show "ar_bound c P (ar_truncate c ar h)" using assms by (auto simp: ar_bound_def ar_slice_truncate)
  have "ar_in_range c (ar_truncate c ar h) n" if "ar_in_range c ar n" "max (ar_head ar) h \<le> n" for n
    using that by (auto simp: ar_in_range_def ar_head_truncate)
  then show "ar_keeps c ar (ar_truncate c ar h)"
    using ar_slice_truncate [OF assms(2)] by (auto simp: ar_keeps_def load_pp_slice ar_head_truncate split: if_splits)
qed

fun op_bound :: "(int \<Rightarrow> int \<Rightarrow> digest \<Rightarrow> bool) \<Rightarrow> ar_op \<Rightarrow> bool" where
  "op_bound P (Add_commit n m l i) \<longleftrightarrow> nat l \<le> length m \<and> (hdr_tag m = tag_val TBFT_MSG_COMMIT \<longrightarrow> P n i (cm_digest m))"
| "op_bound P (Add_my_commit n m l i) \<longleftrightarrow> nat l \<le> length m \<and> (hdr_tag m = tag_val TBFT_MSG_COMMIT \<longrightarrow> P n i (cm_digest m))"
| "op_bound P (Store_pp now n m l) \<longleftrightarrow> nat l \<le> length m \<and> 72 \<le> l \<and>
     hdr_tag m = tag_val TBFT_MSG_PRE_PREPARE \<and> pp_seqno m = i64 n"
| "op_bound P op \<longleftrightarrow> True"

text \<open>A slot that has a pre-prepare takes another one for its number with the same digest only.\<close>

lemma add_pp_named:
  assumes "pp_named n p" "nat l \<le> length m" "72 \<le> l" "hdr_tag m = tag_val TBFT_MSG_PRE_PREPARE" "pp_seqno m = i64 n"
  shows "pp_named n (snd (prepared_cert_add_pp c now p m l))"
    and "prepared_cert_pp p = Some pp \<Longrightarrow>
      \<exists>pp'. prepared_cert_pp (snd (prepared_cert_add_pp c now p m l)) = Some pp' \<and> pp_digest pp' = pp_digest pp"
proof -
  have f: "field o' k (pc_pp_buf (prepared_cert_store_pp now p m l)) = field o' k m" if "o' + k \<le> 72" for o' k
    using that assms(2,3) by (simp add: prepared_cert_store_pp_def field_put_prefix)
  have "hdr_tag (pc_pp_buf (prepared_cert_store_pp now p m l)) = hdr_tag m"
    "pp_seqno (pc_pp_buf (prepared_cert_store_pp now p m l)) = pp_seqno m"
    "pp_digest (pc_pp_buf (prepared_cert_store_pp now p m l)) = pp_digest m"
    using rd_field_cong(1) [OF f [of 0 2]] rd_field_cong(3) [OF f [of 24 8]] f [of 32 32]
    by (simp_all add: hdr_tag_def pp_seqno_def pp_digest_def)
  moreover have "pc_pp_len (prepared_cert_store_pp now p m l) = l" by (simp add: prepared_cert_store_pp_def)
  ultimately show "pp_named n (snd (prepared_cert_add_pp c now p m l))"
    "prepared_cert_pp p = Some pp \<Longrightarrow>
      \<exists>pp'. prepared_cert_pp (snd (prepared_cert_add_pp c now p m l)) = Some pp' \<and> pp_digest pp' = pp_digest pp"
    using assms by (auto simp: pp_named_def prepared_cert_add_pp_def prepared_cert_pp_def split: if_splits)
qed

lemma ar_bound_step:
  assumes "ar_bound c P ar" "ar_inv c ar" "op_bound P op"
  shows "ar_bound c P (ar_step c op ar)" "ar_keeps c ar (ar_step c op ar)"
proof -
  have "ar_bound c P (ar_step c op ar) \<and> ar_keeps c ar (ar_step c op ar)"
  proof (cases "op_seqno op")
    case None
    then show ?thesis using assms by (cases op) (auto simp: ar_bound_truncate)
  next
    case (Some n)
    let ?sl = "ar_slice ar n"
    have one: "votes_ok c (P n) (sl_commit (op_slice c op ?sl)) \<and> pp_named n (sl_prepared (op_slice c op ?sl)) \<and>
        (\<forall>pp. prepared_cert_pp (sl_prepared ?sl) = Some pp \<longrightarrow>
          (\<exists>pp'. prepared_cert_pp (sl_prepared (op_slice c op ?sl)) = Some pp' \<and> pp_digest pp' = pp_digest pp))"
      if "ar_in_range c ar n"
      using that assms Some votes_ok_add [of c "P n" "sl_commit ?sl"] add_pp_named [of n "sl_prepared ?sl"]
      by (cases op) (auto simp: ar_bound_def prepared_cert_add_prepare_def prepared_cert_add_my_prepare_def
          prepared_cert_pp_def pp_named_def split_beta)
    have "ar_head (ar_upd ar n f) = ar_head ar" for f by (simp add: ar_upd_def)
    with one show ?thesis using assms(1) ar_slice_upd [OF assms(2)]
      by (auto simp: ar_step_upd [OF Some] ar_bound_def ar_keeps_def load_pp_slice split: if_splits)
  qed
  then show "ar_bound c P (ar_step c op ar)" "ar_keeps c ar (ar_step c op ar)" by simp_all
qed

named_theorems bound_simps

lemma ar_keeps_vote:
  assumes "ar_inv c ar" "op_seqno op = Some n" "\<And>sl. prepared_cert_pp (sl_prepared (op_slice c op sl)) = prepared_cert_pp (sl_prepared sl)"
  shows "ar_keeps c ar (ar_step c op ar)"
proof -
  have "ar_head (ar_upd ar n f) = ar_head ar" for f by (simp add: ar_upd_def)
  then show ?thesis using assms ar_slice_upd [OF assms(1)]
    by (auto simp: ar_step_upd [OF assms(2)] ar_keeps_def load_pp_slice split: if_splits)
qed

lemma region_keeps [bound_simps]:
  assumes "ar_inv c ar"
  shows "ar_keeps c ar (snd (ar_add_prepare c ar n m l i))" "ar_keeps c ar (snd (ar_add_my_prepare c ar n m l i))"
    "ar_keeps c ar (snd (ar_add_commit c ar n m l i))" "ar_keeps c ar (snd (ar_add_my_commit c ar n m l i))"
  using ar_keeps_vote [OF assms, of "Add_prepare n m l i"] ar_keeps_vote [OF assms, of "Add_my_prepare n m l i"]
    ar_keeps_vote [OF assms, of "Add_commit n m l i"] ar_keeps_vote [OF assms, of "Add_my_commit n m l i"]
  by (simp_all add: prepared_cert_add_prepare_def prepared_cert_add_my_prepare_def prepared_cert_pp_def split_beta)

lemma region_ops_bound [bound_simps]:
  assumes "ar_bound c P ar" "ar_inv c ar"
  shows "ar_bound c P (snd (ar_add_prepare c ar n m l i))" "ar_bound c P (snd (ar_add_my_prepare c ar n m l i))"
    "nat l \<le> length m \<Longrightarrow> hdr_tag m = tag_val TBFT_MSG_COMMIT \<longrightarrow> P n i (cm_digest m) \<Longrightarrow>
       ar_bound c P (snd (ar_add_commit c ar n m l i))"
    "nat l \<le> length m \<Longrightarrow> hdr_tag m = tag_val TBFT_MSG_COMMIT \<longrightarrow> P n i (cm_digest m) \<Longrightarrow>
       ar_bound c P (snd (ar_add_my_commit c ar n m l i))"
  using ar_bound_step [OF assms, of "Add_prepare n m l i"] ar_bound_step [OF assms, of "Add_my_prepare n m l i"]
    ar_bound_step [OF assms, of "Add_commit n m l i"] ar_bound_step [OF assms, of "Add_my_commit n m l i"]
  by simp_all

lemma region_store_bound:
  assumes "ar_bound c P ar" "ar_inv c ar" "nat l \<le> length m" "72 \<le> l" "hdr_tag m = tag_val TBFT_MSG_PRE_PREPARE" "pp_seqno m = i64 n"
  shows "ar_bound c P (snd (ar_store_pp c now ar n m l))" "ar_keeps c ar (snd (ar_store_pp c now ar n m l))"
  using ar_bound_step [OF assms(1,2), of "Store_pp now n m l"] assms(3-6) by simp_all

section \<open>Fields and events\<close>

lemma bound_upd [bound_simps]:
  "bound c K (r\<lparr> r_state := st \<rparr>) = bound c K r" "bound c K (r\<lparr> r_cr := cr \<rparr>) = bound c K r"
  "bound c K (r\<lparr> r_rqueue := q \<rparr>) = bound c K r" "bound c K (r\<lparr> r_ro_rqueue := q \<rparr>) = bound c K r"
  "bound c K (r\<lparr> r_out_buf := b \<rparr>) = bound c K r" "bound c K (r\<lparr> r_last_executed := n \<rparr>) = bound c K r"
  "bound c K (r\<lparr> r_vi := vi \<rparr>) = bound c K r" "bound c K (r\<lparr> r_sr := sr \<rparr>) = bound c K r" "bound c K (r\<lparr> r_vtimer := t \<rparr>) = bound c K r"
  "bound c K (r\<lparr> r_stimer := t \<rparr>) = bound c K r" "bound c K (r\<lparr> r_seqno := n \<rparr>) = bound c K r"
  "bound c K (r\<lparr> r_last_prepared := n \<rparr>) = bound c K r" "bound c K (r\<lparr> r_last_stable := n \<rparr>) = bound c K r"
  "bound c K (r\<lparr> r_quorum_last_stable := n \<rparr>) = bound c K r" "bound c K (r\<lparr> r_last_fetch_throttle_us := n \<rparr>) = bound c K r"
  "bound c K (r\<lparr> r_last_ckpt_throttle_us := n \<rparr>) = bound c K r" "bound c K (r\<lparr> r_last_catchup_completed_us := n \<rparr>) = bound c K r"
  "bound c K (r\<lparr> r_catchup_us := n \<rparr>) = bound c K r" "bound c K (r\<lparr> r_ndet_buf := b \<rparr>) = bound c K r"
  "bound c K (r\<lparr> r_pending_fill_seqno := n \<rparr>) = bound c K r" "bound c K (r\<lparr> r_fill_started_at_us := n \<rparr>) = bound c K r"
  "bound c K (r\<lparr> r_last_received_rid := x \<rparr>) = bound c K r" "bound c K (r\<lparr> r_last_executed_rid := x \<rparr>) = bound c K r"
  "bound c K (r\<lparr> r_last_forwarded_rid := x \<rparr>) = bound c K r" "bound c K (r\<lparr> r_last_assigned_cid := n \<rparr>) = bound c K r"
  "bound c K (r\<lparr> r_last_assigned_rid := w \<rparr>) = bound c K r" "bound c K (r\<lparr> r_consecutive_mac_failures := n \<rparr>) = bound c K r"
  "bound c K (r\<lparr> r_evt_vtimer := v \<rparr>) = bound c K r" "bound c K (r\<lparr> r_evt_stimer := v \<rparr>) = bound c K r"
  "bound c K (r\<lparr> r_yield_counter := n \<rparr>) = bound c K r" "bound c K (r\<lparr> r_running := v \<rparr>) = bound c K r"
  by (simp_all add: bound_def seq_quorum_def voted_def [abs_def] sent_commits_def execs_def vote_once_def)

lemma voted_ar [simp]: "voted K (r\<lparr> r_ar := ar \<rparr>) = voted K r"
  by (simp add: voted_def [abs_def] sent_commits_def)

lemma sent_commits_ar [simp]: "sent_commits (r\<lparr> r_ar := ar \<rparr>) = sent_commits r"
  by (simp add: sent_commits_def)

lemma vote_once_ar:
  assumes "vote_once c r" "ar_keeps c (r_ar r) ar"
  shows "vote_once c (r\<lparr> r_ar := ar \<rparr>)"
proof -
  from assms(1) obtain g where g: "0 \<le> ar_head (r_ar r)" "\<And>i m d. (i, m, d) \<in> set (sent_commits r) \<Longrightarrow>
      \<exists>n. 0 \<le> n \<and> n < ar_head (r_ar r) + int (TBFT_WINDOW_SIZE c) \<and> m = i64 n \<and> d = g n \<and>
        (ar_head (r_ar r) \<le> n \<longrightarrow> (\<exists>pp. fst (ar_load_pp c (r_ar r) n) = Some pp \<and> pp_digest pp = d))"
    unfolding vote_once_def by blast
  note k = assms(2) [unfolded ar_keeps_def]
  have "\<exists>n. 0 \<le> n \<and> n < ar_head ar + int (TBFT_WINDOW_SIZE c) \<and> m = i64 n \<and> d = g n \<and>
      (ar_head ar \<le> n \<longrightarrow> (\<exists>pp. fst (ar_load_pp c ar n) = Some pp \<and> pp_digest pp = d))"
    if "(i, m, d) \<in> set (sent_commits r)" for i m d
  proof -
    from g(2) [OF that] obtain n where n: "0 \<le> n" "n < ar_head (r_ar r) + int (TBFT_WINDOW_SIZE c)" "m = i64 n" "d = g n"
      "ar_head (r_ar r) \<le> n \<Longrightarrow> \<exists>pp. fst (ar_load_pp c (r_ar r) n) = Some pp \<and> pp_digest pp = d" by blast
    have "\<exists>pp. fst (ar_load_pp c ar n) = Some pp \<and> pp_digest pp = d" if "ar_head ar \<le> n"
      using n(5) k that by (metis order_trans)
    with n(1-4) k show ?thesis by (intro exI [of _ n]) auto
  qed
  with g(1) k show ?thesis unfolding vote_once_def by (auto intro!: exI [of _ g])
qed

lemma bound_ar [bound_simps]:
  "bound c K r \<Longrightarrow> ar_bound c (voted K r) ar \<Longrightarrow> ar_keeps c (r_ar r) ar \<Longrightarrow> bound c K (r\<lparr> r_ar := ar \<rparr>)"
  using vote_once_ar [of c r ar] by (simp add: bound_def seq_quorum_def execs_def)

lemma bound_node [bound_simps]:
  "bound c K r \<Longrightarrow> nd_node_id nd = r_id r \<Longrightarrow> node_ok K nd \<Longrightarrow> bound c K (r\<lparr> r_node := nd \<rparr>)"
  by (simp add: bound_def seq_quorum_def voted_def [abs_def] sent_commits_def execs_def vote_once_def)

lemma boundD: "bound c K r \<Longrightarrow> ar_bound c (voted K r) (r_ar r)" "bound c K r \<Longrightarrow> nd_transport (r_node r)"
  "bound c K r \<Longrightarrow> node_ok K (r_node r)" "bound c K r \<Longrightarrow> vote_once c r" "bound c K r \<Longrightarrow> replies_fit c (r_exec_cb r)"
  by (simp_all add: bound_def node_ok_def)

lemma voted_emit: "voted K r n i d \<Longrightarrow> voted K (emit e r) n i d"
  by (auto simp: voted_def sent_commits_def emit_def)

lemma seq_quorum_emit: "seq_quorum K r n req \<Longrightarrow> seq_quorum K (emit e r) n req"
  unfolding seq_quorum_def using voted_emit by blast

lemma bound_emit:
  assumes "bound c K r" "\<And>n req rc. e = Exec_cb n req rc \<Longrightarrow> seq_quorum K r n req" "vote_once c (emit e r)"
  shows "bound c K (emit e r)"
proof -
  have "execs (emit e r) = execs r \<or> (\<exists>n req rc. e = Exec_cb n req rc \<and> execs (emit e r) = execs r @ [(n, req, rc)])"
    by (cases e) (auto simp: execs_simps)
  then have "list_all (\<lambda>(n, req, rc). seq_quorum K (emit e r) n req) (execs (emit e r))"
    using assms(1,2) seq_quorum_emit [of K r _ _ e] by (fastforce simp: bound_def list_all_iff)
  then show ?thesis using assms(1,3) ar_bound_mono [of c "voted K r" "r_ar r" "voted K (emit e r)"] voted_emit
    by (auto simp: bound_def emit_def)
qed

text \<open>Messages that no replica takes for a Commit, also when they are cut short.\<close>

definition no_commit :: "bytes \<Rightarrow> bool" where
  "no_commit b \<longleftrightarrow> (\<forall>n. hdr_tag (take n b) \<noteq> tag_val TBFT_MSG_COMMIT)"

lemma no_commit_take [bound_simps]: "no_commit b \<Longrightarrow> no_commit (take n b)"
  by (simp add: no_commit_def)

lemma no_commit_tag: "no_commit b \<Longrightarrow> hdr_tag b \<noteq> tag_val TBFT_MSG_COMMIT"
  unfolding no_commit_def by (metis take_all order_refl)

lemma no_commitI:
  assumes "hdr_tag b = tag_val t" "t \<noteq> TBFT_MSG_COMMIT"
  shows "no_commit b"
proof -
  have "hdr_tag (take n b) \<noteq> tag_val TBFT_MSG_COMMIT" for n
  proof (cases "n < 2")
    case True
    let ?x = "byte_at b 0" and ?y = "byte_at b 1"
    have two: "le_val (field 0 2 b') = uint (byte_at b' 0) + 256 * uint (byte_at b' 1)" for b'
      by (simp add: field_def upt_rec)
    have i16: "i16 v = (v + 32768) mod 65536 - 32768" for v
      by (simp add: i16_def signed_take_bit_eq_take_bit_shift take_bit_eq_mod)
    have range: "0 \<le> uint ?x" "uint ?x < 256" "0 \<le> uint ?y" "uint ?y < 256"
      using uint_lt2p [of ?x] uint_lt2p [of ?y] by simp_all
    have t: "0 < tag_val t" "tag_val t < 256" "tag_val t \<noteq> tag_val TBFT_MSG_COMMIT" using assms(2) by (cases t; simp)+
    have "(uint ?x + 256 * uint ?y + 32768) mod 65536 - 32768 = tag_val t"
      using assms(1) by (simp add: hdr_tag_def rd_i16_def two i16)
    moreover have "(v + 32768) mod 65536 = (if v < 32768 then v + 32768 else v - 32768)" if "0 \<le> v" "v < 65536" for v :: int
    proof (cases "v < 32768")
      case False
      with that have "(v - 32768) mod 65536 = v - 32768" by (intro mod_pos_pos_trivial) auto
      moreover have "v + 32768 = v - 32768 + 65536" by simp
      then have "(v + 32768) mod 65536 = (v - 32768) mod 65536" by (metis mod_add_self2)
      ultimately show ?thesis using False by (simp only: if_False)
    qed (use that in simp)
    ultimately have "uint ?x + 256 * uint ?y = tag_val t" using range t by (simp split: if_splits)
    with range t(1,2) have "uint ?x = tag_val t" by presburger
    moreover have "byte_at (take n b) 1 = 0" "byte_at (take n b) 0 = ?x \<or> byte_at (take n b) 0 = 0"
      using True by (auto simp: byte_at_def)
    ultimately show ?thesis using t by (auto simp: hdr_tag_def rd_i16_def two i16)
  next
    case False
    then have "hdr_tag (take n b) = hdr_tag b" using rd_field_cong(1) [OF field_take [of 0 2 n b]] by (simp add: hdr_tag_def)
    then show ?thesis using assms by (cases t) auto
  qed
  then show ?thesis by (simp add: no_commit_def)
qed

lemma sent_commits_emit:
  "sent_commits (emit e r) = sent_commits r @ commit_of (r_id r) e"
  by (simp add: sent_commits_def emit_def)

lemma vote_once_emit: "vote_once c r \<Longrightarrow> sent_commits (emit e r) = sent_commits r \<Longrightarrow> vote_once c (emit e r)"
  by (simp add: vote_once_def) (simp add: emit_def)

lemma bound_emits [bound_simps]:
  "bound c K r \<Longrightarrow> no_commit b \<Longrightarrow> bound c K (emit (Sent b d) r)" "bound c K r \<Longrightarrow> bound c K (emit (Reply_cb b d) r)"
  "bound c K r \<Longrightarrow> seq_quorum K r n req \<Longrightarrow> bound c K (emit (Exec_cb n req rc) r)"
  using no_commit_tag [of b]
  by (auto intro!: bound_emit vote_once_emit simp: sent_commits_emit boundD(4) simp del: tag_val.simps)

text \<open>A Commit for the stored pre-prepare.\<close>

lemma bound_emit_commit:
  assumes r: "bound c K r" and pp: "fst (ar_load_pp c (r_ar r) n) = Some pp"
    and b: "hdr_tag b = tag_val TBFT_MSG_COMMIT" "cm_seqno b = i64 n" "cm_digest b = pp_digest pp"
  shows "bound c K (emit (Sent b d) r)"
proof (rule bound_emit [OF r])
  from boundD(4) [OF r] obtain g where g: "0 \<le> ar_head (r_ar r)" "\<And>i m d. (i, m, d) \<in> set (sent_commits r) \<Longrightarrow>
      \<exists>n. 0 \<le> n \<and> n < ar_head (r_ar r) + int (TBFT_WINDOW_SIZE c) \<and> m = i64 n \<and> d = g n \<and>
        (ar_head (r_ar r) \<le> n \<longrightarrow> (\<exists>pp. fst (ar_load_pp c (r_ar r) n) = Some pp \<and> pp_digest pp = d))"
    unfolding vote_once_def by blast
  let ?h = "g(n := pp_digest pp)"
  from pp have n: "ar_head (r_ar r) \<le> n" "n < ar_head (r_ar r) + int (TBFT_WINDOW_SIZE c)"
    by (auto simp: load_pp_slice ar_in_range_def split: if_splits)
  have "\<exists>n. 0 \<le> n \<and> n < ar_head (r_ar r) + int (TBFT_WINDOW_SIZE c) \<and> m = i64 n \<and> d' = ?h n \<and>
        (ar_head (r_ar r) \<le> n \<longrightarrow> (\<exists>pp. fst (ar_load_pp c (r_ar r) n) = Some pp \<and> pp_digest pp = d'))"
    if v: "(i, m, d') \<in> set (sent_commits (emit (Sent b d) r))" for i m d'
  proof (cases "(i, m, d') \<in> set (sent_commits r)")
    case True
    from g(2) [OF this] obtain k where k: "0 \<le> k" "k < ar_head (r_ar r) + int (TBFT_WINDOW_SIZE c)" "m = i64 k" "d' = g k"
      "ar_head (r_ar r) \<le> k \<Longrightarrow> \<exists>pp. fst (ar_load_pp c (r_ar r) k) = Some pp \<and> pp_digest pp = d'" by blast
    then have "d' = ?h k" using n(1) pp by (cases "k = n") auto
    with k show ?thesis by blast
  next
    case False
    with v b have "m = i64 n" "d' = pp_digest pp" by (auto simp: sent_commits_emit)
    with n g(1) pp show ?thesis by (intro exI [of _ n]) auto
  qed
  with g(1) show "vote_once c (emit (Sent b d) r)" unfolding vote_once_def
    by (auto simp: emit_def intro!: exI [of _ ?h])
qed simp

lemma emit_fields [bound_simps]:
  "r_out_buf (emit e r) = r_out_buf r" "r_ar (emit e r) = r_ar r" "r_node (emit e r) = r_node r"
  by (simp_all add: emit_def)

lemma bound_sends [bound_simps]:
  "bound c K r \<Longrightarrow> no_commit b \<Longrightarrow> bound c K (send_to b d r)"
  "bound c K r \<Longrightarrow> no_commit (r_out_buf r) \<Longrightarrow> bound c K (send_out n d r)"
  by (simp_all add: send_out_def send_to_def bound_simps)

lemma bound_timers [bound_simps]:
  "bound c K (start_vtimer E us r) = bound c K r" "bound c K (stop_vtimer r) = bound c K r"
  "bound c K (rearm_vtimer E us r) = bound c K r"
  by (simp_all add: start_vtimer_def stop_vtimer_def rearm_vtimer_def bound_simps)

section \<open>The tags of the messages a replica builds\<close>

definition tagged :: "tbft_msg_tag \<Rightarrow> bytes \<Rightarrow> bool" where
  "tagged t b \<longleftrightarrow> 2 \<le> length b \<and> hdr_tag b = tag_val t"

lemma tagged_put: "tagged t b \<Longrightarrow> 2 \<le> off \<Longrightarrow> tagged t (put off xs b)"
proof -
  assume b: "tagged t b" "2 \<le> off"
  then have "field 0 2 (put off xs b) = field 0 2 b"
    by (auto simp: field_def tagged_def put_def byte_at_def nth_append upt_rec)
  moreover have "2 \<le> length (put off xs b)" using b by (auto simp: tagged_def put_def)
  ultimately show ?thesis using b rd_field_cong(1) [OF \<open>field 0 2 (put off xs b) = field 0 2 b\<close>] by (simp add: tagged_def hdr_tag_def)
qed

lemma tagged_writes:
  "tagged t (wr_i16 0 (tag_val t) b)"
  "tagged t b \<Longrightarrow> 2 \<le> off \<Longrightarrow> tagged t (wr_i16 off v b)" "tagged t b \<Longrightarrow> 2 \<le> off \<Longrightarrow> tagged t (wr_i32 off v b)"
  "tagged t b \<Longrightarrow> 2 \<le> off \<Longrightarrow> tagged t (wr_i64 off v b)" "tagged t b \<Longrightarrow> 2 \<le> off \<Longrightarrow> tagged t (wr_u64 off w b)"
proof -
  have "rd_i16 0 (wr_i16 0 (tag_val t) b) = tag_val t" using rd_wr_same(1) [of 0 b "tag_val t"] by (cases t) (simp_all add: i16_id)
  then show "tagged t (wr_i16 0 (tag_val t) b)" by (simp add: tagged_def hdr_tag_def wr_i16_def put_def)
qed (simp_all add: tagged_put wr_i16_def wr_i32_def wr_i64_def wr_u64_def)

lemmas tagged_intros = tagged_writes tagged_put

lemma tagged_no_commit: "tagged t b \<Longrightarrow> t \<noteq> TBFT_MSG_COMMIT \<Longrightarrow> no_commit b"
  by (auto simp: tagged_def intro: no_commitI)

lemma tagged_fold: "(\<And>x b. tagged t b \<Longrightarrow> tagged t (f x b)) \<Longrightarrow> tagged t b \<Longrightarrow> tagged t (fold f xs b)"
  by (induction xs arbitrary: b) auto

lemma built_tags:
  "tagged t (build_vote c E nd t n d buf)"
  "tagged TBFT_MSG_PRE_PREPARE (build_pp c E nd n d req ndet)"
  "tagged TBFT_MSG_CHECKPOINT (build_checkpoint c E nd n d buf)"
  "tagged TBFT_MSG_REPLY (reply_header r n req l a)"
  "tagged TBFT_MSG_STATUS (build_status E r)"
  "tagged TBFT_MSG_FILL_REQUEST (build_fill E r p)"
  "tagged TBFT_MSG_DATA (build_data c st n level index buf)"
  "tagged TBFT_MSG_META_DATA (build_meta_data st n level index count first buf)"
  by (simp_all add: build_vote_def build_pp_def build_checkpoint_def reply_header_def build_status_def build_fill_def build_data_def
      build_meta_data_def put_auth_def Let_def tagged_intros tagged_fold del: tag_val.simps split: option.split)

lemma built_no_commit [bound_simps]:
  "t \<noteq> TBFT_MSG_COMMIT \<Longrightarrow> no_commit (build_vote c E nd t n d buf)" "no_commit (build_pp c E nd n d req ndet)"
  "no_commit (build_checkpoint c E nd n d buf)" "no_commit (build_status E r)" "no_commit (build_fill E r p)"
  "no_commit (build_data c st n level index buf)" "no_commit (build_meta_data st n level index count first buf)"
  by (rule tagged_no_commit [OF built_tags(1)] tagged_no_commit [OF built_tags(2)] tagged_no_commit [OF built_tags(3)]
      tagged_no_commit [OF built_tags(5)] tagged_no_commit [OF built_tags(6)] tagged_no_commit [OF built_tags(7)]
      tagged_no_commit [OF built_tags(8)]; simp)+

section \<open>The own Commit\<close>

lemma build_vote_fields:
  assumes "length d = 32" "72 \<le> length buf" "72 \<le> m"
  shows "hdr_tag (take m (build_vote c E nd tag n d buf)) = tag_val tag"
    "cm_seqno (take m (build_vote c E nd tag n d buf)) = i64 n" "cm_digest (take m (build_vote c E nd tag n d buf)) = d"
proof -
  let ?b = "wr_i32 64 (nd_node_id nd) (put 32 d (wr_i64 24 n (wr_i64 16 (nd_view nd) (wr_i64 8 (e_now E)
      (wr_i16 2 0 (wr_i16 0 (tag_val tag) buf))))))"
  have len: "72 \<le> length ?b" using assms(2) by (intro grow_trans)
  obtain x v where b: "build_vote c E nd tag n d buf = put 72 x (wr_i32 4 v ?b)"
    unfolding build_vote_def Let_def put_auth_def by simp
  have "72 \<le> length (wr_i32 4 v ?b)" using len by (rule grow_trans)
  then have low: "field o' k (take m (build_vote c E nd tag n d buf)) = field o' k ?b"
    if "o' + k \<le> 72" "o' + k \<le> 4 \<or> 8 \<le> o'" for o' k
    using that len assms(3) unfolding b by (auto simp: field_take field_put_other field_wr_other)
  show "hdr_tag (take m (build_vote c E nd tag n d buf)) = tag_val tag"
    using rd_field_cong(1) [OF low [of 0 2]] assms by (cases tag) (simp_all add: hdr_tag_def wire_simps i16_id)
  show "cm_seqno (take m (build_vote c E nd tag n d buf)) = i64 n"
    using rd_field_cong(3) [OF low [of 24 8]] assms by (simp add: cm_seqno_def wire_simps)
  show "cm_digest (take m (build_vote c E nd tag n d buf)) = d"
    using low [of 32 32] assms by (simp add: cm_digest_def wire_simps)
qed

lemma bound_send_commit [bound_simps]:
  assumes r: "wf c K r" "bound c K r"
  shows "bound c K (tbft_replica_send_commit c E n dest r)"
proof (cases "fst (ar_load_pp c (r_ar r) n)")
  case (Some pp)
  define b where "b = build_vote c E (r_node r) TBFT_MSG_COMMIT n (pp_digest pp) (r_out_buf r)"
  define sz where "sz = hdr_size b"
  define ar1 where "ar1 = snd (ar_add_my_commit c (r_ar r) n b sz (r_id r))"
  define ar2 where "ar2 = (if ar_in_range c ar1 n then ar_upd ar1 n (\<lambda>sl. sl\<lparr> sl_commit_sent_us := e_now E \<rparr>) else ar1)"
  define r0 where "r0 = emit (Sent (take (nat sz) b) dest) (r\<lparr> r_out_buf := b \<rparr>)"
  have eq: "tbft_replica_send_commit c E n dest r = r0\<lparr> r_ar := ar2 \<rparr>"
    using Some boundD(2) [OF r(2)]
    by (cases "ar_load_pp c (r_ar r) n")
      (simp add: tbft_replica_send_commit_def Let_def send_out_def send_to_def emit_def
        b_def [symmetric] sz_def [symmetric] ar1_def [symmetric] ar2_def r0_def)
  have sz: "72 \<le> nat sz" "nat sz \<le> length b"
    using build_vote_buf(2,3) [OF wfD(1,6) [OF r(1)]] by (simp_all add: sz_def b_def)
  have "72 \<le> length (r_out_buf r)" using wfD(1,6) [OF r(1)] by (simp add: cfg_fits_def)
  then have f: "hdr_tag (take m b) = tag_val TBFT_MSG_COMMIT" "cm_seqno (take m b) = i64 n" "cm_digest (take m b) = pp_digest pp"
    if "72 \<le> m" for m
    using build_vote_fields [of "pp_digest pp" "r_out_buf r" m c E "r_node r" TBFT_MSG_COMMIT n] that
    by (simp_all add: b_def pp_digest_def)
  have rb: "bound c K (r\<lparr> r_out_buf := b \<rparr>)" "r_ar r0 = r_ar r"
    using r(2) by (simp_all add: bound_simps) (simp add: r0_def emit_def)
  have r0: "bound c K r0"
    unfolding r0_def by (rule bound_emit_commit [OF rb(1) _ f [OF sz(1)]]) (simp add: Some)
  have "voted K r0 n (r_id r) (pp_digest pp)"
    using boundD(3) [OF r(2)] f [OF sz(1)] by (auto simp: voted_def node_ok_def sent_commits_emit r0_def)
  moreover have "cm_digest b = pp_digest pp" using f(3) [of "length b"] sz by simp
  ultimately have one: "ar_bound c (voted K r0) ar1" "ar_keeps c (r_ar r0) ar1"
    using boundD(1) [OF r0] wfD(11) [OF r(1)] sz(2) rb(2) by (simp_all add: ar1_def bound_simps)
  then have "ar_bound c (voted K r0) ar2" "ar_keeps c ar1 ar2"
    by (simp_all add: ar2_def ar_bound_same ar_keeps_refl)
  with one(2) show ?thesis unfolding eq by (auto intro: bound_ar [OF r0] ar_keeps_trans)
next
  case None
  then show ?thesis using r(2) by (cases "ar_load_pp c (r_ar r) n") (simp add: tbft_replica_send_commit_def)
qed

end
