(* ===== verification/Replica_Agree.thy ===== *)
theory Replica_Agree
  imports Replica_Votes
begin

text \<open>
  Agreement between replicas.  The invariant \<open>bound\<close> of \<open>Replica_Votes\<close> is carried through the handlers
  and the event loop, for runs in which no message moves the view.  So two replicas that execute a request
  at one sequence number execute the same one: a quorum has voted for each of the two, the quorums share
  a replica that runs this code, and such a replica votes once.
\<close>

section \<open>Stability and execution\<close>

lemma bound_inv [bound_simps]: "wf c K r \<Longrightarrow> ar_inv c (r_ar r)"
  by (rule wfD)

lemma bound_region [bound_simps]: "bound c K r \<Longrightarrow> ar_bound c (voted K r) (r_ar r)"
  by (rule boundD)

lemma voted_upd [bound_simps]:
  "voted K (r\<lparr> r_state := st \<rparr>) = voted K r" "voted K (r\<lparr> r_out_buf := b \<rparr>) = voted K r"
  "voted K (r\<lparr> r_cr := cr \<rparr>) = voted K r" "voted K (r\<lparr> r_last_stable := n \<rparr>) = voted K r"
  "voted K (r\<lparr> r_quorum_last_stable := n \<rparr>) = voted K r" "voted K (r\<lparr> r_last_prepared := n \<rparr>) = voted K r"
  "voted K (r\<lparr> r_last_executed := n \<rparr>) = voted K r" "voted K (r\<lparr> r_pending_fill_seqno := n \<rparr>) = voted K r"
  "voted K (r\<lparr> r_fill_started_at_us := n \<rparr>) = voted K r" "voted K (r\<lparr> r_last_received_rid := x \<rparr>) = voted K r"
  "voted K (r\<lparr> r_ndet_buf := b \<rparr>) = voted K r" "voted K (r\<lparr> r_consecutive_mac_failures := k \<rparr>) = voted K r"
  by (simp_all add: voted_def [abs_def] sent_commits_def)

lemma bound_send_prepare [bound_simps]: "wf c K r \<Longrightarrow> bound c K r \<Longrightarrow> bound c K (tbft_replica_send_prepare c E n r)"
  by (simp add: tbft_replica_send_prepare_def Let_def bound_simps split_beta split: option.split)

text \<open>A stored pre-prepare.\<close>

lemma loaded_no_commit:
  assumes "bound c K r" "ar_load_pp c (r_ar r) n = (Some pp, l)"
  shows "no_commit pp"
proof (rule no_commitI [where t = TBFT_MSG_PRE_PREPARE])
  show "hdr_tag pp = tag_val TBFT_MSG_PRE_PREPARE" using boundD(1) [OF assms(1)] arg_cong [OF assms(2), of fst]
    by (auto simp: ar_bound_def pp_named_def load_pp_slice prepared_cert_pp_def simp del: tag_val.simps split: if_splits)
qed simp

lemmas fetch_no_commit = tagged_no_commit [where t = TBFT_MSG_FETCH]

lemma bound_send_fetch [bound_simps]: "bound c K r \<Longrightarrow> bound c K (send_fetch l i r)"
  by (simp add: send_fetch_def Let_def bound_simps fetch_no_commit tagged_intros del: tag_val.simps)

lemma bound_fetch_loop [bound_simps]: "bound c K r \<Longrightarrow> bound c K (fetch_send_loop r)"
proof (induction r rule: fetch_send_loop.induct)
  case (1 r)
  then show ?case
    by (simp add: fetch_send_loop.simps [of r] bound_simps split: prod.split option.split)
qed

lemma bound_start_fetch [bound_simps]: "bound c K r \<Longrightarrow> bound c K (tbft_replica_start_fetch c E n q r)"
  by (simp add: tbft_replica_start_fetch_def bound_simps)

lemma bound_mark_stable [bound_simps]: "wf c K r \<Longrightarrow> bound c K r \<Longrightarrow> bound c K (tbft_replica_mark_stable c E n r)"
proof (rule mark_stable_cases [of c E n r])
  fix v assume r: "wf c K r" "bound c K r" and eq: "tbft_replica_mark_stable c E n r = mark_stable_install c E n v r"
  note ar_bound_truncate [OF boundD(1) [OF r(2)] wfD(11) [OF r(1)]]
  then show "bound c K (tbft_replica_mark_stable c E n r)" unfolding eq using r
    by (simp add: mark_stable_install_def Let_def bound_simps)
qed (simp_all add: mark_stable_mismatch_def bound_simps)

lemma bound_exec_reply [bound_simps]:
  assumes "wf c K r" "bound c K r" "l \<le> int (TBFT_MAX_MESSAGE_SIZE c)"
  shows "bound c K (exec_reply c E n req l r)"
proof (cases "l < 0")
  case False
  let ?a = "tbft_msg_align (i32 (48 + l))"
  have "TBFT_MAX_MESSAGE_SIZE c \<le> 65536" using wfD(1) [OF assms(1)] by (simp add: cfg_fits_def)
  with False assms(3) have "48 \<le> ?a" using msg_align_spec(2) [of "48 + l"] by (simp add: i32_id)
  then have "no_commit (put (nat ?a) sig (reply_header r n req l ?a))" for sig
    by (intro tagged_no_commit [where t = TBFT_MSG_REPLY] tagged_put built_tags) simp_all
  with assms(2) show ?thesis by (simp add: exec_reply_def Let_def bound_simps split: prod.split)
qed (use assms in \<open>simp add: exec_reply_def Let_def\<close>)

lemma bound_exec_request:
  assumes "wf c K r" "bound c K r" "seq_quorum K r n (pp_request pp)" "quorum_for K (pp_request pp)"
  shows "bound c K (snd (exec_request c E n pp r))"
proof (cases "r_exec_cb r")
  case (Some cb)
  obtain rc out l st where cb: "cb (pp_request pp) (pp_ndet pp) (req_cid (pp_request pp))
      (hdr_extra (pp_request pp) AND TBFT_REQUEST_RO_FLAG \<noteq> 0) (r_state r) = (rc, out, l, st)"
    by (metis prod_cases4)
  have l: "l \<le> int (TBFT_MAX_MESSAGE_SIZE c)"
    using boundD(5) [OF assms(2)] Some by (simp add: replies_fit_def) (use cb in \<open>metis fst_conv snd_conv\<close>)
  let ?r = "r\<lparr> r_out_buf := put sz_reply out (replicate (TBFT_MAX_MESSAGE_SIZE c) 0), r_state := st \<rparr>"
  have "seq_quorum K ?r n (pp_request pp)" "wf c K ?r" "bound c K ?r"
    using assms by (simp_all add: seq_quorum_def bound_simps wf_simps)
  then have "bound c K (emit (Exec_cb n (pp_request pp) rc) ?r)" "wf c K (emit (Exec_cb n (pp_request pp) rc) ?r)"
    using assms(4) by (simp_all add: bound_simps wf_simps)
  with l assms(2) show ?thesis by (cases "rc = 0") (simp_all add: exec_request_def Let_def Some cb bound_simps)
qed (use assms in \<open>simp add: exec_request_def\<close>)

lemma bound_fill_wanted [bound_simps]: "bound c K r \<Longrightarrow> bound c K (fill_wanted E n r)"
  by (simp add: fill_wanted_def bound_simps)

lemma bound_exec_finish [bound_simps]: "wf c K r \<Longrightarrow> bound c K r \<Longrightarrow> 0 \<le> n \<Longrightarrow> bound c K (exec_finish c E n pp r)"
  by (simp add: exec_finish_def exec_checkpoint_def Let_def bound_simps wf_simps split_beta)

lemma bound_exec_one:
  assumes r: "wf c K r" "bound c K r" and n: "0 \<le> n"
  shows "bound c K (snd (exec_one c E n r))"
proof (cases "ar_load_pp c (r_ar r) n")
  case (Pair q l)
  have "seq_quorum K r n (pp_request pp) \<and> quorum_for K (pp_request pp)"
    if "q = Some pp" "ar_committed c (r_ar r) n" "commit_matches r n pp" for pp
  proof
    have "ar_in_range c (r_ar r) n" using that(2) by (simp add: ar_committed_def split: if_splits)
    then have "votes_ok c (voted K r n) (sl_commit (ar_slice (r_ar r) n))" using boundD(1) [OF r(2)] by (simp add: ar_bound_def)
    from committed_votes [OF wfD(2) [OF r(1)] this that(2) _ that(3)] Pair that(1)
    show "seq_quorum K r n (pp_request pp)" by (simp add: seq_quorum_def)
    show "quorum_for K (pp_request pp)"
      using committed_quorum [OF wfD(2) [OF r(1)] that(2) _ that(3)] Pair that(1) by simp
  qed
  with r n Pair show ?thesis
    by (auto simp: exec_one_def bound_simps bound_exec_request wf_simps split_beta split: option.split)
qed

lemma bound_exec_loop: "wf c K r \<Longrightarrow> bound c K r \<Longrightarrow> 0 \<le> n \<Longrightarrow> bound c K (exec_loop c E n r)"
proof (induction c E n r rule: exec_loop.induct)
  case (1 c E n r)
  obtain go r' where one: "exec_one c E n r = (go, r')" by fastforce
  then have "wf c K r'" "bound c K r'"
    using wf_exec_one [OF "1.prems"(1,3), of E] bound_exec_one [OF "1.prems", of E] by simp_all
  then show ?case using "1.IH" [OF _ one [symmetric]] "1.prems" one by (simp add: exec_loop.simps [of c E n r])
qed

lemma bound_execute_committed [bound_simps]:
  "wf c K r \<Longrightarrow> bound c K r \<Longrightarrow> bound c K (tbft_replica_execute_committed c E r)"
  using bound_exec_loop [of c K r "r_last_executed r + 1" E] wfD(7) [of c K r]
  by (simp add: tbft_replica_execute_committed_def Let_def bound_simps)

section \<open>The normal case\<close>

lemma bound_src_pop [bound_simps]: "bound c K r \<Longrightarrow> bound c K (src_pop c rw r)"
  by (simp add: src_pop_def bound_simps)

lemma bound_drop_duplicate: "bound c K r \<Longrightarrow> bound c K (snd (drop_duplicate c src r))"
  by (simp add: drop_duplicate_def Let_def bound_simps split: option.split)

lemma bound_broadcast_proposal [bound_simps]:
  "wf c K r \<Longrightarrow> bound c K r \<Longrightarrow> no_commit (r_out_buf r) \<Longrightarrow> bound c K (broadcast_proposal c E d r)"
  by (simp add: broadcast_proposal_def Let_def bound_simps wf_simps)

lemma bound_propose:
  assumes r: "wf c K r" "bound c K r" and e: "0 \<le> rqe_len (snd src) \<and> rqe_len (snd src) \<le> int (TBFT_MAX_MESSAGE_SIZE c)"
    and H: "e_hash E = k_hash K"
  shows "bound c K (propose c E src r)"
proof -
  obtain nb k where nk: "(case r_comp_ndet_cb r of None \<Rightarrow> (r_ndet_buf r, 0)
      | Some cb \<Rightarrow> cb (r_seqno r) (r_ndet_buf r) (r_ndet_max_len r)) = (nb, k)" by fastforce
  have tag: "hdr_tag (build_pp c E (r_node r) n d req nd) = tag_val TBFT_MSG_PRE_PREPARE" for n d req nd
    using built_tags(2) by (simp add: tagged_def)
  have "bound c K (r\<lparr> r_ndet_buf := nb, r_out_buf := m, r_ar := snd (ar_store_pp c now (r_ar r) n m l) \<rparr>)"
    if "nat l \<le> length m" "72 \<le> l" "hdr_tag m = tag_val TBFT_MSG_PRE_PREPARE" "pp_seqno m = i64 n" for m now n l
    using r that region_store_bound [OF boundD(1) [OF r(2)] wfD(11) [OF r(1)], of l m n] by (simp add: bound_simps)
  then show ?thesis
    unfolding propose_def Let_def nk prod.case H
    using r wf_stored_proposal [OF r(1) e nk refl _ refl] tag by (simp add: bound_simps split_beta del: tag_val.simps)
qed

lemma bound_send_pre_prepare [bound_simps]:
  assumes r: "wf c K r" "bound c K r" and H: "e_hash E = k_hash K"
  shows "bound c K (tbft_replica_send_pre_prepare c E r)"
proof -
  have "bound c K (case drop_duplicate c src (start_vtimer E us r) of (None, r) \<Rightarrow> r | (Some src, r) \<Rightarrow> propose c E src r)"
    if src: "next_request True r = Some src" for src us
  proof -
    obtain q r' where d: "drop_duplicate c src (start_vtimer E us r) = (q, r')" by fastforce
    have wf: "wf c K (start_vtimer E us r)" and "bound c K (start_vtimer E us r)" using r by (simp_all add: wf_simps bound_simps)
    then have "bound c K r'" using bound_drop_duplicate [of c K "start_vtimer E us r" src] d by simp
    with wf_drop_duplicate [OF wf d next_request_fits [OF r(1) src]]
    show ?thesis using d H by (auto intro: bound_propose split: option.split)
  qed
  then show ?thesis using r by (simp add: tbft_replica_send_pre_prepare_def bound_simps split: option.split)
qed

lemma bound_handle_request [bound_simps]:
  assumes r: "wf c K r" "bound c K r" and H: "e_hash E = k_hash K" and msg: "no_commit msg"
  shows "bound c K (tbft_replica_handle_request c E msg len r)"
proof -
  have q: "rq_fits c (snd (rqueue_push c (src_queue rw r) msg len ro))" for rw ro
    by (rule rq_fits_push [OF wf_src_queue [OF r(1)]])
  then have "wf c K (r\<lparr> r_last_received_rid := x, r_rqueue := snd (rqueue_push c (src_queue rw r) msg len ro) \<rparr>)"
    "wf c K (r\<lparr> r_last_received_rid := x, r_ro_rqueue := snd (rqueue_push c (src_queue rw r) msg len ro) \<rparr>)" for rw ro x
    using r by (simp_all add: wf_simps)
  moreover have "src_queue rw (r\<lparr> r_last_received_rid := x \<rparr>) = src_queue rw r" for rw x by (simp add: src_queue_def)
  ultimately show ?thesis using r H msg
    by (simp add: tbft_replica_handle_request_def forward_request_def Let_def bound_simps split_beta)
qed

lemma bound_macs [bound_simps]: "bound c K (mac_failed r) = bound c K r" "bound c K (mac_passed r) = bound c K r"
  by (simp_all add: mac_failed_def mac_passed_def bound_simps)

lemma bound_accept_pp [bound_simps]:
  assumes "wf c K r" "bound c K r" "msg_fits c msg len" "72 + pp_rset_size msg \<le> len" "0 \<le> pp_rset_size msg" "e_hash E = k_hash K"
    and "hdr_tag msg = tag_val TBFT_MSG_PRE_PREPARE"
  shows "bound c K (accept_pp c E msg len r)"
proof -
  have "i64 (pp_seqno msg) = pp_seqno msg" by (simp add: pp_seqno_def rd_i64_def i64_def)
  then have st: "ar_bound c (voted K r) (snd (ar_store_pp c now (r_ar r) (pp_seqno msg) msg len))"
    "ar_keeps c (r_ar r) (snd (ar_store_pp c now (r_ar r) (pp_seqno msg) msg len))" for now
    using assms boundD(1) [OF assms(2)] wfD(11) [OF assms(1)]
    by (auto intro!: region_store_bound simp: msg_fits_def simp del: tag_val.simps)
  have v: "voted K (r\<lparr> r_last_received_rid := x \<rparr>) = voted K r" for x by (simp add: bound_simps)
  have "ar_good c K (snd (ar_store_pp c now (r_ar r) n msg len))" if "pp_request_ok E nd msg" for now n nd
    using assms pp_request_ok_sound [OF that assms(6) wfD(10) [OF assms(1)]]
    by (intro region_ops_good wfD) (auto simp: msg_fits_def)
  with assms(1,2) st v show ?thesis by (simp add: accept_pp_def Let_def bound_simps wf_simps split_beta)
qed

text \<open>A pre-prepare that does not raise the view.\<close>

lemma bound_handle_pre_prepare [bound_simps]:
  "wf c K r \<Longrightarrow> bound c K r \<Longrightarrow> msg_fits c msg len \<Longrightarrow> e_hash E = k_hash K \<Longrightarrow> pp_view msg \<le> r_view r \<Longrightarrow>
   hdr_tag msg = tag_val TBFT_MSG_PRE_PREPARE \<Longrightarrow> bound c K (tbft_replica_handle_pre_prepare c E msg len r)"
  by (simp del: tag_val.simps add: tbft_replica_handle_pre_prepare_def mac_passed_def [abs_def] Let_def bound_simps wf_simps split: option.split bool.split)

lemma bound_after_vote [bound_simps]:
  "wf c K r \<Longrightarrow> bound c K r \<Longrightarrow> bound c K (after_prepare c E n r)"
  "wf c K r \<Longrightarrow> bound c K r \<Longrightarrow> bound c K (after_commit c E n r)"
  by (simp_all add: after_prepare_def after_commit_def Let_def bound_simps wf_simps)

lemma i64_seqno [simp]: "i64 (cm_seqno m) = cm_seqno m"
  by (simp add: cm_seqno_def rd_i64_def i64_def)

lemma bound_handle_votes [bound_simps]:
  assumes "wf c K r" "bound c K r" "msg_fits c msg len"
  shows "bound c K (tbft_replica_handle_prepare c E msg len r)"
    "set (heard_from E (r_node r) msg) \<subseteq> k_heard K \<Longrightarrow> bound c K (tbft_replica_handle_commit c E msg len r)"
    "bound c K (tbft_replica_handle_checkpoint c E msg len r)"
proof -
  have known: "body_auth_ok E (r_node r) (cm_id msg) sz_commit msg \<Longrightarrow> 0 \<le> cm_id msg \<Longrightarrow>
      cm_id msg < nd_num_replicas (r_node r) \<Longrightarrow> hdr_tag msg = tag_val TBFT_MSG_COMMIT \<longrightarrow>
      vote_known K (cm_id msg) (cm_digest msg) \<and> voted K r (cm_seqno msg) (cm_id msg) (cm_digest msg)"
    if "set (heard_from E (r_node r) msg) \<subseteq> k_heard K"
    using that boundD(3) [OF assms(2)] by (auto simp: heard_from_def vote_known_def voted_def node_ok_def tbft_node_is_replica_def)
  have m: "wf c K (mac_passed r)" "bound c K (mac_passed r)" "nat len \<le> length msg" "voted K (mac_passed r) = voted K r"
    using assms by (simp_all add: wf_simps bound_simps msg_fits_def) (simp add: mac_passed_def bound_simps)
  note region = wfD(2,3,11) [OF m(1)] boundD(1) [OF m(2)]
  show "bound c K (tbft_replica_handle_prepare c E msg len r)"
    "bound c K (tbft_replica_handle_checkpoint c E msg len r)"
    "set (heard_from E (r_node r) msg) \<subseteq> k_heard K \<Longrightarrow> bound c K (tbft_replica_handle_commit c E msg len r)"
    using assms(1,2) m region by (simp_all add: tbft_replica_handle_prepare_def tbft_replica_handle_commit_def
        tbft_replica_handle_checkpoint_def known Let_def bound_simps wf_simps split_beta)
qed

lemma bound_handle_fill_request [bound_simps]: "bound c K r \<Longrightarrow> bound c K (tbft_replica_handle_fill_request c E msg len r)"
  by (auto simp: tbft_replica_handle_fill_request_def split: option.split prod.split
      intro!: bound_sends no_commit_take intro: loaded_no_commit)

section \<open>Keys, view-changes and state transfer\<close>

lemma set_principal_ok [bound_simps]: "node_ok K (nd_set_principal nd i p) = node_ok K nd"
  by (simp add: nd_set_principal_def node_ok_def)

lemma bound_node_ok [bound_simps]: "bound c K r \<Longrightarrow> node_ok K (r_node r)"
  by (rule boundD)

lemma nk_slot_ok:
  "node_ok K (snd (snd (nk_slot_for E i st))) = node_ok K (snd (snd st))"
  "nd_node_id (snd (snd (nk_slot_for E i st))) = nd_node_id (snd (snd st))"
  "fst (nk_slot_for E i st) \<le> Suc (fst st)"
  "tagged t (fst (snd st)) \<Longrightarrow> tagged t (fst (snd (nk_slot_for E i st)))"
  by (cases st; simp add: nk_slot_for_def nk_slot_off_def Let_def bound_simps wf_simps tagged_intros split: option.split prod.split)+

lemma nk_slots_ok:
  "node_ok K (snd (snd (fold (nk_slot_for E) is st))) = node_ok K (snd (snd st))"
  "nd_node_id (snd (snd (fold (nk_slot_for E) is st))) = nd_node_id (snd (snd st))"
  "fst (fold (nk_slot_for E) is st) \<le> fst st + length is"
  "tagged t (fst (snd st)) \<Longrightarrow> tagged t (fst (snd (fold (nk_slot_for E) is st)))"
proof (induction "is" arbitrary: st)
  case (Cons i js)
  { case 3 show ?case using Cons.IH(3) [of "nk_slot_for E i st"] nk_slot_ok(3) [of E i st] by simp }
qed (simp_all add: nk_slot_ok)

lemma bound_send_new_key [bound_simps]:
  assumes "bound c K r"
  shows "bound c K (tbft_replica_send_new_key c E r)"
proof -
  let ?is = "[0 .. nd_num_replicas (r_node r) - 1]"
  let ?b0 = "wr_i32 20 0 (wr_i32 16 (r_id r) (wr_i64 8 (e_now E) (wr_i16 2 0 (wr_i16 0 (tag_val TBFT_MSG_NEW_KEY) (r_out_buf r)))))"
  obtain slots buf nd where f: "fold (nk_slot_for E) ?is (0, ?b0, r_node r) = (slots, buf, nd)"
    by (metis prod_cases3)
  have "tagged TBFT_MSG_NEW_KEY ?b0" by (simp add: tagged_intros del: tag_val.simps)
  then have nd: "node_ok K nd" "nd_node_id nd = r_id r" and slots: "slots \<le> length ?is" and tag: "tagged TBFT_MSG_NEW_KEY buf"
    using boundD(3) [OF assms] nk_slots_ok(1) [of K E ?is "(0, ?b0, r_node r)"]
      nk_slots_ok(2,3) [of E ?is "(0, ?b0, r_node r)"] nk_slots_ok(4) [of TBFT_MSG_NEW_KEY "(0, ?b0, r_node r)" E ?is] f by simp_all
  have "slots \<le> 64" using slots boundD(3) [OF assms] by (auto simp: node_ok_def)
  then have "24 \<le> nat (tbft_msg_align (int (nk_slot_off slots)))"
    using msg_align_spec(2) [of "int (nk_slot_off slots)"] by (simp add: nk_slot_off_def)
  then have "no_commit (put (nat (tbft_msg_align (int (nk_slot_off slots)))) sig (wr_i32 4 v (wr_i32 20 k buf)))" for sig v k
    by (intro tagged_no_commit [where t = TBFT_MSG_NEW_KEY] tagged_intros tag) simp_all
  with nd show ?thesis using assms
    unfolding tbft_replica_send_new_key_def Let_def f prod.case by (simp add: bound_simps split_beta)
qed

lemma bound_handle_new_key [bound_simps]: "bound c K r \<Longrightarrow> bound c K (tbft_replica_handle_new_key c E msg len r)"
  by (simp add: tbft_replica_handle_new_key_def Let_def bound_simps wf_simps split: prod.split option.split)

lemma bound_reset_vi [bound_simps]: "bound c K (reset_vi c' v r) = bound c K r"
  by (simp add: reset_vi_def bound_simps split: prod.split)

text \<open>The View_change fits its buffer, so its signature goes behind its header.\<close>

lemma vc_list_ptr:
  assumes "vc_list_prepared c r mr ss n ptr buf = (n', ptr', buf')" "tagged t buf" "2 \<le> ptr"
  shows "tagged t buf' \<and> n \<le> n' \<and> n' \<le> max n mr \<and> int ptr' = int ptr + 48 * (n' - n)"
  using assms
proof (induction c r mr ss n ptr buf rule: vc_list_prepared.induct)
  case (2 c r mr s ss n ptr buf)
  then show ?case by (force simp: tagged_intros split: if_splits option.splits)
qed simp

lemma build_vc_body:
  assumes "256 \<le> TBFT_MAX_MESSAGE_SIZE c" "TBFT_MAX_MESSAGE_SIZE c \<le> 65536"
  shows "tagged TBFT_MSG_VIEW_CHANGE (build_vc c v r)" "2 \<le> nat (hdr_size (build_vc c v r))"
proof -
  let ?b = "wr_i32 40 (r_id r) (wr_i64 24 (vc_report_ls c r) (wr_i64 16 v (wr_i16 2 0 (wr_i16 0 (tag_val TBFT_MSG_VIEW_CHANGE) (r_out_buf r)))))"
  obtain nc p b1 where b1: "(if 0 < r_last_stable r
      then (1, sz_view_change + sz_vc_ckpt, put (sz_view_change + 8) (tbft_state_root_digest (r_state r))
             (wr_i64 sz_view_change (r_last_stable r) ?b))
      else (0, sz_view_change, ?b)) = (nc :: int, p, b1)" by (metis prod_cases3)
  have t1: "tagged TBFT_MSG_VIEW_CHANGE b1" and p: "48 \<le> p" "p \<le> 88"
    using b1 by (auto simp: tagged_intros simp del: tag_val.simps split: if_splits)
  let ?mr = "if int p < int (TBFT_MAX_MESSAGE_SIZE c) - int TBFT_SIG_SIZE
    then (int (TBFT_MAX_MESSAGE_SIZE c) - int TBFT_SIG_SIZE - int p) div int sz_vc_req_info else 0"
  obtain n q b2 where b2: "vc_list_prepared c r ?mr [r_last_stable r + 1 .. r_last_prepared r] 0 p b1 = (n, q, b2)" by (metis prod_cases3)
  from vc_list_ptr [OF b2 t1] p have t2: "tagged TBFT_MSG_VIEW_CHANGE b2" and n: "0 \<le> n" "n \<le> max 0 ?mr" "int q = int p + 48 * n" by auto
  have eq: "build_vc c v r = wr_i32 4 (tbft_msg_align (int q)) (wr_i32 36 n (wr_i32 32 nc b2))"
    unfolding build_vc_def Let_def b1 prod.case b2 by simp
  then show "tagged TBFT_MSG_VIEW_CHANGE (build_vc c v r)" by (simp add: tagged_intros t2)
  have "?mr \<le> 65536" using assms(2) p by auto
  with n have "int q \<le> 88 + 48 * 65536" "48 \<le> int q" using p by auto
  then have a: "48 \<le> tbft_msg_align (int q)" "tbft_msg_align (int q) \<le> 4000000"
    using msg_align_spec(2,3) [of "int q"] by simp_all
  have "4 \<le> length (wr_i32 36 n (wr_i32 32 nc b2))" by (simp add: wr_i32_def put_def)
  then have "hdr_size (build_vc c v r) = i32 (tbft_msg_align (int q))"
    by (simp add: eq hdr_size_def rd_wr_same)
  with a show "2 \<le> nat (hdr_size (build_vc c v r))" by (simp add: i32_id)
qed

lemma bound_vc_emit [bound_simps]:
  assumes "wf c K r" "bound c K r"
  shows "bound c K (vc_emit c E v r)"
proof -
  have c: "256 \<le> TBFT_MAX_MESSAGE_SIZE c" "TBFT_MAX_MESSAGE_SIZE c \<le> 65536"
    using wfD(1,6) [OF assms(1)] cfg_ok_simps(6) [OF wfD(12) [OF assms(1)]] by (simp_all add: cfg_fits_def)
  have "no_commit (put (nat (hdr_size (build_vc c v r))) sig (build_vc c v r))" for sig
    by (intro tagged_no_commit [where t = TBFT_MSG_VIEW_CHANGE] tagged_put build_vc_body c) simp
  then show ?thesis using assms(2) by (simp add: vc_emit_def Let_def bound_simps split_beta)
qed

lemma bound_send_view_change [bound_simps]: "wf c K r \<Longrightarrow> bound c K r \<Longrightarrow> bound c K (tbft_replica_send_view_change c E r)"
  by (simp add: tbft_replica_send_view_change_def Let_def bound_simps wf_simps)

lemma bound_status_fetch [bound_simps]: "bound c K r \<Longrightarrow> bound c K (status_fetch c E msg r)"
  by (simp add: status_fetch_def Let_def bound_simps)

lemma bound_fold:
  "(\<And>x r. wf c K r \<Longrightarrow> bound c K r \<Longrightarrow> wf c K (f x r) \<and> bound c K (f x r)) \<Longrightarrow> wf c K r \<Longrightarrow> bound c K r \<Longrightarrow>
   wf c K (fold f xs r) \<and> bound c K (fold f xs r)"
  by (induction xs arbitrary: r) auto

lemma bound_resend [bound_simps]:
  "wf c K r \<Longrightarrow> bound c K r \<Longrightarrow> bound c K (resend_seqno c E d n r)" "bound c K r \<Longrightarrow> bound c K (resend_checkpoint c E d n r)"
  by (auto simp: resend_seqno_def resend_checkpoint_def Let_def bound_simps wf_simps split: option.split prod.split
      intro!: bound_send_commit bound_sends no_commit_take intro: loaded_no_commit)

lemma bound_status_resend [bound_simps]:
  "wf c K r \<Longrightarrow> bound c K r \<Longrightarrow> bound c K (status_resend c E msg r)"
  "wf c K r \<Longrightarrow> bound c K r \<Longrightarrow> bound c K (status_checkpoints c E msg r)"
  using bound_fold [of c K "resend_seqno c E d" for d] bound_fold [of c K "\<lambda>k. resend_checkpoint c E d (k * I)" for d I]
  by (simp_all add: status_resend_def status_checkpoints_def Let_def wf_simps bound_simps)

text \<open>A Status that does not raise the view.\<close>

lemma bound_handle_status [bound_simps]:
  "wf c K r \<Longrightarrow> bound c K r \<Longrightarrow> st_view msg \<le> r_view r \<Longrightarrow> bound c K (handle_status c E msg len r)"
  by (simp add: handle_status_def Let_def wf_simps bound_simps)

lemma bound_handle_fetch [bound_simps]: "bound c K r \<Longrightarrow> bound c K (tbft_replica_handle_fetch c msg len r)"
  by (simp add: tbft_replica_handle_fetch_def Let_def bound_simps)

lemma bound_handle_data [bound_simps]:
  "wf c K r \<Longrightarrow> bound c K r \<Longrightarrow> bound c K (tbft_replica_handle_meta_data c E msg len r)"
  "wf c K r \<Longrightarrow> bound c K r \<Longrightarrow> bound c K (tbft_replica_handle_data c E msg len r)"
  by (simp_all add: tbft_replica_handle_meta_data_def tbft_replica_handle_data_def fetch_finished_def Let_def wf_simps bound_simps)

section \<open>Runs in which no message moves the view\<close>

text \<open>A message that leaves the view where it is: no view-change and no new-view, and no pre-prepare and
  no Status of a higher view.\<close>

definition keeps_view :: "replica \<Rightarrow> bytes \<Rightarrow> bool" where
  "keeps_view r msg \<longleftrightarrow> hdr_tag msg \<noteq> tag_val TBFT_MSG_VIEW_CHANGE \<and> hdr_tag msg \<noteq> tag_val TBFT_MSG_NEW_VIEW \<and>
     (hdr_tag msg = tag_val TBFT_MSG_PRE_PREPARE \<longrightarrow> pp_view msg \<le> r_view r) \<and>
     (hdr_tag msg = tag_val TBFT_MSG_STATUS \<longrightarrow> st_view msg \<le> r_view r)"

lemma bound_dispatch:
  assumes "wf c K r" "bound c K r" "msg_fits c msg n" "e_hash E = k_hash K" "set (heard_from E (r_node r) msg) \<subseteq> k_heard K"
    and "keeps_view r msg"
  shows "bound c K (loop_receive c E msg n r)"
proof -
  note votes = bound_handle_votes(2) [OF assms(1-3,5)]
  have "hdr_tag msg = tag_val TBFT_MSG_REQUEST \<Longrightarrow> no_commit msg" by (rule no_commitI [where t = TBFT_MSG_REQUEST]) simp_all
  then show ?thesis using assms(1-4,6)
    by (simp add: loop_receive_def dispatch_def keeps_view_def Let_def votes bound_simps)
qed

lemma bound_loop_blocks [bound_simps]:
  assumes "wf c K r" "bound c K r"
  shows "bound c K (loop_yield r)" "bound c K (snd (loop_rebroadcast c E tick (nk, r)))" "bound c K (loop_events c E r)"
    "bound c K (loop_fetch_timeout c E r)"
  using assms by (simp_all add: loop_yield_def loop_rebroadcast_def loop_fetch_timeout_def loop_events_def
      loop_dead_primary_def loop_vtimer_def loop_stimer_def Let_def bound_simps wf_simps)

lemma bound_loop_fill [bound_simps]:
  assumes "wf c K r" "bound c K r"
  shows "bound c K (loop_fill c E r)"
proof -
  have "ar_bound c (voted K r) (ar_upd (r_ar r) n (\<lambda>sl. sl\<lparr> sl_fill_sent_us := t \<rparr>))"
    "ar_keeps c (r_ar r) (ar_upd (r_ar r) n (\<lambda>sl. sl\<lparr> sl_fill_sent_us := t \<rparr>))" for n t
    by (simp_all add: ar_bound_same [OF boundD(1) [OF assms(2)]])
  then have "bound c K (fill_ask E r)" using assms by (simp add: fill_ask_def Let_def bound_simps)
  moreover have "bound c K (fill_clear r')" "bound c K (fill_expire c E r')" if "wf c K r'" "bound c K r'" for r'
    using that by (simp_all add: fill_clear_def fill_expire_def Let_def bound_simps wf_simps)
  ultimately show ?thesis using assms by (simp add: loop_fill_def Let_def bound_simps wf_simps)
qed

lemma bound_at_receive:
  "wf c K (snd st) \<Longrightarrow> bound c K (snd st) \<Longrightarrow> wf c K (at_receive c i st) \<and> bound c K (at_receive c i st)"
  by (simp add: at_receive_def Let_def bound_simps wf_simps)

lemma bound_loop_body:
  assumes "wf c K (snd st)" "bound c K (snd st)" "round_ok c K i"
    and "set (heard_from (in_env i) (r_node (at_receive c i st)) (in_msg i)) \<subseteq> k_heard K"
    and "keeps_view (at_receive c i st) (in_msg i)"
  shows "bound c K (snd (loop_body c i st))"
  using assms bound_at_receive [OF assms(1,2), of i] unfolding loop_body_receive
  by (intro bound_dispatch recv_fits) (auto simp: round_ok_def)

text \<open>No message received in these rounds moves the view.\<close>

fun calm :: "config \<Rightarrow> round_in list \<Rightarrow> int \<times> replica \<Rightarrow> bool" where
  "calm c [] st = True"
| "calm c (i # is) st =
     (if r_running (snd st) then keeps_view (at_receive c i st) (in_msg i) \<and> calm c is (loop_body c i st) else calm c is st)"

lemma bound_rounds:
  "wf c K (snd st) \<Longrightarrow> bound c K (snd st) \<Longrightarrow> list_all (round_ok c K) rounds \<Longrightarrow> set (heard_in c rounds st) \<subseteq> k_heard K \<Longrightarrow>
   calm c rounds st \<Longrightarrow> bound c K (snd (fold (\<lambda>i st. if r_running (snd st) then loop_body c i st else st) rounds st))"
proof (induction rounds arbitrary: st)
  case (Cons i rounds)
  show ?case
  proof (cases "r_running (snd st)")
    case True
    with Cons.prems wf_loop_body [of c K st i] bound_loop_body [of c K st i] show ?thesis by (simp add: Cons.IH)
  next
    case False
    with Cons.prems show ?thesis by (simp add: Cons.IH)
  qed
qed simp

lemma bound_key_barrier: "bound c K r \<Longrightarrow> bound c K (key_barrier c d rs nk r)"
proof (induction c d rs nk r rule: key_barrier.induct)
  case (2 c d E tick ms rs nk r)
  have "bound c K (barrier_drain c E ms r)" if "bound c K r" for ms r
    using that by (induction c E ms r rule: barrier_drain.induct) (simp_all add: Let_def bound_simps)
  then show ?case using "2" by (simp add: Let_def bound_simps)
qed simp

definition calm_run :: "config \<Rightarrow> env \<Rightarrow> int \<Rightarrow> (env \<times> int \<times> (int \<times> bytes) list) list \<Rightarrow> int \<Rightarrow> round_in list \<Rightarrow> replica \<Rightarrow> bool" where
  "calm_run c E0 t0 barrier t1 rounds r = calm c rounds (t1, loop_start c E0 t0 barrier r)"

lemma bound_run:
  assumes "wf c K r" "bound c K r" "list_all (round_ok c K) rounds" "set (heard_commits c E0 t0 barrier t1 rounds r) \<subseteq> k_heard K"
    and "calm_run c E0 t0 barrier t1 rounds r"
  shows "bound c K (tbft_replica_run c E0 t0 barrier t1 rounds r)"
proof -
  have "wf c K (loop_start c E0 t0 barrier r)" "bound c K (loop_start c E0 t0 barrier r)"
    unfolding loop_start_def by (intro wf_key_barrier bound_key_barrier; simp add: wf_simps bound_simps assms(1,2))+
  then show ?thesis using bound_rounds [of c K "(t1, loop_start c E0 t0 barrier r)" rounds] assms(3-5)
    by (simp add: tbft_replica_run_def loop_start_def heard_commits_def calm_run_def Let_def)
qed

lemma ar_bound_init: "ar_inv c (ar_init c pt ct) \<Longrightarrow> ar_bound c P (ar_init c pt ct)"
proof -
  assume inv: "ar_inv c (ar_init c pt ct)"
  have "ar_slice (ar_init c pt ct) n = slice_init c pt ct" for n
    using ar_slot_less [OF inv, of n] by (simp add: ar_slice_def ar_init_def)
  moreover have "votes_ok c (P n) (sl_commit (slice_init c pt ct)) \<and> pp_named n (sl_prepared (slice_init c pt ct))" for n
    using cert_init_holds [of c "commit_kind c" ct]
    by (force simp: votes_ok_def slice_init_def pp_named_def prepared_cert_init_def)
  ultimately show ?thesis by (simp add: ar_bound_def)
qed

lemma replies_fit_adapter: "replies_fit c cb \<Longrightarrow> replies_fit c (Some (exec_adapter cb))"
  by (cases cb) (auto simp: replies_fit_def exec_adapter_def split: prod.split, metis fst_conv snd_conv)

text \<open>A replica that has just been initialised.\<close>

lemma byz_init_fresh:
  assumes "cfg_fits c"
    and init: "Byz_init_replica c D file priv local_id mem exec_cb ndet_cb nl rb b0 = (0, b)"
    and r: "by_replica b = Some r" "k_group K = nd_num_replicas (r_node r)"
  shows "node_ok K (r_node r)" "r_trace r = []" "r_exec_cb r = Some (exec_adapter exec_cb)" "ar_head (r_ar r) = 1"
    "ar_bound c P (r_ar r)"
proof -
  obtain cfg l r0 nd where cfg: "parse_config c (dv_udp D) (dv_local D) file = Some cfg" and l: "0 \<le> l" "l < bc_num_replicas cfg"
    and r0: "tbft_replica_init c (dv_res D) l (bc_f cfg) (bc_num_replicas cfg) (bc_num_nodes cfg)
      (bc_auth_timeout_ms cfg * 1000) mem (Some (exec_adapter exec_cb)) ndet_cb nl rb = Some r0"
    and nd: "setup_principals (dv_psa D) (dv_principal_alloc D) (dv_files D) (dv_addr D) cfg priv l (r_node r0) = (True, nd)"
    and boot: "by_replica b = Some (boot_replica D nd (set_periods c cfg r0))"
    by (rule Byz_init_replica_cases [OF init])
  from boot r(1) have r': "r = boot_replica D nd (set_periods c cfg r0)" by simp
  then have node: "r_node r = nd" by (simp add: boot_replica_def Let_def)
  have "\<exists>nd0. tbft_node_init c (res_transport (dv_res D)) (res_atimer (dv_res D)) l (bc_f cfg) (bc_num_replicas cfg)
      (bc_num_nodes cfg) (bc_auth_timeout_ms cfg * 1000) = Some nd0 \<and> r_node r0 = nd0"
    using r0 by (auto simp: tbft_replica_init_def replica_fields_def Let_def split: option.splits prod.splits if_splits)
  with node_init_identity setup_identity [OF nd]
  have id: "nd_transport nd" "nd_node_id nd = l" "nd_num_replicas nd = bc_num_replicas cfg"
    by (auto simp: same_identity_def)
  have "TBFT_MAX_NUM_REPLICAS c \<le> 64" using assms(1) cfg_ok_simps(5) by (simp add: cfg_fits_def)
  with parse_config_bounds' [OF cfg] have "bc_num_replicas cfg \<le> 64" by (simp add: config_bounds_def)
  then show "node_ok K (r_node r)" using id l r(2) node by (simp add: node_ok_def)
  have "r_ar r0 = ar_init c (2 * bc_f cfg) (2 * bc_f cfg + 1) \<and> r_trace r0 = [] \<and> r_exec_cb r0 = Some (exec_adapter exec_cb)"
    using r0 by (auto simp: tbft_replica_init_def replica_fields_def Let_def split: option.splits prod.splits if_splits)
  then have ar: "r_ar r = ar_init c (2 * bc_f cfg) (2 * bc_f cfg + 1)" and "r_trace r = []" "r_exec_cb r = Some (exec_adapter exec_cb)"
    by (simp_all add: r' boot_replica_def set_periods_def Let_def)
  then show "r_trace r = []" "r_exec_cb r = Some (exec_adapter exec_cb)" "ar_head (r_ar r) = 1" by (simp_all add: ar_init_def)
  show "ar_bound c P (r_ar r)" using assms(1) unfolding ar by (auto simp: cfg_fits_def intro!: ar_bound_init ar_init_inv)
qed

lemma bound_byz_init:
  assumes "cfg_fits c" "replies_fit c exec_cb"
    and "Byz_init_replica c D file priv local_id mem exec_cb ndet_cb nl rb b0 = (0, b)"
    and "by_replica b = Some r" "k_group K = nd_num_replicas (r_node r)"
  shows "bound c K r"
  using byz_init_fresh [OF assms(1,3-5)] replies_fit_adapter [OF assms(2)]
  by (simp add: bound_def execs_def vote_once_def sent_commits_def)

section \<open>Agreement\<close>

text \<open>The input of a run, the run, and the Commits that it accepts.\<close>

record run_in =
  ru_env :: env
  ru_tick :: int
  ru_barrier :: "(env \<times> int \<times> (int \<times> bytes) list) list"
  ru_loop_tick :: int
  ru_rounds :: "round_in list"

definition run_of :: "config \<Rightarrow> run_in \<Rightarrow> replica \<Rightarrow> replica" where
  "run_of c u r = tbft_replica_run c (ru_env u) (ru_tick u) (ru_barrier u) (ru_loop_tick u) (ru_rounds u) r"

definition heard_of :: "config \<Rightarrow> run_in \<Rightarrow> replica \<Rightarrow> (int \<times> int \<times> digest) list" where
  "heard_of c u r = heard_commits c (ru_env u) (ru_tick u) (ru_barrier u) (ru_loop_tick u) (ru_rounds u) r"

text \<open>A run in one view: every datagram fits its buffer, the hash function is \<open>H\<close>, no message moves
  the view, and the window ends below the largest \<open>int64_t\<close>.\<close>

definition one_view_run :: "config \<Rightarrow> (bytes \<Rightarrow> bytes option) \<Rightarrow> run_in \<Rightarrow> replica \<Rightarrow> bool" where
  "one_view_run c H u r \<longleftrightarrow> list_all (\<lambda>x. msg_fits c (in_msg x) (in_recv x) \<and> e_hash (in_env x) = H) (ru_rounds u) \<and>
     calm_run c (ru_env u) (ru_tick u) (ru_barrier u) (ru_loop_tick u) (ru_rounds u) r \<and>
     ar_head (r_ar (run_of c u r)) + int (TBFT_WINDOW_SIZE c) \<le> 2 ^ 63"

text \<open>Replica \<open>i\<close> of a group of \<open>n\<close> replicas that tolerates \<open>f\<close> faults, initialised by the public interface
  with callbacks that keep to their buffers.\<close>

definition deployed :: "config \<Rightarrow> int \<Rightarrow> int \<Rightarrow> int \<Rightarrow> replica \<Rightarrow> bool" where
  "deployed c n f i r \<longleftrightarrow> nd_num_replicas (r_node r) = n \<and> nd_max_faulty (r_node r) = f \<and> r_id r = i \<and>
     (\<exists>D file priv local_id mem cb nb nl rb b0 b. ndet_ok nb \<and> replies_fit c cb \<and>
        Byz_init_replica c D file priv local_id mem cb nb nl rb b0 = (0, b) \<and> by_replica b = Some r)"

lemma one_view_bound:
  assumes "cfg_fits c" "hash_len_ok H" "deployed c n f i r" "one_view_run c H u r"
  shows "bound c (claims_of H (heard_of c u r) r) (run_of c u r)" "r_id (run_of c u r) = i"
proof -
  let ?K = "claims_of H (heard_of c u r) r"
  from assms(3) have "wf c ?K r" "bound c ?K r"
    by (auto simp: deployed_def claims_of_def assms(1,2) intro!: wf_byz_init bound_byz_init)
  moreover have "list_all (round_ok c ?K) (ru_rounds u)"
    using assms(4) by (auto simp: one_view_run_def claims_of_def round_ok_def list_all_iff)
  ultimately have "bound c ?K (run_of c u r)" "wf c ?K (run_of c u r)" unfolding run_of_def using assms(4)
    by (auto intro!: bound_run wf_run simp: one_view_run_def heard_of_def claims_of_def)
  then show "bound c ?K (run_of c u r)" "r_id (run_of c u r) = i"
    using assms(3) wfD(9) by (auto simp: claims_of_def deployed_def)
qed

lemma one_view_executions:
  assumes "cfg_fits c" "hash_len_ok H" "deployed c n f i r" "one_view_run c H u r" "(s, req, rc) \<in> set (execs (run_of c u r))"
  shows "\<exists>Q \<subseteq> {0 ..< n}. 2 * f + 1 \<le> int (card Q) \<and>
    (\<forall>j \<in> Q. (j, i64 s, tbft_msg_digest H req) \<in> set (sent_commits (run_of c u r)) \<union> set (heard_of c u r))"
proof -
  let ?K = "claims_of H (heard_of c u r) r"
  have "seq_quorum ?K (run_of c u r) s req"
    using one_view_bound(1) [OF assms(1-4)] assms(5) by (auto simp: bound_def list_all_iff)
  then obtain Q where "2 * f + 1 \<le> int (card Q)" "\<forall>i \<in> Q. voted ?K (run_of c u r) s i (tbft_msg_digest H req)"
    using assms(3) by (auto simp: seq_quorum_def claims_of_def deployed_def)
  then show ?thesis using assms(3) by (intro exI [of _ Q]) (auto simp: voted_def claims_of_def deployed_def)
qed

lemma vote_once_unique:
  assumes "vote_once c r" "ar_head (r_ar r) + int (TBFT_WINDOW_SIZE c) \<le> 2 ^ 63"
    and "(i, m, d) \<in> set (sent_commits r)" "(j, m, e) \<in> set (sent_commits r)"
  shows "d = e"
proof -
  from assms(1) obtain g where g: "\<And>i m d. (i, m, d) \<in> set (sent_commits r) \<Longrightarrow>
      \<exists>n. 0 \<le> n \<and> n < ar_head (r_ar r) + int (TBFT_WINDOW_SIZE c) \<and> m = i64 n \<and> d = g n"
    unfolding vote_once_def by blast
  have "d = g m" if "(i, m, d) \<in> set (sent_commits r)" for i d
    using g [OF that] assms(2) by (auto simp: i64_id)
  then show ?thesis using assms(3,4) by blast
qed

lemma commit_of_id: "(j, m, d) \<in> set (commit_of i e) \<Longrightarrow> j = i"
  by (cases e) (auto split: if_splits)

lemma sent_ids: "(j, m, d) \<in> set (sent_commits r) \<Longrightarrow> j = r_id r"
  by (auto simp: sent_commits_def dest: commit_of_id)



section \<open>Witnesses\<close>

definition sample_run :: run_in where
  "sample_run = \<lparr> ru_env = quiet_env, ru_tick = 0, ru_barrier = [], ru_loop_tick = 0, ru_rounds = [] \<rparr>"

text \<open>Three of the four replicas of the sample configuration.\<close>

lemma sample_member:
  assumes "i \<in> {0, 1, 2}"
  shows "\<exists>r. deployed small_config 4 1 i r \<and> ar_head (r_ar r) = 1"
proof -
  have "\<exists>b r. Byz_init_replica small_config sample_device sample_file None i [1, 2] None None 0 False (byz_start small_config) = (0, b) \<and>
      by_replica b = Some r \<and> nd_num_replicas (r_node r) = 4 \<and> nd_max_faulty (r_node r) = 1 \<and> r_id r = i"
    using assms sample_parsed
    by (auto simp: Byz_init_replica_def sample_device_def sample_config_def sample_entry_def tbft_replica_init_def replica_fields_def
        all_resources_def tbft_node_init_def tbft_itimer_init_def small_state_init upt_rec setup_principals_def setup_one_def
        setup_local_def load_key_file_def tbft_principal_load_pub_key_def import_rsa_key_def toy_psa_def set_periods_def
        tbft_principal_init_def nd_set_principal_def clear_principals_def boot_replica_def Let_def)
  then obtain b r where b: "Byz_init_replica small_config sample_device sample_file None i [1, 2] None None 0 False
      (byz_start small_config) = (0, b)" "by_replica b = Some r" and id: "nd_num_replicas (r_node r) = 4"
      "nd_max_faulty (r_node r) = 1" "r_id r = i" by blast
  let ?K = "claims_of (psa_hash_compute toy_psa) [] r"
  have "ndet_ok None" "replies_fit small_config None" by (simp_all add: ndet_ok_def replies_fit_def)
  with b id have "deployed small_config 4 1 i r" unfolding deployed_def by blast
  moreover have "ar_head (r_ar r) = 1"
    by (rule byz_init_fresh(4) [OF small_config_fits b, of ?K]) (simp add: claims_of_def)
  ultimately show ?thesis by blast
qed

lemma sample_one_view:
  assumes "ar_head (r_ar r) = 1"
  shows "one_view_run small_config (psa_hash_compute toy_psa) sample_run r" "heard_of small_config sample_run r = []"
proof -
  have "r_ar (run_of small_config sample_run r) = r_ar r"
    by (simp add: run_of_def sample_run_def tbft_replica_run_def tbft_replica_send_new_key_def send_out_def send_to_def emit_def
        Let_def split: prod.split)
  with assms show "one_view_run small_config (psa_hash_compute toy_psa) sample_run r" "heard_of small_config sample_run r = []"
    by (simp_all add: one_view_run_def heard_of_def heard_commits_def calm_run_def sample_run_def)
      (simp add: small_config_def)
qed



end
