(* ===== verification/Applications.thy ===== *)
theory Applications
  imports Replica_Agree State_Examples
begin

text \<open>
  The two applications of \<open>examples/\<close>: the wallet with four accounts and the counter.  Each is an execution
  callback on the replicated memory.  The contract of an application (locale \<open>announced_app\<close>) is that it
  announces a range with \<open>Byz_modify\<close> before it writes to it and keeps its reply within the buffer; under
  it a rollback returns to the last stable checkpoint whatever the application has done, and the replicas
  that run it agree.  Account \<open>i\<close> of the wallet is the \<open>int32_t\<close> at offset \<open>4 i\<close> of the memory, the value of
  the counter is the one at offset \<open>0\<close>.
\<close>

section \<open>Announcing a write\<close>

text \<open>What \<open>Byz_modify\<close> does to the state, as a callback sees it; \<open>base\<close> is the address of the memory.\<close>

definition announce :: "config \<Rightarrow> int \<Rightarrow> int \<Rightarrow> int \<Rightarrow> app_state \<Rightarrow> app_state" where
  "announce c base addr sz st =
     (let mem_size = int (length (as_mem st)) in
      if addr = 0 \<or> sz \<le> 0 then st
      else if addr < base \<or> mem_size < sz \<or> mem_size - sz < addr - base then st
      else tbft_state_cow c base st addr sz)"

lemma Byz_modify_announce:
  "Byz_modify c base addr sz b = (case by_replica b of None \<Rightarrow> b
     | Some r \<Rightarrow> b\<lparr> by_replica := Some (r\<lparr> r_state := announce c base addr sz (r_state r) \<rparr>) \<rparr>)"
  by (simp add: Byz_modify_def announce_def Let_def split: option.split)

section \<open>The wallet\<close>

definition NUM_ACCOUNTS :: nat where "NUM_ACCOUNTS = 4"

abbreviation account :: "bytes \<Rightarrow> nat \<Rightarrow> int" where
  "account mem i \<equiv> rd_i32 (4 * i) mem"

text \<open>The command behind the header of the request, and the reply.\<close>

record wallet_req =
  wr_op :: nat
  wr_from :: nat
  wr_to :: nat
  wr_amount :: int

definition wallet_req_of :: "bytes \<Rightarrow> wallet_req" where
  "wallet_req_of b = \<lparr> wr_op = unat (byte_at b 0), wr_from = unat (byte_at b 1), wr_to = unat (byte_at b 2), wr_amount = rd_i32 3 b \<rparr>"

definition wallet_rep :: "int \<Rightarrow> int \<Rightarrow> int \<Rightarrow> bytes" where
  "wallet_rep balance_from balance_to status = le_bytes 4 balance_from @ le_bytes 4 balance_to @ le_bytes 1 status"

definition wallet_transfer :: "config \<Rightarrow> int \<Rightarrow> nat \<Rightarrow> nat \<Rightarrow> int \<Rightarrow> app_state \<Rightarrow> int \<times> app_state" where
  "wallet_transfer c base i j amount st =
     (let st = announce c base (base + 4 * int i) 4 st;
          st = announce c base (base + 4 * int j) 4 st
      in if amount \<le> account (as_mem st) i \<and> 0 < amount
         then let st = st\<lparr> as_mem := wr_i32 (4 * i) (account (as_mem st) i - amount) (as_mem st) \<rparr>;
                  st = st\<lparr> as_mem := wr_i32 (4 * j) (account (as_mem st) j + amount) (as_mem st) \<rparr>
              in (0, st)
         else (- 1, st))"

definition wallet_exec :: "config \<Rightarrow> int \<Rightarrow> exec_cb" where
  "wallet_exec c base req ndet cid ro st =
     (if length req < 68 then (- 1, [], 0, st)
      else let q = wallet_req_of (drop 68 req) in
        if wr_op q = 0
        then if NUM_ACCOUNTS \<le> wr_from q then (- 1, [], 9, st)
             else (0, wallet_rep (account (as_mem st) (wr_from q)) 0 0, 9, st)
        else if wr_op q = 1
        then if NUM_ACCOUNTS \<le> wr_from q \<or> NUM_ACCOUNTS \<le> wr_to q then (- 1, [], 9, st)
             else (case wallet_transfer c base (wr_from q) (wr_to q) (wr_amount q) st of
                     (status, st) \<Rightarrow> (0, wallet_rep (account (as_mem st) (wr_from q)) (account (as_mem st) (wr_to q)) status, 9, st))
        else (- 1, [], 9, st))"

definition initial_balances :: "bytes \<Rightarrow> bytes" where
  "initial_balances mem = wr_i32 12 1000 (wr_i32 8 1000 (wr_i32 4 1000 (wr_i32 0 1000 mem)))"

section \<open>The counter\<close>

definition counter_rep :: "int \<Rightarrow> int \<Rightarrow> bytes" where
  "counter_rep val status = le_bytes 4 val @ le_bytes 1 status"

definition counter_exec :: "config \<Rightarrow> int \<Rightarrow> exec_cb" where
  "counter_exec c base req ndet cid ro st =
     (if length req < 68 then (- 1, [], 0, st)
      else let op = unat (byte_at (drop 68 req) 0) in
        if op = 0
        then let st = announce c base base 4 st;
                 st = st\<lparr> as_mem := wr_i32 0 (rd_i32 0 (as_mem st) + 1) (as_mem st) \<rparr>
          in (0, counter_rep (rd_i32 0 (as_mem st)) 0, 5, st)
        else if op = 1 then (0, counter_rep (rd_i32 0 (as_mem st)) 0, 5, st)
        else (- 1, [], 5, st))"

section \<open>The contract of an application\<close>

fun run_calls :: "exec_cb \<Rightarrow> (bytes \<times> bytes \<times> int \<times> bool) list \<Rightarrow> app_state \<Rightarrow> app_state" where
  "run_calls f [] st = st"
| "run_calls f ((req, ndet, cid, ro) # calls) st = run_calls f calls (snd (snd (snd (f req ndet cid ro st))))"

text \<open>A state of the application: its memory is in place, and the copy-on-write bookkeeping is for the
  stable checkpoint at \<open>n\<close>, with memory \<open>smem\<close>.\<close>

definition app_inv :: "config \<Rightarrow> int \<Rightarrow> bytes \<Rightarrow> int \<Rightarrow> app_state \<Rightarrow> bool" where
  "app_inv c base smem n st \<longleftrightarrow> cow_inv c smem st \<and> stable_rec c n st \<and> 0 < base \<and> base + int (length (as_mem st)) < 2 ^ 32 \<and>
     16 \<le> length (as_mem st)"

locale announced_app =
  fixes c :: config and base :: int and exec :: exec_cb
  assumes keeps: "app_inv c base smem n st \<Longrightarrow> app_inv c base smem n (snd (snd (snd (exec req ndet cid ro st))))"
    and small: "fst (snd (snd (exec req ndet cid ro st))) \<le> 9"
begin

lemma calls_keep: "app_inv c base smem n st \<Longrightarrow> app_inv c base smem n (run_calls exec calls st)"
proof (induction calls arbitrary: st)
  case (Cons call calls)
  then show ?case by (cases call) (simp add: keeps)
qed simp

lemma calls_roll_back:
  assumes "app_inv c base smem n st"
  shows "tbft_state_rollback c H (run_calls exec calls st) = (n, snd (tbft_state_rollback c H (run_calls exec calls st)))"
    "as_mem (snd (tbft_state_rollback c H (run_calls exec calls st))) = smem"
  using rollback_mem [of c smem "run_calls exec calls st" n H] calls_keep [OF assms, of calls]
  by (auto simp: app_inv_def prod_eq_iff)

lemma fits: "9 \<le> TBFT_MAX_MESSAGE_SIZE c' \<Longrightarrow> replies_fit c' (Some exec)"
  by (auto simp: replies_fit_def intro: order_trans [OF small])

end

section \<open>The contract is kept\<close>

text \<open>A write to blocks that are marked.\<close>

lemma cow_inv_write:
  assumes I: "cow_inv c smem st" and xs: "xs \<noteq> []" "off + length xs \<le> length (as_mem st)"
    and marked: "{int off div int (TBFT_BLOCK_SIZE c) .. (int off + int (length xs) - 1) div int (TBFT_BLOCK_SIZE c)} \<inter>
      {0 ..< as_num_blocks st} \<subseteq> dirty st"
  shows "cow_inv c smem (st\<lparr> as_mem := put off xs (as_mem st) \<rparr>)"
proof -
  let ?w = "st\<lparr> as_mem := put off xs (as_mem st) \<rparr>"
  have sh: "as_shape c st" using I by (simp add: cow_inv_def)
  then have "as_shape c ?w" using xs by (simp add: as_shape_def)
  moreover have "dirty ?w = dirty st" "snapshots c ?w = snapshots c st" by (simp_all add: dirty_def cow_test_def snapshots_def)
  moreover have "block_at c (put off xs (as_mem st)) (nat i) = block_at c (as_mem st) (nat i)"
    if "0 \<le> i" "i < as_num_blocks st" "i \<notin> dirty st" for i
  proof -
    from that marked have "\<not> (int off div int (TBFT_BLOCK_SIZE c) \<le> i \<and>
        i \<le> (int off + int (length xs) - 1) div int (TBFT_BLOCK_SIZE c))" by auto
    then show ?thesis using write_keeps_clean_block [OF sh xs(1), of "int off" i] that xs(2) by simp
  qed
  ultimately show ?thesis using I xs by (simp add: cow_inv_def)
qed

lemma announce_marks:
  assumes "app_inv c base smem n st" "4 * i + 4 \<le> length (as_mem st)"
  shows "app_inv c base smem n (announce c base (base + 4 * int i) 4 st)" "as_mem (announce c base (base + 4 * int i) 4 st) = as_mem st"
    "as_num_blocks (announce c base (base + 4 * int i) 4 st) = as_num_blocks st"
    "dirty (announce c base (base + 4 * int i) 4 st) = dirty st \<union>
      ({int (4 * i) div int (TBFT_BLOCK_SIZE c) .. (int (4 * i) + 4 - 1) div int (TBFT_BLOCK_SIZE c)} \<inter> {0 ..< as_num_blocks st})"
proof -
  have I: "cow_inv c smem st" "0 \<le> base" "base + int (length (as_mem st)) < 2 ^ 32" using assms(1) by (simp_all add: app_inv_def)
  have eq: "announce c base (base + 4 * int i) 4 st = tbft_state_cow c base st (base + int (4 * i)) 4"
    using assms by (simp add: announce_def app_inv_def Let_def)
  note m = cow_marks [OF I, of "int (4 * i)" 4]
  have "stable_rec c n (tbft_state_cow c base st (base + int (4 * i)) 4)"
    using assms(1) cow_fold_stable_rec by (auto simp: app_inv_def tbft_state_cow_def Let_def)
  moreover have fr: "as_mem (tbft_state_cow c base st (base + int (4 * i)) 4) = as_mem st"
    "as_num_blocks (tbft_state_cow c base st (base + int (4 * i)) 4) = as_num_blocks st"
    using m(2) assms(2) by (simp_all add: cow_frame_def)
  ultimately show "app_inv c base smem n (announce c base (base + 4 * int i) 4 st)"
    using assms m(1) unfolding eq by (simp add: app_inv_def)
  show "as_mem (announce c base (base + 4 * int i) 4 st) = as_mem st"
    "as_num_blocks (announce c base (base + 4 * int i) 4 st) = as_num_blocks st" unfolding eq by (rule fr)+
  show "dirty (announce c base (base + 4 * int i) 4 st) = dirty st \<union>
      ({int (4 * i) div int (TBFT_BLOCK_SIZE c) .. (int (4 * i) + 4 - 1) div int (TBFT_BLOCK_SIZE c)} \<inter> {0 ..< as_num_blocks st})"
    unfolding eq using m(3) assms(2) by simp
qed

lemma app_inv_write:
  assumes "app_inv c base smem n st" "4 * i + 4 \<le> length (as_mem st)"
    and "{int (4 * i) div int (TBFT_BLOCK_SIZE c) .. (int (4 * i) + 4 - 1) div int (TBFT_BLOCK_SIZE c)} \<inter>
      {0 ..< as_num_blocks st} \<subseteq> dirty st"
  shows "app_inv c base smem n (st\<lparr> as_mem := wr_i32 (4 * i) v (as_mem st) \<rparr>)"
  using assms cow_inv_write [of c smem st "le_bytes 4 v" "4 * i"]
  by (simp add: app_inv_def wr_i32_def stable_rec_def flip: length_greater_0_conv)

lemma dirty_mem [simp]: "dirty (st\<lparr> as_mem := m \<rparr>) = dirty st"
  by (simp add: dirty_def cow_test_def)

lemma transfer_keeps:
  assumes "app_inv c base smem n st" "i < NUM_ACCOUNTS" "j < NUM_ACCOUNTS"
  shows "app_inv c base smem n (snd (wallet_transfer c base i j amount st))"
proof -
  have l: "4 * i + 4 \<le> length (as_mem st)" "4 * j + 4 \<le> length (as_mem st)"
    using assms by (simp_all add: app_inv_def NUM_ACCOUNTS_def)
  let ?s1 = "announce c base (base + 4 * int i) 4 st"
  let ?s2 = "announce c base (base + 4 * int j) 4 ?s1"
  note m1 = announce_marks [OF assms(1) l(1)]
  have l2: "4 * j + 4 \<le> length (as_mem ?s1)" using l m1(2) by simp
  note m2 = announce_marks [OF m1(1) l2]
  have inv: "app_inv c base smem n (?s2\<lparr> as_mem := wr_i32 (4 * i) v (as_mem ?s2) \<rparr>)" for v
    by (rule app_inv_write [OF m2(1)]) (use l m1 m2 in auto)
  have "app_inv c base smem n ((?s2\<lparr> as_mem := wr_i32 (4 * i) v (as_mem ?s2) \<rparr>)\<lparr> as_mem := wr_i32 (4 * j) w
      (as_mem (?s2\<lparr> as_mem := wr_i32 (4 * i) v (as_mem ?s2) \<rparr>)) \<rparr>)" for v w
    by (rule app_inv_write [OF inv]) (use l m1 m2 in \<open>auto simp: wr_i32_def\<close>)
  then show ?thesis using m2(1) by (simp add: wallet_transfer_def Let_def)
qed

interpretation wallet: announced_app c base "wallet_exec c base" for c base
proof
  fix smem n st req ndet cid ro
  assume "app_inv c base smem n st"
  then show "app_inv c base smem n (snd (snd (snd (wallet_exec c base req ndet cid ro st))))"
    using transfer_keeps [of c base smem n st] by (simp add: wallet_exec_def Let_def split_beta)
next
  fix req ndet cid ro st
  show "fst (snd (snd (wallet_exec c base req ndet cid ro st))) \<le> 9"
    by (simp add: wallet_exec_def Let_def split_beta)
qed

interpretation counter: announced_app c base "counter_exec c base" for c base
proof
  fix smem n st req ndet cid ro
  assume I: "app_inv c base smem n st"
  then have "4 * 0 + 4 \<le> length (as_mem st)" by (simp add: app_inv_def)
  note m = announce_marks [OF I this]
  have "app_inv c base smem n ((announce c base base 4 st)\<lparr> as_mem := wr_i32 0 v (as_mem st) \<rparr>)" for v
    using app_inv_write [OF m(1), of 0 v] m I by (simp add: app_inv_def)
  then show "app_inv c base smem n (snd (snd (snd (counter_exec c base req ndet cid ro st))))"
    using I m by (simp add: counter_exec_def Let_def)
next
  fix req ndet cid ro st
  show "fst (snd (snd (counter_exec c base req ndet cid ro st))) \<le> 9" by (simp add: counter_exec_def Let_def)
qed

section \<open>Money\<close>

definition total :: "bytes \<Rightarrow> int" where
  "total mem = account mem 0 + account mem 1 + account mem 2 + account mem 3"

definition solvent :: "bytes \<Rightarrow> bool" where
  "solvent mem \<longleftrightarrow> 16 \<le> length mem \<and> list_all (\<lambda>i. 0 \<le> account mem i) [0, 1, 2, 3] \<and> total mem \<le> INT32_MAX"

lemma account_write:
  assumes "i < 4" "j < 4" "16 \<le> length mem" "0 \<le> v" "v \<le> INT32_MAX"
  shows "account (wr_i32 (4 * i) v mem) j = (if j = i then v else account mem j)"
proof (cases "j = i")
  case True
  then show ?thesis using assms by (simp add: rd_wr_same i32_id INT32_MAX_def)
next
  case False
  then have "4 * j + 4 \<le> 4 * i \<or> 4 * i + 4 \<le> 4 * j" by linarith
  then show ?thesis using False assms by (simp add: rd_i32_wr_other)
qed

lemma transfer_total:
  assumes "solvent mem" "i < 4" "j < 4" "amount \<le> account mem i" "0 < amount"
    and "mem' = wr_i32 (4 * i) (account mem i - amount) mem" "mem'' = wr_i32 (4 * j) (account mem' j + amount) mem'"
  shows "solvent mem'' \<and> total mem'' = total mem"
proof -
  have s: "16 \<le> length mem" "0 \<le> account mem 0" "0 \<le> account mem 1" "0 \<le> account mem 2" "0 \<le> account mem 3" "total mem \<le> INT32_MAX"
    using assms(1) by (simp_all add: solvent_def)
  have a: "account mem i \<le> total mem" "account mem j \<le> total mem" "i \<noteq> j \<Longrightarrow> account mem i + account mem j \<le> total mem"
    using assms(2,3) s by (auto simp: total_def less_Suc_eq numeral_eq_Suc)
  have pos: "0 \<le> account mem k" if "k < 4" for k using that s by (auto simp: less_Suc_eq numeral_eq_Suc)
  have one: "account mem' k = (if k = i then account mem i - amount else account mem k)" if "k < 4" for k
    unfolding assms(6) by (rule account_write) (use assms that s a in auto)
  have l: "16 \<le> length mem'" using s assms(2) by (simp add: assms(6) wr_i32_def)
  have two: "account mem'' k = (if k = j then account mem' j + amount else account mem' k)" if "k < 4" for k
    unfolding assms(7) by (rule account_write) (use assms(2-5) that s a one [of j] l pos [of j] in \<open>auto split: if_splits\<close>)
  have l2: "16 \<le> length mem''" using l assms(3) by (simp add: assms(7) wr_i32_def)
  have ij: "i \<in> {0, 1, 2, 3}" "j \<in> {0, 1, 2, 3}" using assms(2,3) by (auto simp: less_Suc_eq numeral_eq_Suc)
  have eqs: "account mem'' k = (if k = j then account mem' j + amount else if k = i then account mem i - amount else account mem k)" if "k < 4" for k
    using one two that by simp
  have tot: "total mem'' = total mem" using ij assms(3) one [of j] eqs [of 0] eqs [of 1] eqs [of 2] eqs [of 3] unfolding total_def
    by (elim insertE emptyE) simp_all
  have "0 \<le> account mem'' k" if k: "k < 4" for k
  proof -
    have "0 \<le> account mem' j" using one [OF assms(3)] pos [OF assms(3)] assms(4) by (cases "j = i") simp_all
    then show ?thesis using pos [OF k] assms(4,5) by (simp add: eqs [OF k])
  qed
  from this [of 0] this [of 1] this [of 2] this [of 3] tot l2 s(6)
  show ?thesis by (simp add: solvent_def)
qed

lemma announce_mem [simp]: "as_mem (announce c base addr sz st) = as_mem st"
proof -
  have "as_mem (fold (\<lambda>i st. tbft_state_cow_single c st i) bs st) = as_mem st" for bs
    by (induction bs arbitrary: st) (simp_all add: cow_single_frame [unfolded cow_frame_def])
  then show ?thesis by (simp add: announce_def tbft_state_cow_def Let_def)
qed

lemma wallet_exec_money:
  assumes "solvent (as_mem st)" "st' = snd (snd (snd (wallet_exec c base req ndet cid ro st)))"
  shows "solvent (as_mem st') \<and> total (as_mem st') = total (as_mem st)"
proof -
  have "solvent (as_mem (snd (wallet_transfer c base i j amount st))) \<and> total (as_mem (snd (wallet_transfer c base i j amount st))) = total (as_mem st)"
    if "i < 4" "j < 4" for i j amount
    using transfer_total [OF assms(1) that, of amount] assms(1) by (simp add: wallet_transfer_def Let_def)
  then show ?thesis using assms by (simp add: wallet_exec_def Let_def NUM_ACCOUNTS_def split_beta)
qed

lemma wallet_calls_money:
  "solvent (as_mem st) \<Longrightarrow> solvent (as_mem (run_calls (wallet_exec c base) calls st)) \<and>
     total (as_mem (run_calls (wallet_exec c base) calls st)) = total (as_mem st)"
proof (induction calls arbitrary: st)
  case (Cons call calls)
  obtain req ndet cid ro where call: "call = (req, ndet, cid, ro)" by (cases call)
  note m = wallet_exec_money [OF Cons.prems refl, of c base req ndet cid ro]
  from Cons.IH [OF conjunct1 [OF m]] m show ?case by (simp add: call)
qed simp

section \<open>Property\<close>


text \<open>Four accounts on a memory of sixteen bytes; a transfer, an overdraft and a malformed request.\<close>

definition sample_wallet :: bytes where
  "sample_wallet = initial_balances (replicate 16 0)"

definition sample_call :: "bytes \<Rightarrow> bytes \<times> bytes \<times> int \<times> bool" where
  "sample_call cmd = (replicate 68 0 @ cmd, [], 4, False)"

lemma sample_wallet_state:
  "\<exists>s0 s1. tbft_state_init small_config (\<lambda>_. True) sample_wallet = Some s0 \<and>
     state_run small_config pad_hash 4096 ([] @ [StableCkpt 8]) s0 = Some s1 \<and> as_mem s1 = sample_wallet"
proof -
  have len: "length sample_wallet = 16" by (simp add: sample_wallet_def initial_balances_def)
  then have ne: "sample_wallet \<noteq> []" by auto
  obtain s0 where s0: "tbft_state_init small_config (\<lambda>_. True) sample_wallet = Some s0" "as_mem s0 = sample_wallet" "as_last_stable s0 = 0"
    using len ne by (auto simp: tbft_state_init_def ptree_init_def ptree_compute_levels_def ptree_levels_loop.simps ptree_nodes_at_level_def
        i32_id Let_def upt_rec)
  have inv: "state_inv small_config pad_hash sample_wallet sample_wallet s0"
    by (rule state_init_inv(1) [OF s0(1) small_config_ok]) (simp_all add: INT32_MAX_def)
  then have "as_shape small_config s0" "synced small_config pad_hash sample_wallet s0" by (simp_all add: state_inv_def cow_inv_def)
  from checkpoint_synced [OF pad_hash_total this, of 8] s0 have "as_mem (tbft_state_checkpoint small_config pad_hash s0 8) = sample_wallet"
    by simp
  with s0 show ?thesis by (simp add: tbft_state_mark_stable_def Let_def)
qed


text \<open>The replicas of a group that runs the wallet agree: the wallet keeps its replies within the buffer.\<close>

lemma wallet_deployable: "cfg_fits c \<Longrightarrow> replies_fit c (Some (wallet_exec c base))"
  by (rule wallet.fits) (simp add: cfg_fits_def)

end
