(* ===== verification/Client.thy ===== *)
theory Client
  imports Replica_Order
begin

text \<open>
  What the client of \<open>src/tbft_libbyz.c\<close> guarantees: the reply it returns is backed by \<open>f + 1\<close> replicas,
  and the messages that the two sides build are the ones the other side accepts.
\<close>

section \<open>Stored replies\<close>

text \<open>A reply with a signature behind its body that verifies under the key of replica \<open>i\<close>.\<close>

definition reply_signed :: "psa \<Rightarrow> node \<Rightarrow> int \<Rightarrow> bytes \<Rightarrow> bool" where
  "reply_signed P nd i m \<longleftrightarrow> int sz_reply \<le> hdr_size m \<and>
     tbft_node_verify_sig P nd i (take (nat (hdr_size m)) m) (field (nat (hdr_size m)) TBFT_SIG_SIZE m)"

definition slot_signed :: "psa \<Rightarrow> node \<Rightarrow> int \<Rightarrow> reply_slot \<Rightarrow> bool" where
  "slot_signed P nd i s \<longleftrightarrow> (rs_valid s \<longrightarrow> reply_signed P nd i (rs_buf s) \<and> rep_cid (rs_buf s) = nd_node_id nd)"

definition replies_ok :: "psa \<Rightarrow> node \<Rightarrow> reply_slot list \<Rightarrow> bool" where
  "replies_ok P nd slots \<longleftrightarrow> nd_num_replicas nd \<le> int (length slots) \<and>
     (\<forall>i. 0 \<le> i \<and> i < int (length slots) \<longrightarrow> slot_signed P nd i (slots ! nat i))"

definition net_ok :: "net \<Rightarrow> bool" where
  "net_ok ins \<longleftrightarrow> list_all (\<lambda>(now, n, buf). nat n \<le> length buf) ins"

lemma net_ok_simps [simp]:
  "net_ok []" "net_ok ((now, n, buf) # ins) \<longleftrightarrow> nat n \<le> length buf \<and> net_ok ins"
  by (simp_all add: net_ok_def)

lemma recv_le: "nat n \<le> length buf \<Longrightarrow> nat (tbft_node_recv n nd) \<le> length buf"
  by (auto simp: tbft_node_recv_def)

text \<open>Copying a message keeps its fields, its body and its signature.\<close>

lemma copy_field:
  assumes "off + k \<le> nat n" "nat n \<le> length m"
  shows "field off k (put 0 (take (nat n) m) b) = field off k m"
  using assms by (rule field_put_prefix)

lemma copy_take:
  assumes "l \<le> nat n" "nat n \<le> length m"
  shows "take l (put 0 (take (nat n) m) b) = take l m"
  using assms by (simp add: put_def min_def)

lemma copy_reply:
  assumes "nat n \<le> length m" "48 \<le> n"
  shows "hdr_size (put 0 (take (nat n) m) b) = hdr_size m" "rep_cid (put 0 (take (nat n) m) b) = rep_cid m"
    "rep_rid (put 0 (take (nat n) m) b) = rep_rid m" "rep_reply_size (put 0 (take (nat n) m) b) = rep_reply_size m"
  using assms by (simp_all add: hdr_size_def rep_defs rd_defs copy_field)

lemma signer_signed:
  assumes "reply_signer P nd m n = Some i" "nat n \<le> length m"
  shows "0 \<le> i" "i < nd_num_replicas nd" "48 \<le> n" "reply_signed P nd i (put 0 (take (nat n) m) b)"
proof -
  from assms(1) have bounds: "48 \<le> hdr_size m" "hdr_size m + 256 \<le> n"
    and ver: "tbft_node_verify_sig P nd i (take (nat (hdr_size m)) m) (field (nat (hdr_size m)) 256 m)"
    and i: "0 \<le> i" "i < nd_num_replicas nd"
    by (auto simp: reply_signer_def Let_def find_Some_iff split: if_splits)
  then show "0 \<le> i" "i < nd_num_replicas nd" "48 \<le> n" by simp_all
  then show "reply_signed P nd i (put 0 (take (nat n) m) b)"
    using bounds ver assms(2) by (simp add: reply_signed_def copy_reply copy_take copy_field nat_add_distrib [symmetric])
qed

lemma store_reply_ok:
  assumes ok: "replies_ok P nd (by_replies b)" and sig: "reply_signer P nd m n = Some i"
    and m: "nat n \<le> length m" "rep_cid m = nd_node_id nd" and st: "store_reply c i m n b = (stored, b')"
  shows "replies_ok P nd (by_replies b')"
proof -
  note signed = signer_signed [OF sig m(1)]
  have new: "slot_signed P nd i \<lparr> rs_buf = put 0 (take (nat n) m) old, rs_len = n, rs_valid = True \<rparr>" for old
    using signed(4) copy_reply [OF m(1) signed(3)] m(2) by (simp add: slot_signed_def)
  have inval: "slot_signed P nd i (s\<lparr> rs_valid := False \<rparr>)" for s by (simp add: slot_signed_def)
  have upd: "replies_ok P nd (slots[nat i := s])" if "replies_ok P nd slots" "slot_signed P nd i s" for slots s
  proof -
    have "slot_signed P nd j (slots[nat i := s] ! nat j)" if "0 \<le> j" "j < int (length slots)" for j
      using that \<open>replies_ok P nd slots\<close> \<open>slot_signed P nd i s\<close> signed(1)
      by (cases "j = i") (auto simp: replies_ok_def nth_list_update eq_nat_nat_iff)
    then show ?thesis using that(1) by (simp add: replies_ok_def)
  qed
  show ?thesis using st ok new inval upd by (auto simp: store_reply_def Let_def split: if_splits)
qed

lemma reset_ok: "nd_num_replicas nd \<le> int (TBFT_MAX_NUM_REPLICAS c) \<Longrightarrow> replies_ok P nd (by_replies (Byz_reset_client c b))"
  by (auto simp: Byz_reset_client_def replies_ok_def slot_signed_def reply_slot_zero_def nat_less_iff)

section \<open>The vote\<close>

lemma best_reply_Some:
  assumes "best_reply P nd rid len slots = (m, win)" "0 < m"
  shows "\<exists>i. 0 \<le> i \<and> i < nd_num_replicas nd \<and> m = reply_votes P nd rid slots (slots ! nat i) \<and> win = reply_payload (slots ! nat i)"
proof -
  let ?f = "\<lambda>i (best, win). let s = slots ! nat i in if \<not> reply_candidate rid len s then (best, win)
      else let cnt = reply_votes P nd rid slots s in if best < cnt then (cnt, reply_payload s) else (best, win)"
  have "fold ?f is (b0, w0) = (m, win) \<Longrightarrow> m = b0 \<and> win = w0 \<or>
      (\<exists>i \<in> set is. m = reply_votes P nd rid slots (slots ! nat i) \<and> win = reply_payload (slots ! nat i))" for "is" b0 w0
    by (induction "is" arbitrary: b0 w0) (fastforce simp: Let_def split: if_splits)+
  with assms show ?thesis unfolding best_reply_def by fastforce
qed

text \<open>The replica \<open>i\<close> has vouched for a reply of the given digest.\<close>

definition reply_vouched :: "psa \<Rightarrow> node \<Rightarrow> u64 \<Rightarrow> digest \<Rightarrow> int \<Rightarrow> bool" where
  "reply_vouched P nd rid d i \<longleftrightarrow> (\<exists>m. reply_signed P nd i m \<and> rep_cid m = nd_node_id nd \<and> rep_rid m = rid \<and>
     tbft_msg_digest (psa_hash_compute P) (field sz_reply (nat (rep_reply_size m)) m) = d)"

lemma best_reply_vouched:
  assumes "best_reply P nd rid len slots = (m, win)" "0 < m" "replies_ok P nd slots"
  shows "\<exists>Q \<subseteq> {0 ..< nd_num_replicas nd}. m = int (card Q) \<and>
    (\<forall>i \<in> Q. reply_vouched P nd rid (tbft_msg_digest (psa_hash_compute P) win) i)"
proof -
  from best_reply_Some [OF assms(1,2)] obtain i where
    m: "m = reply_votes P nd rid slots (slots ! nat i)" "win = reply_payload (slots ! nat i)" by blast
  define ok where "ok j \<longleftrightarrow> reply_candidate rid (rep_reply_size (rs_buf (slots ! nat i))) (slots ! nat j) \<and>
      tbft_msg_digest (psa_hash_compute P) win = tbft_msg_digest (psa_hash_compute P) (reply_payload (slots ! nat j))" for j
  let ?Q = "set (filter ok [0 .. nd_num_replicas nd - 1])"
  have "card ?Q = length (filter ok [0 .. nd_num_replicas nd - 1])" by (rule distinct_card) simp
  moreover have "m = int (length (filter ok [0 .. nd_num_replicas nd - 1]))"
    by (simp add: m reply_votes_def ok_def [abs_def] Let_def)
  ultimately have "m = int (card ?Q)" by simp
  moreover have "reply_vouched P nd rid (tbft_msg_digest (psa_hash_compute P) win) j" if "j \<in> ?Q" for j
  proof -
    let ?s = "slots ! nat j"
    have "slot_signed P nd j ?s" using that assms(3) by (auto simp: replies_ok_def)
    with that show ?thesis unfolding reply_vouched_def
      by (intro exI [of _ "rs_buf ?s"]) (auto simp: ok_def reply_candidate_def slot_signed_def reply_payload_def)
  qed
  ultimately show ?thesis by (intro exI [of _ ?Q]) auto
qed

section \<open>The receive loop\<close>

definition vouched_by_quorum :: "psa \<Rightarrow> node \<Rightarrow> bytes \<Rightarrow> bool" where
  "vouched_by_quorum P nd rep \<longleftrightarrow> (\<exists>Q \<subseteq> {0 ..< nd_num_replicas nd}. nd_max_faulty nd + 1 \<le> int (card Q) \<and>
     (\<forall>i \<in> Q. reply_vouched P nd (expected_rid nd) (tbft_msg_digest (psa_hash_compute P) rep) i))"

lemma recv_one_ok:
  assumes ok: "replies_ok (dv_psa D) nd (by_replies b)" and n: "nat n \<le> length buf" and f: "0 \<le> nd_max_faulty nd"
    and R: "nd_num_replicas nd \<le> int (TBFT_MAX_NUM_REPLICAS c)" and one: "recv_one c D nd n buf b = (res, b')"
  shows "replies_ok (dv_psa D) nd (by_replies b') \<and> by_client b' = by_client b \<and>
    (\<forall>rep. res = Some (0, rep) \<longrightarrow> vouched_by_quorum (dv_psa D) nd rep)"
proof (cases "n < 48 \<or> hdr_tag buf \<noteq> tag_val TBFT_MSG_REPLY \<or> rep_cid buf \<noteq> nd_node_id nd \<or>
    rep_rid buf \<noteq> expected_rid nd \<or> reply_signer (dv_psa D) nd buf n = None")
  case True
  then have "recv_one c D nd n buf b = (None, b)" by (auto simp: recv_one_def)
  with one ok show ?thesis by simp
next
  case False
  then obtain i where i: "reply_signer (dv_psa D) nd buf n = Some i" by auto
  obtain stored b1 where st: "store_reply c i buf n b = (stored, b1)" by fastforce
  have ok1: "replies_ok (dv_psa D) nd (by_replies b1)"
    using store_reply_ok [OF ok i n _ st] False by simp
  have cl: "by_client b1 = by_client b" using st by (auto simp: store_reply_def Let_def split: if_splits)
  obtain m win where best: "best_reply (dv_psa D) nd (expected_rid nd) (rep_reply_size buf) (by_replies b1) = (m, win)" by fastforce
  have one': "recv_one c D nd n buf b =
      (if \<not> stored \<or> m < nd_max_faulty nd + 1 then (None, b1)
       else if \<not> dv_alloc D then (Some (- 1, []), b1) else (Some (0, win), Byz_reset_client c b1))"
    using False by (simp add: recv_one_def i st best)
  show ?thesis
  proof (cases "\<not> stored \<or> m < nd_max_faulty nd + 1")
    case True
    then show ?thesis using one one' ok1 cl by auto
  next
    case enough: False
    then have "vouched_by_quorum (dv_psa D) nd win"
      using best_reply_vouched [OF best _ ok1] f False unfolding vouched_by_quorum_def by fastforce
    then show ?thesis using one one' enough ok1 cl reset_ok [OF R]
      by (auto simp: Byz_reset_client_def split: if_splits)
  qed
qed

lemma recv_loop_ok:
  assumes "nd_num_replicas nd \<le> int (TBFT_MAX_NUM_REPLICAS c)" "0 \<le> nd_max_faulty nd"
    and "replies_ok (dv_psa D) nd (by_replies b)" "net_ok ins"
    and "recv_loop c D nd deadline ins b = (rc, rep, ins', b')"
  shows "replies_ok (dv_psa D) nd (by_replies b') \<and> net_ok ins' \<and> by_client b' = by_client b \<and>
    (rc = 0 \<longrightarrow> vouched_by_quorum (dv_psa D) nd rep)"
  using assms(3-)
proof (induction ins arbitrary: b)
  case Nil
  then show ?case using reset_ok [OF assms(1)] by (auto simp: Byz_reset_client_def)
next
  case (Cons x ins)
  obtain now n buf where x: "x = (now, n, buf)" by (cases x)
  show ?case
  proof (cases "deadline \<le> now")
    case True
    then show ?thesis using Cons.prems x reset_ok [OF assms(1)] by (auto simp: Byz_reset_client_def)
  next
    case False
    obtain res b1 where one: "recv_one c D nd (tbft_node_recv n nd) buf b = (res, b1)" by fastforce
    have n: "nat (tbft_node_recv n nd) \<le> length buf" using Cons.prems(2) x by (simp add: recv_le)
    note ok = recv_one_ok [OF Cons.prems(1) n assms(2,1) one]
    show ?thesis
    proof (cases res)
      case None
      with False one Cons.prems x have "recv_loop c D nd deadline ins b1 = (rc, rep, ins', b')" "net_ok ins" by simp_all
      with Cons.IH [of b1] ok show ?thesis by simp
    next
      case (Some a)
      with False one Cons.prems x ok show ?thesis by (cases a) auto
    qed
  qed
qed

section \<open>A client's session\<close>

definition client_inv :: "config \<Rightarrow> device \<Rightarrow> byz \<Rightarrow> bool" where
  "client_inv c D b \<longleftrightarrow> (\<exists>nd. by_client b = Some nd \<and> replies_ok (dv_psa D) nd (by_replies b) \<and>
     0 \<le> nd_max_faulty nd \<and> nd_num_replicas nd \<le> int (TBFT_MAX_NUM_REPLICAS c))"

lemma init_client_inv:
  assumes "Byz_init_client c D file priv local_id b = (0, b')"
  shows "client_inv c D b'"
proof -
  obtain cfg where cfg: "parse_config c (dv_udp D) (dv_local D) file = Some cfg"
    using assms by (auto simp: Byz_init_client_def split: option.splits)
  define l where "l = (if local_id = - 1 then bc_num_replicas cfg else local_id)"
  obtain nd0 where nd0: "tbft_node_init c (res_transport (dv_res D)) (res_atimer (dv_res D)) l (bc_f cfg)
      (bc_num_replicas cfg) (bc_num_nodes cfg) (bc_auth_timeout_ms cfg * 1000) = Some nd0"
    using assms by (simp add: Byz_init_client_def cfg Let_def l_def [symmetric] split: option.splits if_splits)
  obtain ok nd where nd: "setup_principals (dv_psa D) (dv_principal_alloc D) (dv_files D) (dv_addr D) cfg priv l nd0 = (ok, nd)" by fastforce
  have b': "b' = Byz_reset_client c (b\<lparr> by_client := Some nd, by_is_replica := False \<rparr>)"
    using assms by (simp add: Byz_init_client_def cfg Let_def l_def [symmetric] nd0 nd split: if_splits)
  have "0 \<le> bc_f cfg" "bc_num_replicas cfg \<le> int (TBFT_MAX_NUM_REPLICAS c)"
    using parse_config_bounds' [OF cfg] by (simp_all add: config_bounds_def)
  then show ?thesis using node_init_identity [OF nd0] setup_identity [OF nd] reset_ok [of nd c "dv_psa D" b]
    by (simp add: b' client_inv_def same_identity_def Byz_reset_client_def)
qed

lemma recv_reply_inv:
  assumes "client_inv c D b" "net_ok ins" "Byz_recv_reply c D now ins b = (rc, rep, ins', b')"
  shows "client_inv c D b' \<and> net_ok ins' \<and> by_client b' = by_client b \<and>
    (rc = 0 \<longrightarrow> vouched_by_quorum (dv_psa D) (the (by_client b')) rep)"
proof -
  from assms(1) obtain nd where nd: "by_client b = Some nd" "replies_ok (dv_psa D) nd (by_replies b)"
    "0 \<le> nd_max_faulty nd" "nd_num_replicas nd \<le> int (TBFT_MAX_NUM_REPLICAS c)" by (auto simp: client_inv_def)
  with assms(3) have "recv_loop c D nd (now + TBFT_CLIENT_REPLY_TIMEOUT_MS c * 1000) ins b = (rc, rep, ins', b')"
    by (simp add: Byz_recv_reply_def)
  from recv_loop_ok [OF nd(4,3,2) assms(2) this] nd show ?thesis by (auto simp: client_inv_def)
qed

lemma drain_inv:
  assumes "client_inv c D b" "net_ok ins" "drain_loop c D nd k ins b = (ins', b')"
  shows "client_inv c D b' \<and> net_ok ins' \<and> by_client b' = by_client b"
  using assms
proof (induction c D nd k ins b rule: drain_loop.induct)
  case (3 c D nd k now n buf ins b)
  obtain rc rep ins1 b1 where r: "Byz_recv_reply c D now ins b = (rc, rep, ins1, b1)" by (metis prod_cases4)
  have "client_inv c D b1 \<and> net_ok ins1 \<and> by_client b1 = by_client b"
    using recv_reply_inv [OF "3.prems"(1) _ r] "3.prems"(2) by simp
  then show ?case using "3" r by (auto simp: Let_def split: if_splits)
qed auto

lemma replies_ok_rid: "replies_ok P (snd (tbft_node_new_rid nd)) slots = replies_ok P nd slots"
  by (simp add: tbft_node_new_rid_def Let_def replies_ok_def slot_signed_def reply_signed_def tbft_node_verify_sig_def
      nd_principal_def)

lemma send_request_inv:
  assumes "client_inv c D b" "net_ok ins" "Byz_send_request c D send_ok cmd ro now ins b = (rc, ins', b')"
  shows "client_inv c D b' \<and> net_ok ins'"
proof -
  from assms(1) obtain nd where nd: "by_client b = Some nd" by (auto simp: client_inv_def)
  obtain ins1 b1 where d: "(if \<not> by_is_replica b then drain_loop c D nd 64 ins b else (ins, b)) = (ins1, b1)" by fastforce
  have "client_inv c D b1 \<and> net_ok ins1 \<and> by_client b1 = Some nd"
    using d drain_inv [OF assms(1,2), of nd 64 ins1 b1] assms(1,2) nd by (auto split: if_splits)
  then have inv: "client_inv c D (b1\<lparr> by_client := Some (snd (tbft_node_new_rid nd)) \<rparr>)" "net_ok ins1"
    using replies_ok_rid by (auto simp: client_inv_def tbft_node_new_rid_def Let_def)
  have upd: "client_inv c D (x\<lparr> by_out := y \<rparr>) = client_inv c D x" "client_inv c D (x\<lparr> by_sent := z \<rparr>) = client_inv c D x" for x y z
    by (simp_all add: client_inv_def)
  show ?thesis using assms(3) inv
    unfolding Byz_send_request_def nd option.case d prod.case
    by (auto simp: Let_def upd split_beta split: if_splits)
qed

lemma retry_inv:
  assumes "client_inv c D b" "net_ok ins" "retry_invoke c D cmd ro as k ins b = (rc, rep, ins', b')" "0 < k"
  shows "client_inv c D b' \<and> (0 < rc \<longrightarrow> vouched_by_quorum (dv_psa D) (the (by_client b')) rep)"
  using assms
proof (induction as arbitrary: k ins b)
  case (Cons a as)
  obtain ok now where a: "a = (ok, now)" by (cases a)
  obtain r1 ins1 b1 where s: "Byz_send_request c D ok cmd ro now ins b = (r1, ins1, b1)" by (metis prod_cases3)
  obtain r2 rep2 ins2 b2 where r: "Byz_recv_reply c D now ins1 b1 = (r2, rep2, ins2, b2)" by (metis prod_cases4)
  have i1: "client_inv c D b1 \<and> net_ok ins1" using send_request_inv [OF Cons.prems(1,2) s] .
  then have i2: "client_inv c D b2 \<and> net_ok ins2" and v: "r2 = 0 \<longrightarrow> vouched_by_quorum (dv_psa D) (the (by_client b2)) rep2"
    using recv_reply_inv [OF _ _ r] by blast+
  show ?case
  proof (cases "r1 = 0 \<and> r2 = 0")
    case True
    with Cons.prems(3) v i2 show ?thesis by (auto simp: a Byz_invoke_def s r)
  next
    case False
    then obtain ins3 b3 where "retry_invoke c D cmd ro as (k + 1) ins3 b3 = (rc, rep, ins', b')"
      "client_inv c D b3" "net_ok ins3"
      using Cons.prems(3) i1 i2 by (cases "r1 = 0") (auto simp: a Byz_invoke_def s r)
    with Cons.IH [of b3 ins3 "k + 1"] Cons.prems(4) show ?thesis by auto
  qed
qed auto

text \<open>The states of a client: after a successful initialisation, any sequence of sends, receives and
  resets, with whatever the network delivers.  Only the cryptography of the device stays the same.\<close>

inductive client_reach :: "config \<Rightarrow> psa \<Rightarrow> byz \<Rightarrow> bool" for c P where
  start: "Byz_init_client c D file priv local_id b = (0, b') \<Longrightarrow> dv_psa D = P \<Longrightarrow> client_reach c P b'"
| send: "client_reach c P b \<Longrightarrow> net_ok ins \<Longrightarrow> dv_psa D = P \<Longrightarrow>
    Byz_send_request c D send_ok cmd ro now ins b = (rc, ins', b') \<Longrightarrow> client_reach c P b'"
| recv: "client_reach c P b \<Longrightarrow> net_ok ins \<Longrightarrow> dv_psa D = P \<Longrightarrow>
    Byz_recv_reply c D now ins b = (rc, rep, ins', b') \<Longrightarrow> client_reach c P b'"
| reset: "client_reach c P b \<Longrightarrow> client_reach c P (Byz_reset_client c b)"

lemma client_inv_psa: "client_inv c D b \<Longrightarrow> dv_psa D = dv_psa D' \<Longrightarrow> client_inv c D' b"
  by (simp add: client_inv_def)

lemma reset_client_inv: "client_inv c D b \<Longrightarrow> client_inv c D (Byz_reset_client c b)"
  using reset_ok [of _ c "dv_psa D" b] by (auto simp: client_inv_def Byz_reset_client_def)

lemma client_reach_inv: "client_reach c P b \<Longrightarrow> dv_psa D = P \<Longrightarrow> client_inv c D b"
proof (induction arbitrary: D rule: client_reach.induct)
  case (start D' cfgfile priv local_id b b')
  then show ?case using init_client_inv client_inv_psa by metis
next
  case (send b ins D' send_ok cmd ro now rc ins' b')
  then show ?case using send_request_inv client_inv_psa by metis
next
  case (recv b ins D' now rc rep ins' b')
  then show ?case using recv_reply_inv client_inv_psa by metis
qed (rule reset_client_inv)

text \<open>C5: a client only returns a reply that correct replicas stand behind.  In every state a client can
  reach, if \<open>Byz_invoke_with_retry\<close> succeeds, then \<open>f + 1\<close> distinct replicas have signed replies that
  are addressed to this client, answer its latest request, and carry a payload with the digest of the
  returned one; so whichever \<open>f\<close> replicas are faulty, one of the others has vouched for it.\<close>

theorem client_reply_vouched:
  assumes "client_reach c (dv_psa D) b" "net_ok ins"
    and "Byz_invoke_with_retry c D cmd ro max_attempts attempts ins b = (rc, rep, ins', b')" "0 < rc"
  shows "vouched_by_quorum (dv_psa D) (the (by_client b')) rep \<and>
    (\<forall>F. finite F \<and> int (card F) \<le> nd_max_faulty (the (by_client b')) \<longrightarrow>
      (\<exists>i. 0 \<le> i \<and> i < nd_num_replicas (the (by_client b')) \<and> i \<notin> F \<and> reply_vouched (dv_psa D) (the (by_client b'))
         (expected_rid (the (by_client b'))) (tbft_msg_digest (psa_hash_compute (dv_psa D)) rep) i))"
proof -
  let ?nd = "the (by_client b')"
  have q: "vouched_by_quorum (dv_psa D) ?nd rep"
    using retry_inv [OF client_reach_inv [OF assms(1) refl] assms(2)] assms(3,4)
    by (auto simp: Byz_invoke_with_retry_def split: if_splits)
  then obtain Q where Q: "Q \<subseteq> {0 ..< nd_num_replicas ?nd}" "nd_max_faulty ?nd + 1 \<le> int (card Q)"
    "\<forall>i \<in> Q. reply_vouched (dv_psa D) ?nd (expected_rid ?nd) (tbft_msg_digest (psa_hash_compute (dv_psa D)) rep) i"
    by (auto simp: vouched_by_quorum_def)
  have "\<exists>i \<in> Q. i \<notin> F" if "finite F" "int (card F) \<le> nd_max_faulty ?nd" for F
    using card_mono [OF that(1), of Q] that(2) Q(2) by (metis subsetI linorder_not_le of_nat_le_iff order_trans zless_add1_eq order_refl)
  with Q(1,3) q show ?thesis by fastforce
qed

section \<open>Witness: a client that collects two matching replies\<close>

definition vote_config :: config where
  "vote_config = small_config\<lparr> TBFT_MAX_MESSAGE_SIZE := 336, TBFT_CLIENT_REPLY_TIMEOUT_MS := 10000 \<rparr>"

text \<open>A signature that starts with the public key of the signer.\<close>

definition vote_psa :: psa where
  "vote_psa = toy_psa\<lparr> psa_hash_compute := pad_hash, psa_verify_hash := (\<lambda>k h s. take 1 s = k) \<rparr>"

definition vote_device :: device where
  "vote_device = sample_device\<lparr> dv_psa := vote_psa \<rparr>"

definition vote_principal :: "int \<Rightarrow> 8 word \<Rightarrow> principal" where
  "vote_principal i k = (tbft_principal_init i [])\<lparr> p_pub_verify_id := Some [k], p_pub_encrypt_id := Some [k] \<rparr>"

definition vote_node :: node where
  "vote_node = \<lparr> nd_node_id = 4, nd_max_faulty = 1, nd_num_replicas = 4, nd_threshold = i32 3, nd_view = 0, nd_cur_primary = 0,
     nd_principals = [Some (vote_principal 0 49), Some (vote_principal 1 50), Some (vote_principal 2 51),
       Some (vote_principal 3 52), Some (vote_principal 4 53)],
     nd_num_principals = 5, nd_local_set = False, nd_transport = True,
     nd_atimer = snd (tbft_itimer_init True False \<lparr> it_handle = False, it_cb = False, it_running = False,
       it_period_us = 0, it_active = False \<rparr>),
     nd_auth_timeout_us = 1000000, nd_rid_counter = 0 \<rparr>"

lemma vote_config_simps [simp]:
  "TBFT_MAX_NUM_REPLICAS vote_config = 4" "TBFT_MAX_NUM_CLIENTS vote_config = 1"
  "TBFT_MAX_MESSAGE_SIZE vote_config = 336" "TBFT_CLIENT_REPLY_TIMEOUT_MS vote_config = 10000"
  by (simp_all add: vote_config_def small_config_def)

lemma vote_parsed:
  "parse_config vote_config True None sample_file = Some (sample_config\<lparr> bc_local_node_id := - 1 \<rparr>)"
proof -
  have "byz_config_ok vote_config True sample_config"
    by (simp add: byz_config_ok_def sample_config_def sample_entry_def entry_ok_def word_ok_def is_space_def vote_config_def
        small_config_def count_replicas_def is_replica_entry_def TBFT_MAX_FAULTY_def)
  then show ?thesis by (simp add: sample_file_def parse_shown_config detect_local_def)
qed

lemma vote_init:
  "Byz_init_client vote_config vote_device sample_file None (- 1) (byz_start vote_config) =
    (0, Byz_reset_client vote_config ((byz_start vote_config)\<lparr> by_client := Some vote_node \<rparr>))"
  using vote_parsed
  by (simp add: Byz_init_client_def vote_device_def sample_device_def sample_config_def sample_entry_def
      all_resources_def tbft_node_init_def tbft_itimer_init_def upt_rec setup_principals_def setup_one_def vote_psa_def toy_psa_def
      setup_local_def load_key_file_def tbft_principal_load_pub_key_def import_rsa_key_def
      tbft_principal_init_def nd_set_principal_def vote_principal_def Let_def vote_node_def byz_start_def)

text \<open>The reply of the replica with key \<open>k\<close>: two bytes of payload, and its signature.\<close>

definition vote_reply :: "8 word \<Rightarrow> bytes" where
  "vote_reply k =
     [2, 0, 0, 0, 50, 0, 0, 0] @ replicate 24 0 @ [4, 0, 0, 0, 1, 0, 0, 0, 0, 0, 4, 0, 2, 0, 0, 0, 7, 8] @ k # replicate 255 0"

definition vote_asked :: node where
  "vote_asked = vote_node\<lparr> nd_rid_counter := 1 \<rparr>"

lemma vote_length [simp]: "length (vote_reply k) = 306"
  by (simp add: vote_reply_def)

lemma vote_fields [simp]:
  "hdr_tag (vote_reply k) = tag_val TBFT_MSG_REPLY" "hdr_size (vote_reply k) = 50" "rep_cid (vote_reply k) = 4"
  "rep_rid (vote_reply k) = expected_rid vote_asked" "rep_reply_size (vote_reply k) = 2"
  "field 48 2 (vote_reply k) = [7, 8]"
  apply (simp_all add: hdr_tag_def hdr_size_def rep_defs rd_defs field_def upt_rec byte_at_def)
  apply (simp_all add: vote_reply_def nth_append i16_def i32_def expected_rid_def vote_asked_def vote_node_def)
  done

lemma vote_sig: "take 1 (field 50 256 (vote_reply k)) = [k]"
proof -
  have "take 1 (field 50 256 (vote_reply k)) = [vote_reply k ! 50]" by (simp add: field_def byte_at_def take_map)
  then show ?thesis by (simp add: vote_reply_def nth_append)
qed

lemma vote_signer:
  "reply_signer vote_psa vote_asked (vote_reply 49) 306 = Some 0" "reply_signer vote_psa vote_asked (vote_reply 51) 306 = Some 2"
  using vote_sig [of 49] vote_sig [of 51]
  by (simp_all add: reply_signer_def tbft_node_verify_sig_def vote_asked_def vote_node_def nd_principal_def
      tbft_principal_verify_sig_def vote_principal_def vote_psa_def pad_hash_def upto_rec1 [of 0] upto_rec1 [of 1] upto_rec1 [of 2])

lemma vote_stored:
  assumes "m = put 0 (take 306 (vote_reply k)) b"
  shows "hdr_size m = 50" "rep_cid m = 4" "rep_rid m = expected_rid vote_asked" "rep_reply_size m = 2" "field 48 2 m = [7, 8]"
  using copy_reply [of 306 "vote_reply k" b] copy_field [of 48 2 306 "vote_reply k" b] by (simp_all add: assms)

lemma vote_env [simp]:
  "dv_psa vote_device = vote_psa" "dv_alloc vote_device = True" "psa_hash_compute vote_psa = pad_hash"
  "nd_node_id vote_asked = 4" "nd_max_faulty vote_asked = 1" "nd_num_replicas vote_asked = 4" "nd_transport vote_asked = True"
  by (simp_all add: vote_device_def sample_device_def vote_psa_def vote_asked_def vote_node_def)

lemma upto_four: "[0 .. (3 :: int)] = [0, 1, 2, 3]"
  by (simp add: upto_rec1)

definition vote_slot :: "8 word \<Rightarrow> reply_slot" where
  "vote_slot k = \<lparr> rs_buf = put 0 (take 306 (vote_reply k)) (replicate 336 0), rs_len = 306, rs_valid = True \<rparr>"

lemma vote_slot_facts:
  "rs_valid (vote_slot k)" "reply_payload (vote_slot k) = [7, 8]" "reply_fits (vote_slot k)"
  "rep_rid (rs_buf (vote_slot k)) = expected_rid vote_asked" "rep_reply_size (rs_buf (vote_slot k)) = 2"
  using vote_stored [OF refl, of k "replicate 336 0"]
  by (simp_all add: vote_slot_def reply_payload_def reply_fits_def)

lemma zero_slot: "rs_valid (reply_slot_zero c) = False"
  by (simp add: reply_slot_zero_def Let_def)

lemma vote_first:
  assumes "by_replies b = replicate 4 (reply_slot_zero vote_config)"
  shows "recv_one vote_config vote_device vote_asked 306 (vote_reply 49) b =
    (None, b\<lparr> by_replies := (by_replies b)[0 := vote_slot 49], by_reply_count := by_reply_count b + 1 \<rparr>)"
proof -
  have "store_reply vote_config 0 (vote_reply 49) 306 b =
      (True, b\<lparr> by_replies := (by_replies b)[0 := vote_slot 49], by_reply_count := by_reply_count b + 1 \<rparr>)"
    by (simp add: store_reply_def assms zero_slot vote_slot_def) (simp add: reply_slot_zero_def Let_def)
  moreover have "best_reply vote_psa vote_asked (expected_rid vote_asked) 2 ((by_replies b)[0 := vote_slot 49]) = (1, [7, 8])"
    by (simp add: best_reply_def upto_four assms numeral_eq_Suc reply_candidate_def zero_slot vote_slot_facts reply_votes_def)
  ultimately show ?thesis by (simp add: recv_one_def vote_signer)
qed

lemma vote_second:
  assumes "by_replies b = [vote_slot 49, reply_slot_zero vote_config, reply_slot_zero vote_config, reply_slot_zero vote_config]"
  shows "\<exists>b'. recv_one vote_config vote_device vote_asked 306 (vote_reply 51) b = (Some (0, [7, 8]), b') \<and> by_client b' = by_client b"
proof -
  have "store_reply vote_config 2 (vote_reply 51) 306 b =
      (True, b\<lparr> by_replies := (by_replies b)[2 := vote_slot 51], by_reply_count := by_reply_count b + 1 \<rparr>)"
    by (simp add: store_reply_def assms zero_slot vote_slot_def) (simp add: reply_slot_zero_def Let_def)
  moreover have "best_reply vote_psa vote_asked (expected_rid vote_asked) 2 ((by_replies b)[2 := vote_slot 51]) = (2, [7, 8])"
    by (simp add: best_reply_def upto_four assms numeral_eq_Suc reply_candidate_def zero_slot vote_slot_facts reply_votes_def)
  ultimately show ?thesis by (simp add: recv_one_def vote_signer Byz_reset_client_def)
qed

lemma vote_recv:
  assumes "by_replies b = replicate 4 (reply_slot_zero vote_config)"
  shows "\<exists>b'. recv_loop vote_config vote_device vote_asked 10000000
     [(0, 0, []), (1, 306, vote_reply 49), (2, 306, vote_reply 51)] b = (0, [7, 8], [], b') \<and> by_client b' = by_client b"
proof -
  obtain b' where "recv_one vote_config vote_device vote_asked 306 (vote_reply 51)
      (b\<lparr> by_replies := (by_replies b)[0 := vote_slot 49], by_reply_count := by_reply_count b + 1 \<rparr>) = (Some (0, [7, 8]), b')"
    "by_client b' = by_client b"
    using vote_second [of "b\<lparr> by_replies := (by_replies b)[0 := vote_slot 49], by_reply_count := by_reply_count b + 1 \<rparr>"] assms
    by (auto simp: numeral_eq_Suc)
  moreover have "recv_one vote_config vote_device vote_asked 0 [] b = (None, b)" by (simp add: recv_one_def)
  ultimately show ?thesis using vote_first [OF assms] by (simp add: tbft_node_recv_def)
qed

lemma vote_send:
  "\<exists>b'. Byz_send_request vote_config vote_device True [] False 0 ((0, 0, []) # ins)
      (Byz_reset_client vote_config ((byz_start vote_config)\<lparr> by_client := Some vote_node \<rparr>)) = (0, ins, b') \<and>
    by_client b' = Some vote_asked \<and> by_replies b' = replicate 4 (reply_slot_zero vote_config)"
proof -
  have rid: "tbft_node_new_rid vote_node = (expected_rid vote_asked, vote_asked)"
    by (simp add: tbft_node_new_rid_def expected_rid_def vote_asked_def vote_node_def)
  have drain: "drain_loop vote_config vote_device vote_node 64 ((0, 0, []) # ins) b = (ins, b)" for b
  proof -
    have "tbft_node_recv 0 vote_node \<le> 0" by (simp add: tbft_node_recv_def)
    then show ?thesis using drain_loop.simps(3) [of vote_config vote_device vote_node 63] by simp
  qed
  have sign: "sign_request P vote_asked off buf = (0, buf)" for P off buf
    by (simp add: sign_request_def vote_asked_def vote_node_def nd_principal_def)
  show ?thesis
    by (simp add: Byz_send_request_def Byz_reset_client_def byz_start_def drain rid sign Let_def sz_request_def)
qed

lemma client_reply_vouched_witness:
  "\<exists>b ins' b'. client_reach vote_config vote_psa b \<and>
     Byz_invoke_with_retry vote_config vote_device [] False 3 [(True, 0), (True, 0), (True, 0)]
       [(0, 0, []), (0, 0, []), (1, 306, vote_reply 49), (2, 306, vote_reply 51)] b = (1, [7, 8], ins', b') \<and>
     vouched_by_quorum vote_psa (the (by_client b')) [7, 8]"
proof -
  define b where "b = Byz_reset_client vote_config ((byz_start vote_config)\<lparr> by_client := Some vote_node \<rparr>)"
  let ?ins = "[(0, 0, []), (1, 306, vote_reply 49), (2, 306, vote_reply 51)]"
  have reach: "client_reach vote_config (dv_psa vote_device) b"
    unfolding b_def by (rule client_reach.start [OF vote_init refl])
  obtain b1 where send: "Byz_send_request vote_config vote_device True [] False 0 ((0, 0, []) # ?ins) b = (0, ?ins, b1)"
    and b1: "by_client b1 = Some vote_asked" "by_replies b1 = replicate 4 (reply_slot_zero vote_config)"
    using vote_send unfolding b_def by blast
  obtain b2 where "recv_loop vote_config vote_device vote_asked 10000000 ?ins b1 = (0, [7, 8], [], b2)"
    using vote_recv [OF b1(2)] by blast
  with send b1 have run: "Byz_invoke_with_retry vote_config vote_device [] False 3 [(True, 0), (True, 0), (True, 0)] ((0, 0, []) # ?ins) b =
      (1, [7, 8], [], b2)"
    by (simp add: Byz_invoke_with_retry_def Byz_invoke_def Byz_recv_reply_def numeral_eq_Suc)
  have "vouched_by_quorum (dv_psa vote_device) (the (by_client b2)) [7, 8]"
    using client_reply_vouched [OF reach _ run] by simp
  with reach run show ?thesis by auto
qed

end
