(* ===== verification/Client_Stop.thy ===== *)
theory Client_Stop
  imports Client
begin

text \<open>
  The client always returns.  The loops of \<open>src/tbft_libbyz.c\<close> that wait for the network read one message
  and one clock reading after the other; here the readings are an infinite sequence, and a call is said to
  settle when its result, and what it has consumed, are the same for every prefix that is long enough.
  Every call settles as soon as the clock runs, whatever the network delivers.
\<close>

section \<open>Calls on an infinite input\<close>

type_synonym feed = "nat \<Rightarrow> int \<times> int \<times> bytes"

definition upto_read :: "feed \<Rightarrow> nat \<Rightarrow> net" where
  "upto_read s m = map s [0 ..< m]"

definition later :: "nat \<Rightarrow> feed \<Rightarrow> feed" where
  "later k s i = s (k + i)"

definition settles :: "(net \<Rightarrow> 'a \<times> net) \<Rightarrow> feed \<Rightarrow> bool" where
  "settles f s \<longleftrightarrow> (\<exists>N k x. k \<le> N \<and> (\<forall>m \<ge> N. f (upto_read s m) = (x, upto_read (later k s) (m - k))))"

text \<open>The clock passes every point of time, and stays behind it.\<close>

definition clock_runs :: "feed \<Rightarrow> bool" where
  "clock_runs s \<longleftrightarrow> (\<forall>t. \<exists>N. \<forall>i \<ge> N. t \<le> fst (s i))"

lemma upto_read_Suc: "upto_read s (Suc m) = s 0 # upto_read (later 1 s) m"
  by (rule nth_equalityI) (auto simp: upto_read_def later_def nth_Cons simp del: upt_Suc split: nat.split)

lemma upto_read_later: "k \<le> m \<Longrightarrow> upto_read (later k s) (m - k) = map s [k ..< m]"
  by (rule nth_equalityI) (simp_all add: upto_read_def later_def)

lemma later_later [simp]: "later j (later k s) = later (k + j) s"
  by (simp add: later_def fun_eq_iff add.assoc)

lemma later_0 [simp]: "later 0 s = s"
  by (simp add: later_def fun_eq_iff)

lemma clock_runs_later: "clock_runs s \<Longrightarrow> clock_runs (later k s)"
  unfolding clock_runs_def later_def by (meson trans_le_add2)

lemma settlesI: "k \<le> N \<Longrightarrow> (\<And>m. N \<le> m \<Longrightarrow> f (upto_read s m) = (x, upto_read (later k s) (m - k))) \<Longrightarrow> settles f s"
  unfolding settles_def by blast

lemma settles_const: "settles (\<lambda>ins. (x, ins)) s"
  by (rule settlesI [of 0 0]) simp_all

lemma settles_stop: "(\<And>ins. f (s 0 # ins) = (x, s 0 # ins)) \<Longrightarrow> settles f s"
proof (rule settlesI [of 0 1])
  fix m :: nat
  assume f: "\<And>ins. f (s 0 # ins) = (x, s 0 # ins)" and "1 \<le> m"
  then show "f (upto_read s m) = (x, upto_read (later 0 s) (m - 0))" by (cases m) (simp_all add: upto_read_Suc)
qed simp

lemma settles_step:
  assumes "\<And>ins. f (s 0 # ins) = g ins" "settles g (later 1 s)"
  shows "settles f s"
proof -
  from assms(2) obtain N k x where g: "k \<le> N"
    "\<And>m. N \<le> m \<Longrightarrow> g (upto_read (later 1 s) m) = (x, upto_read (later k (later 1 s)) (m - k))"
    unfolding settles_def by blast
  show ?thesis
  proof (rule settlesI [of "Suc k" "Suc N"])
    fix m assume "Suc N \<le> m"
    then obtain m' where "m = Suc m'" "N \<le> m'" by (cases m) auto
    then show "f (upto_read s m) = (x, upto_read (later (Suc k) s) (m - Suc k))"
      using g(2) [of m'] assms(1) by (simp add: upto_read_Suc)
  qed (simp add: g(1))
qed

lemma settles_bind:
  assumes "settles f s" "\<And>x k. settles (g x) (later k s)"
  shows "settles (\<lambda>ins. case f ins of (x, rest) \<Rightarrow> g x rest) s"
proof -
  from assms(1) obtain N k x where f: "k \<le> N" "\<And>m. N \<le> m \<Longrightarrow> f (upto_read s m) = (x, upto_read (later k s) (m - k))"
    unfolding settles_def by blast
  from assms(2) [of x k] obtain M j y where g: "j \<le> M"
    "\<And>m. M \<le> m \<Longrightarrow> g x (upto_read (later k s) m) = (y, upto_read (later j (later k s)) (m - j))"
    unfolding settles_def by blast
  show ?thesis
  proof (rule settlesI [of "k + j" "N + M + k"])
    fix m assume "N + M + k \<le> m"
    then show "(case f (upto_read s m) of (x, rest) \<Rightarrow> g x rest) = (y, upto_read (later (k + j) s) (m - (k + j)))"
      using f(2) [of m] g(2) [of "m - k"] by simp
  qed (use g(1) in simp)
qed

section \<open>The loops of the client\<close>

definition result_of :: "int \<times> bytes \<times> net \<times> byz \<Rightarrow> (int \<times> bytes \<times> byz) \<times> net" where
  "result_of x = (case x of (rc, rep, ins, b) \<Rightarrow> ((rc, rep, b), ins))"

lemma recv_loop_settles: "deadline \<le> fst (s i) \<Longrightarrow> settles (\<lambda>ins. result_of (recv_loop c D nd deadline ins b)) s"
proof (induction i arbitrary: s b)
  case 0
  obtain now n buf where s: "s 0 = (now, n, buf)" by (cases "s 0")
  show ?case by (rule settles_stop [where x = "(- 1, [], Byz_reset_client c b)"]) (use 0 s in \<open>simp add: result_of_def\<close>)
next
  case (Suc i)
  obtain now n buf where s: "s 0 = (now, n, buf)" by (cases "s 0")
  show ?case
  proof (cases "deadline \<le> now")
    case True
    show ?thesis by (rule settles_stop [where x = "(- 1, [], Byz_reset_client c b)"]) (use True s in \<open>simp add: result_of_def\<close>)
  next
    case False
    obtain x b' where one: "recv_one c D nd (tbft_node_recv n nd) buf b = (x, b')" by fastforce
    show ?thesis
    proof (cases x)
      case None
      have "settles (\<lambda>ins. result_of (recv_loop c D nd deadline ins b')) (later 1 s)"
        by (rule Suc.IH) (use Suc.prems in \<open>simp add: later_def\<close>)
      then show ?thesis by (rule settles_step [rotated]) (use False s one None in simp)
    next
      case (Some y)
      have "settles (\<lambda>ins. ((fst y, snd y, b'), ins)) (later 1 s)" by (rule settles_const)
      then show ?thesis by (rule settles_step [rotated]) (use False s one Some in \<open>simp add: result_of_def split: prod.split\<close>)
    qed
  qed
qed

lemma recv_reply_settles: "clock_runs s \<Longrightarrow> settles (\<lambda>ins. result_of (Byz_recv_reply c D now ins b)) s"
proof (cases "by_client b")
  case None
  then show ?thesis using settles_const [of "(- 1, [], b)" s] by (simp add: Byz_recv_reply_def result_of_def)
next
  case (Some nd)
  assume "clock_runs s"
  then obtain i where "now + TBFT_CLIENT_REPLY_TIMEOUT_MS c * 1000 \<le> fst (s i)" by (auto simp: clock_runs_def)
  from recv_loop_settles [where s = s, OF this] show ?thesis using Some by (simp add: Byz_recv_reply_def)
qed

lemma drain_loop_settles: "clock_runs s \<Longrightarrow> settles (\<lambda>ins. prod.swap (drain_loop c D nd k ins b)) s"
proof (induction k arbitrary: s b)
  case 0
  then show ?case using settles_const by simp
next
  case (Suc k)
  obtain now n buf where s: "s 0 = (now, n, buf)" by (cases "s 0")
  let ?n = "tbft_node_recv n nd"
  have later: "clock_runs (later j s)" for j using Suc.prems by (rule clock_runs_later)
  consider "?n \<le> 0" | "0 < ?n" "int sz_hdr \<le> ?n \<and> hdr_tag buf = tag_val TBFT_MSG_REPLY"
    | "0 < ?n" "\<not> (int sz_hdr \<le> ?n \<and> hdr_tag buf = tag_val TBFT_MSG_REPLY)" by linarith
  then show ?case
  proof cases
    case 1
    show ?thesis by (rule settles_step [OF _ settles_const [of b]]) (use 1 s in simp)
  next
    case 2
    have "settles (\<lambda>ins. case result_of (Byz_recv_reply c D now ins b) of (x, rest) \<Rightarrow>
        prod.swap (drain_loop c D nd k rest (snd (snd x)))) (later 1 s)"
      by (rule settles_bind) (simp_all add: recv_reply_settles Suc.IH later)
    then show ?thesis by (rule settles_step [rotated]) (use 2 s in \<open>simp add: result_of_def Let_def split: prod.split\<close>)
  next
    case 3
    have "settles (\<lambda>ins. prod.swap (drain_loop c D nd k ins b)) (later 1 s)" by (rule Suc.IH [OF later])
    then show ?thesis by (rule settles_step [rotated]) (use 3 s in \<open>auto simp: Let_def\<close>)
  qed
qed

text \<open>What sending does after the drain does not read the network.\<close>

lemma send_request_cases:
  "\<exists>h. \<forall>ins. Byz_send_request c D send_ok cmd ro now ins b =
     (case (case by_client b of Some nd \<Rightarrow> if \<not> by_is_replica b then drain_loop c D nd 64 ins b else (ins, b) | None \<Rightarrow> (ins, b)) of
        (ins, b) \<Rightarrow> (fst (h b), ins, snd (h b)))"
proof (cases "by_client b")
  case None
  then show ?thesis by (intro exI [of _ "\<lambda>b. (- 1, b)"]) (simp add: Byz_send_request_def)
next
  case (Some nd)
  let ?h = "\<lambda>b. let (rid, nd) = tbft_node_new_rid nd; b = b\<lparr> by_client := Some nd \<rparr>;
              off = sz_request + length cmd; total = off + TBFT_SIG_SIZE in
          if TBFT_MAX_MESSAGE_SIZE c < total then (- 1, b)
          else let (rc, buf) = sign_request (dv_psa D) nd off (build_request c (dv_psa D) nd rid now ro cmd (by_out b));
                   b = b\<lparr> by_out := buf \<rparr>
            in if rc \<noteq> 0 then (- 1, b)
               else let sz = nat (hdr_size buf);
                        buf = (if total < sz then put total (replicate (sz - total) 0) buf else buf);
                        b = b\<lparr> by_out := buf \<rparr>
                 in if \<not> nd_transport nd \<or> \<not> send_ok then (- 1, b)
                    else (0, b\<lparr> by_sent := by_sent b @ [(take sz buf, TBFT_ALL_REPLICAS)] \<rparr>)"
  show ?thesis using Some by (intro exI [of _ ?h]) (simp add: Byz_send_request_def Let_def split_beta)
qed

lemma send_request_settles:
  assumes "clock_runs s"
  shows "settles (\<lambda>ins. case Byz_send_request c D send_ok cmd ro now ins b of (rc, ins, b) \<Rightarrow> ((rc, b), ins)) s"
proof -
  obtain h where h: "\<And>ins. Byz_send_request c D send_ok cmd ro now ins b =
     (case (case by_client b of Some nd \<Rightarrow> if \<not> by_is_replica b then drain_loop c D nd 64 ins b else (ins, b) | None \<Rightarrow> (ins, b)) of
        (ins, b) \<Rightarrow> (fst (h b), ins, snd (h b)))"
    using send_request_cases [of c D send_ok cmd ro now b] by blast
  have "settles (\<lambda>ins. prod.swap (case by_client b of
      Some nd \<Rightarrow> if \<not> by_is_replica b then drain_loop c D nd 64 ins b else (ins, b) | None \<Rightarrow> (ins, b))) s"
    using drain_loop_settles [OF assms] settles_const [of b s] by (cases "by_client b"; cases "by_is_replica b") simp_all
  then have "settles (\<lambda>ins. case prod.swap (case by_client b of
      Some nd \<Rightarrow> if \<not> by_is_replica b then drain_loop c D nd 64 ins b else (ins, b) | None \<Rightarrow> (ins, b)) of
      (b, rest) \<Rightarrow> (h b, rest)) s"
    by (rule settles_bind) (rule settles_const)
  then show ?thesis by (simp add: h split_beta)
qed

lemma invoke_settles:
  assumes "clock_runs s"
  shows "settles (\<lambda>ins. result_of (Byz_invoke c D send_ok cmd ro now ins b)) s"
proof -
  have "settles (\<lambda>ins. case (case Byz_send_request c D send_ok cmd ro now ins b of (rc, ins, b) \<Rightarrow> ((rc, b), ins)) of
      (x, rest) \<Rightarrow> if fst x \<noteq> 0 then ((fst x, [], snd x), rest) else result_of (Byz_recv_reply c D now rest (snd x))) s"
  proof (rule settles_bind [OF send_request_settles [OF assms]])
    fix x :: "int \<times> byz" and k
    show "settles (\<lambda>rest. if fst x \<noteq> 0 then ((fst x, [], snd x), rest) else result_of (Byz_recv_reply c D now rest (snd x))) (later k s)"
      using recv_reply_settles [OF clock_runs_later [OF assms]] settles_const by (cases "fst x = 0") simp_all
  qed
  then show ?thesis by (simp add: Byz_invoke_def result_of_def split_beta if_distrib cong: if_cong)
qed

lemma retry_settles: "clock_runs s \<Longrightarrow> settles (\<lambda>ins. result_of (retry_invoke c D cmd ro as n ins b)) s"
proof (induction "as" arbitrary: n s b)
  case Nil
  then show ?case using settles_const [of "(- 1, [], b)" s] by (simp add: result_of_def)
next
  case (Cons a as)
  obtain send_ok now where a: "a = (send_ok, now)" by fastforce
  have "settles (\<lambda>ins. case result_of (Byz_invoke c D send_ok cmd ro now ins b) of (x, rest) \<Rightarrow>
      if fst x = 0 then ((n, snd x), rest) else result_of (retry_invoke c D cmd ro as (n + 1) rest (snd (snd x)))) s"
  proof (rule settles_bind [OF invoke_settles [OF Cons.prems]])
    fix x :: "int \<times> bytes \<times> byz" and k
    show "settles (\<lambda>rest. if fst x = 0 then ((n, snd x), rest) else result_of (retry_invoke c D cmd ro as (n + 1) rest (snd (snd x)))) (later k s)"
      using Cons.IH [OF clock_runs_later [OF Cons.prems]] settles_const by (cases "fst x = 0") simp_all
  qed
  then show ?case by (simp add: a result_of_def split_beta if_distrib cong: if_cong)
qed

lemma retry_code:
  "retry_invoke c D cmd ro as n ins b = (rc, rep, ins', b') \<Longrightarrow> rc = - 1 \<or> n \<le> rc \<and> rc < n + int (length as)"
proof (induction "as" arbitrary: n ins b)
  case (Cons a as)
  then show ?case by (cases a) (force split: prod.splits if_splits)
qed simp

section \<open>Property\<close>

text \<open>C6: the client returns.  Let the network deliver anything at all, one receive and one clock reading
  after the other without end, and let the clock pass every point of time.  Then \<open>Byz_invoke_with_retry\<close>,
  with the drain of old messages, the waits for replies and all its retries, returns after it has read a
  finite part of that input: from some length on, every longer prefix leads to the same return code, the
  same reply and the same state, and leaves the same rest unread.  The code is the number of the
  successful attempt, at most \<open>max_attempts\<close>, or \<open>-1\<close>.\<close>

theorem client_returns:
  assumes "clock_runs s"
  shows "\<exists>N k rc rep b'. k \<le> N \<and> (rc = - 1 \<or> 1 \<le> rc \<and> rc \<le> max_attempts) \<and>
    (\<forall>m \<ge> N. Byz_invoke_with_retry c D cmd ro max_attempts as (map s [0 ..< m]) b = (rc, rep, map s [k ..< m], b'))"
proof (cases "max_attempts < 1")
  case True
  then show ?thesis by (intro exI [of _ 0] exI [of _ "- 1"] exI [of _ "[]"] exI [of _ b]) (simp add: Byz_invoke_with_retry_def)
next
  case False
  let ?f = "\<lambda>ins. retry_invoke c D cmd ro (take (nat max_attempts) as) 1 ins b"
  from retry_settles [OF assms, of c D cmd ro "take (nat max_attempts) as" 1 b] obtain N k x where
    k: "k \<le> N" and x: "\<And>m. N \<le> m \<Longrightarrow> result_of (?f (upto_read s m)) = (x, upto_read (later k s) (m - k))"
    unfolding settles_def by blast
  obtain rc rep b' where x': "x = (rc, rep, b')" by (cases x)
  have f: "?f (map s [0 ..< m]) = (rc, rep, map s [k ..< m], b')" if "N \<le> m" for m
    using x [OF that] k that by (simp add: x' result_of_def upto_read_later split: prod.splits) (simp add: upto_read_def)
  from retry_code [OF f [OF order_refl]] False have "rc = - 1 \<or> 1 \<le> rc \<and> rc \<le> max_attempts" by auto
  with k f False show ?thesis
    by (intro exI [of _ N] exI [of _ k] exI [of _ rc] exI [of _ rep] exI [of _ b']) (simp add: Byz_invoke_with_retry_def)
qed

text \<open>A network that delivers empty datagrams, one every second.\<close>

lemma client_returns_witness:
  "\<exists>N k rc rep b'. k \<le> N \<and> (rc = - 1 \<or> 1 \<le> rc \<and> rc \<le> 3) \<and>
    (\<forall>m \<ge> N. Byz_invoke_with_retry vote_config vote_device [] False 3 [(True, 0), (True, 20000000), (True, 40000000)]
       (map (\<lambda>i. (int i * 1000000, 0, [])) [0 ..< m])
       (Byz_reset_client vote_config ((byz_start vote_config)\<lparr> by_client := Some vote_node \<rparr>)) =
         (rc, rep, map (\<lambda>i. (int i * 1000000, 0, [])) [k ..< m], b'))"
proof -
  have "t \<le> int i * 1000000" if "nat t \<le> i" for t i using that by linarith
  then have "clock_runs (\<lambda>i. (int i * 1000000, 0, []))" unfolding clock_runs_def by (metis fst_conv)
  then show ?thesis by (rule client_returns)
qed

end
