(* ===== verification/Request_Path.thy ===== *)
theory Request_Path
  imports Replica_WF Client_Stop
begin

text \<open>
  The path of a request, from \<open>Byz_send_request\<close> of a client (\<open>src/tbft_libbyz.c\<close>) to the replicas
  (\<open>src/tbft_replica.c\<close>): the request that the client signs and broadcasts passes every check of
  \<open>tbft_replica_handle_request\<close>, and embedded in the pre-prepare of a primary it passes those of the backups.
\<close>

section \<open>What waiting for replies leaves alone\<close>

definition same_output :: "byz \<Rightarrow> byz \<Rightarrow> bool" where
  "same_output b b' \<longleftrightarrow> by_client b' = by_client b \<and> by_out b' = by_out b \<and> by_sent b' = by_sent b"

lemma same_output_refl: "same_output b b"
  by (simp add: same_output_def)

lemma recv_one_output: "same_output b (snd (recv_one c D nd n buf b))"
  by (simp add: recv_one_def store_reply_def Byz_reset_client_def same_output_def Let_def split_beta split: option.split)

lemma recv_loop_output: "recv_loop c D nd dl ins b = (rc, rep, ins', b') \<Longrightarrow> same_output b b'"
proof (induction c D nd dl ins b arbitrary: rc rep ins' b' rule: recv_loop.induct)
  case (2 c D nd dl now n buf ins b)
  obtain x b1 where one: "recv_one c D nd (tbft_node_recv n nd) buf b = (x, b1)" by fastforce
  have "same_output b b1" using recv_one_output [of b c D nd "tbft_node_recv n nd" buf] one by simp
  with 2 one show ?case by (auto simp: same_output_def Byz_reset_client_def split: if_splits option.splits)
qed (simp add: same_output_def Byz_reset_client_def)

lemma recv_reply_output: "Byz_recv_reply c D now ins b = (rc, rep, ins', b') \<Longrightarrow> same_output b b'"
  by (auto simp: Byz_recv_reply_def same_output_refl dest: recv_loop_output split: option.splits)

lemma drain_output: "drain_loop c D nd k ins b = (ins', b') \<Longrightarrow> same_output b b'"
proof (induction c D nd k ins b rule: drain_loop.induct)
  case (3 c D nd k now n buf ins b)
  obtain rc rep ins1 b1 where r: "Byz_recv_reply c D now ins b = (rc, rep, ins1, b1)" by (metis prod_cases4)
  from recv_reply_output [OF this] "3" r show ?case
    by (auto simp: Let_def same_output_def split: if_splits)
qed (auto simp: same_output_def)

section \<open>The message\<close>

lemma take_put_before: "n \<le> off \<Longrightarrow> off \<le> length b \<Longrightarrow> take n (put off xs b) = take n b"
  by (simp add: put_def)

lemma take_field: "take n (field off k b) = field off (min n k) b"
  by (rule nth_equalityI) (auto simp: field_nth)

lemma field_field: "o' + k \<le> n \<Longrightarrow> field o' k (field off n b) = field (off + o') k b"
  by (rule nth_equalityI) (auto simp: field_nth byte_at_def [of "field off n b"] add.assoc)

lemma field_drop: "field o' k (drop n b) = field (n + o') k b"
  by (rule nth_equalityI) (auto simp: field_nth byte_at_def add.commute add.left_commute)

lemma build_request_fields:
  assumes "m = build_request c P nd rid now ro cmd buf" "length buf = TBFT_MAX_MESSAGE_SIZE c"
    "sz_request + length cmd + TBFT_SIG_SIZE \<le> TBFT_MAX_MESSAGE_SIZE c" "TBFT_MAX_MESSAGE_SIZE c \<le> 65536" "hash_len_ok (psa_hash_compute P)"
  shows "length m = TBFT_MAX_MESSAGE_SIZE c" "hdr_tag m = tag_val TBFT_MSG_REQUEST" "hdr_extra m = (if ro then 1 else 0)"
    "req_cid m = i32 (nd_node_id nd)" "req_rid m = rid" "req_command_size m = int (length cmd)" "req_od m = tbft_msg_digest (psa_hash_compute P) cmd"
    "field sz_request (length cmd) m = cmd" "hdr_size m = tbft_msg_align (int (sz_request + length cmd + TBFT_SIG_SIZE))"
proof -
  have s: "sz_request = 68" "TBFT_SIG_SIZE = 256" by (simp_all add: sz_request_def TBFT_SIG_SIZE_def)
  show "length m = TBFT_MAX_MESSAGE_SIZE c"
    using assms(2-) by (simp add: assms(1) build_request_def Let_def sz_request_def TBFT_SIG_SIZE_def)
  show "hdr_tag m = tag_val TBFT_MSG_REQUEST" "hdr_extra m = (if ro then 1 else 0)" "req_cid m = i32 (nd_node_id nd)" "req_rid m = rid"
    "req_command_size m = int (length cmd)" "req_od m = tbft_msg_digest (psa_hash_compute P) cmd" "field sz_request (length cmd) m = cmd"
    using assms(2-) by (simp_all add: assms(1) build_request_def Let_def hdr_defs req_defs wire_simps i32_id i16_id)
  have "i32 (tbft_msg_align (int (324 + length cmd))) = tbft_msg_align (int (324 + length cmd))"
    using msg_align_spec [of "int (324 + length cmd)"] assms(3,4) by (intro i32_id) (simp_all add: s INT32_MAX_def)
  then show "hdr_size m = tbft_msg_align (int (sz_request + length cmd + TBFT_SIG_SIZE))"
    using assms(2-) by (simp add: assms(1) build_request_def Let_def hdr_defs wire_simps i32_id)
qed

text \<open>The message that a successful call broadcasts: it fits a buffer, its signature is that of the client over
  the header and the command, and at most seven bytes of padding follow.\<close>

lemma request_sent:
  assumes c: "cfg_fits c" "hash_len_ok (psa_hash_compute (dv_psa D))"
    and send: "Byz_send_request c D send_ok cmd ro now ins b = (0, ins', b')"
    and client: "by_client b = Some nd" "nd_local_set nd" "nd_principal nd (nd_node_id nd) = Some p" "p_priv_sign_id p = Some priv"
      "length (by_out b) = TBFT_MAX_MESSAGE_SIZE c"
  obtains msg off s0 sig where "by_sent b' = by_sent b @ [(msg, TBFT_ALL_REPLICAS)]" "off = sz_request + length cmd"
    "tbft_principal_sign (dv_psa D) p (take off msg) s0 = (0, sig)" "field off TBFT_SIG_SIZE msg = sig"
    "off + TBFT_SIG_SIZE \<le> length msg" "length msg \<le> off + TBFT_SIG_SIZE + 7" "length msg \<le> TBFT_MAX_MESSAGE_SIZE c"
    "hdr_tag msg = tag_val TBFT_MSG_REQUEST" "hdr_extra msg = (if ro then 1 else 0)" "req_cid msg = i32 (nd_node_id nd)"
    "req_rid msg = fst (tbft_node_new_rid nd)" "req_command_size msg = int (length cmd)" "field sz_request (length cmd) msg = cmd"
proof -
  obtain ins1 b1 where d: "(if \<not> by_is_replica b then drain_loop c D nd 64 ins b else (ins, b)) = (ins1, b1)" by fastforce
  have out: "by_out b1 = by_out b" "by_sent b1 = by_sent b"
    using d drain_output [of c D nd 64 ins b ins1 b1] by (auto simp: same_output_def split: if_splits)
  define off where "off = sz_request + length cmd"
  define nd1 where "nd1 = snd (tbft_node_new_rid nd)"
  define m where "m = build_request c (dv_psa D) nd1 (fst (tbft_node_new_rid nd)) now ro cmd (by_out b)"
  have nd1: "nd_local_set nd1" "nd_node_id nd1 = nd_node_id nd" "nd_principal nd1 (nd_node_id nd1) = Some p"
    using client by (simp_all add: nd1_def tbft_node_new_rid_def Let_def nd_principal_def split: if_splits)
  obtain sig where sig: "tbft_principal_sign (dv_psa D) p (take off m) (field off TBFT_SIG_SIZE m) = (0, sig)"
    and fits: "off + TBFT_SIG_SIZE \<le> TBFT_MAX_MESSAGE_SIZE c"
    and sent: "by_sent b' = by_sent b @ [(let buf = put off sig m; sz = nat (hdr_size buf) in
      take sz (if off + TBFT_SIG_SIZE < sz then put (off + TBFT_SIG_SIZE) (replicate (sz - (off + TBFT_SIG_SIZE)) 0) buf else buf), TBFT_ALL_REPLICAS)]"
    using send client nd1 out
    by (auto simp: Byz_send_request_def d split_beta Let_def sign_request_def tbft_node_gen_sig_def off_def [symmetric] nd1_def [symmetric]
        m_def [symmetric] prod_eq_iff simp del: sz_request_def TBFT_SIG_SIZE_def split: if_splits)
  define buf where "buf = put off sig m"
  define sz where "sz = tbft_msg_align (int (off + TBFT_SIG_SIZE))"
  have s: "sz_request = 68" "TBFT_SIG_SIZE = 256" by (simp_all add: sz_request_def TBFT_SIG_SIZE_def)
  have cap: "TBFT_MAX_MESSAGE_SIZE c \<le> 65536" "TBFT_MAX_MESSAGE_SIZE c mod 8 = 0" using c(1) by (simp_all add: cfg_fits_def cfg_ok_def)
  note m = build_request_fields [OF m_def client(5) fits [unfolded off_def] cap(1) c(2)]
  have lsig: "length sig = 256" using sig by (auto simp: tbft_principal_sign_def Let_def TBFT_SIG_SIZE_def prod_eq_iff split: option.splits if_splits)
  have low: "field o' k buf = field o' k m" if "o' + k \<le> off" for o' k
    unfolding buf_def using that fits m(1) by (intro field_put_other) auto
  have "hdr_size buf = sz" using low [of 4 4] m(9) by (simp add: hdr_size_def rd_i32_def off_def sz_def)
  have spec: "sz mod 8 = 0" "int (off + 256) \<le> sz" "sz < int (off + 256) + 8"
    using msg_align_spec [of "int (off + 256)"] fits cap(1) by (simp_all add: sz_def s INT32_MAX_def)
  have "sz \<le> int (TBFT_MAX_MESSAGE_SIZE c)"
  proof -
    have "8 dvd TBFT_MAX_MESSAGE_SIZE c" using cap(2) by (simp add: mod_eq_0_iff_dvd)
    then have "8 dvd int (TBFT_MAX_MESSAGE_SIZE c)" by (metis int_dvd_int_iff of_nat_numeral)
    then obtain k where k: "int (TBFT_MAX_MESSAGE_SIZE c) = 8 * k" by (elim dvdE)
    obtain j where j: "sz = 8 * j" using spec(1) by (auto simp: mod_eq_0_iff_dvd elim: dvdE)
    have "sz < 8 * k + 8" using spec(3) fits k by (simp add: s)
    then show ?thesis using j k by simp
  qed
  define pad where "pad = (if off + 256 < nat sz then put (off + 256) (replicate (nat sz - (off + 256)) 0) buf else buf)"
  have lbuf: "length buf = TBFT_MAX_MESSAGE_SIZE c" using fits m(1) lsig by (simp add: buf_def s)
  then have lpad: "length pad = TBFT_MAX_MESSAGE_SIZE c" using \<open>sz \<le> _\<close> by (simp add: pad_def)
  define msg where "msg = take (nat sz) pad"
  have fld: "field o' k msg = field o' k buf" if "o' + k \<le> off + 256" for o' k
  proof -
    have "o' + k \<le> nat sz" using that spec(2) by simp
    then show ?thesis using that lbuf fits by (simp add: msg_def field_take pad_def field_put_other s)
  qed
  have low': "field o' k msg = field o' k m" if "o' + k \<le> off" for o' k using fld [of o' k] low [OF that] that by simp
  have "take off msg = take off m"
    using field_eq_take_drop [of 0 off msg] field_eq_take_drop [of 0 off m] low' [of 0 off] m(1) fits lpad spec(2) \<open>sz \<le> _\<close>
    by (simp add: msg_def s)
  moreover have "field off TBFT_SIG_SIZE msg = sig"
    using fld [of off 256] lsig m(1) fits by (simp add: s buf_def field_put_same)
  moreover have "length msg = nat sz" using lpad \<open>sz \<le> _\<close> by (simp add: msg_def)
  moreover have "by_sent b' = by_sent b @ [(msg, TBFT_ALL_REPLICAS)]"
    using sent \<open>hdr_size buf = sz\<close> by (simp add: Let_def buf_def [symmetric] msg_def pad_def s)
  moreover have "off = sz_request + length cmd" by (rule off_def)
  ultimately show thesis using sig m spec \<open>sz \<le> _\<close>
    low' [of 0 2] low' [of 2 2] low' [of 48 4] low' [of 52 8] low' [of 64 4] low' [of 68 "length cmd"] nd1(2)
    by (intro that [of msg off "field off TBFT_SIG_SIZE m" sig]) (simp_all add: s hdr_defs req_defs rd_defs)
qed

section \<open>The checks of the replicas\<close>

lemma request_sig_passes:
  assumes "tbft_principal_sign (e_psa E) p (take off msg) s0 = (0, sig)" "field off TBFT_SIG_SIZE msg = sig"
    "off = sz_request + length cmd" "req_command_size msg = int (length cmd)" "req_cid msg = cid"
    and "p_priv_sign_id p = Some priv" "p_pub_verify_id q = Some pub" "sig_pair_ok (e_psa E) priv pub"
    "nd_principal nd cid = Some q" "0 \<le> cid" "cid < nd_num_principals nd"
  shows "request_sig_ok E nd msg"
  using sign_verify [OF assms(1,6,7,8)] assms(2-5,9-)
  by (simp add: request_sig_ok_def Let_def tbft_node_verify_sig_def del: sz_request_def TBFT_SIG_SIZE_def)

lemma build_pp_length: "256 \<le> TBFT_MAX_MESSAGE_SIZE c \<Longrightarrow> 72 + length req \<le> length (build_pp c E nd n d req ndet)"
  unfolding build_pp_def Let_def put_auth_def by (rule grow_trans, rule grow_trans, rule grow_trans) (simp add: length_put)

text \<open>A request embedded in a pre-prepare keeps its fields.\<close>

lemma embedded_request:
  assumes "256 \<le> TBFT_MAX_MESSAGE_SIZE c" "length msg \<le> 65536" "length d = 32"
    and pp: "pp = build_pp c E nd n d msg ndet"
  shows "k \<le> length msg \<Longrightarrow> take k (drop sz_pre_prepare pp) = take k msg"
    "o' + k \<le> length msg \<Longrightarrow> field o' k (drop sz_pre_prepare pp) = field o' k msg"
proof -
  note f = build_pp_fields [OF assms(3,2,1), of E nd n ndet, folded pp]
  have "field 72 (length msg) pp = msg" using f(2,3) by (simp add: pp_request_def)
  then have eq: "take (length msg) (drop sz_pre_prepare pp) = msg"
    using build_pp_length [OF assms(1), of msg E nd n d ndet] by (simp add: field_eq_take_drop pp)
  then show "k \<le> length msg \<Longrightarrow> take k (drop sz_pre_prepare pp) = take k msg" by (metis min.absorb1 take_take)
  show "o' + k \<le> length msg \<Longrightarrow> field o' k (drop sz_pre_prepare pp) = field o' k msg"
    using eq field_take [of o' k "length msg" "drop sz_pre_prepare pp"] by simp
qed

section \<open>Property\<close>

text \<open>C7: a client's request is accepted.  Let a client with a private key send a request, and let a replica know its
  public key.  Whatever the command and whatever else the network has delivered to the client, exactly one message is broadcast; it
  carries the client, the fresh request identifier and the command, and a replica accepts it: a backup forwards it to
  the primary, and the primary queues it and goes on to propose it, unless it is queued already or the queue is full.  In
  whatever pre-prepare a primary embeds it, it passes the backups' checks of digest, padding and signature.\<close>

theorem request_accepted:
  assumes c: "cfg_fits c" "hash_len_ok (psa_hash_compute (dv_psa D))"
    and send: "Byz_send_request c D send_ok cmd ro now ins b = (0, ins', b')"
    and client: "by_client b = Some nd" "nd_local_set nd" "nd_principal nd (nd_node_id nd) = Some p" "p_priv_sign_id p = Some priv"
      "length (by_out b) = TBFT_MAX_MESSAGE_SIZE c"
    and keys: "nd_principal (r_node r) (nd_node_id nd) = Some q" "p_pub_verify_id q = Some pub" "sig_pair_ok (dv_psa D) priv pub"
      "e_psa E = dv_psa D"
    and id: "0 \<le> nd_node_id nd" "nd_node_id nd < nd_num_principals (r_node r)" "nd_node_id nd \<le> INT32_MAX"
  shows "\<exists>msg. by_sent b' = by_sent b @ [(msg, TBFT_ALL_REPLICAS)] \<and>
    req_cid msg = nd_node_id nd \<and> req_rid msg = fst (tbft_node_new_rid nd) \<and> field sz_request (length cmd) msg = cmd \<and>
    tbft_replica_handle_request c E msg (int (length msg)) r =
      (let r' = r\<lparr> r_last_received_rid := rid_raise (r_last_received_rid r) (nd_node_id nd) (req_rid msg) \<rparr>;
           q = src_queue (\<not> ro) r; q' = snd (rqueue_push c q msg (int (length msg)) ro)
       in if \<not> tbft_replica_is_primary r then forward_request E msg (int (length msg)) r'
          else if vi_in_progress (r_vi r) \<or> queued c q msg \<or> TBFT_RQUEUE_MAX c \<le> rq_count q then r'
          else tbft_replica_send_pre_prepare c E (if ro then r'\<lparr> r_ro_rqueue := q' \<rparr> else r'\<lparr> r_rqueue := q' \<rparr>)) \<and>
    (\<forall>E' n ndet proposer. pp_request_ok E (r_node r) (build_pp c E' proposer n (tbft_msg_digest (e_hash E) msg) msg ndet))"
proof -
  obtain msg off s0 sig where sent: "by_sent b' = by_sent b @ [(msg, TBFT_ALL_REPLICAS)]" and off: "off = sz_request + length cmd"
    and sig: "tbft_principal_sign (e_psa E) p (take off msg) s0 = (0, sig)" "field off TBFT_SIG_SIZE msg = sig"
    and len: "off + TBFT_SIG_SIZE \<le> length msg" "length msg \<le> off + TBFT_SIG_SIZE + 7" "length msg \<le> TBFT_MAX_MESSAGE_SIZE c"
    and fields: "hdr_tag msg = tag_val TBFT_MSG_REQUEST" "hdr_extra msg = (if ro then 1 else 0)" "req_cid msg = i32 (nd_node_id nd)"
      "req_rid msg = fst (tbft_node_new_rid nd)" "req_command_size msg = int (length cmd)" "field sz_request (length cmd) msg = cmd"
    using request_sent [OF c send client] unfolding keys(4) by metis
  have cid: "req_cid msg = nd_node_id nd" using fields(3) id by (simp add: i32_id INT32_MAX_def)
  have ok: "request_sig_ok E (r_node r) msg"
    using request_sig_passes [OF sig off fields(5) cid client(4) keys(2) _ keys(1) id(1,2)] keys(3,4) by simp
  have cap: "256 \<le> TBFT_MAX_MESSAGE_SIZE c" "TBFT_MAX_MESSAGE_SIZE c \<le> 65536"
    using c(1) by (simp_all add: cfg_fits_def cfg_ok_def)
  have embedded: "pp_request_ok E (r_node r) (build_pp c E' proposer n (tbft_msg_digest (e_hash E) msg) msg ndet)" for E' n ndet proposer
  proof -
    have d: "length (tbft_msg_digest (e_hash E) msg) = 32" using c(2) keys(4) by simp
    have l: "length msg \<le> 65536" using len(3) cap(2) by simp
    define pp where "pp = build_pp c E' proposer n (tbft_msg_digest (e_hash E) msg) msg ndet"
    note f = build_pp_fields [OF d l cap(1), of E' proposer n ndet, folded pp_def]
    note e = embedded_request [OF cap(1) l d pp_def]
    have h: "hdr_tag (drop sz_pre_prepare pp) = hdr_tag msg" "req_cid (drop sz_pre_prepare pp) = req_cid msg"
      "req_command_size (drop sz_pre_prepare pp) = req_command_size msg"
      using e(2) [of 0 2] e(2) [of 48 4] e(2) [of 64 4] len(1) off by (simp_all add: hdr_defs req_defs rd_defs)
    have sig: "request_sig_ok E (r_node r) (drop sz_pre_prepare pp) = request_sig_ok E (r_node r) msg"
      using e(1) [of off] e(2) [of off TBFT_SIG_SIZE] len(1) h off fields(5) by (simp add: request_sig_ok_def Let_def)
    have "msg \<noteq> []" using len(1) by auto
    with sig f h fields(1,5) cid id len(1,2) off ok show ?thesis by (simp add: pp_request_ok_def Let_def pp_def [symmetric])
  qed
  have ro: "(hdr_extra msg AND TBFT_REQUEST_RO_FLAG \<noteq> 0) = ro" using fields(2) by (simp add: TBFT_REQUEST_RO_FLAG_def)
  have src: "src_queue w (r\<lparr> r_last_received_rid := x \<rparr>) = src_queue w r" "tbft_replica_is_primary (r\<lparr> r_last_received_rid := x \<rparr>) = tbft_replica_is_primary r"
    for w x by (simp_all add: src_queue_def tbft_replica_is_primary_def)
  have push: "fst (rqueue_push c (src_queue w r) msg (int (length msg)) ro) = (rq_count (src_queue w r) < TBFT_RQUEUE_MAX c)" for w
    using len(3) by (simp add: rqueue_push_def Let_def)
  have guard: "\<not> (int (TBFT_MAX_MESSAGE_SIZE c) - int sz_request - int TBFT_SIG_SIZE) mod 2 ^ 32 < req_command_size msg"
    using len(1,3) off cap fields(5) by simp
  have "tbft_replica_handle_request c E msg (int (length msg)) r =
      (let r' = r\<lparr> r_last_received_rid := rid_raise (r_last_received_rid r) (nd_node_id nd) (req_rid msg) \<rparr>;
           q = src_queue (\<not> ro) r; q' = snd (rqueue_push c q msg (int (length msg)) ro)
       in if \<not> tbft_replica_is_primary r then forward_request E msg (int (length msg)) r'
          else if vi_in_progress (r_vi r) \<or> queued c q msg \<or> TBFT_RQUEUE_MAX c \<le> rq_count q then r'
          else tbft_replica_send_pre_prepare c E (if ro then r'\<lparr> r_ro_rqueue := q' \<rparr> else r'\<lparr> r_rqueue := q' \<rparr>))"
    using len(1) off fields(5) cid id ok guard push [of "\<not> ro"]
    by (simp add: tbft_replica_handle_request_def Let_def ro src split_beta)
  with sent cid fields(4,6) embedded show ?thesis by blast
qed

text \<open>A client with the key pair of the sample instance asks the wallet for a transfer.\<close>

definition ask_node :: node where
  "ask_node = vote_node\<lparr> nd_local_set := True, nd_principals := (nd_principals vote_node)[4 := Some toy_peer] \<rparr>"

lemma ask_config_fits: "cfg_fits vote_config"
  by (simp add: cfg_fits_def cfg_ok_def vote_config_def small_config_def pow2_assert_def TBFT_P_CHILDREN_def TBFT_AUTH_SIZE_def
      TBFT_HMAC_SIZE_def sz_prepare_def INT32_MAX_def)

lemma toy_sign_any: "\<exists>sig. tbft_principal_sign toy_psa toy_peer m s0 = (0, sig)"
  by (simp add: tbft_principal_sign_def toy_psa_def toy_peer_def Let_def retry_third min_def) arith

lemma ask_sent:
  "\<exists>b'. Byz_send_request vote_config sample_device True [1, 0, 1, 10, 0, 0, 0] False 0 []
     ((byz_start vote_config)\<lparr> by_client := Some ask_node \<rparr>) = (0, [], b')"
proof -
  let ?nd = "snd (tbft_node_new_rid ask_node)"
  have nd: "nd_local_set ?nd" "nd_node_id ?nd = 4" "nd_principal ?nd 4 = Some toy_peer" "nd_transport ?nd"
    by (simp_all add: tbft_node_new_rid_def ask_node_def vote_node_def nd_principal_def)
  have "fst (sign_request toy_psa ?nd off m) = 0" for off m
    using toy_sign_any [of "take off m" "field off TBFT_SIG_SIZE m"] nd
    by (auto simp: sign_request_def tbft_node_gen_sig_def toy_peer_def Let_def)
  moreover have "drain_loop vote_config sample_device ask_node 64 [] x = ([], x)" for x
    using drain_loop.simps(2) [of vote_config sample_device ask_node 63] by simp
  moreover have "dv_psa sample_device = toy_psa" by (simp add: sample_device_def)
  ultimately show ?thesis using nd(4) by (simp add: Byz_send_request_def byz_start_def Let_def split_beta)
qed

lemma request_accepted_witness:
  "\<exists>b' msg. Byz_send_request vote_config sample_device True [1, 0, 1, 10, 0, 0, 0] False 0 []
     ((byz_start vote_config)\<lparr> by_client := Some ask_node \<rparr>) = (0, [], b') \<and> by_sent b' = [(msg, TBFT_ALL_REPLICAS)] \<and>
     field 68 7 msg = [1, 0, 1, 10, 0, 0, 0] \<and>
     pp_request_ok quiet_env ask_node (build_pp vote_config quiet_env ask_node 1 (tbft_msg_digest (e_hash quiet_env) msg) msg [])"
proof -
  obtain b' where b': "Byz_send_request vote_config sample_device True [1, 0, 1, 10, 0, 0, 0] False 0 []
     ((byz_start vote_config)\<lparr> by_client := Some ask_node \<rparr>) = (0, [], b')" using ask_sent by blast
  have seven: "field 68 (Suc (Suc (Suc (Suc (Suc (Suc (Suc 0))))))) m = field 68 7 m" for m by (simp add: numeral_eq_Suc)
  obtain r :: replica where r: "r_node r = ask_node" by (rule that [of "undefined\<lparr> r_node := ask_node \<rparr>"]) simp
  have "dv_psa sample_device = toy_psa" "e_psa quiet_env = toy_psa" by (simp_all add: sample_device_def quiet_env_def)
  moreover have "nd_principal ask_node 4 = Some toy_peer" "nd_node_id ask_node = 4" "nd_num_principals ask_node = 5"
    by (simp_all add: ask_node_def vote_node_def nd_principal_def)
  moreover have "p_pub_verify_id toy_peer = Some [1]" "p_priv_sign_id toy_peer = Some [2]" "nd_local_set ask_node"
    by (simp_all add: toy_peer_def ask_node_def)
  ultimately show ?thesis
    using request_accepted [OF ask_config_fits _ b', of ask_node toy_peer "[2]" r toy_peer "[1]" quiet_env] toy_laws(2) [of "[2]" "[1]"] toy_hash_len r b' seven
    by (auto simp: byz_start_def INT32_MAX_def)
qed

end
