(* ===== verification/Example_Tasks.thy ===== *)
theory Example_Tasks
  imports Applications Request_Path
begin

text \<open>
  The tasks of \<open>examples/\<close>: \<open>replica_task\<close> starts a replica with the application's memory and callback and
  runs it, \<open>client_task\<close> starts a client and sends the same command again and again.  \<open>fs\<close> is the file system
  (unchanged while a task starts), \<open>base\<close> the address of the application's memory.  The bring-up of the
  radio before the tasks, and the pauses, are left out.
\<close>

section \<open>Starting\<close>

definition config_path :: "device \<Rightarrow> string" where
  "config_path D = (if dv_udp D then ''/spiffs/config_udp.txt'' else ''/spiffs/config_espnow.txt'')"

definition priv_path :: "int \<Rightarrow> string" where
  "priv_path local_id = take 31 (''/spiffs/priv'' @ dec (nat local_id) @ ''.der'')"

definition start_app :: "config \<Rightarrow> device \<Rightarrow> (string \<Rightarrow> string option) \<Rightarrow> bytes \<Rightarrow> exec_cb \<Rightarrow> byz \<Rightarrow> bool \<times> byz" where
  "start_app c D fs mem cb b =
     (let file = fs (config_path D); local_id = Byz_detect_local_id c D file in
      if local_id < 0 then (False, b)
      else case Byz_init_replica c D file (Some (priv_path local_id)) local_id mem (Some cb) None 0 False b of
             (ret, b) \<Rightarrow> (ret = 0, b))"

definition wallet_memory :: bytes where
  "wallet_memory = initial_balances (replicate 4096 0)"

definition wallet_replica_task ::
  "config \<Rightarrow> device \<Rightarrow> (string \<Rightarrow> string option) \<Rightarrow> int \<Rightarrow> env \<Rightarrow> int \<Rightarrow> (env \<times> int \<times> (int \<times> bytes) list) list \<Rightarrow> int \<Rightarrow> round_in list
     \<Rightarrow> byz \<Rightarrow> byz" where
  "wallet_replica_task c D fs base E0 tick0 barrier tick1 rounds b =
     (case start_app c D fs wallet_memory (wallet_exec c base) b of
        (ok, b) \<Rightarrow> if \<not> ok then b else Byz_replica_run c E0 tick0 barrier tick1 rounds b)"

definition counter_memory :: bytes where
  "counter_memory = wr_i32 0 0 (replicate 4096 0)"

definition counter_replica_task ::
  "config \<Rightarrow> device \<Rightarrow> (string \<Rightarrow> string option) \<Rightarrow> int \<Rightarrow> env \<Rightarrow> int \<Rightarrow> (env \<times> int \<times> (int \<times> bytes) list) list \<Rightarrow> int \<Rightarrow> round_in list
     \<Rightarrow> byz \<Rightarrow> byz" where
  "counter_replica_task c D fs base E0 tick0 barrier tick1 rounds b =
     (case start_app c D fs counter_memory (counter_exec c base) b of
        (ok, b) \<Rightarrow> if \<not> ok then b else Byz_replica_run c E0 tick0 barrier tick1 rounds b)"

section \<open>The clients\<close>

definition wallet_command :: bytes where
  "wallet_command = [1, 0, 1] @ le_bytes 4 10"

definition counter_command :: bytes where
  "counter_command = [0]"

definition start_client :: "config \<Rightarrow> device \<Rightarrow> (string \<Rightarrow> string option) \<Rightarrow> byz \<Rightarrow> bool \<times> byz" where
  "start_client c D fs b =
     (let file = fs (config_path D); local_id = Byz_detect_local_id c D file in
      if local_id < 0 then (False, b)
      else case Byz_init_client c D file (Some (priv_path local_id)) local_id b of (ret, b) \<Rightarrow> (ret = 0, b))"

text \<open>One round: \<open>fresh\<close> is the memory that \<open>malloc\<close> returns for the command, or \<open>None\<close>; the result is the number of
  the successful attempt with the contents of the reply.\<close>

definition client_round :: "config \<Rightarrow> device \<Rightarrow> bytes \<Rightarrow> bytes option \<Rightarrow> (bool \<times> int) list \<Rightarrow> net \<Rightarrow> byz \<Rightarrow> int \<times> bytes \<times> net \<times> byz" where
  "client_round c D cmd fresh as ins b =
     (case Byz_alloc_request fresh (int (length cmd)) \<lparr> bb_contents = None, bb_size = 0 \<rparr> of
        (rc, req) \<Rightarrow>
          if rc \<noteq> 0 then (- 1, [], ins, b)
          else let req = req\<lparr> bb_contents := map_option (put 0 cmd) (bb_contents req), bb_size := int (length cmd) \<rparr>
            in Byz_invoke_with_retry c D (field 0 (nat (bb_size req)) (the (bb_contents req))) False 3 as ins b)"

fun client_loop :: "config \<Rightarrow> device \<Rightarrow> bytes \<Rightarrow> (bytes option \<times> (bool \<times> int) list) list \<Rightarrow> net \<Rightarrow> byz \<Rightarrow> (int \<times> bytes) list \<times> net \<times> byz" where
  "client_loop c D cmd [] ins b = ([], ins, b)"
| "client_loop c D cmd ((fresh, as) # rounds) ins b =
     (case client_round c D cmd fresh as ins b of
        (n, rep, ins, b) \<Rightarrow> (case client_loop c D cmd rounds ins b of (out, ins, b) \<Rightarrow> ((n, rep) # out, ins, b)))"

definition wallet_client_task where
  "wallet_client_task c D fs rounds ins b =
     (case start_client c D fs b of
        (ok, b) \<Rightarrow> if \<not> ok then ([], ins, b) else client_loop c D wallet_command rounds ins b)"

definition counter_client_task where
  "counter_client_task c D fs rounds ins b =
     (case start_client c D fs b of
        (ok, b) \<Rightarrow> if \<not> ok then ([], ins, b) else client_loop c D counter_command rounds ins b)"

section \<open>A started replica\<close>

lemma app_started:
  assumes "start_app c D fs mem cb b = (True, b')" "replies_fit c (Some cb)"
  shows "\<exists>r. by_replica b' = Some r \<and> deployed c (nd_num_replicas (r_node r)) (nd_max_faulty (r_node r)) (r_id r) r \<and> as_mem (r_state r) = mem"
proof -
  obtain local_id where init: "Byz_init_replica c D (fs (config_path D)) (Some (priv_path local_id)) local_id mem (Some cb) None 0 False b = (0, b')"
    using assms(1) by (auto simp: start_app_def Let_def split: if_splits prod.splits)
  from Byz_init_replica_cases [OF this] obtain cfg l r nd where
    r: "tbft_replica_init c (dv_res D) l (bc_f cfg) (bc_num_replicas cfg) (bc_num_nodes cfg)
       (bc_auth_timeout_ms cfg * 1000) mem (Some (exec_adapter (Some cb))) None 0 False = Some r"
    and b': "by_replica b' = Some (boot_replica D nd (set_periods c cfg r))" by metis
  have "as_mem (r_state r) = mem"
    using r by (auto simp: tbft_replica_init_def replica_fields_def tbft_state_init_def Let_def split: option.splits prod.splits if_splits)
  moreover have "ndet_ok None" by (simp add: ndet_ok_def)
  ultimately show ?thesis using b' init assms(2) unfolding deployed_def
    by (intro exI [of _ "boot_replica D nd (set_periods c cfg r)"])
      (auto simp: boot_replica_def set_periods_def Let_def intro!: exI)
qed

lemma wallet_memory_good: "solvent wallet_memory" "total wallet_memory = 4000"
proof -
  have len: "length wallet_memory = 4096" by (simp add: wallet_memory_def initial_balances_def)
  have acc: "account wallet_memory i = 1000" if "i \<in> {0, 1, 2, 3}" for i
    using that by (elim insertE emptyE) (simp_all add: wallet_memory_def initial_balances_def rd_wr_same rd_i32_wr_other i32_id)
  show "total wallet_memory = 4000" using acc [of 0] acc [of 1] acc [of 2] acc [of 3] by (simp add: total_def)
  with acc [of 0] acc [of 1] acc [of 2] acc [of 3] len show "solvent wallet_memory"
    by (simp add: solvent_def INT32_MAX_def)
qed

lemma wallet_started:
  assumes "cfg_fits c" "start_app c D fs wallet_memory (wallet_exec c base) b = (True, b')"
  shows "\<exists>r. by_replica b' = Some r \<and> deployed c (nd_num_replicas (r_node r)) (nd_max_faulty (r_node r)) (r_id r) r \<and>
    solvent (as_mem (r_state r)) \<and> total (as_mem (r_state r)) = 4000"
  using app_started [OF assms(2) wallet_deployable [OF assms(1)]] wallet_memory_good by auto

section \<open>The transfer of the wallet's client\<close>

lemma client_round_command:
  assumes "length x = length cmd"
  shows "client_round c D cmd (Some x) as ins b = Byz_invoke_with_retry c D cmd False 3 as ins b"
proof -
  have "field 0 (length cmd) (put 0 cmd x) = cmd" by (rule field_put_same) simp_all
  then show ?thesis by (simp add: client_round_def Byz_alloc_request_def Let_def)
qed

text \<open>The callback reads the command behind the header of the request as the transfer the client meant.\<close>

lemma wallet_command_read:
  assumes "field sz_request (length wallet_command) msg = wallet_command"
  shows "wallet_req_of (drop 68 msg) = \<lparr> wr_op = 1, wr_from = 0, wr_to = 1, wr_amount = 10 \<rparr>"
proof -
  let ?w = "[1, 0, 1] @ le_bytes 4 10"
  have e: "field 0 1 ?w = [1]" "field 1 1 ?w = [0]" "field 2 1 ?w = [1]" "field 3 4 ?w = le_bytes 4 10" by code_simp+
  have w: "?w = field 0 7 (drop 68 msg)" using assms by (simp add: wallet_command_def field_drop)
  have sub: "field k l ?w = field k l (drop 68 msg)" if "k + l \<le> 7" for k l unfolding w using field_field [OF that, of 0] by simp
  have f: "field 0 1 (drop 68 msg) = [1]" "field 1 1 (drop 68 msg) = [0]" "field 2 1 (drop 68 msg) = [1]"
    "field 3 4 (drop 68 msg) = le_bytes 4 10"
    by (rule trans [OF sub [symmetric] e(1)], simp) (rule trans [OF sub [symmetric] e(2)], simp,
      rule trans [OF sub [symmetric] e(3)], simp, rule trans [OF sub [symmetric] e(4)], simp)
  have "byte_at (drop 68 msg) k = x" if "field k 1 (drop 68 msg) = [x]" for k x using that by (simp add: field_def)
  with f show ?thesis by (simp add: wallet_req_of_def rd_i32_def i32_le_val i32_id)
qed

lemma transfer_carried_out:
  assumes "field sz_request (length wallet_command) msg = wallet_command" "68 \<le> length msg"
    and st: "solvent (as_mem st)" "10 \<le> account (as_mem st) 0"
  obtains st' where "wallet_exec c base msg ndet cid ro st =
      (0, wallet_rep (account (as_mem st) 0 - 10) (account (as_mem st) 1 + 10) 0, 9, st')"
    "account (as_mem st') 0 = account (as_mem st) 0 - 10" "account (as_mem st') 1 = account (as_mem st) 1 + 10"
proof -
  let ?m1 = "wr_i32 (4 * 0) (account (as_mem st) 0 - 10) (as_mem st)"
  have s: "16 \<le> length (as_mem st)" "0 \<le> account (as_mem st) 1" "0 \<le> account (as_mem st) 2" "0 \<le> account (as_mem st) 3"
    "total (as_mem st) \<le> INT32_MAX" using st(1) by (simp_all add: solvent_def)
  have l: "16 \<le> length ?m1" using s(1) by simp
  have one: "account ?m1 j = (if j = 0 then account (as_mem st) 0 - 10 else account (as_mem st) j)" if "j < 4" for j
    by (rule account_write) (use that s st(2) in \<open>simp_all add: total_def\<close>)
  have two: "account (wr_i32 (4 * 1) (account (as_mem st) 1 + 10) ?m1) j = (if j = 1 then account (as_mem st) 1 + 10 else account ?m1 j)"
    if "j < 4" for j by (rule account_write) (use that s l st(2) in \<open>simp_all add: total_def\<close>)
  show thesis
    using assms(2) wallet_command_read [OF assms(1)] st(2) one [of 0] one [of 1] two [of 0] two [of 1]
    by (intro that [of "snd (wallet_transfer c base 0 1 10 st)"])
      (simp_all add: wallet_exec_def Let_def NUM_ACCOUNTS_def wallet_transfer_def)
qed

end
