(* ===== verification/Transport.thy ===== *)
theory Transport
  imports Replica_WF
begin

text \<open>
  The transport interface, \<open>src/tbft_transport.h\<close>: what the node layer relies on, as a locale.  A
  backend has a state with an invariant; every call takes the outcomes of the driver calls it makes,
  and \<open>env_ok\<close> is the documented behaviour of the driver.  A receive returns at most the size of the
  caller's buffer, and the bytes it has written.
\<close>

locale transport =
  fixes inv_t :: "'s \<Rightarrow> bool"
    and env_ok :: "'e \<Rightarrow> nat \<Rightarrow> bool"
    and t_recv :: "'e \<Rightarrow> nat \<Rightarrow> 's \<Rightarrow> int \<times> bytes \<times> 's"
    and t_event :: "'o \<Rightarrow> 's \<Rightarrow> 's"
  assumes recv_law: "inv_t s \<Longrightarrow> env_ok e k \<Longrightarrow> t_recv e k s = (n, data, s') \<Longrightarrow>
      inv_t s' \<and> n \<le> int k \<and> nat n \<le> length data"
    and event_law: "inv_t s \<Longrightarrow> inv_t (t_event o' s)"
begin

text \<open>A message buffer after a receive holds the message.\<close>

lemma recv_fits_buffer:
  assumes "inv_t s" "env_ok e (TBFT_MAX_MESSAGE_SIZE c)" "t_recv e (TBFT_MAX_MESSAGE_SIZE c) s = (n, data, s')"
  shows "msg_fits c (put 0 data buf) n"
  using recv_law [OF assms] by (simp add: msg_fits_def put_def)

lemma events_inv: "inv_t s \<Longrightarrow> inv_t (fold t_event os s)"
  by (induction os arbitrary: s) (simp_all add: event_law)

lemma recv_after_events:
  assumes "inv_t s" "env_ok e (TBFT_MAX_MESSAGE_SIZE c)"
    and "t_recv e (TBFT_MAX_MESSAGE_SIZE c) (fold t_event os s) = (n, data, s')"
  shows "msg_fits c (put 0 data buf) n"
  using recv_fits_buffer [OF events_inv [OF assms(1)] assms(2,3)] .

end

end
