(* ===== verification/Espnow.thy ===== *)
theory Espnow
  imports Transport
begin

text \<open>
  The ESP-NOW backend, \<open>src/tbft_transport_espnow.c\<close>: fragmentation and reassembly, the send task and
  the queues.  The context \<open>g_espnow_ctx\<close> is the record \<open>espnow\<close>; \<open>en_air\<close> is a history variable, the
  frames accepted by the driver with their destination.  The steps are the sections that the code
  runs under its mutex or in one task; a wait for a send credit lets callbacks of the driver run, which
  are part of the input of an attempt.  A queue that is full when a task offers an entry stays full for
  the time of that offer.  The tick counter, the conversion \<open>pdMS_TO_TICKS\<close> and the cap of the credits
  (Kconfig) are parameters.
\<close>

section \<open>Constants\<close>

type_synonym tick = "32 word"

record radio =
  ra_ticks :: "nat \<Rightarrow> tick"
  ra_credits_cap :: nat

definition ESPNOW_MAX_DATA_LEN :: nat where
  "ESPNOW_MAX_DATA_LEN = 1470"

definition FRAG_HDR_SIZE :: nat where
  "FRAG_HDR_SIZE = 4"

definition FRAG_MAX_PAYLOAD :: nat where
  "FRAG_MAX_PAYLOAD = ESPNOW_MAX_DATA_LEN - FRAG_HDR_SIZE"

definition FRAG_MAX_PARTS :: "config \<Rightarrow> nat" where
  "FRAG_MAX_PARTS c = (TBFT_MAX_MESSAGE_SIZE c + FRAG_MAX_PAYLOAD - 1) div FRAG_MAX_PAYLOAD"

definition REASM_MAX_SLOTS :: nat where
  "REASM_MAX_SLOTS = 8"

definition MSG_QUEUE_DEPTH :: nat where
  "MSG_QUEUE_DEPTH = 16"

definition SEND_QUEUE_DEPTH :: nat where
  "SEND_QUEUE_DEPTH = 8"

definition SEND_TASK_SHUTDOWN :: int where
  "SEND_TASK_SHUTDOWN = - 999"

definition ESPNOW_TX_CREDITS :: "config \<Rightarrow> radio \<Rightarrow> nat" where
  "ESPNOW_TX_CREDITS c ra = min (TBFT_MAX_NUM_REPLICAS c - 1) (ra_credits_cap ra)"

text \<open>The static assertion on the size of a message.\<close>

definition espnow_cfg_ok :: "config \<Rightarrow> bool" where
  "espnow_cfg_ok c \<longleftrightarrow> FRAG_MAX_PARTS c \<le> 32"

lemmas espnow_consts [simp] = ESPNOW_MAX_DATA_LEN_def FRAG_HDR_SIZE_def FRAG_MAX_PAYLOAD_def REASM_MAX_SLOTS_def
  MSG_QUEUE_DEPTH_def SEND_QUEUE_DEPTH_def SEND_TASK_SHUTDOWN_def

section \<open>MAC addresses\<close>

text \<open>Addition and subtraction of one, from the last byte on.\<close>

fun inc_rev :: "bytes \<Rightarrow> bytes" where
  "inc_rev [] = []"
| "inc_rev (b # bs) = (b + 1) # (if b + 1 \<noteq> 0 then bs else inc_rev bs)"

fun dec_rev :: "bytes \<Rightarrow> bytes" where
  "dec_rev [] = []"
| "dec_rev (b # bs) = (b - 1) # (if b \<noteq> 0 then bs else dec_rev bs)"

definition get_ap_mac :: "bytes \<Rightarrow> bytes" where
  "get_ap_mac base_mac = rev (inc_rev (rev base_mac))"

definition get_base_mac :: "bytes \<Rightarrow> bytes" where
  "get_base_mac ap_mac = rev (dec_rev (rev ap_mac))"

lemma base_of_ap: "get_base_mac (get_ap_mac m) = m"
proof -
  have "dec_rev (inc_rev bs) = bs" for bs by (induction bs) auto
  then show ?thesis by (simp add: get_base_mac_def get_ap_mac_def)
qed

section \<open>State\<close>

record reasm_slot =
  fs_buf :: bytes
  fs_buf_len :: int
  fs_msg_id :: int
  fs_frag_total :: nat
  fs_frag_received :: nat
  fs_frag_mask :: "32 word"
  fs_src_mac :: bytes
  fs_valid :: bool
  fs_stale :: bool
  fs_last_tick :: tick
  fs_last_frag_len :: int

text \<open>\<open>recv_entry_t\<close> and \<open>send_entry_t\<close> hold a buffer and the number of its bytes in use.\<close>

record espnow =
  en_peers :: "bytes list"
  en_peer_valid :: "bool list"
  en_peer_ap_mac :: "bytes list"
  en_num_nodes :: int
  en_num_replicas :: int
  en_local_id :: int
  en_msg_queue :: "(bytes \<times> int \<times> bytes) list"
  en_send_queue :: "(bytes \<times> int) list"
  en_reasm :: "reasm_slot list"
  en_next_msg_id :: int
  en_reasm_stale_flag :: bool
  en_shutting_down :: bool
  en_credits :: nat
  en_in_flight :: nat
  en_last_fail_tick :: "tick list"
  en_air :: "(bytes \<times> bytes) list"

definition slot_zero :: "config \<Rightarrow> reasm_slot" where
  "slot_zero c = \<lparr> fs_buf = replicate (TBFT_MAX_MESSAGE_SIZE c) 0, fs_buf_len = 0, fs_msg_id = 0, fs_frag_total = 0,
     fs_frag_received = 0, fs_frag_mask = 0, fs_src_mac = replicate 6 0, fs_valid = False, fs_stale = False,
     fs_last_tick = 0, fs_last_frag_len = 0 \<rparr>"

section \<open>Reassembly\<close>

definition reasm_clear_stale :: "config \<Rightarrow> espnow \<Rightarrow> espnow" where
  "reasm_clear_stale c e = e\<lparr> en_reasm := map (\<lambda>s. if fs_stale s then slot_zero c else s) (en_reasm e) \<rparr>"

definition slot_matches :: "int \<Rightarrow> bytes \<Rightarrow> reasm_slot \<Rightarrow> bool" where
  "slot_matches msg_id src_mac s \<longleftrightarrow> fs_valid s \<and> fs_msg_id s = msg_id \<and> fs_src_mac s = src_mac"

definition slot_usable :: "radio \<Rightarrow> tick \<Rightarrow> reasm_slot \<Rightarrow> bool" where
  "slot_usable ra now s \<longleftrightarrow> \<not> fs_valid s \<or> ra_ticks ra 5000 < now - fs_last_tick s"

definition oldest_slot :: "reasm_slot list \<Rightarrow> nat" where
  "oldest_slot ss =
     fold (\<lambda>i old. if fs_last_tick (ss ! i) < fs_last_tick (ss ! old) then i else old) [1 ..< REASM_MAX_SLOTS] 0"

text \<open>The index of the slot, and the slots: a slot in use that has timed out, or the oldest one, is
  cleared.\<close>

definition reasm_find_or_alloc ::
  "config \<Rightarrow> radio \<Rightarrow> tick \<Rightarrow> int \<Rightarrow> bytes \<Rightarrow> reasm_slot list \<Rightarrow> nat \<times> reasm_slot list" where
  "reasm_find_or_alloc c ra now msg_id src_mac ss =
     (case List.find (\<lambda>i. slot_matches msg_id src_mac (ss ! i)) [0 ..< REASM_MAX_SLOTS] of
        Some i \<Rightarrow> (i, ss)
      | None \<Rightarrow>
          (case List.find (\<lambda>i. slot_usable ra now (ss ! i)) [0 ..< REASM_MAX_SLOTS] of
             Some i \<Rightarrow> if \<not> fs_valid (ss ! i) then (i, ss) else (i, ss[i := (slot_zero c)\<lparr> fs_last_tick := now \<rparr>])
           | None \<Rightarrow> let i = oldest_slot ss in (i, ss[i := (slot_zero c)\<lparr> fs_last_tick := now \<rparr>])))"

definition slot_start :: "tick \<Rightarrow> int \<Rightarrow> nat \<Rightarrow> bytes \<Rightarrow> reasm_slot \<Rightarrow> reasm_slot" where
  "slot_start now msg_id frag_total src_mac s = s\<lparr> fs_valid := True, fs_stale := False, fs_msg_id := msg_id,
     fs_frag_total := frag_total, fs_frag_received := 0, fs_frag_mask := 0, fs_buf_len := 0, fs_last_frag_len := 0,
     fs_src_mac := src_mac, fs_last_tick := now \<rparr>"

text \<open>Copying a fragment into the slot; the result says whether the message is complete.\<close>

definition slot_put :: "tick \<Rightarrow> bytes \<Rightarrow> nat \<Rightarrow> nat \<Rightarrow> reasm_slot \<Rightarrow> bool \<times> reasm_slot" where
  "slot_put now data frag_idx frag_total s =
     (let s = s\<lparr> fs_buf := put (frag_idx * FRAG_MAX_PAYLOAD) data (fs_buf s),
                fs_frag_mask := fs_frag_mask s OR push_bit frag_idx 1,
                fs_frag_received := (fs_frag_received s + 1) mod 256, fs_last_tick := now \<rparr>;
          s = (if int frag_idx = int frag_total - 1 then s\<lparr> fs_last_frag_len := int (length data) mod 65536 \<rparr> else s)
      in if fs_frag_received s = frag_total
         then (True, s\<lparr> fs_buf_len := (int frag_total - 1) * int FRAG_MAX_PAYLOAD + fs_last_frag_len s \<rparr>)
         else (False, s))"

definition reasm_feed ::
  "config \<Rightarrow> tick \<Rightarrow> bytes \<Rightarrow> int \<Rightarrow> nat \<Rightarrow> nat \<Rightarrow> bytes \<Rightarrow> reasm_slot \<Rightarrow> bool \<times> reasm_slot" where
  "reasm_feed c now data msg_id frag_idx frag_total src_mac s =
     (let fresh = (\<not> fs_valid s \<or> fs_stale s) in
      if fresh \<and> (frag_total = 0 \<or> 32 < frag_total) then (False, s)
      else let s = (if fresh then slot_start now msg_id frag_total src_mac s else s) in
        if msg_id \<noteq> fs_msg_id s \<or> frag_total \<noteq> fs_frag_total s then (False, s)
        else if frag_total \<le> frag_idx \<or> 32 \<le> frag_idx then (False, s)
        else if fs_frag_mask s AND push_bit frag_idx 1 \<noteq> 0 then (False, s)
        else if TBFT_MAX_MESSAGE_SIZE c < frag_idx * FRAG_MAX_PAYLOAD + length data then (False, s)
        else slot_put now data frag_idx frag_total s)"

definition find_node_by_mac :: "espnow \<Rightarrow> bytes \<Rightarrow> int" where
  "find_node_by_mac e mac =
     (case List.find (\<lambda>i. en_peer_valid e ! nat i \<and> en_peers e ! nat i = get_base_mac mac) [0 .. en_num_nodes e - 1] of
        Some i \<Rightarrow> i
      | None \<Rightarrow> - 1)"

section \<open>Callbacks of the driver\<close>

text \<open>\<open>xSemaphoreGive\<close> on the counting semaphore of the frames in flight.\<close>

definition give_in_flight :: "espnow \<Rightarrow> espnow" where
  "give_in_flight e = e\<lparr> en_in_flight := min 65535 (en_in_flight e + 1) \<rparr>"

text \<open>The context is absent before the transport is created and after it is freed.\<close>

definition espnow_send_cb :: "radio \<Rightarrow> config \<Rightarrow> tick \<Rightarrow> bytes \<Rightarrow> bool \<Rightarrow> espnow \<Rightarrow> espnow" where
  "espnow_send_cb ra c now des_addr ok e =
     (let e = give_in_flight e in
      if en_shutting_down e then e
      else let i = find_node_by_mac e des_addr;
               e = (if 0 \<le> i \<and> i < en_num_nodes e
                    then e\<lparr> en_last_fail_tick := (en_last_fail_tick e)[nat i := if ok then 0 else now] \<rparr> else e)
        in e\<lparr> en_credits := min (ESPNOW_TX_CREDITS c ra) (en_credits e + 1) \<rparr>)"

definition frag_msg_id :: "bytes \<Rightarrow> int" where
  "frag_msg_id data = le_val (field 0 2 data)"

definition frag_idx :: "bytes \<Rightarrow> nat" where
  "frag_idx data = unat (byte_at data 2)"

definition frag_total :: "bytes \<Rightarrow> nat" where
  "frag_total data = unat (byte_at data 3)"

text \<open>A received frame; \<open>lock_ok\<close> says whether the mutex is taken within its 5 ms.\<close>

definition recv_frame :: "config \<Rightarrow> radio \<Rightarrow> tick \<Rightarrow> bytes \<Rightarrow> bytes \<Rightarrow> espnow \<Rightarrow> espnow" where
  "recv_frame c ra now src_mac data e =
     (let e = (reasm_clear_stale c e)\<lparr> en_reasm_stale_flag := False \<rparr>;
          (i, ss) = reasm_find_or_alloc c ra now (frag_msg_id data) src_mac (en_reasm e);
          (complete, s) = reasm_feed c now (drop FRAG_HDR_SIZE data) (frag_msg_id data) (frag_idx data) (frag_total data)
            src_mac (ss ! i)
      in if \<not> complete then e\<lparr> en_reasm := ss[i := s] \<rparr>
         else let entry = (src_mac, fs_buf_len s, take (nat (fs_buf_len s)) (fs_buf s));
                  e = e\<lparr> en_reasm := ss[i := s\<lparr> fs_stale := True \<rparr>], en_reasm_stale_flag := True \<rparr>
           in if length (en_msg_queue e) < MSG_QUEUE_DEPTH then e\<lparr> en_msg_queue := en_msg_queue e @ [entry] \<rparr> else e)"

definition espnow_recv_cb :: "config \<Rightarrow> radio \<Rightarrow> bool \<Rightarrow> tick \<Rightarrow> bytes \<Rightarrow> bytes \<Rightarrow> espnow \<Rightarrow> espnow" where
  "espnow_recv_cb c ra lock_ok now src_mac data e =
     (if length data < FRAG_HDR_SIZE then e
      else if \<not> lock_ok then e
      else recv_frame c ra now src_mac data e)"

section \<open>Sending\<close>

text \<open>An attempt to send a frame: the callbacks that run while the send task waits for a credit, and the
  result of \<open>esp_now_send\<close>.  An exhausted list is a driver that gives no credit any more.\<close>

record attempt =
  at_callbacks :: "(tick \<times> bytes \<times> bool) list"
  at_sent :: bool

definition MAX_RETRIES :: nat where
  "MAX_RETRIES = 2"

fun send_frame :: "config \<Rightarrow> radio \<Rightarrow> bytes \<Rightarrow> bytes \<Rightarrow> nat \<Rightarrow> attempt list \<Rightarrow> espnow \<Rightarrow> bool \<times> attempt list \<times> espnow" where
  "send_frame c ra ap_mac pkt 0 as e = (False, as, e)"
| "send_frame c ra ap_mac pkt (Suc k) [] e = (False, [], e)"
| "send_frame c ra ap_mac pkt (Suc k) (a # as) e =
     (let e = fold (\<lambda>(now, mac, ok). espnow_send_cb ra c now mac ok) (at_callbacks a) e in
      if en_credits e = 0 then (False, as, e)
      else let e = e\<lparr> en_credits := en_credits e - 1 \<rparr> in
        if at_sent a
        then (True, as, (give_in_flight e)\<lparr> en_air := en_air e @ [(ap_mac, pkt)] \<rparr>)
        else send_frame c ra ap_mac pkt k as (e\<lparr> en_credits := min (ESPNOW_TX_CREDITS c ra) (en_credits e + 1) \<rparr>))"

definition frag_header :: "int \<Rightarrow> nat \<Rightarrow> nat \<Rightarrow> bytes" where
  "frag_header msg_id idx parts = le_bytes 2 msg_id @ [of_nat idx, of_nat parts]"

text \<open>The loop over the fragments; the result says whether all were sent.\<close>

function frag_loop ::
  "config \<Rightarrow> radio \<Rightarrow> bytes \<Rightarrow> int \<Rightarrow> nat \<Rightarrow> nat \<Rightarrow> bytes \<Rightarrow> attempt list \<Rightarrow> espnow \<Rightarrow> bool \<times> attempt list \<times> espnow" where
  "frag_loop c ra ap_mac msg_id parts idx src as e =
     (if src = [] then (True, as, e)
      else case send_frame c ra ap_mac (frag_header msg_id idx parts @ take FRAG_MAX_PAYLOAD src) MAX_RETRIES as e of
             (ok, as, e) \<Rightarrow>
               if \<not> ok then (False, as, e)
               else frag_loop c ra ap_mac msg_id parts ((idx + 1) mod 256) (drop FRAG_MAX_PAYLOAD src) as e)"
  by pat_completeness auto
termination by (relation "measure (\<lambda>(_, _, _, _, _, _, src, _, _). length src)") auto

declare frag_loop.simps [simp del]

definition espnow_do_send ::
  "config \<Rightarrow> radio \<Rightarrow> tick \<Rightarrow> int \<Rightarrow> int \<Rightarrow> bytes \<Rightarrow> attempt list \<Rightarrow> espnow \<Rightarrow> int \<times> attempt list \<times> espnow" where
  "espnow_do_send c ra now dest msg_id buf as e =
     (let last_fail = en_last_fail_tick e ! nat dest; ap_mac = en_peer_ap_mac e ! nat dest in
      if dest < 0 \<or> en_num_nodes e \<le> dest \<or> buf = [] then (- 1, as, e)
      else if last_fail \<noteq> 0 \<and> now - last_fail < ra_ticks ra 1000 then (- 1, as, e)
      else if length buf + FRAG_HDR_SIZE \<le> ESPNOW_MAX_DATA_LEN
           then (case send_frame c ra ap_mac (frag_header msg_id 0 1 @ buf) MAX_RETRIES as e of
                   (ok, as, e) \<Rightarrow> (if ok then int (length buf) else - 1, as, e))
           else let parts = (length buf + FRAG_MAX_PAYLOAD - 1) div FRAG_MAX_PAYLOAD mod 256
             in (case frag_loop c ra ap_mac msg_id parts 0 buf as e of
                   (ok, as, e) \<Rightarrow> (if ok then int (length buf) else - 1, as, e)))"

text \<open>One round of the send task; \<open>nows\<close> are the readings of the clock, one for every destination.  The
  result says whether the task goes on.\<close>

definition next_id :: "espnow \<Rightarrow> int \<times> espnow" where
  "next_id e = (en_next_msg_id e, e\<lparr> en_next_msg_id := (en_next_msg_id e + 1) mod 65536 \<rparr>)"

definition send_to_peer ::
  "config \<Rightarrow> radio \<Rightarrow> (int \<Rightarrow> tick) \<Rightarrow> int \<Rightarrow> bytes \<Rightarrow> int \<Rightarrow> attempt list \<times> espnow \<Rightarrow> attempt list \<times> espnow" where
  "send_to_peer c ra nows msg_id buf i st =
     (if i = en_local_id (snd st) then st
      else if \<not> en_peer_valid (snd st) ! nat i then st
      else snd (espnow_do_send c ra (nows i) i msg_id buf (fst st) (snd st)))"

definition send_task_round :: "config \<Rightarrow> radio \<Rightarrow> (int \<Rightarrow> tick) \<Rightarrow> attempt list \<Rightarrow> espnow \<Rightarrow> bool \<times> espnow" where
  "send_task_round c ra nows as e =
     (case en_send_queue e of
        [] \<Rightarrow>
          if en_shutting_down e then (False, e)
          else if en_reasm_stale_flag e then (True, reasm_clear_stale c (e\<lparr> en_reasm_stale_flag := False \<rparr>))
          else (True, e)
      | (buf, dest) # rest \<Rightarrow>
          let e = e\<lparr> en_send_queue := rest \<rparr> in
          if dest = SEND_TASK_SHUTDOWN then (False, reasm_clear_stale c e)
          else if dest = TBFT_ALL_REPLICAS
               then let limit = (if 0 < en_num_replicas e then en_num_replicas e else en_num_nodes e);
                        (msg_id, e) = next_id e
                 in (True, snd (fold (send_to_peer c ra nows msg_id buf) [0 .. limit - 1] (as, e)))
          else if 0 \<le> dest \<and> dest < en_num_nodes e
               then let (msg_id, e) = next_id e
                 in (True, if en_peer_valid e ! nat dest
                           then snd (snd (espnow_do_send c ra (nows dest) dest msg_id buf as e)) else e)
          else (True, e))"

section \<open>The interface of the backend\<close>

text \<open>The outcomes of the allocations and registrations of \<open>tbft_transport_create\<close>; \<open>None\<close> is an error.\<close>

record espnow_create_in =
  ci_calloc :: bool
  ci_queues :: bool
  ci_recv_cb :: bool
  ci_send_cb :: bool
  ci_task :: bool

definition espnow_transport_create ::
  "config \<Rightarrow> radio \<Rightarrow> espnow_create_in \<Rightarrow> int \<Rightarrow> int \<Rightarrow> espnow option \<Rightarrow> int \<times> espnow option" where
  "espnow_transport_create c ra ci num_nodes num_replicas g =
     (if g \<noteq> None then (- 1, g)
      else if int (TBFT_MAX_NUM_REPLICAS c + TBFT_MAX_NUM_CLIENTS c) < num_nodes then (- 1, g)
      else if \<not> ci_calloc ci then (- 1, g)
      else if \<not> ci_queues ci then (- 1, g)
      else if \<not> ci_recv_cb ci \<or> \<not> ci_send_cb ci \<or> \<not> ci_task ci then (- 1, None)
      else let k = TBFT_MAX_NUM_REPLICAS c + TBFT_MAX_NUM_CLIENTS c
        in (0, Some \<lparr> en_peers = replicate k (replicate 6 0), en_peer_valid = replicate k False,
             en_peer_ap_mac = replicate k (replicate 6 0), en_num_nodes = num_nodes, en_num_replicas = num_replicas,
             en_local_id = 0, en_msg_queue = [], en_send_queue = [],
             en_reasm = replicate REASM_MAX_SLOTS (slot_zero c), en_next_msg_id = 1, en_reasm_stale_flag = False,
             en_shutting_down = False, en_credits = ESPNOW_TX_CREDITS c ra, en_in_flight = 0,
             en_last_fail_tick = replicate k 0, en_air = [] \<rparr>))"

text \<open>The wait for the frames in flight: the callbacks are unregistered, so nothing changes the count.  The
  result is the time waited, in milliseconds.\<close>

function drain_in_flight :: "nat \<Rightarrow> nat \<Rightarrow> nat" where
  "drain_in_flight in_flight waited =
     (if 0 < in_flight \<and> waited < 200 then drain_in_flight in_flight (waited + 5) else waited)"
  by pat_completeness auto
termination by (relation "measure (\<lambda>(_, waited). 200 - waited)") auto

declare drain_in_flight.simps [simp del]

definition espnow_transport_free :: "espnow option \<Rightarrow> nat \<times> espnow option" where
  "espnow_transport_free g =
     (case g of None \<Rightarrow> (0, None) | Some e \<Rightarrow> (drain_in_flight (en_in_flight e) 0, None))"

definition espnow_transport_set_peer :: "config \<Rightarrow> bytes option \<Rightarrow> int \<Rightarrow> bytes \<Rightarrow> espnow \<Rightarrow> espnow" where
  "espnow_transport_set_peer c self_mac node_id mac e =
     (if node_id < 0 \<or> int (TBFT_MAX_NUM_REPLICAS c + TBFT_MAX_NUM_CLIENTS c) \<le> node_id then e
      else let e = e\<lparr> en_peers := (en_peers e)[nat node_id := mac], en_peer_valid := (en_peer_valid e)[nat node_id := True],
                      en_peer_ap_mac := (en_peer_ap_mac e)[nat node_id := get_ap_mac mac] \<rparr>
        in if self_mac = Some mac then e\<lparr> en_local_id := node_id \<rparr> else e)"

definition espnow_transport_send :: "config \<Rightarrow> bytes \<Rightarrow> int \<Rightarrow> espnow \<Rightarrow> int \<times> espnow" where
  "espnow_transport_send c buf dest e =
     (if en_shutting_down e then (- 1, e)
      else if INT32_MAX < int (length buf) \<or> TBFT_MAX_MESSAGE_SIZE c < length buf then (- 1, e)
      else if SEND_QUEUE_DEPTH \<le> length (en_send_queue e) then (- 1, e)
      else (int (length buf), e\<lparr> en_send_queue := en_send_queue e @ [(buf, dest)] \<rparr>))"

text \<open>The return value, the bytes written to the caller's buffer, and the sender, if it is written.\<close>

definition espnow_transport_recv :: "config \<Rightarrow> nat \<Rightarrow> espnow \<Rightarrow> int \<times> bytes \<times> int option \<times> espnow" where
  "espnow_transport_recv c buf_len e =
     (if en_shutting_down e then (- 1, [], None, e)
      else let e = (if en_reasm_stale_flag e then reasm_clear_stale c (e\<lparr> en_reasm_stale_flag := False \<rparr>) else e)
        in case en_msg_queue e of
             [] \<Rightarrow> (0, [], None, e)
           | (src_mac, n, payload) # q \<Rightarrow>
               let e = e\<lparr> en_msg_queue := q \<rparr> in
               if n < 0 \<or> int buf_len < n \<or> int (TBFT_MAX_MESSAGE_SIZE c) < n then (- 1, [], None, e)
               else (n, payload, Some (find_node_by_mac e src_mac), e))"

end
