(* ===== verification/Espnow_Inv.thy ===== *)
theory Espnow_Inv
  imports Espnow
begin

text \<open>
  The reassembly table and the queues keep their bounds, a fragmented message arrives as it was sent,
  and the count of the frames in flight only grows.
\<close>

section \<open>The slots\<close>

definition mask_set :: "32 word \<Rightarrow> nat set" where
  "mask_set m = Collect (bit m)"

lemma mask_test: "(m AND push_bit i 1 = (0 :: 32 word)) \<longleftrightarrow> i \<notin> mask_set m" "(m AND 2 ^ i = (0 :: 32 word)) \<longleftrightarrow> i \<notin> mask_set m"
  using bit_iff_and_push_bit_not_eq_0 [of m i] by (simp_all add: mask_set_def push_bit_of_1)

lemma mask_set_zero [simp]: "mask_set 0 = {}"
  by (simp add: mask_set_def)

lemma mask_set_add: "i < 32 \<Longrightarrow> mask_set (m OR push_bit i 1) = insert i (mask_set m)"
  "i < 32 \<Longrightarrow> mask_set (m OR 2 ^ i) = insert i (mask_set m)"
  by (auto simp: mask_set_def bit_or_iff bit_exp_iff possible_bit_word push_bit_of_1)

lemma mask_set_finite [simp]: "finite (mask_set m)"
proof -
  have "mask_set m \<subseteq> {..< 32}" by (auto simp: mask_set_def dest: bit_imp_le_length)
  then show ?thesis by (rule finite_subset) simp
qed

text \<open>A slot in use has received the fragments of its mask, and the message it announces lies in its
  buffer.\<close>

definition slot_ok :: "config \<Rightarrow> reasm_slot \<Rightarrow> bool" where
  "slot_ok c s \<longleftrightarrow> length (fs_buf s) = TBFT_MAX_MESSAGE_SIZE c \<and>
     (fs_valid s \<longrightarrow> 0 < fs_frag_total s \<and> fs_frag_total s \<le> 32 \<and>
        fs_frag_received s = card (mask_set (fs_frag_mask s)) \<and> mask_set (fs_frag_mask s) \<subseteq> {..< fs_frag_total s} \<and>
        (fs_frag_total s - 1 \<in> mask_set (fs_frag_mask s) \<longrightarrow> 0 \<le> fs_last_frag_len s \<and>
           (int (fs_frag_total s) - 1) * int FRAG_MAX_PAYLOAD + fs_last_frag_len s \<le> int (TBFT_MAX_MESSAGE_SIZE c)))"

lemma slot_zero_ok [simp]: "slot_ok c (slot_zero c)" "slot_ok c ((slot_zero c)\<lparr> fs_last_tick := t \<rparr>)"
  by (simp_all add: slot_ok_def slot_zero_def)

lemma slot_put_ok:
  assumes "slot_ok c s" "fs_valid s" "fs_frag_total s = k" "i < k" "i \<notin> mask_set (fs_frag_mask s)"
    and fits: "i * FRAG_MAX_PAYLOAD + length data \<le> TBFT_MAX_MESSAGE_SIZE c" and put: "slot_put now data i k s = (fin, s')"
  shows "slot_ok c s' \<and> fs_valid s' \<and> fs_frag_total s' = k \<and> mask_set (fs_frag_mask s') = insert i (mask_set (fs_frag_mask s)) \<and>
    (fin \<longleftrightarrow> mask_set (fs_frag_mask s') = {..< k}) \<and>
    (fin \<longrightarrow> 0 \<le> fs_buf_len s' \<and> fs_buf_len s' \<le> int (TBFT_MAX_MESSAGE_SIZE c))"
proof -
  let ?S = "mask_set (fs_frag_mask s)"
  have S: "?S \<subseteq> {..< k}" "fs_frag_received s = card ?S" "k \<le> 32" "length (fs_buf s) = TBFT_MAX_MESSAGE_SIZE c"
    using assms(1-3) by (auto simp: slot_ok_def)
  have last: "k - 1 \<in> ?S \<longrightarrow> 0 \<le> fs_last_frag_len s \<and>
      (int k - 1) * int FRAG_MAX_PAYLOAD + fs_last_frag_len s \<le> int (TBFT_MAX_MESSAGE_SIZE c)"
    using assms(1-3) by (simp add: slot_ok_def)
  have card: "card (insert i ?S) = card ?S + 1" using assms(5) by simp
  have sub: "insert i ?S \<subseteq> {..< k}" using S(1) assms(4) by auto
  then have le: "card (insert i ?S) \<le> k" using card_mono [OF finite_lessThan sub] by simp
  then have rec: "(fs_frag_received s + 1) mod 256 = card (insert i ?S)" using S(2,3) card by simp
  have full: "card (insert i ?S) = k \<longleftrightarrow> insert i ?S = {..< k}"
    using card_subset_eq [OF finite_lessThan sub] by (metis card_lessThan)
  have bound: "(int k - 1) * 1466 + int (length data) mod 65536 \<le> int (TBFT_MAX_MESSAGE_SIZE c)" if "i = k - 1"
  proof -
    have "int (length data) mod 65536 \<le> int (length data)" by (rule zmod_le_nonneg_dividend) simp
    moreover have "int (i * 1466 + length data) \<le> int (TBFT_MAX_MESSAGE_SIZE c)" using fits by (simp only: of_nat_le_iff) simp
    ultimately show ?thesis using that assms(4) by (simp add: of_nat_diff)
  qed
  define L where "L = (if int i = int k - 1 then int (length data) mod 65536 else fs_last_frag_len s)"
  have fin: "fin \<longleftrightarrow> card (insert i ?S) = k"
    and s': "s' = s\<lparr> fs_buf := put (i * FRAG_MAX_PAYLOAD) data (fs_buf s), fs_frag_mask := fs_frag_mask s OR push_bit i 1,
      fs_frag_received := card (insert i ?S), fs_last_tick := now, fs_last_frag_len := L,
      fs_buf_len := (if fin then (int k - 1) * int FRAG_MAX_PAYLOAD + L else fs_buf_len s) \<rparr>"
    using put rec by (auto simp: slot_put_def Let_def L_def simp del: card_insert_disjoint split: if_splits)
  have mask: "mask_set (fs_frag_mask s') = insert i ?S" using assms(4) S(3) by (simp add: s' mask_set_add)
  have len: "length (fs_buf s') = TBFT_MAX_MESSAGE_SIZE c" using fits S(4) by (simp add: s' put_def)
  have L: "0 \<le> L \<and> (int k - 1) * int FRAG_MAX_PAYLOAD + L \<le> int (TBFT_MAX_MESSAGE_SIZE c)" if "k - 1 \<in> insert i ?S"
    using that last bound assms(4) by (auto simp: L_def of_nat_diff)
  have "slot_ok c s'" unfolding slot_ok_def mask using len L sub S(3) assms(2-4) mask by (simp add: s')
  moreover have "k - 1 \<in> insert i ?S" if fin using that fin full assms(4) by auto
  then have "0 \<le> fs_buf_len s' \<and> fs_buf_len s' \<le> int (TBFT_MAX_MESSAGE_SIZE c)" if fin
    using that L assms(4) by (auto simp: s')
  ultimately show ?thesis using mask fin full assms(2,3) by (simp add: s')
qed

lemma slot_start_ok:
  assumes "slot_ok c s" "0 < k" "k \<le> 32"
  shows "slot_ok c (slot_start now m k mac s)" "fs_valid (slot_start now m k mac s)" "fs_frag_total (slot_start now m k mac s) = k"
    "mask_set (fs_frag_mask (slot_start now m k mac s)) = {}"
  using assms by (simp_all add: slot_ok_def slot_start_def)

lemma feed_eq:
  assumes "\<not> ((\<not> fs_valid s \<or> fs_stale s) \<and> (k = 0 \<or> 32 < k))"
    and "s1 = (if \<not> fs_valid s \<or> fs_stale s then slot_start now m k mac s else s)"
  shows "reasm_feed c now data m i k mac s =
    (if m \<noteq> fs_msg_id s1 \<or> k \<noteq> fs_frag_total s1 then (False, s1)
     else if k \<le> i \<or> 32 \<le> i then (False, s1)
     else if i \<in> mask_set (fs_frag_mask s1) then (False, s1)
     else if TBFT_MAX_MESSAGE_SIZE c < i * FRAG_MAX_PAYLOAD + length data then (False, s1)
     else slot_put now data i k s1)"
proof (cases "\<not> fs_valid s \<or> fs_stale s")
  case True
  with assms have "s1 = slot_start now m k mac s" "\<not> (k = 0 \<or> 32 < k)" by auto
  with True show ?thesis unfolding reasm_feed_def Let_def by (simp only: mask_test if_True if_False simp_thms)
next
  case False
  with assms(2) have "s1 = s" by simp
  with False show ?thesis unfolding reasm_feed_def Let_def by (simp only: mask_test if_True if_False simp_thms)
qed

lemma feed_ok:
  assumes "slot_ok c s" "reasm_feed c now data m i k mac s = (fin, s')"
  shows "slot_ok c s' \<and> (fin \<longrightarrow> 0 \<le> fs_buf_len s' \<and> fs_buf_len s' \<le> int (TBFT_MAX_MESSAGE_SIZE c))"
proof (cases "(\<not> fs_valid s \<or> fs_stale s) \<and> (k = 0 \<or> 32 < k)")
  case True
  with assms show ?thesis by (auto simp: reasm_feed_def)
next
  case False
  define s1 where "s1 = (if \<not> fs_valid s \<or> fs_stale s then slot_start now m k mac s else s)"
  have s1: "slot_ok c s1" "fs_valid s1" using False assms(1) slot_start_ok [of c s k now m mac] by (auto simp: s1_def)
  show ?thesis using assms(2) s1 slot_put_ok [OF s1, of k i data now fin s']
    unfolding feed_eq [OF False s1_def] by (auto split: if_splits)
qed

section \<open>The table and the queues\<close>

definition entry_fits :: "config \<Rightarrow> bytes \<times> int \<times> bytes \<Rightarrow> bool" where
  "entry_fits c = (\<lambda>(mac, n, payload). 0 \<le> n \<and> n \<le> int (TBFT_MAX_MESSAGE_SIZE c) \<and> nat n = length payload)"

definition espnow_inv :: "config \<Rightarrow> espnow \<Rightarrow> bool" where
  "espnow_inv c e \<longleftrightarrow> length (en_reasm e) = REASM_MAX_SLOTS \<and> list_all (slot_ok c) (en_reasm e) \<and>
     list_all (entry_fits c) (en_msg_queue e) \<and> length (en_msg_queue e) \<le> MSG_QUEUE_DEPTH \<and>
     length (en_send_queue e) \<le> SEND_QUEUE_DEPTH \<and> list_all (\<lambda>(b, d). length b \<le> TBFT_MAX_MESSAGE_SIZE c) (en_send_queue e)"

lemma clear_stale_inv: "espnow_inv c e \<Longrightarrow> espnow_inv c (reasm_clear_stale c e)"
  by (auto simp: espnow_inv_def reasm_clear_stale_def list_all_iff)

lemma inv_flag [simp]: "espnow_inv c (e\<lparr> en_reasm_stale_flag := v \<rparr>) = espnow_inv c e"
  by (simp add: espnow_inv_def)

lemma oldest_range: "oldest_slot ss < 8"
proof -
  have "fold (\<lambda>i old. if fs_last_tick (ss ! i) < fs_last_tick (ss ! old) then i else old) is o' < 8"
    if "\<forall>i \<in> set is. i < 8" "o' < 8" for "is" o'
    using that by (induction "is" arbitrary: o') auto
  then show ?thesis by (simp add: oldest_slot_def)
qed

lemma alloc_range:
  assumes "reasm_find_or_alloc c ra now m mac ss = (i, ss')" "length ss = 8" "list_all (slot_ok c) ss"
  shows "i < 8 \<and> length ss' = 8 \<and> list_all (slot_ok c) ss'"
  using assms oldest_range [of ss]
  by (auto simp: reasm_find_or_alloc_def find_Some_iff Let_def list_all_update split: option.splits if_splits)

lemma recv_frame_inv:
  assumes "espnow_inv c e"
  shows "espnow_inv c (recv_frame c ra now mac data e)"
proof -
  define e1 where "e1 = (reasm_clear_stale c e)\<lparr> en_reasm_stale_flag := False \<rparr>"
  have e1: "espnow_inv c e1" using clear_stale_inv [OF assms] by (simp add: e1_def)
  obtain i ss where al: "reasm_find_or_alloc c ra now (frag_msg_id data) mac (en_reasm e1) = (i, ss)" by fastforce
  obtain fin s where feed: "reasm_feed c now (drop FRAG_HDR_SIZE data) (frag_msg_id data) (frag_idx data) (frag_total data)
      mac (ss ! i) = (fin, s)" by fastforce
  have ss: "i < 8" "length ss = 8" "list_all (slot_ok c) ss" using alloc_range [OF al] e1 by (simp_all add: espnow_inv_def)
  then have "slot_ok c (ss ! i)" by (simp add: list_all_length)
  from feed_ok [OF this feed] have s: "slot_ok c s" "fin \<longrightarrow> 0 \<le> fs_buf_len s \<and> fs_buf_len s \<le> int (TBFT_MAX_MESSAGE_SIZE c)"
    by simp_all
  then have "slot_ok c (s\<lparr> fs_stale := True \<rparr>)" "fin \<longrightarrow> entry_fits c (mac, fs_buf_len s, take (nat (fs_buf_len s)) (fs_buf s))"
    by (auto simp: slot_ok_def entry_fits_def)
  then show ?thesis using e1 ss s(1)
    unfolding recv_frame_def e1_def [symmetric] Let_def al prod.case feed
    by (auto simp: espnow_inv_def list_all_update)
qed

text \<open>Sending touches neither the table nor the queues, and the count of the frames in flight does not
  fall.\<close>

definition flight_inv :: "espnow \<Rightarrow> bool" where
  "flight_inv e \<longleftrightarrow> en_in_flight e \<le> 65535 \<and> (en_air e \<noteq> [] \<longrightarrow> 0 < en_in_flight e)"

definition flight_grows :: "espnow \<Rightarrow> espnow \<Rightarrow> bool" where
  "flight_grows e e' \<longleftrightarrow> (flight_inv e \<longrightarrow> flight_inv e' \<and> en_in_flight e \<le> en_in_flight e')"

definition same_rx :: "espnow \<Rightarrow> espnow \<Rightarrow> bool" where
  "same_rx e e' \<longleftrightarrow> en_reasm e' = en_reasm e \<and> en_msg_queue e' = en_msg_queue e \<and> en_send_queue e' = en_send_queue e \<and>
     flight_grows e e'"

lemma flight_grows_refl [simp]: "flight_grows e e"
  by (simp add: flight_grows_def)

lemma flight_grows_trans: "flight_grows e e1 \<Longrightarrow> flight_grows e1 e2 \<Longrightarrow> flight_grows e e2"
  by (auto simp: flight_grows_def)

lemma flight_upd [simp]:
  "flight_grows e (e1\<lparr> en_credits := n \<rparr>) = flight_grows e e1" "flight_grows e (e1\<lparr> en_last_fail_tick := ts \<rparr>) = flight_grows e e1"
  "flight_grows e (e1\<lparr> en_reasm := ss \<rparr>) = flight_grows e e1" "flight_grows e (e1\<lparr> en_msg_queue := q \<rparr>) = flight_grows e e1"
  "flight_grows e (e1\<lparr> en_send_queue := sq \<rparr>) = flight_grows e e1" "flight_grows e (e1\<lparr> en_next_msg_id := m \<rparr>) = flight_grows e e1"
  "flight_grows e (e1\<lparr> en_reasm_stale_flag := v \<rparr>) = flight_grows e e1" "flight_grows e (e1\<lparr> en_peers := ps \<rparr>) = flight_grows e e1"
  "flight_grows e (e1\<lparr> en_peer_valid := vs \<rparr>) = flight_grows e e1" "flight_grows e (e1\<lparr> en_peer_ap_mac := ps \<rparr>) = flight_grows e e1"
  "flight_grows e (e1\<lparr> en_local_id := l \<rparr>) = flight_grows e e1" "flight_grows e (reasm_clear_stale c e1) = flight_grows e e1"
  by (simp_all add: flight_grows_def flight_inv_def reasm_clear_stale_def)

lemma flight_up: "flight_grows e (give_in_flight e)" "flight_grows e ((give_in_flight e)\<lparr> en_air := fs \<rparr>)"
  by (auto simp: flight_grows_def flight_inv_def give_in_flight_def)

lemma same_rx_refl [simp]: "same_rx e e"
  by (simp add: same_rx_def)

lemma same_rx_trans: "same_rx e e1 \<Longrightarrow> same_rx e1 e2 \<Longrightarrow> same_rx e e2"
  using flight_grows_trans by (auto simp: same_rx_def)

lemma same_rx_upd [simp]:
  "same_rx e (e1\<lparr> en_credits := n \<rparr>) = same_rx e e1" "same_rx e (e1\<lparr> en_last_fail_tick := ts \<rparr>) = same_rx e e1"
  by (simp_all add: same_rx_def)

lemma same_rx_up [simp]: "same_rx e (give_in_flight e)" "same_rx e ((give_in_flight e)\<lparr> en_air := fs \<rparr>)"
  using flight_up [of e] by (simp_all add: same_rx_def) (simp_all add: give_in_flight_def)

lemma same_rx_credit: "same_rx (e\<lparr> en_credits := n \<rparr>) e' = same_rx e e'"
  by (simp add: same_rx_def flight_grows_def flight_inv_def)

lemma same_rx_sent [simp]: "same_rx e ((give_in_flight (e\<lparr> en_credits := n \<rparr>))\<lparr> en_air := fs \<rparr>)"
  using same_rx_up(2) [of "e\<lparr> en_credits := n \<rparr>" fs] by (simp only: same_rx_credit)

lemma same_rx_flight: "same_rx e e' \<Longrightarrow> flight_grows e e'"
  by (simp add: same_rx_def)

lemma same_rx_inv: "espnow_inv c e \<Longrightarrow> same_rx e e' \<Longrightarrow> espnow_inv c e'"
  by (simp add: espnow_inv_def same_rx_def)

lemma send_cb_rx [simp]: "same_rx e (espnow_send_cb ra c now mac ok e)"
  by (simp add: espnow_send_cb_def Let_def)

lemma send_cbs_rx: "same_rx e (fold (\<lambda>(now, mac, ok). espnow_send_cb ra c now mac ok) xs e)"
proof (induction xs arbitrary: e)
  case (Cons x xs)
  obtain now mac ok where x: "x = (now, mac, ok)" by (cases x)
  show ?case using same_rx_trans [OF send_cb_rx Cons.IH] by (simp add: x)
qed simp

lemma send_frame_rx: "send_frame c ra mac pkt k as e = (ok, as', e') \<Longrightarrow> same_rx e e'"
proof (induction c ra mac pkt k as e rule: send_frame.induct)
  case (3 c ra mac pkt k a as e)
  let ?e = "fold (\<lambda>(now, mac, ok). espnow_send_cb ra c now mac ok) (at_callbacks a) e"
  have cb: "same_rx e ?e" by (rule send_cbs_rx)
  from "3.prems" consider "en_credits ?e = 0" "e' = ?e" | "en_credits ?e \<noteq> 0" "at_sent a" "same_rx ?e e'"
    | e2 where "en_credits ?e \<noteq> 0" "\<not> at_sent a" "send_frame c ra mac pkt k as e2 = (ok, as', e')" "same_rx ?e e2"
      "e2 = ?e\<lparr> en_credits := min (ESPNOW_TX_CREDITS c ra) (en_credits ?e - 1 + 1) \<rparr>"
    by (auto simp: Let_def split: if_splits)
  then show ?case
  proof cases
    case retry: 3
    then have "same_rx e2 e'" using "3.IH" [OF refl _ refl] by simp
    then have "same_rx ?e e'" by (simp add: retry(5) same_rx_credit)
    then show ?thesis by (rule same_rx_trans [OF cb])
  qed (use cb same_rx_trans in blast)+
qed auto

lemma frag_loop_rx: "frag_loop c ra mac m k i src as e = (ok, as', e') \<Longrightarrow> same_rx e e'"
proof (induction c ra mac m k i src as e rule: frag_loop.induct)
  case (1 c ra mac m k i src as e)
  show ?case
  proof (cases "src = []")
    case True
    with "1.prems" show ?thesis by (simp add: frag_loop.simps)
  next
    case False
    obtain ok1 as1 e1 where f: "send_frame c ra mac (frag_header m i k @ take FRAG_MAX_PAYLOAD src) MAX_RETRIES as e = (ok1, as1, e1)"
      by (metis prod_cases3)
    have e1: "same_rx e e1" using send_frame_rx [OF f] .
    show ?thesis
    proof (cases ok1)
      case True
      with "1.prems" False f have "frag_loop c ra mac m k ((i + 1) mod 256) (drop FRAG_MAX_PAYLOAD src) as1 e1 = (ok, as', e')"
        by (subst (asm) frag_loop.simps) simp
      with "1.IH" [OF False f [symmetric] refl] True e1 show ?thesis by (blast intro: same_rx_trans)
    next
      case fail: False
      with "1.prems" False f e1 show ?thesis by (subst (asm) frag_loop.simps) simp
    qed
  qed
qed

lemma do_send_rx: "espnow_do_send c ra now dest m buf as e = (rc, as', e') \<Longrightarrow> same_rx e e'"
  unfolding espnow_do_send_def Let_def
  by (auto split: if_splits prod.splits dest: send_frame_rx frag_loop_rx)

lemma to_peer_rx: "same_rx (snd st) (snd (send_to_peer c ra nows m buf i st))"
  using do_send_rx [of c ra "nows i" i m buf "fst st" "snd st"]
  by (auto simp: send_to_peer_def) (metis prod.collapse)

lemma to_peers_rx: "same_rx (snd st) (snd (fold (send_to_peer c ra nows m buf) is st))"
proof (induction "is" arbitrary: st)
  case (Cons i "is")
  show ?case using same_rx_trans [OF to_peer_rx Cons.IH] by simp
qed simp

lemma send_task_inv:
  assumes "espnow_inv c e"
  shows "espnow_inv c (snd (send_task_round c ra nows as e))"
proof (cases "en_send_queue e")
  case Nil
  then show ?thesis using assms by (simp add: send_task_round_def clear_stale_inv)
next
  case (Cons x rest)
  obtain buf dest where x: "x = (buf, dest)" by (cases x)
  define e1 where "e1 = e\<lparr> en_send_queue := rest \<rparr>"
  have e1: "espnow_inv c e1" using assms Cons by (simp add: espnow_inv_def e1_def)
  have id: "espnow_inv c (snd (next_id e1))" using e1 by (simp add: next_id_def espnow_inv_def)
  have "espnow_inv c (snd (fold (send_to_peer c ra nows m buf) is (as, snd (next_id e1))))" for m "is"
    using same_rx_inv [OF id] to_peers_rx [of "(as, snd (next_id e1))"] by simp
  moreover have "espnow_inv c (snd (snd (espnow_do_send c ra t d m buf as (snd (next_id e1)))))" for t d m
    using same_rx_inv [OF id] do_send_rx by (metis prod.collapse)
  ultimately show ?thesis
    unfolding send_task_round_def Cons list.case x prod.case Let_def e1_def [symmetric]
    using e1 id by (simp add: clear_stale_inv split_beta)
qed

lemma set_peer_inv: "espnow_inv c e \<Longrightarrow> espnow_inv c (espnow_transport_set_peer c self i mac e)"
  by (simp add: espnow_transport_set_peer_def Let_def espnow_inv_def)

lemma send_inv: "espnow_inv c e \<Longrightarrow> espnow_inv c (snd (espnow_transport_send c buf dest e))"
  by (auto simp: espnow_transport_send_def espnow_inv_def)

lemma recv_law:
  assumes "espnow_inv c e" "espnow_transport_recv c k e = (n, data, src, e')"
  shows "espnow_inv c e' \<and> n \<le> int k \<and> nat n \<le> length data"
proof (cases "en_shutting_down e")
  case False
  define e1 where "e1 = (if en_reasm_stale_flag e then reasm_clear_stale c (e\<lparr> en_reasm_stale_flag := False \<rparr>) else e)"
  have e1: "espnow_inv c e1" using assms(1) by (simp add: e1_def clear_stale_inv)
  show ?thesis
  proof (cases "en_msg_queue e1")
    case Nil
    then show ?thesis using assms(2) False e1
      unfolding espnow_transport_recv_def e1_def [symmetric] Let_def by simp
  next
    case (Cons x q)
    obtain mac l payload where x: "x = (mac, l, payload)" by (cases x)
    have "espnow_inv c (e1\<lparr> en_msg_queue := q \<rparr>)" "entry_fits c x"
      using e1 Cons by (auto simp: espnow_inv_def)
    then show ?thesis using assms(2) False
      unfolding espnow_transport_recv_def e1_def [symmetric] Let_def Cons list.case x prod.case
      by (auto simp: entry_fits_def split: if_splits)
  qed
qed (use assms in \<open>auto simp: espnow_transport_recv_def\<close>)

section \<open>Runs\<close>

text \<open>The events of a transport in use: callbacks, rounds of the send task, and calls of the interface.\<close>

datatype espnow_op =
    Recv_cb bool tick bytes bytes
  | Send_cb tick bytes bool
  | Send_task "int \<Rightarrow> tick" "attempt list"
  | Transport_send bytes int
  | Transport_recv nat
  | Transport_set_peer "bytes option" int bytes

fun espnow_step :: "config \<Rightarrow> radio \<Rightarrow> espnow_op \<Rightarrow> espnow \<Rightarrow> espnow" where
  "espnow_step c ra (Recv_cb lock_ok now mac data) e = espnow_recv_cb c ra lock_ok now mac data e"
| "espnow_step c ra (Send_cb now mac ok) e = espnow_send_cb ra c now mac ok e"
| "espnow_step c ra (Send_task nows as) e = snd (send_task_round c ra nows as e)"
| "espnow_step c ra (Transport_send buf dest) e = snd (espnow_transport_send c buf dest e)"
| "espnow_step c ra (Transport_recv k) e = snd (snd (snd (espnow_transport_recv c k e)))"
| "espnow_step c ra (Transport_set_peer self i mac) e = espnow_transport_set_peer c self i mac e"

lemma espnow_step_inv: "espnow_inv c e \<Longrightarrow> espnow_inv c (espnow_step c ra op e)"
proof (induction c ra op e rule: espnow_step.induct)
  case (5 c ra k e)
  then show ?case using recv_law by (metis espnow_step.simps(5) prod.collapse)
qed (simp_all add: espnow_recv_cb_def recv_frame_inv send_task_inv send_inv set_peer_inv same_rx_inv [OF _ send_cb_rx])

lemma create_inv: "espnow_transport_create c ra ci nn nr g = (0, Some e) \<Longrightarrow> espnow_inv c e"
  by (auto simp: espnow_transport_create_def Let_def espnow_inv_def list_all_length split: if_splits)

interpretation en: transport "espnow_inv c" "\<lambda>(_ :: unit) _. True"
  "\<lambda>_ k e. case espnow_transport_recv c k e of (n, data, _, e') \<Rightarrow> (n, data, e')" "espnow_step c ra" for c ra
  by unfold_locales (auto simp: espnow_step_inv dest: recv_law split: prod.splits)

text \<open>C39: what the ESP-NOW transport delivers fits the buffer it is given.  After the transport is created
  and any sequence of events, with frames of any content, from any sender and in any order, callbacks at
  any time and any failures of the driver, a receive into a buffer of the message size returns at most that
  size and has written what it returns; so every message of the replica's event loop is in bounds.\<close>

theorem espnow_receive_fits:
  assumes "espnow_transport_create c ra ci num_nodes num_replicas g = (0, Some e)"
    and "espnow_transport_recv c (TBFT_MAX_MESSAGE_SIZE c) (fold (espnow_step c ra) ops e) = (n, data, src, e')"
  shows "msg_fits c (put 0 data buf) n \<and> espnow_inv c e'"
proof
  have "(case espnow_transport_recv c (TBFT_MAX_MESSAGE_SIZE c) (fold (espnow_step c ra) ops e) of
      (n, data, _, e') \<Rightarrow> (n, data, e')) = (n, data, e')"
    using assms(2) by simp
  then show "msg_fits c (put 0 data buf) n" by (rule en.recv_after_events [OF create_inv [OF assms(1)] TrueI])
  show "espnow_inv c e'" using recv_law [OF en.events_inv [OF create_inv [OF assms(1)]] assms(2)] by simp
qed

section \<open>Frames in flight\<close>

lemma flight_fields:
  assumes "en_air e' = en_air e" "en_in_flight e' = en_in_flight e"
  shows "flight_grows e e'"
  using assms by (simp add: flight_grows_def flight_inv_def)

lemma recv_frame_flight: "flight_grows e (recv_frame c ra now mac data e)"
  by (simp add: recv_frame_def Let_def split_beta)

lemma send_task_flight: "flight_grows e (snd (send_task_round c ra nows as e))"
proof (cases "en_send_queue e")
  case (Cons x rest)
  obtain buf dest where x: "x = (buf, dest)" by (cases x)
  define e1 where "e1 = e\<lparr> en_send_queue := rest \<rparr>"
  have e1: "flight_grows e e1" "flight_grows e (snd (next_id e1))"
    by (simp_all add: e1_def next_id_def)
  have "flight_grows e (snd (fold (send_to_peer c ra nows m buf) is (as, snd (next_id e1))))" for m "is"
    using same_rx_flight [OF to_peers_rx, of "(as, snd (next_id e1))"] flight_grows_trans [OF e1(2)] by simp
  moreover have "flight_grows e (snd (snd (espnow_do_send c ra t d m buf as (snd (next_id e1)))))" for t d m
    using same_rx_flight do_send_rx flight_grows_trans [OF e1(2)] by (metis prod.collapse)
  ultimately show ?thesis
    unfolding send_task_round_def Cons list.case x prod.case Let_def e1_def [symmetric]
    using e1 by (simp add: split_beta)
qed (simp add: send_task_round_def)

lemma espnow_step_flight: "flight_grows e (espnow_step c ra op e)"
proof (induction c ra op e rule: espnow_step.induct)
  case (1 c ra lock_ok now mac data e)
  show ?case by (simp add: espnow_recv_cb_def recv_frame_flight)
next
  case (5 c ra k e)
  show ?case by (simp add: espnow_transport_recv_def Let_def split: list.split prod.split)
qed (simp_all add: send_task_flight same_rx_flight espnow_transport_send_def espnow_transport_set_peer_def Let_def)

lemma drain_times_out: "0 < n \<Longrightarrow> 200 \<le> drain_in_flight n w"
  by (induction n w rule: drain_in_flight.induct) (subst drain_in_flight.simps, auto)

text \<open>C40: freeing the ESP-NOW transport always runs into its timeout once a frame was sent.  The count of
  the frames in flight, which \<open>tbft_transport_free\<close> waits for, is incremented when the driver accepts a
  frame and again by the callback that reports its completion, and nothing decrements it: after any events
  that put at least one frame on the air, with all completions reported or not, the wait takes its full
  200 milliseconds.\<close>

theorem free_waits_in_vain:
  assumes "espnow_transport_create c ra ci num_nodes num_replicas g = (0, Some e)"
    and "en_air (fold (espnow_step c ra) ops e) \<noteq> []"
  shows "200 \<le> fst (espnow_transport_free (Some (fold (espnow_step c ra) ops e)))"
proof -
  have "flight_inv e" using assms(1) by (auto simp: espnow_transport_create_def flight_inv_def Let_def split: if_splits)
  moreover have "flight_grows e (fold (espnow_step c ra) ops e)"
  proof (induction ops arbitrary: e)
    case (Cons op ops)
    show ?case using flight_grows_trans [OF espnow_step_flight Cons.IH] by simp
  qed simp
  ultimately have "0 < en_in_flight (fold (espnow_step c ra) ops e)" using assms(2)
    by (simp add: flight_grows_def flight_inv_def)
  then show ?thesis by (simp add: espnow_transport_free_def drain_times_out)
qed

end
