(* ===== verification/Espnow_Frag.thy ===== *)
theory Espnow_Frag
  imports Espnow_Inv "HOL-Library.Multiset"
begin

text \<open>
  Fragmentation and reassembly fit together: the frames that the send task of one node puts on the air for
  a message, delivered in any order, make another node deliver exactly this message.
\<close>

section \<open>The fragments of a message\<close>

definition num_parts :: "bytes \<Rightarrow> nat" where
  "num_parts m = (length m + FRAG_MAX_PAYLOAD - 1) div FRAG_MAX_PAYLOAD"

definition chunk :: "bytes \<Rightarrow> nat \<Rightarrow> bytes" where
  "chunk m i = take FRAG_MAX_PAYLOAD (drop (i * FRAG_MAX_PAYLOAD) m)"

definition fragment :: "int \<Rightarrow> bytes \<Rightarrow> nat \<Rightarrow> bytes" where
  "fragment msg_id m i = frag_header msg_id i (num_parts m) @ chunk m i"

definition fragments :: "int \<Rightarrow> bytes \<Rightarrow> bytes list" where
  "fragments msg_id m = map (fragment msg_id m) [0 ..< num_parts m]"

lemma num_parts_bounds:
  assumes "m \<noteq> []"
  shows "0 < num_parts m" "(num_parts m - 1) * 1466 < length m" "length m \<le> num_parts m * 1466"
proof -
  define q where "q = num_parts m"
  have len: "0 < length m" using assms by simp
  have "length m + 1465 = 1466 * q + (length m + 1465) mod 1466"
    using mult_div_mod_eq [of 1466 "length m + 1465", symmetric] by (simp add: q_def num_parts_def add.commute)
  moreover have "(length m + 1465) mod 1466 < 1466" by simp
  ultimately have "1466 * q \<le> length m + 1465" "length m + 1465 < 1466 * q + 1466" by linarith+
  moreover from this len have "0 < q" by linarith
  then obtain p where "q = Suc p" by (cases q) auto
  ultimately have "0 < q" "(q - 1) * 1466 < length m" "length m \<le> q * 1466" using len by simp_all
  then show "0 < num_parts m" "(num_parts m - 1) * 1466 < length m" "length m \<le> num_parts m * 1466"
    by (simp_all only: q_def)
qed

lemma num_parts_small: "length m \<le> TBFT_MAX_MESSAGE_SIZE c \<Longrightarrow> espnow_cfg_ok c \<Longrightarrow> num_parts m \<le> 32"
  unfolding num_parts_def espnow_cfg_ok_def FRAG_MAX_PARTS_def by (rule order_trans [OF div_le_mono]) simp_all

lemma part_of_index: "m \<noteq> [] \<Longrightarrow> j < length m \<Longrightarrow> j div 1466 < num_parts m"
  using num_parts_bounds(3) [of m] by (simp add: div_less_iff_less_mult) 

lemma fragment_fields:
  assumes "0 \<le> msg_id" "msg_id < 65536" "i < 256" "num_parts m < 256"
  shows "frag_msg_id (fragment msg_id m i) = msg_id" "frag_idx (fragment msg_id m i) = i"
    "frag_total (fragment msg_id m i) = num_parts m" "drop 4 (fragment msg_id m i) = chunk m i"
    "4 \<le> length (fragment msg_id m i)"
proof -
  have le: "le_bytes 2 msg_id = [word_of_int msg_id, word_of_int (msg_id div 256)]" by (simp add: numeral_2_eq_2)
  have f: "field 0 2 (fragment msg_id m i) = le_bytes 2 msg_id"
    by (simp add: fragment_def frag_header_def field_def byte_at_def le upt_rec)
  show "frag_msg_id (fragment msg_id m i) = msg_id"
    using assms(1,2) by (simp add: frag_msg_id_def f le_val_le_bytes)
  show "frag_idx (fragment msg_id m i) = i" "frag_total (fragment msg_id m i) = num_parts m"
    using assms(3,4) by (simp_all add: frag_idx_def frag_total_def byte_at_def fragment_def frag_header_def le unat_of_nat)
  show "drop 4 (fragment msg_id m i) = chunk m i" "4 \<le> length (fragment msg_id m i)"
    by (simp_all add: fragment_def frag_header_def le)
qed

section \<open>The sender\<close>

lemma send_cbs_air: "en_air (fold (\<lambda>(now, mac, ok). espnow_send_cb ra c now mac ok) xs e) = en_air e"
proof (induction xs arbitrary: e)
  case (Cons x xs)
  obtain now mac ok where "x = (now, mac, ok)" by (cases x)
  then show ?case using Cons.IH by (simp add: espnow_send_cb_def give_in_flight_def Let_def)
qed simp

lemma send_frame_air: "send_frame c ra mac pkt k as e = (True, as', e') \<Longrightarrow> en_air e' = en_air e @ [(mac, pkt)]"
proof (induction c ra mac pkt k as e rule: send_frame.induct)
  case (3 c ra mac pkt k a as e)
  show ?case
  proof (cases "at_sent a")
    case False
    with "3.prems" "3.IH" [OF refl _ refl False] show ?thesis
      by (simp add: Let_def send_cbs_air split: if_splits)
  qed (use "3.prems" in \<open>auto simp: Let_def send_cbs_air split: if_splits\<close>)
qed simp_all

lemma frag_loop_air:
  assumes "num_parts m < 256" "m \<noteq> []"
  shows "frag_loop c ra mac msg_id (num_parts m) i (drop (i * 1466) m) as e = (True, as', e') \<Longrightarrow> i \<le> num_parts m \<Longrightarrow>
    en_air e' = en_air e @ map (\<lambda>i. (mac, fragment msg_id m i)) [i ..< num_parts m]"
proof (induction "num_parts m - i" arbitrary: i as e)
  case 0
  then have "i = num_parts m" by simp
  with 0 num_parts_bounds(3) [OF assms(2)] show ?case by (simp add: frag_loop.simps)
next
  case (Suc d)
  then have i: "i < num_parts m" by simp
  then have "i \<le> num_parts m - 1" by simp
  then have "i * 1466 \<le> (num_parts m - 1) * 1466" by (rule mult_le_mono1)
  then have ne: "drop (i * 1466) m \<noteq> []" using num_parts_bounds(2) [OF assms(2)] by simp
  have step: "(i + 1) mod 256 = i + 1" "drop 1466 (drop (i * 1466) m) = drop ((i + 1) * 1466) m"
    using i assms(1) by (simp_all add: add.commute)
  obtain ok as1 e1 where f: "send_frame c ra mac (fragment msg_id m i) MAX_RETRIES as e = (ok, as1, e1)"
    by (metis prod_cases3)
  then have ok: "ok" "frag_loop c ra mac msg_id (num_parts m) (i + 1) (drop ((i + 1) * 1466) m) as1 e1 = (True, as', e')"
    using Suc.prems(1) ne step f unfolding fragment_def chunk_def
    by (subst (asm) frag_loop.simps, simp split: if_splits)+
  have "en_air e1 = en_air e @ [(mac, fragment msg_id m i)]" using send_frame_air f ok(1) by simp
  moreover have "d = num_parts m - (i + 1)" using Suc.hyps(2) by simp
  from Suc.hyps(1) [OF this ok(2)] i have
    "en_air e' = en_air e1 @ map (\<lambda>i. (mac, fragment msg_id m i)) [i + 1 ..< num_parts m]" by simp
  ultimately show ?case using i by (simp add: upt_conv_Cons)
qed

lemma do_send_air:
  assumes "espnow_do_send c ra now dest msg_id m as e = (rc, as', e')" "0 < rc" "num_parts m < 256"
  shows "m \<noteq> [] \<and> en_air e' = en_air e @ map (\<lambda>f. (en_peer_ap_mac e ! nat dest, f)) (fragments msg_id m)"
proof (cases "length m \<le> 1466")
  case True
  have "num_parts m = 1" if "m \<noteq> []" using num_parts_bounds [OF that] True by linarith
  then have one: "m \<noteq> [] \<Longrightarrow> fragments msg_id m = [frag_header msg_id 0 1 @ m]"
    using True by (simp add: fragments_def fragment_def chunk_def)
  show ?thesis using assms(1,2) True one
    by (auto simp: espnow_do_send_def Let_def dest: send_frame_air split: if_splits prod.splits)
next
  case False
  have "num_parts m mod 256 = num_parts m" using assms(3) by simp
  then have "frag_loop c ra (en_peer_ap_mac e ! nat dest) msg_id (num_parts m) 0 m as e = (True, as', e')"
    using assms(1,2) False
    by (simp add: espnow_do_send_def Let_def num_parts_def split: if_splits prod.splits)
  moreover have "m \<noteq> []" using False by auto
  ultimately show ?thesis
    using frag_loop_air [OF assms(3), of c ra "en_peer_ap_mac e ! nat dest" msg_id 0 as e as' e']
    by (simp add: fragments_def comp_def)
qed

section \<open>The receiver\<close>

lemma put_nth:
  assumes "off + length xs \<le> length b" "j < length b"
  shows "put off xs b ! j = (if off \<le> j \<and> j < off + length xs then xs ! (j - off) else b ! j)"
  using assms by (auto simp: put_def nth_append min_def)

text \<open>A slot that has collected the fragments \<open>S\<close> of a message.\<close>

definition collects :: "config \<Rightarrow> bytes \<Rightarrow> int \<Rightarrow> bytes \<Rightarrow> nat set \<Rightarrow> reasm_slot \<Rightarrow> bool" where
  "collects c m msg_id src S s \<longleftrightarrow> slot_ok c s \<and> fs_valid s \<and> \<not> fs_stale s \<and> fs_msg_id s = msg_id \<and> fs_src_mac s = src \<and>
     fs_frag_total s = num_parts m \<and> mask_set (fs_frag_mask s) = S \<and>
     (\<forall>j < length m. j div 1466 \<in> S \<longrightarrow> fs_buf s ! j = m ! j) \<and>
     (num_parts m - 1 \<in> S \<longrightarrow> fs_last_frag_len s = int (length m) - (int (num_parts m) - 1) * 1466)"

lemma collects_start:
  assumes "slot_ok c s" "0 < num_parts m" "num_parts m \<le> 32"
  shows "collects c m msg_id src {} (slot_start now msg_id (num_parts m) src s)"
  using slot_start_ok [OF assms] by (simp add: collects_def) (simp add: slot_start_def)

lemma length_chunk: "length (chunk m i) = min 1466 (length m - i * 1466)"
  by (simp add: chunk_def)

lemma chunk_fits: "i < num_parts m \<Longrightarrow> m \<noteq> [] \<Longrightarrow> i * 1466 + length (chunk m i) \<le> length m"
proof -
  assume "i < num_parts m" "m \<noteq> []"
  then have "i * 1466 \<le> (num_parts m - 1) * 1466" by (intro mult_le_mono1) simp
  then show ?thesis using num_parts_bounds(2) [OF \<open>m \<noteq> []\<close>] by (simp add: length_chunk)
qed

lemma last_chunk: "m \<noteq> [] \<Longrightarrow> int (length (chunk m (num_parts m - 1))) = int (length m) - (int (num_parts m) - 1) * 1466"
proof -
  assume m: "m \<noteq> []"
  have "length m - (num_parts m - 1) * 1466 \<le> 1466"
    using num_parts_bounds(1,3) [OF m] by (simp add: diff_mult_distrib)
  then have "length (chunk m (num_parts m - 1)) = length m - (num_parts m - 1) * 1466" by (simp add: length_chunk)
  also have "int \<dots> = int (length m) - int ((num_parts m - 1) * 1466)"
    using num_parts_bounds(2) [OF m] by (intro of_nat_diff) simp
  also have "\<dots> = int (length m) - (int (num_parts m) - 1) * 1466"
    using num_parts_bounds(1) [OF m] by (simp add: of_nat_diff)
  finally show ?thesis .
qed

lemma collects_put:
  assumes col: "collects c m msg_id src S s" and i: "i < num_parts m" "i \<notin> S" and m: "m \<noteq> []" "length m \<le> TBFT_MAX_MESSAGE_SIZE c"
    and put: "slot_put now (chunk m i) i (num_parts m) s = (fin, s')"
  shows "collects c m msg_id src (insert i S) s' \<and> (fin \<longleftrightarrow> insert i S = {..< num_parts m}) \<and>
    (fin \<longrightarrow> fs_buf_len s' = int (length m) \<and> take (length m) (fs_buf s') = m)"
proof -
  have len: "length (fs_buf s) = TBFT_MAX_MESSAGE_SIZE c" using col by (simp add: collects_def slot_ok_def)
  have fits: "i * 1466 + length (chunk m i) \<le> TBFT_MAX_MESSAGE_SIZE c" using chunk_fits [OF i(1) m(1)] m(2) by simp
  have ok: "slot_ok c s' \<and> fs_valid s' \<and> fs_frag_total s' = num_parts m \<and>
      mask_set (fs_frag_mask s') = insert i S \<and> (fin \<longleftrightarrow> mask_set (fs_frag_mask s') = {..< num_parts m})"
    using slot_put_ok [OF _ _ _ i(1) _ _ put, of c] col i(2) fits by (auto simp: collects_def)
  have small: "int (length (chunk m i)) mod 65536 = int (length (chunk m i))" by (simp add: length_chunk)
  have s': "fs_stale s' = fs_stale s" "fs_msg_id s' = fs_msg_id s" "fs_src_mac s' = fs_src_mac s"
    "fs_buf s' = put (i * 1466) (chunk m i) (fs_buf s)"
    "fs_last_frag_len s' = (if int i = int (num_parts m) - 1 then int (length (chunk m i)) else fs_last_frag_len s)"
    "fin \<longrightarrow> fs_buf_len s' = (int (num_parts m) - 1) * 1466 + fs_last_frag_len s'"
    using put small by (auto simp: slot_put_def Let_def split: if_splits)
  have buf: "fs_buf s' ! j = m ! j" if "j < length m" "j div 1466 \<in> insert i S" for j
  proof -
    have "j < length (fs_buf s)" using that(1) m(2) len by simp
    note nth = put_nth [OF fits [folded len] this]
    show ?thesis
    proof (cases "j div 1466 = i")
      case True
      then have j: "i * 1466 \<le> j" "j < i * 1466 + 1466" using div_mult_mod_eq [of j 1466] mod_less_divisor [of 1466 j] by linarith+
      then have "j < i * 1466 + length (chunk m i)" using that(1) by (simp add: length_chunk)
      with j nth show ?thesis by (simp add: s'(4) chunk_def)
    next
      case False
      then have "\<not> (i * 1466 \<le> j \<and> j < i * 1466 + length (chunk m i))"
        by (auto simp: length_chunk div_nat_eqI)
      with nth that False col show ?thesis by (simp add: s'(4) collects_def)
    qed
  qed
  have last: "fs_last_frag_len s' = int (length m) - (int (num_parts m) - 1) * 1466" if "num_parts m - 1 \<in> insert i S"
  proof (cases "i = num_parts m - 1")
    case True
    then have "int i = int (num_parts m) - 1" using i(1) by simp
    then show ?thesis using last_chunk [OF m(1)] True by (simp add: s'(5))
  next
    case False
    then have "int i \<noteq> int (num_parts m) - 1" "num_parts m - 1 \<in> S" using that i(1) by auto
    then show ?thesis using col by (simp add: s'(5) collects_def)
  qed
  have "collects c m msg_id src (insert i S) s'" using ok s'(1-3) buf last col by (simp add: collects_def)
  moreover have "fs_buf_len s' = int (length m) \<and> take (length m) (fs_buf s') = m" if fin
  proof -
    have all: "insert i S = {..< num_parts m}" using that ok by simp
    then have "fs_buf_len s' = int (length m)" using s'(6) that last num_parts_bounds(1) [OF m(1)] by simp
    moreover have "take (length m) (fs_buf s') = m"
    proof (rule nth_equalityI)
      show "length (take (length m) (fs_buf s')) = length m" using ok m(2) by (simp add: slot_ok_def)
      fix j assume "j < length (take (length m) (fs_buf s'))"
      then show "take (length m) (fs_buf s') ! j = m ! j"
        using buf [of j] all part_of_index [OF m(1), of j] by simp
    qed
    ultimately show ?thesis ..
  qed
  ultimately show ?thesis using ok by auto
qed

text \<open>The table is ready for the remaining fragments of a message: either no slot holds it yet, or exactly one
  slot has collected the fragments \<open>S\<close>.\<close>

definition awaiting :: "config \<Rightarrow> bytes \<Rightarrow> int \<Rightarrow> bytes \<Rightarrow> nat set \<Rightarrow> reasm_slot list \<Rightarrow> bool" where
  "awaiting c m msg_id src S ss \<longleftrightarrow> length ss = 8 \<and> list_all (slot_ok c) ss \<and>
     (if S = {} then \<forall>j < 8. \<not> slot_matches msg_id src (ss ! j)
      else \<exists>k < 8. collects c m msg_id src S (ss ! k) \<and> (\<forall>j < 8. j \<noteq> k \<longrightarrow> \<not> slot_matches msg_id src (ss ! j)))"

lemma zero_unmatched [simp]: "\<not> slot_matches msg_id src (slot_zero c)" "\<not> slot_matches msg_id src ((slot_zero c)\<lparr> fs_last_tick := t \<rparr>)"
  by (simp_all add: slot_matches_def slot_zero_def)

lemma awaiting_clear:
  assumes "awaiting c m msg_id src S ss"
  shows "awaiting c m msg_id src S (map (\<lambda>s. if fs_stale s then slot_zero c else s) ss)"
proof -
  let ?ss = "map (\<lambda>s. if fs_stale s then slot_zero c else s) ss"
  have len: "length ss = 8" using assms by (simp add: awaiting_def)
  have nth: "?ss ! j = (if fs_stale (ss ! j) then slot_zero c else ss ! j)" if "j < 8" for j using len that by simp
  have "list_all (slot_ok c) ?ss" using assms by (auto simp: awaiting_def list_all_iff)
  moreover have "\<not> slot_matches msg_id src (?ss ! j)" if "j < 8" "\<not> slot_matches msg_id src (ss ! j)" for j
    using that by (simp add: nth)
  moreover have "?ss ! k = ss ! k" if "k < 8" "collects c m msg_id src S (ss ! k)" for k
    using that by (simp add: nth collects_def)
  ultimately show ?thesis using assms unfolding awaiting_def by (auto split: if_splits)
qed

lemma find_unique:
  assumes "k < n" "P k" "\<forall>j < n. j \<noteq> k \<longrightarrow> \<not> P j"
  shows "List.find P [0 ..< n] = Some k"
  using assms by (auto simp: find_Some_iff intro!: exI [of _ k])

text \<open>A fragment meets a slot that has collected the ones before it.\<close>

lemma slot_for_fragment:
  assumes aw: "awaiting c m msg_id src S ss" and np: "0 < num_parts m" "num_parts m \<le> 32"
    and al: "reasm_find_or_alloc c ra now msg_id src ss = (k, ss')"
  shows "k < 8 \<and> length ss' = 8 \<and> list_all (slot_ok c) ss' \<and> (\<forall>j < 8. j \<noteq> k \<longrightarrow> \<not> slot_matches msg_id src (ss' ! j)) \<and>
    (\<exists>s1. collects c m msg_id src S s1 \<and>
      s1 = (if \<not> fs_valid (ss' ! k) \<or> fs_stale (ss' ! k) then slot_start now msg_id (num_parts m) src (ss' ! k) else ss' ! k))"
proof (cases "S = {}")
  case True
  then have none: "List.find (\<lambda>i. slot_matches msg_id src (ss ! i)) [0 ..< 8] = None" and len: "length ss = 8"
    and ok: "list_all (slot_ok c) ss" and un: "\<forall>j < 8. \<not> slot_matches msg_id src (ss ! j)"
    using aw by (auto simp: awaiting_def find_None_iff)
  have k: "k < 8" "length ss' = 8" "list_all (slot_ok c) ss'" using alloc_range [OF al len ok] by simp_all
  have "\<not> fs_valid (ss' ! k) \<and> (\<forall>j. j \<noteq> k \<longrightarrow> ss' ! j = ss ! j)"
    using al k len unfolding reasm_find_or_alloc_def espnow_consts none
    by (auto simp: Let_def slot_zero_def split: option.splits if_splits)
  then show ?thesis using k un collects_start [of c "ss' ! k" m msg_id src now] np True
    by (auto simp: list_all_length)
next
  case False
  then obtain j where j: "j < 8" "collects c m msg_id src S (ss ! j)" "\<forall>i < 8. i \<noteq> j \<longrightarrow> \<not> slot_matches msg_id src (ss ! i)"
    and len: "length ss = 8" "list_all (slot_ok c) ss"
    using aw by (auto simp: awaiting_def)
  have "slot_matches msg_id src (ss ! j)" using j(2) by (simp add: slot_matches_def collects_def)
  with j have "List.find (\<lambda>i. slot_matches msg_id src (ss ! i)) [0 ..< 8] = Some j" by (intro find_unique) auto
  then have "k = j" "ss' = ss" using al by (simp_all add: reasm_find_or_alloc_def)
  then show ?thesis using j len by (auto simp: collects_def)
qed

lemma fragment_step:
  assumes aw: "awaiting c m msg_id src S (en_reasm e)" and i: "i < num_parts m" "i \<notin> S"
    and m: "m \<noteq> []" "length m \<le> TBFT_MAX_MESSAGE_SIZE c" "num_parts m \<le> 32" and id: "0 \<le> msg_id" "msg_id < 65536"
    and e': "e' = espnow_recv_cb c ra True now src (fragment msg_id m i) e"
  shows "if insert i S = {..< num_parts m}
    then length (en_msg_queue e) < 16 \<longrightarrow> en_msg_queue e' = en_msg_queue e @ [(src, int (length m), m)]
    else awaiting c m msg_id src (insert i S) (en_reasm e') \<and> en_msg_queue e' = en_msg_queue e"
proof -
  let ?np = "num_parts m"
  define e1 where "e1 = (reasm_clear_stale c e)\<lparr> en_reasm_stale_flag := False \<rparr>"
  have frag: "frag_msg_id (fragment msg_id m i) = msg_id" "frag_idx (fragment msg_id m i) = i"
    "frag_total (fragment msg_id m i) = ?np" "drop 4 (fragment msg_id m i) = chunk m i" "4 \<le> length (fragment msg_id m i)"
    using fragment_fields [OF id, of i m] i m(3) by simp_all
  obtain k ss where al: "reasm_find_or_alloc c ra now msg_id src (en_reasm e1) = (k, ss)" by fastforce
  have "awaiting c m msg_id src S (en_reasm e1)" using awaiting_clear [OF aw] by (simp add: e1_def reasm_clear_stale_def)
  from slot_for_fragment [OF this num_parts_bounds(1) [OF m(1)] m(3) al] obtain s1 where
    k: "k < 8" "length ss = 8" "list_all (slot_ok c) ss" "\<forall>j < 8. j \<noteq> k \<longrightarrow> \<not> slot_matches msg_id src (ss ! j)"
    and s1: "collects c m msg_id src S s1"
      "s1 = (if \<not> fs_valid (ss ! k) \<or> fs_stale (ss ! k) then slot_start now msg_id ?np src (ss ! k) else ss ! k)" by blast
  obtain fin s2 where put: "slot_put now (chunk m i) i ?np s1 = (fin, s2)" by fastforce
  have col: "collects c m msg_id src (insert i S) s2" "fin \<longleftrightarrow> insert i S = {..< ?np}"
    "fin \<longrightarrow> fs_buf_len s2 = int (length m) \<and> take (length m) (fs_buf s2) = m"
    using collects_put [OF s1(1) i m(1,2) put] by simp_all
  have fresh: "\<not> ((\<not> fs_valid (ss ! k) \<or> fs_stale (ss ! k)) \<and> (?np = 0 \<or> 32 < ?np))"
    using m(3) num_parts_bounds(1) [OF m(1)] by simp
  have fits: "i * 1466 + length (chunk m i) \<le> TBFT_MAX_MESSAGE_SIZE c" using chunk_fits [OF i(1) m(1)] m(2) by simp
  have feed: "reasm_feed c now (chunk m i) msg_id i ?np src (ss ! k) = (fin, s2)"
    using s1(1) i m(3) fits unfolding feed_eq [OF fresh s1(2)] put by (simp add: collects_def)
  have step: "e' = (if \<not> fin then e1\<lparr> en_reasm := ss[k := s2] \<rparr>
      else let e2 = e1\<lparr> en_reasm := ss[k := s2\<lparr> fs_stale := True \<rparr>], en_reasm_stale_flag := True \<rparr>
        in if length (en_msg_queue e2) < 16
           then e2\<lparr> en_msg_queue := en_msg_queue e2 @ [(src, fs_buf_len s2, take (nat (fs_buf_len s2)) (fs_buf s2))] \<rparr> else e2)"
    using frag unfolding e' espnow_recv_cb_def recv_frame_def e1_def [symmetric] Let_def by (simp add: al feed)
  have q: "en_msg_queue e1 = en_msg_queue e" by (simp add: e1_def reasm_clear_stale_def)
  show ?thesis
  proof (cases fin)
    case True
    with col step q show ?thesis by (simp add: Let_def)
  next
    case False
    have "awaiting c m msg_id src (insert i S) (ss[k := s2])"
      using k col(1) by (auto simp: awaiting_def list_all_update collects_def intro!: exI [of _ k])
    with False col(2) step q show ?thesis by simp
  qed
qed

text \<open>The frames of one sender, each with the tick of its arrival.\<close>

definition deliver :: "config \<Rightarrow> radio \<Rightarrow> bytes \<Rightarrow> (tick \<times> bytes) list \<Rightarrow> espnow \<Rightarrow> espnow" where
  "deliver c ra src frames = fold (\<lambda>(now, data). espnow_recv_cb c ra True now src data) frames"

lemma deliver_rest:
  assumes m: "m \<noteq> []" "length m \<le> TBFT_MAX_MESSAGE_SIZE c" "num_parts m \<le> 32" and id: "0 \<le> msg_id" "msg_id < 65536"
  shows "awaiting c m msg_id src S (en_reasm e) \<Longrightarrow> map snd frames = map (fragment msg_id m) is \<Longrightarrow> distinct is \<Longrightarrow>
    set is \<inter> S = {} \<Longrightarrow> set is \<union> S = {..< num_parts m} \<Longrightarrow> is \<noteq> [] \<Longrightarrow> length (en_msg_queue e) < 16 \<Longrightarrow>
    en_msg_queue (deliver c ra src frames e) = en_msg_queue e @ [(src, int (length m), m)]"
proof (induction "is" arbitrary: frames S e)
  case (Cons i "is")
  obtain now rest where frames: "frames = (now, fragment msg_id m i) # rest" "map snd rest = map (fragment msg_id m) is"
    using Cons.prems(2) by (cases frames) auto
  define e' where "e' = espnow_recv_cb c ra True now src (fragment msg_id m i) e"
  have i: "i < num_parts m" "i \<notin> S" using Cons.prems(4,5) by auto
  note step = fragment_step [OF Cons.prems(1) i m id e'_def]
  have run: "deliver c ra src frames e = deliver c ra src rest e'" by (simp add: deliver_def frames e'_def)
  show ?case
  proof (cases "is = []")
    case True
    then have "insert i S = {..< num_parts m}" "rest = []" using Cons.prems(5) frames(2) by auto
    then show ?thesis using step run Cons.prems(7) by (simp add: deliver_def)
  next
    case False
    then obtain x where "x \<in> set is" by (cases "is") auto
    then have "x < num_parts m" "x \<notin> insert i S" using Cons.prems(3-5) by auto
    then have "insert i S \<noteq> {..< num_parts m}" by blast
    then have e': "awaiting c m msg_id src (insert i S) (en_reasm e')" "en_msg_queue e' = en_msg_queue e" using step by simp_all
    have "distinct is" "set is \<inter> insert i S = {}" "set is \<union> insert i S = {..< num_parts m}" "length (en_msg_queue e') < 16"
      using Cons.prems(3-5,7) e'(2) by auto
    from Cons.IH [OF e'(1) frames(2) this(1-3) False this(4)] run e'(2) show ?thesis by simp
  qed
qed simp

text \<open>C20: fragmentation round trips.  When the send task has sent a message, its frames, delivered in any
  order and at any times, make a receiver queue exactly that message with the address of the sender,
  byte for byte and once, whatever its reassembly table held before, provided the table holds no other
  fragments of this sender under the same message number and the receive queue has room.\<close>

theorem fragments_reassemble:
  assumes "espnow_cfg_ok c" "length m \<le> TBFT_MAX_MESSAGE_SIZE c" "0 \<le> msg_id" "msg_id < 65536"
    and "espnow_do_send c ra now dest msg_id m as s = (rc, as', s')" "0 < rc"
    and "mset (map snd frames) = mset (map snd (drop (length (en_air s)) (en_air s')))"
    and "espnow_inv c r" "length (en_msg_queue r) < MSG_QUEUE_DEPTH"
    and "list_all (\<lambda>sl. \<not> slot_matches msg_id src sl) (en_reasm r)"
  shows "en_msg_queue (deliver c ra' src frames r) = en_msg_queue r @ [(src, int (length m), m)]"
proof -
  have np: "num_parts m \<le> 32" using num_parts_small [OF assms(2,1)] .
  then have m: "m \<noteq> []" and frames: "mset (map snd frames) = mset (fragments msg_id m)"
    using do_send_air [OF assms(5,6)] assms(7) by (auto simp: comp_def)
  let ?is = "map frag_idx (map snd frames)"
  have idx: "frag_idx (fragment msg_id m i) = i" if "i < num_parts m" for i
    using fragment_fields(2) [OF assms(3,4)] that np by simp
  have "mset ?is = image_mset frag_idx (mset (map snd frames))" by (simp only: mset_map)
  also have "\<dots> = image_mset frag_idx (mset (fragments msg_id m))" by (simp only: frames)
  also have "\<dots> = mset (map frag_idx (fragments msg_id m))" by (simp only: mset_map)
  also have "map frag_idx (fragments msg_id m) = [0 ..< num_parts m]"
    by (simp add: fragments_def comp_def) (rule map_idI, simp add: idx)
  finally have perm: "mset ?is = mset [0 ..< num_parts m]" .
  then have "distinct ?is" "set ?is = {..< num_parts m}"
    using mset_eq_imp_distinct_iff [OF perm] mset_eq_setD [OF perm] by (simp_all add: lessThan_atLeast0)
  moreover have "set (map snd frames) = set (fragments msg_id m)" using mset_eq_setD [OF frames] .
  then have "map snd frames = map (fragment msg_id m) ?is"
    by (intro nth_equalityI) (auto simp: fragments_def idx set_conv_nth dest!: equalityD1 [THEN subsetD])
  moreover have "awaiting c m msg_id src {} (en_reasm r)"
    using assms(8,10) by (simp add: awaiting_def espnow_inv_def list_all_length)
  moreover have "?is \<noteq> []" using \<open>set ?is = _\<close> num_parts_bounds(1) [OF m] by auto
  ultimately show ?thesis using deliver_rest [OF m assms(2) np assms(3,4), of src "{}" r frames ?is ra'] assms(9) by simp
qed

section \<open>Witnesses\<close>

definition big_config :: config where
  "big_config = default_config\<lparr> TBFT_MAX_MESSAGE_SIZE := 2048 \<rparr>"

definition sample_radio :: radio where
  "sample_radio = \<lparr> ra_ticks = (\<lambda>ms. of_nat (ms div 10)), ra_credits_cap = 6 \<rparr>"

definition all_created :: espnow_create_in where
  "all_created = \<lparr> ci_calloc = True, ci_queues = True, ci_recv_cb = True, ci_send_cb = True, ci_task = True \<rparr>"

definition good_attempt :: attempt where
  "good_attempt = \<lparr> at_callbacks = [], at_sent = True \<rparr>"

definition sample_espnow :: "config \<Rightarrow> espnow" where
  "sample_espnow c = the (snd (espnow_transport_create c sample_radio all_created 5 4 None))"

lemma big_config_simps [simp]: "TBFT_MAX_MESSAGE_SIZE big_config = 2048" "TBFT_MAX_NUM_REPLICAS big_config = 4"
  "TBFT_MAX_NUM_CLIENTS big_config = 1" "ESPNOW_TX_CREDITS big_config sample_radio = 3"
  by (simp_all add: big_config_def sample_radio_def ESPNOW_TX_CREDITS_def)

lemma sample_created: "espnow_transport_create big_config sample_radio all_created 5 4 None = (0, Some (sample_espnow big_config))"
  by (simp add: sample_espnow_def espnow_transport_create_def all_created_def Let_def)

lemma sample_fields: "en_credits (sample_espnow big_config) = 3" "en_air (sample_espnow big_config) = []"
  "en_num_nodes (sample_espnow big_config) = 5" "en_last_fail_tick (sample_espnow big_config) = replicate 5 0"
  "en_peer_ap_mac (sample_espnow big_config) = replicate 5 (replicate 6 0)" "en_msg_queue (sample_espnow big_config) = []"
  "en_reasm (sample_espnow big_config) = replicate 8 (slot_zero big_config)" "en_shutting_down (sample_espnow big_config) = False"
  by (simp_all add: sample_espnow_def espnow_transport_create_def all_created_def Let_def)

text \<open>A message of 1500 bytes needs two frames; they are delivered in reverse order.\<close>

lemma fragments_reassemble_witness:
  "\<exists>as' s'. espnow_do_send big_config sample_radio 0 1 5 (replicate 1500 7) [good_attempt, good_attempt] (sample_espnow big_config) =
      (1500, as', s') \<and> length (en_air s') = 2 \<and>
    en_msg_queue (deliver big_config sample_radio [2, 0, 0, 0, 0, 9] (rev (map (\<lambda>f. (0, snd f)) (en_air s'))) (sample_espnow big_config)) =
      [([2, 0, 0, 0, 0, 9], 1500, replicate 1500 7)]"
proof -
  let ?m = "replicate 1500 (7 :: 8 word)"
  have frame: "send_frame big_config sample_radio mac pkt MAX_RETRIES (good_attempt # as) e = (True, as, (give_in_flight
      (e\<lparr> en_credits := en_credits e - 1 \<rparr>))\<lparr> en_air := en_air e @ [(mac, pkt)] \<rparr>)" if "en_credits e \<noteq> 0" for mac pkt as e
    using that by (simp add: MAX_RETRIES_def numeral_2_eq_2 good_attempt_def give_in_flight_def)
  obtain as' s' where s': "espnow_do_send big_config sample_radio 0 1 5 ?m [good_attempt, good_attempt] (sample_espnow big_config) =
      (1500, as', s')"
    by (simp add: espnow_do_send_def sample_fields frag_loop.simps [of _ _ _ _ _ _ "replicate 1500 7"]
        frag_loop.simps [of _ _ _ _ _ _ "replicate 34 7"] frag_loop.simps [of _ _ _ _ _ _ "[]"] frame give_in_flight_def Let_def)
  have parts: "num_parts ?m = 2" by (simp add: num_parts_def)
  have cfg: "espnow_cfg_ok big_config" by (simp add: espnow_cfg_ok_def FRAG_MAX_PARTS_def)
  have air: "length (en_air s') = 2"
    using do_send_air [OF s'] parts by (simp add: sample_fields fragments_def)
  have "mset (map snd (rev (map (\<lambda>f. (0 :: tick, snd f)) (en_air s')))) =
      mset (map snd (drop (length (en_air (sample_espnow big_config))) (en_air s')))"
    by (simp add: sample_fields rev_map [symmetric] comp_def)
  from fragments_reassemble [OF cfg _ _ _ s' _ this create_inv [OF sample_created], of "[2, 0, 0, 0, 0, 9]" sample_radio]
  have "en_msg_queue (deliver big_config sample_radio [2, 0, 0, 0, 0, 9] (rev (map (\<lambda>f. (0, snd f)) (en_air s'))) (sample_espnow big_config)) =
      [([2, 0, 0, 0, 0, 9], 1500, ?m)]"
    by (simp add: sample_fields list_all_length)
  with s' air show ?thesis by blast
qed

text \<open>A frame that is sent, and its completion reported by the driver.\<close>

lemma free_waits_in_vain_witness:
  "let ops = [Transport_set_peer None 1 [2, 0, 0, 0, 0, 9], Transport_send [1, 2, 3] 1,
       Send_task (\<lambda>_. 0) [good_attempt], Send_cb 7 [2, 0, 0, 0, 0, 10] True];
     e = fold (espnow_step big_config sample_radio) ops (sample_espnow big_config)
   in length (en_air e) = 1 \<and> en_send_queue e = [] \<and> 200 \<le> fst (espnow_transport_free (Some e))"
proof -
  let ?ops = "[Transport_set_peer None 1 [2, 0, 0, 0, 0, 9], Transport_send [1, 2, 3] 1,
       Send_task (\<lambda>_. 0) [good_attempt], Send_cb 7 [2, 0, 0, 0, 0, 10] True]"
  let ?e = "fold (espnow_step big_config sample_radio) ?ops (sample_espnow big_config)"
  have e: "length (en_air ?e) = 1 \<and> en_send_queue ?e = []"
    by (simp add: sample_espnow_def espnow_transport_create_def all_created_def espnow_transport_set_peer_def INT32_MAX_def
        espnow_transport_send_def send_task_round_def TBFT_ALL_REPLICAS_def next_id_def espnow_do_send_def MAX_RETRIES_def
        numeral_2_eq_2 good_attempt_def give_in_flight_def espnow_send_cb_def Let_def)
  then have "en_air ?e \<noteq> []" by auto
  from free_waits_in_vain [OF sample_created this] e show ?thesis unfolding Let_def by blast
qed

lemma recv_delivers:
  assumes "\<not> en_shutting_down e" "en_msg_queue e = (src, n, payload) # q" "0 \<le> n" "n \<le> int k" "n \<le> int (TBFT_MAX_MESSAGE_SIZE c)"
  shows "\<exists>i e'. espnow_transport_recv c k e = (n, payload, i, e')"
  using assms by (cases "en_reasm_stale_flag e") (simp_all add: espnow_transport_recv_def reasm_clear_stale_def Let_def)

lemma espnow_receive_fits_witness:
  "\<exists>n data src e'. espnow_transport_recv big_config 2048
      (fold (espnow_step big_config sample_radio) [Recv_cb True 3 [2, 0, 0, 0, 0, 9] (fragment 1 [9, 9] 0)] (sample_espnow big_config)) =
      (n, data, src, e') \<and> n = 2 \<and> data = [9, 9] \<and> msg_fits big_config (put 0 data (replicate 2048 0)) n"
proof -
  let ?op = "Recv_cb True 3 [2, 0, 0, 0, 0, 9] (fragment 1 [9, 9] 0)"
  let ?e = "fold (espnow_step big_config sample_radio) [?op] (sample_espnow big_config)"
  have "num_parts [9, 9] = 1" by (simp add: num_parts_def)
  moreover have "list_all (slot_ok big_config) (replicate 8 (slot_zero big_config))" by (simp add: list_all_length)
  ultimately have q: "en_msg_queue ?e = [([2, 0, 0, 0, 0, 9], 2, [9, 9])]"
    using deliver_rest [of "[9, 9]" big_config 1 "[2, 0, 0, 0, 0, 9]" "{}" "sample_espnow big_config"
        "[(3, fragment 1 [9, 9] 0)]" "[0]" sample_radio]
    by (simp add: deliver_def sample_fields awaiting_def lessThan_Suc)
  have run: "\<not> en_shutting_down ?e" by (simp add: espnow_recv_cb_def recv_frame_def reasm_clear_stale_def sample_fields Let_def split_beta)
  then obtain src e' where r: "espnow_transport_recv big_config 2048 ?e = (2, [9, 9], src, e')"
    using recv_delivers [OF run q, of 2048 big_config] by auto
  from espnow_receive_fits [OF sample_created, of "[?op]" 2 "[9, 9]" src e' "replicate 2048 0"] r
  show ?thesis by simp
qed

end
