(* ===== verification/Udp.thy ===== *)
theory Udp
  imports Transport
begin

text \<open>
  The UDP backend, \<open>src/tbft_transport_udp.c\<close>.  The calls of lwIP and of the netif layer are parameters: a
  call is the record of their results, with one result of \<open>sendto\<close> for every attempt and destination.
  \<open>ud_sent\<close> is a history variable, the datagrams that \<open>sendto\<close> has accepted.
\<close>

section \<open>Sending a datagram\<close>

datatype errno = EAGAIN | EWOULDBLOCK | Other_errno int

record sockaddr =
  sa_ip :: int
  sa_port :: int

text \<open>Up to three attempts; only a full queue is retried.  \<open>r i\<close> is the result of attempt \<open>i\<close>.\<close>

function udp_sendto_retry :: "(nat \<Rightarrow> int \<times> errno) \<Rightarrow> nat \<Rightarrow> int" where
  "udp_sendto_retry r i =
     (if 3 \<le> i then - 1
      else case r i of
             (n, err) \<Rightarrow>
               if 0 \<le> n then n
               else if err \<noteq> EAGAIN \<and> err \<noteq> EWOULDBLOCK then - 1
               else udp_sendto_retry r (Suc i))"
  by pat_completeness auto
termination by (relation "measure (\<lambda>(_, i). 3 - i)") auto

declare udp_sendto_retry.simps [simp del]

section \<open>The socket\<close>

record socket_in =
  si_socket :: int
  si_reuseaddr :: bool
  si_getfl :: bool
  si_setfl :: bool
  si_bind :: bool
  si_inet_pton :: "string \<Rightarrow> int option"
  si_membership :: bool
  si_ttl :: bool

text \<open>The socket, or \<open>-1\<close>, and the multicast address that is stored when the group is joined.  The
  outgoing interface and the loopback option are not essential to the code, which goes on without
  them.\<close>

definition socket_open :: "socket_in \<Rightarrow> int \<Rightarrow> bool \<Rightarrow> string option \<Rightarrow> sockaddr \<Rightarrow> int \<times> sockaddr" where
  "socket_open si port use_multicast mcast_ip mcast_addr =
     (if si_socket si < 0 then (- 1, mcast_addr)
      else if \<not> si_reuseaddr si then (- 1, mcast_addr)
      else if \<not> si_getfl si then (- 1, mcast_addr)
      else if \<not> si_setfl si then (- 1, mcast_addr)
      else if \<not> si_bind si then (- 1, mcast_addr)
      else case mcast_ip of
             None \<Rightarrow> (si_socket si, mcast_addr)
           | Some s \<Rightarrow>
               if \<not> use_multicast then (si_socket si, mcast_addr)
               else case si_inet_pton si s of
                      None \<Rightarrow> (- 1, mcast_addr)
                    | Some ip \<Rightarrow>
                        if \<not> si_membership si then (- 1, mcast_addr)
                        else if \<not> si_ttl si then (- 1, mcast_addr)
                        else (si_socket si, \<lparr> sa_ip = ip, sa_port = port \<rparr>))"

section \<open>State and lifecycle\<close>

record udp =
  ud_sock :: int
  ud_mcast_addr :: sockaddr
  ud_use_multicast :: bool
  ud_peers :: "sockaddr list"
  ud_peer_valid :: "bool list"
  ud_num_nodes :: int
  ud_num_replicas :: int
  ud_local_id :: int
  ud_sent :: "(sockaddr \<times> bytes) list"

definition no_addr :: sockaddr where
  "no_addr = \<lparr> sa_ip = 0, sa_port = 0 \<rparr>"

text \<open>\<open>no_multicast\<close> is the option \<open>CONFIG_TBFT_DISABLE_MULTICAST\<close>.\<close>

definition multicast_wanted :: "bool \<Rightarrow> string option \<Rightarrow> bool" where
  "multicast_wanted no_multicast mcast_ip \<longleftrightarrow>
     \<not> no_multicast \<and> mcast_ip \<noteq> None \<and> mcast_ip \<notin> {Some ''none'', Some ''off'', Some ''0.0.0.0''}"

definition udp_transport_create ::
  "config \<Rightarrow> bool \<Rightarrow> bool \<Rightarrow> socket_in \<Rightarrow> int \<Rightarrow> int \<Rightarrow> string option \<Rightarrow> int \<Rightarrow> udp option" where
  "udp_transport_create c no_multicast alloc_ok si num_nodes num_replicas mcast_ip port =
     (if int (TBFT_MAX_NUM_REPLICAS c + TBFT_MAX_NUM_CLIENTS c) < num_nodes then None
      else if \<not> alloc_ok then None
      else let k = TBFT_MAX_NUM_REPLICAS c + TBFT_MAX_NUM_CLIENTS c; mc = multicast_wanted no_multicast mcast_ip;
               (sock, addr) = socket_open si port mc mcast_ip no_addr
        in if sock < 0 then None
           else Some \<lparr> ud_sock = sock, ud_mcast_addr = addr, ud_use_multicast = mc, ud_peers = replicate k no_addr,
                  ud_peer_valid = replicate k False, ud_num_nodes = num_nodes, ud_num_replicas = num_replicas,
                  ud_local_id = - 1, ud_sent = [] \<rparr>)"

text \<open>What \<open>tbft_transport_free\<close> does: the group to leave, if any, and the socket to close, if any.\<close>

definition udp_transport_free :: "udp \<Rightarrow> int option \<times> int option" where
  "udp_transport_free u =
     (if 0 \<le> ud_sock u
      then (if ud_use_multicast u then Some (sa_ip (ud_mcast_addr u)) else None, Some (ud_sock u))
      else (None, None))"

text \<open>\<open>sta_ip\<close> is the address of the station interface, if it has one.\<close>

definition udp_transport_set_peer :: "config \<Rightarrow> int option \<Rightarrow> int \<Rightarrow> sockaddr \<Rightarrow> udp \<Rightarrow> udp" where
  "udp_transport_set_peer c sta_ip node_id addr u =
     (if node_id < 0 \<or> int (TBFT_MAX_NUM_REPLICAS c + TBFT_MAX_NUM_CLIENTS c) \<le> node_id then u
      else let u = u\<lparr> ud_peers := (ud_peers u)[nat node_id := addr], ud_peer_valid := (ud_peer_valid u)[nat node_id := True] \<rparr>
        in case sta_ip of
             None \<Rightarrow> u
           | Some ip \<Rightarrow> if ip \<noteq> 0 \<and> ip = sa_ip addr then u\<lparr> ud_local_id := node_id \<rparr> else u)"

section \<open>Messages\<close>

definition udp_datagram :: "(nat \<Rightarrow> int \<times> errno) \<Rightarrow> bytes \<Rightarrow> sockaddr \<Rightarrow> udp \<Rightarrow> int \<times> udp" where
  "udp_datagram r buf addr u =
     (let n = udp_sendto_retry r 0 in (n, if 0 \<le> n then u\<lparr> ud_sent := ud_sent u @ [(addr, buf)] \<rparr> else u))"

text \<open>The body of the loop over the replicas; \<open>ok\<close> counts the destinations that took the message.\<close>

definition udp_unicast_one :: "(int \<Rightarrow> nat \<Rightarrow> int \<times> errno) \<Rightarrow> bytes \<Rightarrow> int \<Rightarrow> int \<times> udp \<Rightarrow> int \<times> udp" where
  "udp_unicast_one r buf i st =
     (case st of (ok, u) \<Rightarrow>
        if i = ud_local_id u then (ok, u)
        else if \<not> ud_peer_valid u ! nat i then (ok, u)
        else case udp_datagram (r i) buf (ud_peers u ! nat i) u of (n, u) \<Rightarrow> (if 0 \<le> n then ok + 1 else ok, u))"

definition udp_unicasts :: "(int \<Rightarrow> nat \<Rightarrow> int \<times> errno) \<Rightarrow> bytes \<Rightarrow> int list \<Rightarrow> udp \<Rightarrow> int \<times> udp" where
  "udp_unicasts r buf is u = fold (udp_unicast_one r buf) is (0, u)"

text \<open>\<open>r i\<close> are the attempts for destination \<open>i\<close>; a multicast is the destination \<open>TBFT_ALL_REPLICAS\<close>.\<close>

definition udp_transport_send :: "(int \<Rightarrow> nat \<Rightarrow> int \<times> errno) \<Rightarrow> bytes \<Rightarrow> int \<Rightarrow> udp \<Rightarrow> int \<times> udp" where
  "udp_transport_send r buf dest u =
     (if dest = TBFT_ALL_REPLICAS
      then if ud_use_multicast u then udp_datagram (r dest) buf (ud_mcast_addr u) u
           else let limit = (if 0 < ud_num_replicas u then ud_num_replicas u else ud_num_nodes u)
             in (case udp_unicasts r buf [0 .. limit - 1] u of (ok, u) \<Rightarrow> (if 0 < ok then int (length buf) else - 1, u))
      else if dest < 0 \<or> ud_num_nodes u \<le> dest \<or> \<not> ud_peer_valid u ! nat dest then (- 1, u)
      else udp_datagram (r dest) buf (ud_peers u ! nat dest) u)"

text \<open>The results of \<open>recvfrom\<close>: its return value, the error, the bytes written and the address of the
  sender.\<close>

record recv_in =
  ri_ret :: int
  ri_errno :: errno
  ri_data :: bytes
  ri_from :: sockaddr

definition udp_sender :: "udp \<Rightarrow> sockaddr \<Rightarrow> int" where
  "udp_sender u from =
     (case List.find (\<lambda>i. ud_peer_valid u ! nat i \<and> ud_peers u ! nat i = from) [0 .. ud_num_nodes u - 1] of
        Some i \<Rightarrow> i
      | None \<Rightarrow> - 1)"

text \<open>The last result is the sender that is written, if one is.\<close>

definition udp_transport_recv :: "recv_in \<Rightarrow> udp \<Rightarrow> int \<times> bytes \<times> int option" where
  "udp_transport_recv ri u =
     (if ri_ret ri < 0
      then (if ri_errno ri = EAGAIN \<or> ri_errno ri = EWOULDBLOCK then (0, [], None) else (- 1, [], None))
      else (ri_ret ri, ri_data ri, Some (udp_sender u (ri_from ri))))"

text \<open>Documented behaviour of \<open>recvfrom\<close>: it writes what it returns, and at most the size of the buffer.\<close>

definition recvfrom_ok :: "recv_in \<Rightarrow> nat \<Rightarrow> bool" where
  "recvfrom_ok ri k \<longleftrightarrow> ri_ret ri \<le> int k \<and> nat (ri_ret ri) = length (ri_data ri)"

section \<open>The interface\<close>

datatype udp_op =
    Udp_send "int \<Rightarrow> nat \<Rightarrow> int \<times> errno" bytes int
  | Udp_set_peer "int option" int sockaddr

fun udp_step :: "config \<Rightarrow> udp_op \<Rightarrow> udp \<Rightarrow> udp" where
  "udp_step c (Udp_send r buf dest) u = snd (udp_transport_send r buf dest u)"
| "udp_step c (Udp_set_peer sta_ip i addr) u = udp_transport_set_peer c sta_ip i addr u"

text \<open>The tables have the size of the build, and there are no more nodes than entries.\<close>

definition udp_inv :: "config \<Rightarrow> udp \<Rightarrow> bool" where
  "udp_inv c u \<longleftrightarrow> length (ud_peers u) = TBFT_MAX_NUM_REPLICAS c + TBFT_MAX_NUM_CLIENTS c \<and>
     length (ud_peer_valid u) = TBFT_MAX_NUM_REPLICAS c + TBFT_MAX_NUM_CLIENTS c \<and>
     ud_num_nodes u \<le> int (TBFT_MAX_NUM_REPLICAS c + TBFT_MAX_NUM_CLIENTS c)"

lemma datagram_inv: "udp_inv c u \<Longrightarrow> udp_inv c (snd (udp_datagram r buf addr u))"
  by (simp add: udp_datagram_def udp_inv_def Let_def)

lemma unicasts_inv:
  assumes "udp_inv c u"
  shows "udp_inv c (snd (udp_unicasts r buf is u))"
proof -
  have step: "udp_inv c (snd st) \<Longrightarrow> udp_inv c (snd (udp_unicast_one r buf i st))" for i st
    using datagram_inv [of c "snd st" "r i" buf] by (simp add: udp_unicast_one_def split_beta)
  have "udp_inv c (snd st) \<Longrightarrow> udp_inv c (snd (fold (udp_unicast_one r buf) is st))" for st
    by (induction "is" arbitrary: st) (simp_all add: step)
  then show ?thesis using assms by (simp add: udp_unicasts_def)
qed

lemma udp_step_inv: "udp_inv c u \<Longrightarrow> udp_inv c (udp_step c op u)"
proof (induction c op u rule: udp_step.induct)
  case (1 c r buf dest u)
  then show ?case using datagram_inv [OF 1] unicasts_inv [OF 1]
    by (simp add: udp_transport_send_def Let_def split_beta)
next
  case (2 c sta_ip i addr u)
  then show ?case by (simp add: udp_transport_set_peer_def udp_inv_def Let_def split: option.split)
qed

interpretation ud: transport "udp_inv c" recvfrom_ok
  "\<lambda>ri _ u. case udp_transport_recv ri u of (n, data, _) \<Rightarrow> (n, data, u)" "udp_step c" for c
  by unfold_locales (auto simp: udp_step_inv udp_transport_recv_def recvfrom_ok_def split: if_splits)

lemma udp_create_inv:
  "udp_transport_create c nm al si nn nr ip port = Some u \<Longrightarrow> udp_inv c u"
  by (auto simp: udp_transport_create_def udp_inv_def Let_def split: if_splits prod.splits)

text \<open>What the UDP backend receives fits the message buffer, after any use of the transport.\<close>

lemma udp_receive_fits:
  assumes "udp_transport_create c nm al si nn nr ip port = Some u" "recvfrom_ok ri (TBFT_MAX_MESSAGE_SIZE c)"
    and "udp_transport_recv ri (fold (udp_step c) ops u) = (n, data, src)"
  shows "msg_fits c (put 0 data buf) n"
proof (rule ud.recv_after_events [OF udp_create_inv [OF assms(1)] assms(2)])
  show "(case udp_transport_recv ri (fold (udp_step c) ops u) of (n, data, _) \<Rightarrow> (n, data, fold (udp_step c) ops u)) =
      (n, data, fold (udp_step c) ops u)"
    using assms(3) by simp
qed

section \<open>Broadcast\<close>

text \<open>The destinations of a broadcast without multicast.\<close>

definition udp_targets :: "udp \<Rightarrow> int list" where
  "udp_targets u = filter (\<lambda>i. i \<noteq> ud_local_id u \<and> ud_peer_valid u ! nat i)
     [0 .. (if 0 < ud_num_replicas u then ud_num_replicas u else ud_num_nodes u) - 1]"

lemma unicasts_sent:
  "udp_unicasts r buf is u = (int (length (filter (\<lambda>i. 0 \<le> udp_sendto_retry (r i) 0) (filter (\<lambda>i. i \<noteq> ud_local_id u \<and> ud_peer_valid u ! nat i) is))),
     u\<lparr> ud_sent := ud_sent u @ map (\<lambda>i. (ud_peers u ! nat i, buf))
       (filter (\<lambda>i. 0 \<le> udp_sendto_retry (r i) 0) (filter (\<lambda>i. i \<noteq> ud_local_id u \<and> ud_peer_valid u ! nat i) is)) \<rparr>)"
proof -
  let ?sel = "\<lambda>is. filter (\<lambda>i. 0 \<le> udp_sendto_retry (r i) 0) (filter (\<lambda>i. i \<noteq> ud_local_id u \<and> ud_peer_valid u ! nat i) is)"
  have "fold (udp_unicast_one r buf) is (k, u\<lparr> ud_sent := s \<rparr>) = (k + int (length (?sel is)),
      u\<lparr> ud_sent := s @ map (\<lambda>i. (ud_peers u ! nat i, buf)) (?sel is) \<rparr>)" for k s
    by (induction "is" arbitrary: k s) (simp_all add: udp_unicast_one_def udp_datagram_def Let_def)
  from this [of 0 "ud_sent u"] show ?thesis by (simp add: udp_unicasts_def)
qed

text \<open>A broadcast without multicast reaches every registered replica but the sender, except those whose
  three attempts fail; it reports success exactly if one was reached.\<close>

lemma udp_broadcast_reaches:
  assumes "\<not> ud_use_multicast u" "udp_transport_send r buf TBFT_ALL_REPLICAS u = (n, u')" "\<forall>i. 0 \<le> udp_sendto_retry (r i) 0"
  shows "ud_sent u' = ud_sent u @ map (\<lambda>i. (ud_peers u ! nat i, buf)) (udp_targets u) \<and> (n = - 1 \<longleftrightarrow> udp_targets u = [])"
  using assms by (auto simp: udp_transport_send_def unicasts_sent udp_targets_def Let_def split: if_splits)

text \<open>A transient failure of the queue is retried: three results decide.\<close>

lemma udp_retry_third:
  assumes "fst (r 0) < 0" "snd (r 0) \<in> {EAGAIN, EWOULDBLOCK}" "fst (r 1) < 0" "snd (r 1) \<in> {EAGAIN, EWOULDBLOCK}" "0 \<le> fst (r 2)"
  shows "udp_sendto_retry r 0 = fst (r 2)"
  using assms by (auto simp: udp_sendto_retry.simps [of r 0] udp_sendto_retry.simps [of r "Suc 0"]
      udp_sendto_retry.simps [of r "Suc (Suc 0)"] numeral_2_eq_2 split: prod.splits)

end
