(* ===== verification/Spec2Isabelle.thy ===== *)
theory Spec2Isabelle
  imports State_Examples Example_Tasks Espnow_Frag Udp
begin

text \<open>
  Verification development for esp-tinybft, a PBFT state-machine replication library for
  microcontrollers (\<open>src/\<close>, public interface \<open>include/esp-tinybft.h\<close>).

  \<^bold>\<open>The program.\<close>  A group of \<open>3f + 1\<close> replicas orders the signed requests of clients and executes them in
  the same order, while at most \<open>f\<close> replicas are faulty in any way.  All memory of the protocol is static:
  a ring buffer of \<open>TBFT_WINDOW_SIZE\<close> agreement slices (pre-prepare, prepare and commit certificate of a
  sequence number), slots for the checkpoint messages of a few checkpoints, and slots for view-changes,
  requests and cached replies.  The event loop \<open>tbft_replica_run\<close> receives a datagram, dispatches it to its
  handler by the tag of the message, runs the timers, executes what is committed, and takes a checkpoint
  every \<open>TBFT_CHECKPOINT_INTERVAL\<close> sequence numbers.  A client signs a request, broadcasts it, and waits for
  \<open>f + 1\<close> matching signed replies.  Between the node layer and the radio is a transport, one of two
  backends chosen at build time: UDP sockets, or ESP-NOW frames with fragmentation and reassembly.

  \<^bold>\<open>Theories and the code they model.\<close>
  \<^item> \<open>Prelude\<close>: byte buffers, C integers of a fixed width, lemmas on lists.  \<open>Quorum\<close>, \<open>Window\<close>, and the locales
    in \<open>Special_Region\<close>, \<open>RQueue\<close> and \<open>Transport\<close>: the interfaces that components rely on.
  \<^item> \<open>Config\<close> (\<open>tbft_config.h\<close>), \<open>Types\<close> (\<open>tbft_types.h\<close>), \<open>Message\<close> (\<open>tbft_message.h\<close>, \<open>.c\<close>): build parameters,
    scalar types and the sender bitmap, the packed structs of the wire format as accessors on bytes.
  \<^item> \<open>Certificate\<close> (\<open>tbft_certificate.h\<close>, \<open>.c\<close>), \<open>Prepared_Cert\<close> (\<open>tbft_prepared_cert\<close>), \<open>Agreement_Region\<close>
    (\<open>tbft_agreement_region\<close>), \<open>Checkpoint_Region\<close> (\<open>tbft_checkpoint_region\<close>), \<open>Special_Region\<close>
    (\<open>tbft_special_region\<close>), \<open>View_Info\<close> (\<open>tbft_view_info\<close>): the static regions, one record per struct and one
    definition per function.
  \<^item> \<open>Partition\<close> (\<open>tbft_partition\<close>), \<open>App_State\<close> and \<open>State_Fetch\<close> (\<open>tbft_state\<close>): the Merkle tree, checkpoints
    with copy-on-write snapshots, rollback, and the fetch protocol; \<open>State_Examples\<close> holds concrete runs.
  \<^item> \<open>Itimer\<close> (\<open>tbft_itimer\<close>), \<open>Principal\<close> (\<open>tbft_principal\<close>), \<open>Node\<close> (\<open>tbft_node\<close>), \<open>RQueue\<close> (the request
    queues of \<open>tbft_replica.c\<close>).
  \<^item> \<open>Replica\<close>, \<open>Replica_Normal\<close>, \<open>Replica_Fetch\<close>, \<open>Replica_View\<close>, \<open>Replica_Run\<close> (\<open>tbft_replica.h\<close>, \<open>.c\<close>): the
    state, the builders and execution; the handlers of the normal case; status and state transfer; keys and
    view changes; initialisation and the event loop.
  \<^item> \<open>Config_File\<close> and \<open>Libbyz\<close> (\<open>tbft_libbyz.c\<close>): the parser of the configuration file; the setup of the
    principals, the client, and the entry points of a replica.
  \<^item> \<open>Transport\<close> (\<open>tbft_transport.h\<close>), \<open>Espnow\<close>, \<open>Espnow_Inv\<close>, \<open>Espnow_Frag\<close> (\<open>tbft_transport_espnow.c\<close>), \<open>Udp\<close>
    (\<open>tbft_transport_udp.c\<close>): the two backends.
  \<^item> \<open>Applications\<close> and \<open>Example_Tasks\<close> (\<open>examples/simple_wallet\<close>, \<open>examples/counter\<close>): the execution callbacks, the
    contract of an application (locale \<open>announced_app\<close>), and the tasks of the replicas and clients.
  \<^item> \<open>Replica_Inv\<close>, \<open>Replica_Order\<close>, \<open>Replica_WF\<close>, \<open>Replica_Votes\<close>, \<open>Replica_Agree\<close>, \<open>Client\<close>, \<open>Client_Stop\<close>, \<open>Request_Path\<close>:
    proofs about runs of the event loop, of the client, and of the two together.

  \<^bold>\<open>How it is modelled.\<close>  A C function is a function on the record of its state, guards in the order of the
  code, early returns as branches, errors as \<open>None\<close>, a flag or the negative code.  An \<open>int\<close> of C is an integer
  with its conversions written out (\<open>i16\<close>, \<open>i32\<close>); bitmaps, request identifiers, ticks and bytes are words.
  Sequence numbers and views are \<open>int64_t\<close> whose overflow is undefined: they are integers.  A message is the
  content of its buffer from the pointer on, with the length received; reading past the end of the list
  gives zeros, which the lemmas exclude by the length tests of the code.  PSA Crypto, the mbedtls parser,
  \<open>esp_timer\<close>, lwIP, the radio, FreeRTOS queues, the file system and the application callback are parameters:
  records of functions or of the results of the calls.  What is assumed of them is their documented
  behaviour and stands in the statements: a signature made with a key verifies (\<open>Principal\<close>), a MAC is a
  function of key and data (\<open>Node\<close>), a hash is total and collision free on the data at hand
  (\<open>no_collision\<close>), \<open>recvfrom\<close> returns at most the size of its buffer (\<open>recvfrom_ok\<close>).  Nothing is assumed of
  the network: datagrams and frames have any content, order and sender.  One handler call sees one reading
  of the clock.  History variables (\<open>r_trace\<close>, \<open>by_sent\<close>, \<open>en_air\<close>, \<open>ud_sent\<close>) record calls that leave the
  program; the code never reads them.

  \<^bold>\<open>Loops and bounds.\<close>  Every loop is a total function: structural recursion over its input, or a measure (the
  sequence numbers up to \<open>r_last_prepared\<close> for execution, the bytes that remain for fragmentation, the
  attempts that remain for retries, the levels of the tree).  The endless loops, the event loop and the send
  task, are folds of their body over a finite list of rounds of any length, so a statement about a run is a
  statement about every prefix of an infinite one.  A waiting client reads a list of receives; an
  exhausted list is silence until the deadline, after which the code returns.

  \<^bold>\<open>What the lemmas show.\<close>
  \<^item> Certificates: at most one vote of a sender counts, a complete certificate has a quorum behind its digest,
    and two of them agree (locale \<open>quorum_cert\<close>, interpreted on the three certificate implementations);
    enough matching votes always complete one.
  \<^item> Agreement region: the ring buffer refines a map from sequence numbers to slices (locale \<open>window_log\<close>),
    under truncation by any distance.
  \<^item> Special region and queues: the caches return the last stored message, the queues are bounded first-in
    first-out lists (locales \<open>msg_cache\<close>, \<open>fifo\<close>).
  \<^item> State: the root digest of a checkpoint determines the memory, rollback restores the stable memory, the
    data phase of a fetch ends with the blocks of the replier.
  \<^item> Replica (\<open>Replica_Inv\<close>, \<open>Replica_Order\<close>, \<open>Replica_WF\<close>): in every run of the event loop the representation
    invariants hold, the markers only grow, executions are in order, and each of them is backed by a quorum
    of authenticated commits that the run received; what is committed is executed.
  \<^item> Agreement (\<open>Replica_Votes\<close>, \<open>Replica_Agree\<close>): a replica sends Commits for one digest only at a sequence number;
    if all but \<open>f\<close> replicas run this code, no two of these execute different requests at one sequence number,
    whatever the others send.  Both hold for runs in which no message moves the view.  A view change resets the
    window, and a single pre-prepare or Status of a higher view makes a replica adopt it, so nothing of
    what was voted before limits what is voted after.  The hypotheses: a Commit accepted in the name of a
    replica that runs the code was sent by it, the callback keeps its reply within the buffer, and the window
    stays below \<open>2 ^ 63\<close>.
  \<^item> Client (\<open>Client\<close>, \<open>Client_Stop\<close>, \<open>Request_Path\<close>): the reply returned was vouched for by \<open>f + 1\<close> replicas; the
    client returns on every endless input of the network as soon as the clock runs; the request it sends
    passes the checks of the primary and, embedded in a pre-prepare, those of the backups.
  \<^item> Applications: the wallet and the counter announce what they write, so that a rollback restores the stable
    memory; no balance of the wallet becomes negative, and no money is created or lost.
  \<^item> Configuration file: printing and parsing round trip, and what is accepted is within the build's bounds.
  \<^item> Transports (locale \<open>transport\<close>): what is received fits the message buffer after any use; the fragments of
    a message make the receiver deliver exactly that message.

  The properties of the error kind state where the code does not do what it means to: the tests of a
  new-view that a multiplication overflows, the prepare of the primary that is counted, the digests that
  depend on the time of stability, the rollback after a second checkpoint, the fetch that one forged block
  ends, and the wait for frames in flight that never succeeds.

  \<^bold>\<open>Not modelled.\<close>  Logging (\<open>tbft_log.h\<close>, \<open>Byz_print_stats\<close>) and delays, which do not change the state; the task
  watchdog; the registration of peers with the radio driver and the join of the send task at shutdown; the
  interleavings inside a handler (a callback of the radio runs between two steps, or while the send task
  waits for a credit); the overflow of \<open>%d\<close> conversions, undefined in C; of the examples, the bring-up of
  WiFi, flash and tasks (\<open>wifi_init\<close>, \<open>app_main\<close>).
\<close>

end
